(* ===== verification/Mach_Prelude.thy ===== *)
theory Mach_Prelude
  imports Main "HOL-Library.Word" "HOL-Library.Monad_Syntax"
begin

text \<open>
  Shared base of the development: the machine types of the C sources, the
  return codes, the failure monad in which every kernel routine is written, and
  the generic facts about lists and 32-bit words that the component theories use.

  A routine of the kernel is a function into \<open>'a option\<close>. \<open>Some r\<close> is a normal
  return; \<open>None\<close> stands for everything after which the C function does not
  return to its caller: a call of \<open>panic\<close>, a load or store through a pointer
  that denotes no live object, and a loop that never ends. A theorem of the
  form \<open>\<exists>r. f x = Some r\<close> therefore says that the routine neither panics, nor
  touches freed memory, nor hangs.

  Counters and bit fields keep their C width (\<open>natural_t\<close> is 32 bits wide, so
  \<open>+\<close> and \<open>-\<close> wrap). Indices into tables are natural numbers: they are bounded
  by the table size and every loop over them tests that bound. Spin locks are
  not modelled: a routine of the model is one critical section.
\<close>

unbundle bit_operations_syntax

type_synonym natural_t = "32 word"
type_synonym integer_t = "32 word"
type_synonym addr = "64 word"

datatype kern_return =
    KERN_SUCCESS
  | KERN_NO_SPACE
  | KERN_INVALID_ARGUMENT
  | KERN_FAILURE
  | KERN_RESOURCE_SHORTAGE
  | KERN_NOT_RECEIVER
  | KERN_NAME_EXISTS
  | KERN_INVALID_NAME
  | KERN_INVALID_TASK
  | KERN_INVALID_RIGHT
  | KERN_INVALID_VALUE
  | KERN_UREFS_OVERFLOW
  | KERN_INVALID_CAPABILITY
  | KERN_RIGHT_EXISTS
  | KERN_NOT_IN_SET
  | KERN_NOT_SUPPORTED

named_theorems ie_bits \<open>bit-field facts about the words kept in capability entries\<close>
named_theorems table_simps \<open>how the table routines act on single entries\<close>
named_theorems heap_simps \<open>how the port routines act on the heap\<close>

subsection \<open>The failure monad\<close>

lemma bind_SomeD:
  "Option.bind m f = Some y \<Longrightarrow> \<exists>x. m = Some x \<and> f x = Some y"
  by (cases m) auto

lemma bind_SomeE:
  assumes "Option.bind m f = Some y"
  obtains x where "m = Some x" and "f x = Some y"
  using assms by (cases m) auto

subsection \<open>Lists\<close>

lemma nth_update_same [simp]: "i < length xs \<Longrightarrow> xs[i := x] ! i = x"
  by simp

lemma count_filter_update:
  assumes "i < length xs"
  shows "length (filter P (xs[i := x])) + (if P (xs ! i) then 1 else 0)
       = length (filter P xs) + (if P x then 1 else 0)"
  using assms
proof (induction xs arbitrary: i)
  case Nil
  then show ?case by simp
next
  case (Cons y ys)
  then show ?case by (cases i) auto
qed

subsection \<open>Words split at bit 16\<close>

text \<open>
  A user-reference count occupies the low 16 bits of an entry's bits, and the C
  code changes it by plain addition on the whole word. As long as the low half
  neither overflows nor underflows, the addition touches the low half only.
\<close>

lemma and_low16: "(b :: natural_t) AND 0xffff = take_bit 16 b"
  by (simp add: take_bit_eq_mask mask_numeral)

lemma unat_and_low16: "unat ((b :: natural_t) AND 0xffff) = unat b mod 65536"
  by (simp add: and_low16 unsigned_take_bit_eq take_bit_eq_mod [of 16 "unat b"])

lemma unat_low16_less: "unat ((b :: natural_t) AND 0xffff) < 65536"
  by (simp add: unat_and_low16)

lemma low16_idem:
  assumes "unat (r :: natural_t) < 65536"
  shows "r AND 0xffff = r"
  using assms by (simp add: word_unat_eq_iff unat_and_low16)

lemma high16_low16_disjoint:
  "((b :: natural_t) AND 0xffff0000) AND (r AND 0xffff) = 0"
  by (simp add: and.assoc and.left_commute [of "0xffff0000"])

lemma split16: "(b :: natural_t) = (b AND 0xffff0000) OR (b AND 0xffff)"
proof -
  have ones: "(0xffffffff :: natural_t) = - 1" by simp
  have "(b AND 0xffff0000) OR (b AND 0xffff) = b AND 0xffffffff"
    by (simp flip: bit.conj_disj_distrib)
  then show ?thesis unfolding ones by simp
qed

lemma split16_add: "(b :: natural_t) = (b AND 0xffff0000) + (b AND 0xffff)"
proof -
  have "(b AND 0xffff0000) AND (b AND 0xffff) = 0"
    by (rule high16_low16_disjoint)
  then have "(b AND 0xffff0000) + (b AND 0xffff) = (b AND 0xffff0000) OR (b AND 0xffff)"
    by (rule disjunctive_add_eq_or)
  with split16 show ?thesis by simp
qed

text \<open>Adding \<open>d\<close> to the whole word is adding it to the low half, if that stays in range.\<close>

lemma add_low16:
  assumes "unat (((b :: natural_t) AND 0xffff) + d) < 65536"
  shows "b + d = (b AND 0xffff0000) OR ((b AND 0xffff) + d)"
proof -
  let ?r = "(b AND 0xffff) + d"
  have r: "?r AND 0xffff = ?r"
    using assms by (rule low16_idem)
  have "(b AND 0xffff0000) AND ?r = 0"
    using high16_low16_disjoint [of b ?r] r by simp
  then have "(b AND 0xffff0000) + ?r = (b AND 0xffff0000) OR ?r"
    by (rule disjunctive_add_eq_or)
  moreover have "b + d = (b AND 0xffff0000) + ?r"
    by (subst split16_add [of b]) (simp add: add.assoc)
  ultimately show ?thesis by simp
qed

end
