(* ===== verification/Port_Names.thy ===== *)
theory Port_Names
  imports Mach_Prelude
begin

text \<open>
  Port names and the bit fields of capability entries: the macros of
  \<open>osfmk/mach/port.h\<close>, \<open>osfmk/ipc/port.h\<close>, \<open>osfmk/ipc/ipc_entry.h\<close> and
  \<open>osfmk/ipc/ipc_object.h\<close>, under their C names, in the configuration with
  generation numbers (\<open>NO_PORT_GEN\<close> undefined).

  The lemmas give the name/(index, generation) round trip, the behaviour of the
  user-reference overflow and underflow tests, and how each bit operation of the
  C code acts on the three fields of \<open>ie_bits\<close>.
\<close>

type_synonym mach_port_name_t = natural_t
type_synonym mach_port_right_t = natural_t
type_synonym mach_port_type_t = natural_t
type_synonym mach_port_delta_t = integer_t
type_synonym mach_port_index_t = nat
type_synonym ipc_entry_bits_t = natural_t

subsection \<open>Names\<close>

definition MACH_PORT_NULL :: mach_port_name_t where
  "MACH_PORT_NULL = 0"

definition MACH_PORT_DEAD :: mach_port_name_t where
  "MACH_PORT_DEAD = NOT 0"

definition MACH_PORT_VALID :: "mach_port_name_t \<Rightarrow> bool" where
  "MACH_PORT_VALID name \<longleftrightarrow> name \<noteq> MACH_PORT_NULL \<and> name \<noteq> MACH_PORT_DEAD"

definition MACH_PORT_INDEX :: "mach_port_name_t \<Rightarrow> mach_port_index_t" where
  "MACH_PORT_INDEX name = unat (drop_bit 8 name)"

definition MACH_PORT_GEN :: "mach_port_name_t \<Rightarrow> natural_t" where
  "MACH_PORT_GEN name = push_bit 24 (name AND 0xff)"

definition MACH_PORT_MAKE :: "mach_port_index_t \<Rightarrow> natural_t \<Rightarrow> mach_port_name_t" where
  "MACH_PORT_MAKE index gen = (push_bit 8 (of_nat index)) OR drop_bit 24 gen"

subsection \<open>Rights and right types\<close>

abbreviation (input) MACH_PORT_RIGHT_SEND :: mach_port_right_t where
  "MACH_PORT_RIGHT_SEND \<equiv> 0"

abbreviation (input) MACH_PORT_RIGHT_RECEIVE :: mach_port_right_t where
  "MACH_PORT_RIGHT_RECEIVE \<equiv> 1"

abbreviation (input) MACH_PORT_RIGHT_SEND_ONCE :: mach_port_right_t where
  "MACH_PORT_RIGHT_SEND_ONCE \<equiv> 2"

abbreviation (input) MACH_PORT_RIGHT_PORT_SET :: mach_port_right_t where
  "MACH_PORT_RIGHT_PORT_SET \<equiv> 3"

abbreviation (input) MACH_PORT_RIGHT_DEAD_NAME :: mach_port_right_t where
  "MACH_PORT_RIGHT_DEAD_NAME \<equiv> 4"

abbreviation (input) MACH_PORT_RIGHT_NUMBER :: mach_port_right_t where
  "MACH_PORT_RIGHT_NUMBER \<equiv> 6"

definition MACH_PORT_TYPE :: "mach_port_right_t \<Rightarrow> mach_port_type_t" where
  "MACH_PORT_TYPE right = push_bit (unat (right + 16)) 1"

text \<open>
  The values of \<open>MACH_PORT_TYPE\<close> at the rights above, as the literals they
  evaluate to; \<open>port_type_values\<close> below checks each of them.
\<close>

abbreviation (input) MACH_PORT_TYPE_NONE :: mach_port_type_t where
  "MACH_PORT_TYPE_NONE \<equiv> 0"

abbreviation (input) MACH_PORT_TYPE_SEND :: mach_port_type_t where
  "MACH_PORT_TYPE_SEND \<equiv> 0x10000"

abbreviation (input) MACH_PORT_TYPE_RECEIVE :: mach_port_type_t where
  "MACH_PORT_TYPE_RECEIVE \<equiv> 0x20000"

abbreviation (input) MACH_PORT_TYPE_SEND_ONCE :: mach_port_type_t where
  "MACH_PORT_TYPE_SEND_ONCE \<equiv> 0x40000"

abbreviation (input) MACH_PORT_TYPE_PORT_SET :: mach_port_type_t where
  "MACH_PORT_TYPE_PORT_SET \<equiv> 0x80000"

abbreviation (input) MACH_PORT_TYPE_DEAD_NAME :: mach_port_type_t where
  "MACH_PORT_TYPE_DEAD_NAME \<equiv> 0x100000"

abbreviation (input) MACH_PORT_TYPE_SEND_RECEIVE :: mach_port_type_t where
  "MACH_PORT_TYPE_SEND_RECEIVE \<equiv> 0x30000"

abbreviation (input) MACH_PORT_TYPE_SEND_RIGHTS :: mach_port_type_t where
  "MACH_PORT_TYPE_SEND_RIGHTS \<equiv> 0x50000"

abbreviation (input) MACH_PORT_TYPE_PORT_RIGHTS :: mach_port_type_t where
  "MACH_PORT_TYPE_PORT_RIGHTS \<equiv> 0x70000"

abbreviation (input) MACH_PORT_TYPE_PORT_OR_DEAD :: mach_port_type_t where
  "MACH_PORT_TYPE_PORT_OR_DEAD \<equiv> 0x170000"

abbreviation (input) MACH_PORT_TYPE_ALL_RIGHTS :: mach_port_type_t where
  "MACH_PORT_TYPE_ALL_RIGHTS \<equiv> 0x1f0000"

abbreviation (input) MACH_PORT_TYPE_DNREQUEST :: mach_port_type_t where
  "MACH_PORT_TYPE_DNREQUEST \<equiv> 0x80000000"

abbreviation (input) MACH_PORT_TYPE_SPREQUEST :: mach_port_type_t where
  "MACH_PORT_TYPE_SPREQUEST \<equiv> 0x40000000"

abbreviation (input) MACH_PORT_TYPE_SPREQUEST_DELAYED :: mach_port_type_t where
  "MACH_PORT_TYPE_SPREQUEST_DELAYED \<equiv> 0x20000000"

text \<open>Dispositions of a port right in a message (\<open>osfmk/mach/message.h\<close>).\<close>

datatype mach_msg_type_name =
    MACH_MSG_TYPE_MOVE_RECEIVE
  | MACH_MSG_TYPE_MOVE_SEND
  | MACH_MSG_TYPE_MOVE_SEND_ONCE
  | MACH_MSG_TYPE_COPY_SEND
  | MACH_MSG_TYPE_MAKE_SEND
  | MACH_MSG_TYPE_MAKE_SEND_ONCE
  | MACH_MSG_TYPE_COPY_RECEIVE
  | MACH_MSG_TYPE_DISPOSE_RECEIVE
  | MACH_MSG_TYPE_DISPOSE_SEND
  | MACH_MSG_TYPE_DISPOSE_SEND_ONCE
  | MACH_MSG_TYPE_PORT_NONE

abbreviation (input) MACH_MSG_TYPE_PORT_RECEIVE :: mach_msg_type_name where
  "MACH_MSG_TYPE_PORT_RECEIVE \<equiv> MACH_MSG_TYPE_MOVE_RECEIVE"

abbreviation (input) MACH_MSG_TYPE_PORT_SEND :: mach_msg_type_name where
  "MACH_MSG_TYPE_PORT_SEND \<equiv> MACH_MSG_TYPE_MOVE_SEND"

abbreviation (input) MACH_MSG_TYPE_PORT_SEND_ONCE :: mach_msg_type_name where
  "MACH_MSG_TYPE_PORT_SEND_ONCE \<equiv> MACH_MSG_TYPE_MOVE_SEND_ONCE"

subsection \<open>User references\<close>

abbreviation (input) MACH_PORT_UREFS_MAX :: natural_t where
  "MACH_PORT_UREFS_MAX \<equiv> 0xffff"

definition MACH_PORT_UREFS_OVERFLOW :: "natural_t \<Rightarrow> mach_port_delta_t \<Rightarrow> bool" where
  "MACH_PORT_UREFS_OVERFLOW urefs delta \<longleftrightarrow>
     sint delta > 0 \<and> (urefs + delta \<le> urefs \<or> urefs + delta > MACH_PORT_UREFS_MAX)"

definition MACH_PORT_UREFS_UNDERFLOW :: "natural_t \<Rightarrow> mach_port_delta_t \<Rightarrow> bool" where
  "MACH_PORT_UREFS_UNDERFLOW urefs delta \<longleftrightarrow> sint delta < 0 \<and> - delta > urefs"

subsection \<open>Entry bits\<close>

abbreviation (input) IE_BITS_UREFS_MASK :: ipc_entry_bits_t where
  "IE_BITS_UREFS_MASK \<equiv> 0x0000ffff"

abbreviation (input) IE_BITS_TYPE_MASK :: ipc_entry_bits_t where
  "IE_BITS_TYPE_MASK \<equiv> 0x001f0000"

abbreviation (input) IE_BITS_GEN_MASK :: ipc_entry_bits_t where
  "IE_BITS_GEN_MASK \<equiv> 0xff000000"

abbreviation (input) IE_BITS_GEN_ONE :: ipc_entry_bits_t where
  "IE_BITS_GEN_ONE \<equiv> 0x04000000"

abbreviation (input) IE_BITS_RIGHT_MASK :: ipc_entry_bits_t where
  "IE_BITS_RIGHT_MASK \<equiv> 0x007fffff"

abbreviation (input) IE_REQ_NONE :: nat where
  "IE_REQ_NONE \<equiv> 0"

definition IE_BITS_UREFS :: "ipc_entry_bits_t \<Rightarrow> natural_t" where
  "IE_BITS_UREFS bits = bits AND IE_BITS_UREFS_MASK"

definition IE_BITS_TYPE :: "ipc_entry_bits_t \<Rightarrow> mach_port_type_t" where
  "IE_BITS_TYPE bits = bits AND IE_BITS_TYPE_MASK"

definition IE_BITS_GEN :: "ipc_entry_bits_t \<Rightarrow> natural_t" where
  "IE_BITS_GEN bits = bits AND IE_BITS_GEN_MASK"

definition IE_BITS_NEW_GEN :: "ipc_entry_bits_t \<Rightarrow> natural_t" where
  "IE_BITS_NEW_GEN old = (old + IE_BITS_GEN_ONE) AND IE_BITS_GEN_MASK"

subsection \<open>Object pointers and object bits\<close>

definition IO_NULL :: addr where
  "IO_NULL = 0"

definition IO_DEAD :: addr where
  "IO_DEAD = NOT 0"

definition IO_VALID :: "addr \<Rightarrow> bool" where
  "IO_VALID io \<longleftrightarrow> io \<noteq> IO_NULL \<and> io \<noteq> IO_DEAD"

abbreviation (input) IP_NULL :: addr where
  "IP_NULL \<equiv> IO_NULL"

abbreviation (input) IP_DEAD :: addr where
  "IP_DEAD \<equiv> IO_DEAD"

abbreviation (input) IP_VALID :: "addr \<Rightarrow> bool" where
  "IP_VALID port \<equiv> IO_VALID port"

abbreviation (input) IO_BITS_KOTYPE :: natural_t where
  "IO_BITS_KOTYPE \<equiv> 0x00000fff"

abbreviation (input) IO_BITS_OTYPE :: natural_t where
  "IO_BITS_OTYPE \<equiv> 0x7fff0000"

abbreviation (input) IO_BITS_ACTIVE :: natural_t where
  "IO_BITS_ACTIVE \<equiv> 0x80000000"

abbreviation (input) IOT_PORT :: natural_t where
  "IOT_PORT \<equiv> 0"

abbreviation (input) IOT_PORT_SET :: natural_t where
  "IOT_PORT_SET \<equiv> 1"

definition io_makebits :: "bool \<Rightarrow> natural_t \<Rightarrow> natural_t \<Rightarrow> natural_t" where
  "io_makebits active otype kotype =
     (if active then IO_BITS_ACTIVE else 0) OR push_bit 16 otype OR kotype"

lemma port_type_values:
  "MACH_PORT_TYPE MACH_PORT_RIGHT_SEND = MACH_PORT_TYPE_SEND"
  "MACH_PORT_TYPE MACH_PORT_RIGHT_RECEIVE = MACH_PORT_TYPE_RECEIVE"
  "MACH_PORT_TYPE MACH_PORT_RIGHT_SEND_ONCE = MACH_PORT_TYPE_SEND_ONCE"
  "MACH_PORT_TYPE MACH_PORT_RIGHT_PORT_SET = MACH_PORT_TYPE_PORT_SET"
  "MACH_PORT_TYPE MACH_PORT_RIGHT_DEAD_NAME = MACH_PORT_TYPE_DEAD_NAME"
  by (simp_all add: MACH_PORT_TYPE_def push_bit_eq_mult)

subsection \<open>Names: round trips\<close>

lemma mask8_value: "(0xff :: natural_t) = mask 8"
  by (simp add: mask_numeral)

lemma gen_mask_value: "(0xff000000 :: natural_t) = push_bit 24 (mask 8)"
  by (simp add: mask_numeral push_bit_eq_mult)

lemma drop8_MACH_PORT_MAKE:
  "drop_bit 8 (MACH_PORT_MAKE index gen) = take_bit 24 (of_nat index)"
  unfolding MACH_PORT_MAKE_def
  by (rule bit_word_eqI) (auto simp: bit_simps dest: bit_imp_le_length)

lemma MACH_PORT_GEN_MAKE [simp]:
  "MACH_PORT_GEN (MACH_PORT_MAKE index gen) = IE_BITS_GEN gen"
  unfolding MACH_PORT_MAKE_def MACH_PORT_GEN_def IE_BITS_GEN_def mask8_value gen_mask_value
  by (rule bit_word_eqI) (auto simp: bit_simps)

lemma MACH_PORT_INDEX_MAKE [simp]:
  "index < 2 ^ 24 \<Longrightarrow> MACH_PORT_INDEX (MACH_PORT_MAKE index gen) = index"
  unfolding MACH_PORT_INDEX_def drop8_MACH_PORT_MAKE
  by (simp add: unsigned_take_bit_eq take_bit_nat_eq_self unat_of_nat)

lemma MACH_PORT_MAKE_INDEX_GEN [simp]:
  "MACH_PORT_MAKE (MACH_PORT_INDEX name) (MACH_PORT_GEN name) = name"
proof (rule bit_word_eqI)
  fix n
  assume "n < LENGTH(32)"
  then show "bit (MACH_PORT_MAKE (MACH_PORT_INDEX name) (MACH_PORT_GEN name)) n = bit name n"
    unfolding MACH_PORT_MAKE_def MACH_PORT_GEN_def MACH_PORT_INDEX_def mask8_value
    by (cases "n < 8") (auto simp: bit_simps)
qed

lemma MACH_PORT_INDEX_less: "MACH_PORT_INDEX name < 2 ^ 24"
proof -
  have "unat name < 2 ^ 24 * 2 ^ 8"
    using unsigned_less [of name] by simp
  moreover have "unat (drop_bit 8 name) = unat name div 2 ^ 8"
    by (subst unat_drop_bit_eq) (rule drop_bit_eq_div)
  ultimately show ?thesis
    unfolding MACH_PORT_INDEX_def by (simp add: less_mult_imp_div_less)
qed

lemma MACH_PORT_GEN_idem [simp]: "IE_BITS_GEN (MACH_PORT_GEN name) = MACH_PORT_GEN name"
  unfolding MACH_PORT_GEN_def IE_BITS_GEN_def mask8_value gen_mask_value
  by (rule bit_word_eqI) (auto simp: bit_simps)

lemma name_eq_iff:
  "name = name' \<longleftrightarrow> MACH_PORT_INDEX name = MACH_PORT_INDEX name' \<and> MACH_PORT_GEN name = MACH_PORT_GEN name'"
  by (metis MACH_PORT_MAKE_INDEX_GEN)

lemma MACH_PORT_DEAD_index: "MACH_PORT_INDEX MACH_PORT_DEAD = 2 ^ 24 - 1"
  by (simp add: MACH_PORT_INDEX_def MACH_PORT_DEAD_def drop_bit_eq_div)

lemma MACH_PORT_NULL_index: "MACH_PORT_INDEX MACH_PORT_NULL = 0"
  by (simp add: MACH_PORT_INDEX_def MACH_PORT_NULL_def)

lemma MACH_PORT_MAKE_valid:
  assumes "0 < index" and "index < 2 ^ 24 - 1"
  shows "MACH_PORT_VALID (MACH_PORT_MAKE index gen)"
proof -
  have "MACH_PORT_INDEX (MACH_PORT_MAKE index gen) = index"
    using assms by simp
  with assms have "MACH_PORT_INDEX (MACH_PORT_MAKE index gen) \<noteq> MACH_PORT_INDEX MACH_PORT_DEAD"
    and "MACH_PORT_INDEX (MACH_PORT_MAKE index gen) \<noteq> MACH_PORT_INDEX MACH_PORT_NULL"
    unfolding MACH_PORT_DEAD_index MACH_PORT_NULL_index by simp_all
  then show ?thesis
    unfolding MACH_PORT_VALID_def by metis
qed

subsection \<open>User references\<close>

lemma uint_add_sint: "uint (a + b) = (uint a + sint b) mod 2 ^ LENGTH('a)"
  for a b :: "'a :: len word"
proof -
  have "a + b = word_of_int (uint a + sint b)"
    by simp
  then show ?thesis
    by (simp only: uint_word_of_int)
qed

lemma uint_minus_sint: "uint (- b) = (- sint b) mod 2 ^ LENGTH('a)"
  for b :: "'a :: len word"
proof -
  have "- b = word_of_int (- sint b)"
    by simp
  then show ?thesis
    by (simp only: uint_word_of_int)
qed

lemma urefs_delta_range:
  assumes "urefs \<le> MACH_PORT_UREFS_MAX"
    and "\<not> MACH_PORT_UREFS_UNDERFLOW urefs delta"
    and "\<not> MACH_PORT_UREFS_OVERFLOW urefs delta"
  shows "uint (urefs + delta) = uint urefs + sint delta"
    and "unat (urefs + delta) < 65536"
proof -
  let ?u = "uint urefs" and ?d = "sint delta"
  have u: "0 \<le> ?u" "?u \<le> 65535"
    using assms(1) by (simp_all add: word_le_def)
  have d: "- (2 ^ 31) \<le> ?d" "?d < 2 ^ 31"
    using sint_greater_eq [of delta] sint_less [of delta] by simp_all
  have sum: "uint (urefs + delta) = (?u + ?d) mod 2 ^ 32"
    using uint_add_sint [of urefs delta] by simp
  have "0 \<le> ?u + ?d \<and> ?u + ?d < 2 ^ 32"
  proof (cases "?d < 0")
    case True
    then have "uint (- delta) = - ?d"
      using uint_minus_sint [of delta] d by simp
    moreover have "- delta \<le> urefs"
      using True assms(2) by (simp add: MACH_PORT_UREFS_UNDERFLOW_def not_less)
    ultimately show ?thesis
      using u True by (simp add: word_le_def)
  next
    case False
    then show ?thesis using u d by simp
  qed
  then show eq: "uint (urefs + delta) = ?u + ?d"
    using sum by simp
  have "uint (urefs + delta) \<le> 65535"
  proof (cases "?d > 0")
    case True
    with assms(3) have "urefs + delta \<le> 0xffff"
      by (auto simp: MACH_PORT_UREFS_OVERFLOW_def not_less)
    then show ?thesis by (simp add: word_le_def)
  next
    case False
    then show ?thesis using eq u by simp
  qed
  then have "urefs + delta \<le> 0xffff"
    by (simp add: word_le_def)
  then have "unat (urefs + delta) \<le> unat (0xffff :: natural_t)"
    by (simp only: word_le_nat_alt)
  then show "unat (urefs + delta) < 65536"
    by simp
qed

text \<open>The two macros decide whether the sum of the mathematical values is in range.\<close>

lemma urefs_underflow_iff:
  "MACH_PORT_UREFS_UNDERFLOW urefs delta \<longleftrightarrow> uint urefs + sint delta < 0"
proof (cases "sint delta < 0")
  case True
  have d: "- (2 ^ 31) \<le> sint delta" using sint_greater_eq [of delta] by simp
  then have "uint (- delta) = - sint delta"
    using uint_minus_sint [of delta] True by simp
  then show ?thesis
    using True by (auto simp: MACH_PORT_UREFS_UNDERFLOW_def word_less_def)
next
  case False
  then show ?thesis
    using unsigned_greater_eq [of urefs, where 'a = int] unfolding MACH_PORT_UREFS_UNDERFLOW_def by linarith
qed

lemma urefs_overflow_iff:
  assumes "urefs \<le> MACH_PORT_UREFS_MAX"
  shows "MACH_PORT_UREFS_OVERFLOW urefs delta \<longleftrightarrow> uint urefs + sint delta > 65535"
proof (cases "sint delta > 0")
  case True
  have u: "0 \<le> uint urefs" "uint urefs \<le> 65535"
    using assms by (simp_all add: word_le_def)
  have "uint (urefs + delta) = (uint urefs + sint delta) mod 2 ^ 32"
    using uint_add_sint [of urefs delta] by simp
  also have "\<dots> = uint urefs + sint delta"
    using u True sint_less [of delta] by (intro mod_pos_pos_trivial) simp_all
  finally show ?thesis
    using True by (auto simp: MACH_PORT_UREFS_OVERFLOW_def word_less_def word_le_def)
next
  case False
  moreover have "uint urefs \<le> 65535" using assms by (simp add: word_le_def)
  ultimately show ?thesis unfolding MACH_PORT_UREFS_OVERFLOW_def by linarith
qed

subsection \<open>Entry bits\<close>

lemmas ie_unfold = IE_BITS_UREFS_def IE_BITS_TYPE_def IE_BITS_GEN_def and.assoc bit.conj_disj_distrib2

lemma add_low16_and:
  assumes "unat ((b AND 0xffff) + d) < 65536" and "m AND 0xffff = (0 :: natural_t)"
  shows "(b + d) AND m = b AND m"
proof -
  let ?r = "(b AND 0xffff) + d"
  have r: "?r AND 0xffff = ?r"
    using assms(1) by (rule low16_idem)
  have "?r AND m = ?r AND (0xffff AND m)"
    by (subst r [symmetric]) (simp only: and.assoc)
  then have 0: "?r AND m = 0"
    using assms(2) by (simp add: and.commute)
  have m: "m = m AND 0xffff0000"
    using assms(2) split16 [of m] by simp
  have "(b + d) AND m = ((b AND 0xffff0000) AND m) OR (?r AND m)"
    by (subst add_low16 [OF assms(1)]) (simp only: bit.conj_disj_distrib2)
  also have "\<dots> = b AND (m AND 0xffff0000)"
    using 0 by (simp add: and.assoc and.commute and.left_commute)
  finally show ?thesis using m by simp
qed

lemma IE_BITS_add:
  assumes "unat (IE_BITS_UREFS b + d) < 65536"
  shows "IE_BITS_UREFS (b + d) = IE_BITS_UREFS b + d"
    and "IE_BITS_TYPE (b + d) = IE_BITS_TYPE b"
    and "IE_BITS_GEN (b + d) = IE_BITS_GEN b"
proof -
  have r: "unat ((b AND 0xffff) + d) < 65536"
    using assms by (simp add: IE_BITS_UREFS_def)
  show "IE_BITS_TYPE (b + d) = IE_BITS_TYPE b" "IE_BITS_GEN (b + d) = IE_BITS_GEN b"
    using add_low16_and [OF r] by (simp_all add: IE_BITS_TYPE_def IE_BITS_GEN_def)
  show "IE_BITS_UREFS (b + d) = IE_BITS_UREFS b + d"
    unfolding IE_BITS_UREFS_def
    by (subst add_low16 [OF r]) (simp add: bit.conj_disj_distrib2 and.assoc low16_idem [OF r])
qed


subsection \<open>Generations\<close>

lemma gen_idem [simp]: "IE_BITS_GEN (IE_BITS_GEN b) = IE_BITS_GEN b"
  by (simp add: ie_unfold)

lemma new_gen_idem [simp]: "IE_BITS_GEN (IE_BITS_NEW_GEN b) = IE_BITS_NEW_GEN b"
  by (simp add: IE_BITS_NEW_GEN_def IE_BITS_GEN_def and.assoc)

lemma gen_mask_shift: "y AND 0xff000000 = push_bit 24 (drop_bit 24 (y :: natural_t))"
  unfolding gen_mask_value by (rule bit_word_eqI) (auto simp: bit_simps)

lemma gen_add_closed:
  "((x AND 0xff000000) + (c AND 0xff000000)) AND 0xff000000
     = (x AND 0xff000000) + (c AND (0xff000000 :: natural_t))"
proof -
  have "(x AND 0xff000000) + (c AND (0xff000000 :: natural_t))
      = push_bit 24 (drop_bit 24 x + drop_bit 24 c)"
    unfolding gen_mask_shift by (simp add: push_bit_add)
  moreover have "push_bit 24 y AND 0xff000000 = push_bit 24 (y :: natural_t)" for y
    unfolding gen_mask_value by (rule bit_word_eqI) (auto simp: bit_simps)
  ultimately show ?thesis by simp
qed

lemma new_gen_iterate:
  "(IE_BITS_NEW_GEN ^^ n) (IE_BITS_GEN g) = IE_BITS_GEN g + of_nat n * IE_BITS_GEN_ONE"
proof (induction n)
  case 0
  then show ?case by simp
next
  case (Suc n)
  let ?x = "IE_BITS_GEN g + of_nat n * 0x04000000"
  have "?x = ?x AND 0xff000000"
    using Suc [symmetric] by (cases n) (simp_all add: IE_BITS_NEW_GEN_def IE_BITS_GEN_def and.assoc)
  then have "(?x + (0x04000000 AND 0xff000000)) AND 0xff000000 = ?x + (0x04000000 AND 0xff000000)"
    using gen_add_closed [of ?x "0x04000000"] by simp
  with Suc show ?case
    by (simp add: IE_BITS_NEW_GEN_def algebra_simps)
qed

text \<open>
  A table slot is given 64 different generations in a row before a generation,
  and hence a name, comes back.
\<close>

lemma new_gen_distinct:
  assumes "m < n" and "n < m + 64"
  shows "(IE_BITS_NEW_GEN ^^ m) (IE_BITS_GEN g) \<noteq> (IE_BITS_NEW_GEN ^^ n) (IE_BITS_GEN g)"
proof
  assume "(IE_BITS_NEW_GEN ^^ m) (IE_BITS_GEN g) = (IE_BITS_NEW_GEN ^^ n) (IE_BITS_GEN g)"
  then have eq: "of_nat m * IE_BITS_GEN_ONE = (of_nat n * IE_BITS_GEN_ONE :: natural_t)"
    by (simp add: new_gen_iterate)
  have "of_nat n = (of_nat m + of_nat (n - m) :: natural_t)"
    using assms(1) by (simp flip: of_nat_add)
  with eq have "of_nat (n - m) * IE_BITS_GEN_ONE = (0 :: natural_t)"
    by (simp add: algebra_simps)
  then have "of_nat ((n - m) * 0x04000000) = (0 :: natural_t)"
    by simp
  then have "2 ^ 32 dvd (n - m) * 0x04000000"
    by (simp only: word_of_nat_eq_0_iff) simp
  moreover have "0 < (n - m) * 0x04000000" "(n - m) * 0x04000000 < 2 ^ 32"
    using assms by auto
  ultimately show False
    using nat_dvd_not_less by blast
qed

end
