(* ===== verification/Ipc_Table.thy ===== *)
theory Ipc_Table
  imports Port_Names
begin

text \<open>
  Capability entries (\<open>struct ipc_entry\<close> of \<open>osfmk/ipc/ipc_entry.h\<close>) and the
  size tables of \<open>osfmk/ipc/ipc_table.c\<close> that say how large the table of a space
  and the request table of a port are at each growth step.

  The lemmas prove the contract stated in \<open>osfmk/ipc/ipc_table.h\<close>: the sizes
  increase strictly, the capability sizes end with the same size twice, the
  request sizes end with zero, and the largest capability size does not exceed
  the index of \<open>MACH_PORT_DEAD\<close>, so that no slot of a table carries that name.
\<close>

subsection \<open>Entries\<close>

text \<open>
  The members \<open>ie_next\<close> and \<open>ie_request\<close> of the C structure share storage (a
  union), and \<open>alloc_name\<close> and \<open>dealloc\<close> rely on writing the one and reading the
  other; the model has one field \<open>ie_request\<close> for both.
\<close>

record ipc_entry =
  ie_object :: addr
  ie_bits :: ipc_entry_bits_t
  ie_index :: mach_port_index_t
  ie_request :: nat

abbreviation (input) ie_next :: "ipc_entry \<Rightarrow> nat" where
  "ie_next \<equiv> ie_request"

type_synonym ipc_table = "ipc_entry list"

subsection \<open>Size tables\<close>

abbreviation (input) PAGE_MAX_SIZE :: nat where
  "PAGE_MAX_SIZE \<equiv> 4096"

abbreviation (input) sizeof_ipc_entry :: nat where
  "sizeof_ipc_entry \<equiv> 24"

abbreviation (input) sizeof_ipc_port_request :: nat where
  "sizeof_ipc_port_request \<equiv> 16"

abbreviation (input) ipc_table_entries_size :: nat where
  "ipc_table_entries_size \<equiv> 256"

abbreviation (input) ipc_table_requests_size :: nat where
  "ipc_table_requests_size \<equiv> 64"

text \<open>
  The two loops of \<open>ipc_table_fill\<close>. The array filled so far is the list
  \<open>its\<close>, so the C variable \<open>index\<close> is its length. The first loop yields the array
  and the final \<open>size\<close> (\<open>sz\<close> in the model).
\<close>

function ipc_table_fill_powers ::
    "nat \<Rightarrow> nat \<Rightarrow> nat \<Rightarrow> nat \<Rightarrow> nat list \<Rightarrow> nat list \<times> nat" where
  "ipc_table_fill_powers num minsize elemsize sz its =
     (if length its < num \<and> 0 < sz \<and> sz < PAGE_MAX_SIZE
      then ipc_table_fill_powers num minsize elemsize (sz * 2)
             (if sz \<ge> minsize then its @ [sz div elemsize] else its)
      else (its, sz))"
  by pat_completeness auto

termination ipc_table_fill_powers
  by (relation "measure (\<lambda>(num, minsize, elemsize, sz, its). PAGE_MAX_SIZE - sz)") auto

function ipc_table_fill_period ::
    "nat \<Rightarrow> nat \<Rightarrow> nat \<Rightarrow> nat \<Rightarrow> nat \<Rightarrow> nat \<Rightarrow> nat list \<Rightarrow> nat list \<times> nat" where
  "ipc_table_fill_period num minsize elemsize incrsize period sz its =
     (if period < 15 \<and> length its < num
      then ipc_table_fill_period num minsize elemsize incrsize (period + 1) (sz + incrsize)
             (if sz \<ge> minsize then its @ [sz div elemsize] else its)
      else (its, sz))"
  by pat_completeness auto

termination ipc_table_fill_period
  by (relation "measure (\<lambda>(num, minsize, elemsize, incrsize, period, sz, its). 15 - period)") auto

declare ipc_table_fill_powers.simps [simp del] ipc_table_fill_period.simps [simp del]

partial_function (option) ipc_table_fill_pages ::
    "nat \<Rightarrow> nat \<Rightarrow> nat \<Rightarrow> nat \<Rightarrow> nat \<Rightarrow> nat list \<Rightarrow> nat list option" where
  "ipc_table_fill_pages num minsize elemsize incrsize sz its =
     (if length its < num
      then (case ipc_table_fill_period num minsize elemsize incrsize 0 sz its of
              (its', sz') \<Rightarrow>
                ipc_table_fill_pages num minsize elemsize
                  (if incrsize < PAGE_MAX_SIZE * 8 then incrsize * 2 else incrsize) sz' its')
      else Some its)"

definition ipc_table_fill :: "nat \<Rightarrow> nat \<Rightarrow> nat \<Rightarrow> nat list option" where
  "ipc_table_fill num least elemsize =
     (let minsize = least * elemsize;
          (its, sz) = ipc_table_fill_powers num minsize elemsize 1 []
      in ipc_table_fill_pages num minsize elemsize PAGE_MAX_SIZE sz its)"

text \<open>\<open>ipc_table_init\<close> builds the arrays \<open>ipc_table_entries\<close> and \<open>ipc_table_requests\<close>.\<close>

definition ipc_table_init :: "(nat list \<times> nat list) option" where
  "ipc_table_init = do {
     entries \<leftarrow> ipc_table_fill (ipc_table_entries_size - 1) 16 sizeof_ipc_entry;
     requests \<leftarrow> ipc_table_fill (ipc_table_requests_size - 1) 2 sizeof_ipc_port_request;
     Some (entries @ [entries ! (ipc_table_entries_size - 2)], requests @ [0])
   }"

subsection \<open>What the filling loops compute\<close>

text \<open>
  \<open>filling\<close> is the invariant of both loops: the sizes written so far increase
  strictly, and \<open>sz\<close>, the next byte sz to consider, gives a larger one.
\<close>

definition filling :: "nat \<Rightarrow> nat \<Rightarrow> nat \<Rightarrow> nat list \<Rightarrow> bool" where
  "filling minsize elemsize sz its \<longleftrightarrow>
     0 < sz \<and> sorted_wrt (<) its
     \<and> (\<forall>n \<in> set its. 0 < n \<and> minsize div elemsize \<le> n \<and> n < sz div elemsize)"

lemma filling_step:
  assumes "filling minsize elemsize sz its" and "0 < elemsize" and "elemsize \<le> minsize"
    and "sz + sz \<le> sz' \<or> sz + elemsize \<le> sz'"
  shows "filling minsize elemsize sz'
           (if sz \<ge> minsize then its @ [sz div elemsize] else its)"
proof -
  have mono: "sz div elemsize \<le> sz' div elemsize"
    using assms(4) by (auto intro: div_le_mono)
  have pos: "0 < sz div elemsize" if "minsize \<le> sz"
    using that assms(2,3) by (simp add: div_greater_zero_iff)
  have step: "sz div elemsize < sz' div elemsize" if "minsize \<le> sz"
  proof -
    have "sz + elemsize \<le> sz'"
      using assms(3,4) that by auto
    then have "(sz + elemsize) div elemsize \<le> sz' div elemsize"
      by (rule div_le_mono)
    moreover have "(sz + elemsize) div elemsize = Suc (sz div elemsize)"
      using assms(2) by (simp add: div_add_self2)
    ultimately show ?thesis by simp
  qed
  have "minsize div elemsize \<le> sz div elemsize" if "minsize \<le> sz"
    using that by (rule div_le_mono)
  then show ?thesis
    using assms(1,4) mono pos step unfolding filling_def
    by (auto simp: sorted_wrt_append intro: less_le_trans)
qed

lemma fill_powers_filling:
  assumes "0 < elemsize" and "elemsize \<le> minsize"
    and "filling minsize elemsize sz its" and "length its \<le> num"
    and "ipc_table_fill_powers num minsize elemsize sz its = (its', sz')"
  shows "filling minsize elemsize sz' its' \<and> length its' \<le> num"
  using assms
proof (induction num minsize elemsize sz its rule: ipc_table_fill_powers.induct)
  case (1 num minsize elemsize sz its)
  have step: "filling minsize elemsize (sz * 2)
      (if sz \<ge> minsize then its @ [sz div elemsize] else its)"
    using "1.prems" by (intro filling_step) auto
  show ?case
  proof (cases "length its < num \<and> 0 < sz \<and> sz < PAGE_MAX_SIZE")
    case True
    with "1.prems" step show ?thesis
      by (intro "1.IH" [OF True]) (auto simp: ipc_table_fill_powers.simps [of num minsize elemsize sz])
  next
    case False
    then show ?thesis
      using "1.prems" by (subst (asm) ipc_table_fill_powers.simps) (auto split: if_splits)
  qed
qed

lemma fill_period_filling:
  assumes "0 < elemsize" and "elemsize \<le> minsize" and "elemsize \<le> incrsize"
    and "filling minsize elemsize sz its" and "length its \<le> num"
    and "ipc_table_fill_period num minsize elemsize incrsize period sz its = (its', sz')"
  shows "filling minsize elemsize sz' its' \<and> length its \<le> length its' \<and> length its' \<le> num
    \<and> (period < 15 \<and> length its < num \<longrightarrow>
         sz < sz' \<and> (sz \<ge> minsize \<longrightarrow> length its < length its'))"
  using assms
proof (induction num minsize elemsize incrsize period sz its rule: ipc_table_fill_period.induct)
  case (1 num minsize elemsize incrsize period sz its)
  have step: "filling minsize elemsize (sz + incrsize)
      (if sz \<ge> minsize then its @ [sz div elemsize] else its)"
    using "1.prems" by (intro filling_step) auto
  show ?case
  proof (cases "period < 15 \<and> length its < num")
    case True
    let ?its = "if sz \<ge> minsize then its @ [sz div elemsize] else its"
    have "ipc_table_fill_period num minsize elemsize incrsize (period + 1) (sz + incrsize) ?its
        = (its', sz')"
      using "1.prems"(6) True by (subst (asm) ipc_table_fill_period.simps) simp
    with "1.prems" step True have IH:
      "filling minsize elemsize sz' its' \<and> length ?its \<le> length its' \<and> length its' \<le> num
       \<and> (period + 1 < 15 \<and> length ?its < num \<longrightarrow> sz + incrsize < sz')"
      using "1.IH" [OF True] by auto
    have "sz + incrsize \<le> sz'"
    proof (cases "period + 1 < 15 \<and> length ?its < num")
      case False
      then show ?thesis
        using \<open>ipc_table_fill_period num minsize elemsize incrsize (period + 1) (sz + incrsize) ?its = _\<close>
        by (subst (asm) ipc_table_fill_period.simps) (auto split: if_splits)
    qed (use IH in auto)
    with IH "1.prems" True show ?thesis
      by (auto split: if_splits)
  next
    case False
    then show ?thesis
      using "1.prems" by (subst (asm) ipc_table_fill_period.simps) (auto split: if_splits)
  qed
qed

text \<open>The outer loop ends: each round writes an element, or brings \<open>sz\<close> closer to \<open>minsize\<close>.\<close>

lemma fill_pages_total:
  assumes "0 < elemsize" and "elemsize \<le> minsize" and "elemsize \<le> incrsize"
    and "filling minsize elemsize sz its" and "length its \<le> num"
  shows "\<exists>its' sz'. ipc_table_fill_pages num minsize elemsize incrsize sz its = Some its'
           \<and> filling minsize elemsize sz' its' \<and> length its' = num"
  using assms
proof (induction "(num - length its) + (minsize - sz)"
    arbitrary: incrsize sz its rule: less_induct)
  case less
  show ?case
  proof (cases "length its < num")
    case False
    then show ?thesis
      using less.prems by (subst ipc_table_fill_pages.simps) auto
  next
    case True
    obtain its' sz' where p:
      "ipc_table_fill_period num minsize elemsize incrsize 0 sz its = (its', sz')"
      by fastforce
    note facts = fill_period_filling [OF less.prems p]
    have "(num - length its') + (minsize - sz') < (num - length its) + (minsize - sz)"
      using facts True by (cases "sz \<ge> minsize") auto
    moreover have "elemsize \<le> (if incrsize < PAGE_MAX_SIZE * 8 then incrsize * 2 else incrsize)"
      using less.prems(3) by simp
    ultimately show ?thesis
      using less.hyps [of its' sz' "if incrsize < PAGE_MAX_SIZE * 8 then incrsize * 2 else incrsize"]
        less.prems facts True p
      by (subst ipc_table_fill_pages.simps) simp
  qed
qed

lemma ipc_table_fill_sizes:
  assumes "0 < elemsize" and "elemsize \<le> PAGE_MAX_SIZE" and "0 < least"
  obtains its where "ipc_table_fill num least elemsize = Some its"
    and "length its = num" and "sorted_wrt (<) its" and "\<forall>n \<in> set its. least \<le> n"
proof -
  obtain its sz where p:
    "ipc_table_fill_powers num (least * elemsize) elemsize 1 [] = (its, sz)"
    by fastforce
  have "filling (least * elemsize) elemsize sz its \<and> length its \<le> num"
    using assms by (intro fill_powers_filling [OF _ _ _ _ p]) (auto simp: filling_def)
  with assms obtain its' sz' where
      "ipc_table_fill_pages num (least * elemsize) elemsize PAGE_MAX_SIZE sz its = Some its'"
      "filling (least * elemsize) elemsize sz' its'" "length its' = num"
    using fill_pages_total [of elemsize "least * elemsize" PAGE_MAX_SIZE sz its num] by auto
  with p assms show thesis
    by (intro that [of its']) (auto simp: ipc_table_fill_def filling_def)
qed


lemma ipc_table_entries_last:
  "map_option last (ipc_table_fill (ipc_table_entries_size - 1) 16 sizeof_ipc_entry) = Some 299349"
  by (simp add: ipc_table_fill_def ipc_table_fill_powers.simps ipc_table_fill_period.simps
      ipc_table_fill_pages.simps)

text \<open>
  C16. The contract of the size tables stated in \<open>ipc_table.h\<close>: initialisation
  terminates; the capability table sizes are strictly increasing except that the
  last two are equal; the largest size is at most the index of
  \<open>MACH_PORT_DEAD\<close>; every size leaves room for at least 16 entries; the request
  table sizes are strictly increasing, at least 2, and terminated by zero.
\<close>

theorem ipc_table_init_contract:
  "\<exists>entries requests. ipc_table_init = Some (entries, requests)
     \<and> length entries = 256 \<and> sorted_wrt (<) (butlast entries)
     \<and> entries ! 255 = entries ! 254 \<and> last entries = 299349
     \<and> last entries \<le> MACH_PORT_INDEX MACH_PORT_DEAD
     \<and> list_all (\<lambda>n. 16 \<le> n) entries
     \<and> length requests = 64 \<and> sorted_wrt (<) (butlast requests)
     \<and> list_all (\<lambda>n. 2 \<le> n) (butlast requests) \<and> last requests = 0"
proof -
  obtain entries where e: "ipc_table_fill 255 16 24 = Some entries" "length entries = 255"
      "sorted_wrt (<) entries" "\<forall>n \<in> set entries. 16 \<le> n"
    by (rule ipc_table_fill_sizes [of 24 16 255]) auto
  obtain requests where r: "ipc_table_fill 63 2 16 = Some requests" "length requests = 63"
      "sorted_wrt (<) requests" "\<forall>n \<in> set requests. 2 \<le> n"
    by (rule ipc_table_fill_sizes [of 16 2 63]) auto
  have "last entries = 299349"
    using ipc_table_entries_last e(1) by simp
  moreover have "last entries = entries ! 254"
    using e(2) by (simp add: last_conv_nth flip: length_greater_0_conv)
  moreover have "entries ! 254 \<in> set entries"
    using e(2) by simp
  ultimately show ?thesis
    using e r by (simp add: ipc_table_init_def list_all_iff nth_append MACH_PORT_DEAD_index)
qed

end
