(* ===== verification/Ipc_Hash.thy ===== *)
theory Ipc_Hash
  imports Ipc_Table
begin

text \<open>
  The reverse hash table of a space, \<open>osfmk/ipc/ipc_hash.c\<close>: an open-addressing
  hash table with linear probing that is threaded through the \<open>ie_index\<close> fields
  of the capability table and finds the entry that holds a given object.

  The probing loops are partial functions into \<open>option\<close>, so that a probe that
  runs round the table for ever is the result \<open>None\<close>. \<open>hash_wf t H\<close> says that
  the reverse table of \<open>t\<close> holds exactly the entries with index in \<open>H\<close>, each one
  reachable from its hash position without crossing an empty slot. The lemmas show
  that under this invariant every routine terminates and that lookup, insertion
  and deletion implement lookup, update and removal in a finite map.
\<close>

subsection \<open>The routines\<close>

definition entry_at :: "ipc_table \<Rightarrow> nat \<Rightarrow> ipc_entry option" where
  "entry_at table i = (if i < length table then Some (table ! i) else None)"

definition set_ie_index :: "ipc_table \<Rightarrow> nat \<Rightarrow> mach_port_index_t \<Rightarrow> ipc_table option" where
  "set_ie_index table h index =
     (if h < length table then Some (table[h := (table ! h)\<lparr>ie_index := index\<rparr>]) else None)"

definition IH_TABLE_HASH :: "addr \<Rightarrow> nat \<Rightarrow> mach_port_index_t" where
  "IH_TABLE_HASH obj sz = unat (drop_bit 6 obj) mod sz"

text \<open>\<open>if (++hindex == size) hindex = 0\<close>\<close>

definition next_slot :: "nat \<Rightarrow> nat \<Rightarrow> nat" where
  "next_slot sz h = (if h + 1 = sz then 0 else h + 1)"

partial_function (option) ipc_hash_table_lookup_loop ::
    "ipc_table \<Rightarrow> nat \<Rightarrow> addr \<Rightarrow> nat \<Rightarrow> (mach_port_name_t \<times> nat) option option" where
  "ipc_hash_table_lookup_loop table sz obj hindex = do {
     slot \<leftarrow> entry_at table hindex;
     (if ie_index slot \<noteq> 0 then do {
        entry \<leftarrow> entry_at table (ie_index slot);
        (if ie_object entry = obj
         then Some (Some (MACH_PORT_MAKE (ie_index slot) (IE_BITS_GEN (ie_bits entry)), ie_index slot))
         else ipc_hash_table_lookup_loop table sz obj (next_slot sz hindex)) }
      else Some None) }"

definition ipc_hash_table_lookup ::
    "ipc_table \<Rightarrow> nat \<Rightarrow> addr \<Rightarrow> (mach_port_name_t \<times> nat) option option" where
  "ipc_hash_table_lookup table sz obj =
     (if obj = IO_NULL then Some None
      else ipc_hash_table_lookup_loop table sz obj (IH_TABLE_HASH obj sz))"

partial_function (option) ipc_hash_table_insert_loop ::
    "ipc_table \<Rightarrow> nat \<Rightarrow> nat \<Rightarrow> nat option" where
  "ipc_hash_table_insert_loop table sz hindex = do {
     slot \<leftarrow> entry_at table hindex;
     (if ie_index slot \<noteq> 0 then ipc_hash_table_insert_loop table sz (next_slot sz hindex)
      else Some hindex) }"

definition ipc_hash_table_insert ::
    "ipc_table \<Rightarrow> nat \<Rightarrow> addr \<Rightarrow> mach_port_index_t \<Rightarrow> ipc_table option" where
  "ipc_hash_table_insert table sz obj index = do {
     hindex \<leftarrow> ipc_hash_table_insert_loop table sz (IH_TABLE_HASH obj sz);
     set_ie_index table hindex index }"

text \<open>
  Deletion has three loops: the search for the slot that holds \<open>index\<close>, the inner
  scan for a displaced object, and the outer loop that fills one hole after the
  other.
\<close>

partial_function (option) ipc_hash_table_delete_find ::
    "ipc_table \<Rightarrow> nat \<Rightarrow> mach_port_index_t \<Rightarrow> nat \<Rightarrow> nat option" where
  "ipc_hash_table_delete_find table sz index hindex = do {
     slot \<leftarrow> entry_at table hindex;
     (if ie_index slot \<noteq> index
      then ipc_hash_table_delete_find table sz index (next_slot sz hindex)
      else Some hindex) }"

definition displaced :: "nat \<Rightarrow> nat \<Rightarrow> nat \<Rightarrow> bool" where
  "displaced dindex hindex tindex \<longleftrightarrow>
     (if dindex < hindex then dindex < tindex \<and> tindex \<le> hindex
      else dindex < tindex \<or> tindex \<le> hindex)"

partial_function (option) ipc_hash_table_delete_scan ::
    "ipc_table \<Rightarrow> nat \<Rightarrow> nat \<Rightarrow> nat \<Rightarrow> (nat \<times> mach_port_index_t) option" where
  "ipc_hash_table_delete_scan table sz hindex dindex = do {
     slot \<leftarrow> entry_at table (next_slot sz dindex);
     (if ie_index slot = 0 then Some (next_slot sz dindex, 0)
      else do {
        tentry \<leftarrow> entry_at table (ie_index slot);
        (if displaced (next_slot sz dindex) hindex (IH_TABLE_HASH (ie_object tentry) sz)
         then Some (next_slot sz dindex, ie_index slot)
         else ipc_hash_table_delete_scan table sz hindex (next_slot sz dindex)) }) }"

partial_function (option) ipc_hash_table_delete_loop ::
    "ipc_table \<Rightarrow> nat \<Rightarrow> mach_port_index_t \<Rightarrow> nat \<Rightarrow> ipc_table option" where
  "ipc_hash_table_delete_loop table sz index hindex =
     (if index \<noteq> 0 then do {
        (dindex, index') \<leftarrow> ipc_hash_table_delete_scan table sz hindex hindex;
        table' \<leftarrow> set_ie_index table hindex index';
        ipc_hash_table_delete_loop table' sz index' dindex }
      else Some table)"

definition ipc_hash_table_delete ::
    "ipc_table \<Rightarrow> nat \<Rightarrow> addr \<Rightarrow> mach_port_index_t \<Rightarrow> ipc_table option" where
  "ipc_hash_table_delete table sz obj index = do {
     hindex \<leftarrow> ipc_hash_table_delete_find table sz index (IH_TABLE_HASH obj sz);
     ipc_hash_table_delete_loop table sz index hindex }"

subsection \<open>Cyclic distance\<close>

text \<open>The number of probe steps that lead from slot \<open>a\<close> to slot \<open>b\<close> of a table of size \<open>n\<close>.\<close>

definition cdist :: "nat \<Rightarrow> nat \<Rightarrow> nat \<Rightarrow> nat" where
  "cdist n a b = (if a \<le> b then b - a else b + n - a)"

lemma cdist_self [simp]: "cdist n a a = 0"
  by (simp add: cdist_def)

lemma cdist_pos: "a < n \<Longrightarrow> b < n \<Longrightarrow> a \<noteq> b \<Longrightarrow> 0 < cdist n a b"
  by (auto simp: cdist_def)

lemma cdist_inj: "a < n \<Longrightarrow> b < n \<Longrightarrow> c < n \<Longrightarrow> cdist n a b = cdist n a c \<Longrightarrow> b = c"
  by (auto simp: cdist_def split: if_splits)

lemma next_slot_less [simp]: "h < n \<Longrightarrow> next_slot n h < n"
  by (auto simp: next_slot_def)

lemma cdist_next_slot:
  "a < n \<Longrightarrow> h < n \<Longrightarrow> next_slot n h \<noteq> a \<Longrightarrow> cdist n a (next_slot n h) = Suc (cdist n a h)"
  by (auto simp: cdist_def next_slot_def split: if_splits)

lemma cdist_from_next_slot:
  "h < n \<Longrightarrow> e < n \<Longrightarrow> h \<noteq> e \<Longrightarrow> Suc (cdist n (next_slot n h) e) = cdist n h e"
  by (auto simp: cdist_def next_slot_def split: if_splits)

lemma cdist_before_next:
  assumes "a < n" "h < n" "p < n" "e < n" "cdist n a h < cdist n a e"
  shows "cdist n a (next_slot n h) = Suc (cdist n a h)"
    and "cdist n a p < cdist n a (next_slot n h) \<longleftrightarrow> p = h \<or> cdist n a p < cdist n a h"
proof -
  have "next_slot n h \<noteq> a"
    using assms by (auto simp: cdist_def next_slot_def split: if_splits)
  then show "cdist n a (next_slot n h) = Suc (cdist n a h)"
    using assms by (intro cdist_next_slot)
  then show "cdist n a p < cdist n a (next_slot n h) \<longleftrightarrow> p = h \<or> cdist n a p < cdist n a h"
    using cdist_inj [OF assms(1,3,2)] by (auto simp: less_Suc_eq)
qed

lemma displaced_iff:
  assumes "d < n" "h < n" "t < n" "d \<noteq> h"
  shows "displaced d h t \<longleftrightarrow> cdist n t h < cdist n t d"
  using assms by (auto simp: displaced_def cdist_def)

lemma cdist_through:
  assumes "a < n" "h < n" "p < n" "q < n" "cdist n a h < cdist n a p" "cdist n h q < cdist n h p"
  shows "cdist n a q < cdist n a p"
  using assms by (auto simp: cdist_def split: if_splits)

subsection \<open>The invariant of the reverse table\<close>

abbreviation (input) ix :: "ipc_table \<Rightarrow> nat \<Rightarrow> nat" where
  "ix t h \<equiv> ie_index (t ! h)"

abbreviation (input) ob :: "ipc_table \<Rightarrow> nat \<Rightarrow> addr" where
  "ob t i \<equiv> ie_object (t ! i)"

abbreviation (input) home :: "ipc_table \<Rightarrow> nat \<Rightarrow> nat" where
  "home t i \<equiv> IH_TABLE_HASH (ob t i) (length t)"

definition clump :: "ipc_table \<Rightarrow> nat \<Rightarrow> nat \<Rightarrow> bool" where
  "clump t a b \<longleftrightarrow>
     (\<forall>p < length t. cdist (length t) a p < cdist (length t) a b \<longrightarrow> ix t p \<noteq> 0)"

definition hash_wf :: "ipc_table \<Rightarrow> nat set \<Rightarrow> bool" where
  "hash_wf t H \<longleftrightarrow>
     (\<forall>i \<in> H. 0 < i \<and> i < length t)
     \<and> (\<forall>h < length t. ix t h \<noteq> 0 \<longrightarrow> ix t h \<in> H)
     \<and> (\<forall>h < length t. \<forall>k < length t. ix t h \<noteq> 0 \<longrightarrow> ix t h = ix t k \<longrightarrow> h = k)
     \<and> (\<forall>i \<in> H. \<exists>h < length t. ix t h = i \<and> clump t (home t i) h)"

lemma hash_wf_bound: "hash_wf t H \<Longrightarrow> i \<in> H \<Longrightarrow> 0 < i \<and> i < length t"
  by (simp add: hash_wf_def)

lemma hash_wf_ix: "hash_wf t H \<Longrightarrow> h < length t \<Longrightarrow> ix t h \<noteq> 0 \<Longrightarrow> ix t h \<in> H"
  by (simp add: hash_wf_def)

lemma hash_wf_inj:
  "hash_wf t H \<Longrightarrow> h < length t \<Longrightarrow> k < length t \<Longrightarrow> ix t h \<noteq> 0 \<Longrightarrow> ix t h = ix t k \<Longrightarrow> h = k"
  by (auto simp: hash_wf_def)

lemma hash_wf_slot:
  assumes "hash_wf t H" "i \<in> H"
  obtains h where "h < length t" "ix t h = i" "clump t (home t i) h"
  using assms by (auto simp: hash_wf_def)

lemma IH_TABLE_HASH_less [simp]: "0 < n \<Longrightarrow> IH_TABLE_HASH obj n < n"
  by (simp add: IH_TABLE_HASH_def)

lemma home_less: "h < length t \<Longrightarrow> IH_TABLE_HASH obj (length t) < length t"
  by (rule IH_TABLE_HASH_less) linarith

text \<open>Slot 0 of the capability table is never hashed, so the reverse table has an empty slot.\<close>

lemma hash_wf_empty_slot:
  assumes "hash_wf t H" and "0 < length t"
  obtains e where "e < length t" "ix t e = 0"
proof -
  have "\<exists>e < length t. ix t e = 0"
  proof (rule ccontr)
    assume "\<not> ?thesis"
    then have nz: "ix t h \<noteq> 0" if "h < length t" for h
      using that by auto
    have "inj_on (ix t) {..<length t}"
      using nz hash_wf_inj [OF assms(1)] by (auto intro!: inj_onI)
    moreover have "ix t ` {..<length t} \<subseteq> {1..<length t}"
      using nz hash_wf_ix [OF assms(1)] hash_wf_bound [OF assms(1)] by force
    ultimately have "card {..<length t} \<le> card {1..<length t}"
      by (intro card_inj_on_le) auto
    then show False
      using assms(2) unfolding card_lessThan card_atLeastLessThan by linarith
  qed
  then show thesis using that by auto
qed


subsection \<open>Lookup\<close>

lemma hash_lookup_miss:
  assumes wf: "hash_wf t H" and h: "h < length t" and a: "a < length t" and z: "ix t h = 0"
    and seen: "\<forall>p < length t. cdist (length t) a p < cdist (length t) a h \<longrightarrow> ob t (ix t p) \<noteq> obj"
    and home: "a = IH_TABLE_HASH obj (length t)"
  shows "\<forall>i \<in> H. ob t i \<noteq> obj"
proof
  fix i assume i: "i \<in> H"
  show "ob t i \<noteq> obj"
  proof
    assume o: "ob t i = obj"
    obtain q where q: "q < length t" "ix t q = i" "clump t (home t i) q"
      using wf i by (rule hash_wf_slot)
    have "\<not> cdist (length t) a q < cdist (length t) a h"
      using seen q o by auto
    moreover have "\<not> cdist (length t) a h < cdist (length t) a q"
      using q(3) h z o home by (auto simp: clump_def)
    ultimately have "q = h"
      using cdist_inj [OF a q(1) h] by simp
    then show False
      using q z hash_wf_bound [OF wf i] by simp
  qed
qed

lemma hash_lookup_loop:
  assumes wf: "hash_wf t H" and e: "e < length t" "ix t e = 0" and h: "h < length t"
    and a: "a < length t" "a = IH_TABLE_HASH obj (length t)"
    and seen: "\<forall>p < length t. cdist (length t) a p < cdist (length t) a h \<longrightarrow> ob t (ix t p) \<noteq> obj"
    and le: "cdist (length t) a h \<le> cdist (length t) a e"
  shows "if \<exists>i \<in> H. ob t i = obj
         then \<exists>i \<in> H. ob t i = obj \<and> ipc_hash_table_lookup_loop t (length t) obj h
                = Some (Some (MACH_PORT_MAKE i (IE_BITS_GEN (ie_bits (t ! i))), i))
         else ipc_hash_table_lookup_loop t (length t) obj h = Some None"
  using h seen le
proof (induction "cdist (length t) a e - cdist (length t) a h" arbitrary: h)
  case 0
  then have "h = e"
    using cdist_inj [OF a(1)] e by simp
  then show ?case
    using hash_lookup_miss [OF wf, of h a] 0 e a
    by (subst (1 2) ipc_hash_table_lookup_loop.simps) (auto simp: entry_at_def)
next
  case (Suc d)
  show ?case
  proof (cases "ix t h = 0")
    case True
    then show ?thesis
      using hash_lookup_miss [OF wf, of h a] Suc.prems e a
      by (subst (1 2) ipc_hash_table_lookup_loop.simps) (auto simp: entry_at_def)
  next
    case False
    then have i: "ix t h \<in> H" "ix t h < length t"
      using wf Suc.prems(1) hash_wf_ix hash_wf_bound by blast+
    show ?thesis
    proof (cases "ob t (ix t h) = obj")
      case True
      then show ?thesis
        using i Suc.prems(1) False
        by (subst (1 2) ipc_hash_table_lookup_loop.simps) (auto simp: entry_at_def)
    next
      case ne: False
      have lt: "cdist (length t) a h < cdist (length t) a e"
        using Suc.hyps(2) by simp
      note step = cdist_before_next [OF a(1) Suc.prems(1) _ e(1) lt]
      have "if \<exists>i \<in> H. ob t i = obj
         then \<exists>i \<in> H. ob t i = obj \<and> ipc_hash_table_lookup_loop t (length t) obj (next_slot (length t) h)
                = Some (Some (MACH_PORT_MAKE i (IE_BITS_GEN (ie_bits (t ! i))), i))
         else ipc_hash_table_lookup_loop t (length t) obj (next_slot (length t) h) = Some None"
        using Suc.prems Suc.hyps(2) step ne lt by (intro Suc.hyps(1)) auto
      then show ?thesis
        using i Suc.prems(1) False ne
        by (subst (1 2) ipc_hash_table_lookup_loop.simps) (simp add: entry_at_def)
    qed
  qed
qed

lemma ipc_hash_table_lookup_correct:
  assumes "hash_wf t H" and "0 < length t" and "obj \<noteq> IO_NULL"
  shows "if \<exists>i \<in> H. ob t i = obj
         then \<exists>i \<in> H. ob t i = obj \<and> ipc_hash_table_lookup t (length t) obj
                = Some (Some (MACH_PORT_MAKE i (IE_BITS_GEN (ie_bits (t ! i))), i))
         else ipc_hash_table_lookup t (length t) obj = Some None"
proof -
  obtain e where "e < length t" "ix t e = 0"
    using assms(1,2) by (rule hash_wf_empty_slot)
  then show ?thesis
    using hash_lookup_loop [OF assms(1), of e "IH_TABLE_HASH obj (length t)" "IH_TABLE_HASH obj (length t)" obj]
      assms by (simp add: ipc_hash_table_lookup_def)
qed

subsection \<open>Insertion\<close>

lemma hash_insert_loop:
  assumes e: "e < length t" "ix t e = 0" and h: "h < length t" and a: "a < length t"
    and seen: "clump t a h" and le: "cdist (length t) a h \<le> cdist (length t) a e"
  shows "\<exists>h' < length t. ipc_hash_table_insert_loop t (length t) h = Some h' \<and> ix t h' = 0 \<and> clump t a h'"
  using h seen le
proof (induction "cdist (length t) a e - cdist (length t) a h" arbitrary: h)
  case 0
  then have "h = e"
    using cdist_inj [OF a] e by simp
  then show ?case
    using 0 e by (subst ipc_hash_table_insert_loop.simps) (auto simp: entry_at_def)
next
  case (Suc d)
  show ?case
  proof (cases "ix t h = 0")
    case True
    then show ?thesis
      using Suc.prems by (subst ipc_hash_table_insert_loop.simps) (auto simp: entry_at_def)
  next
    case False
    have lt: "cdist (length t) a h < cdist (length t) a e"
      using Suc.hyps(2) by simp
    note step = cdist_before_next [OF a Suc.prems(1) _ e(1) lt]
    have "clump t a (next_slot (length t) h)"
      using Suc.prems(2) False step(2) by (auto simp: clump_def)
    then have "\<exists>h' < length t. ipc_hash_table_insert_loop t (length t) (next_slot (length t) h) = Some h'
        \<and> ix t h' = 0 \<and> clump t a h'"
      using Suc.prems Suc.hyps(2) step(1) [OF e(1)] lt by (intro Suc.hyps(1)) auto
    then show ?thesis
      using Suc.prems(1) False by (subst ipc_hash_table_insert_loop.simps) (simp add: entry_at_def)
  qed
qed

lemma ob_set_index [simp]: "ob (t[h := (t ! h)\<lparr>ie_index := v\<rparr>]) i = ob t i"
  by (cases "h < length t"; cases "h = i") (simp_all add: not_less list_update_beyond)

lemma ix_set_index: "h < length t \<Longrightarrow> ix (t[h := (t ! h)\<lparr>ie_index := v\<rparr>]) p = (if p = h then v else ix t p)"
  by simp

lemma clump_set_index:
  "h < length t \<Longrightarrow> v \<noteq> 0 \<Longrightarrow> clump t a b \<Longrightarrow> clump (t[h := (t ! h)\<lparr>ie_index := v\<rparr>]) a b"
  by (simp add: clump_def nth_list_update)

lemma ipc_hash_table_insert_correct:
  assumes wf: "hash_wf t H" and i: "0 < i" "i < length t" "i \<notin> H" and o: "ob t i = obj"
  shows "\<exists>h < length t. ipc_hash_table_insert t (length t) obj i = Some (t[h := (t ! h)\<lparr>ie_index := i\<rparr>])
           \<and> hash_wf (t[h := (t ! h)\<lparr>ie_index := i\<rparr>]) (insert i H)"
proof -
  let ?a = "IH_TABLE_HASH obj (length t)"
  have pos: "0 < length t" using i(2) by (cases t) auto
  obtain e where e: "e < length t" "ix t e = 0"
    using wf pos by (rule hash_wf_empty_slot)
  obtain h where h: "h < length t" "ipc_hash_table_insert_loop t (length t) ?a = Some h"
      "ix t h = 0" "clump t ?a h"
    using hash_insert_loop [OF e, of ?a ?a] pos by (auto simp: clump_def)
  let ?t = "t[h := (t ! h)\<lparr>ie_index := i\<rparr>]"
  have slot: "\<exists>k < length t. ix ?t k = j \<and> clump ?t (home t j) k" if j: "j \<in> insert i H" for j
  proof (cases "j = i")
    case True
    then show ?thesis
      using h i o clump_set_index [OF h(1) _ h(4), of i] by (intro exI [of _ h]) simp
  next
    case False
    then obtain k where k: "k < length t" "ix t k = j" "clump t (home t j) k"
      using j wf by (auto elim: hash_wf_slot)
    then have "k \<noteq> h"
      using h(3) j False hash_wf_bound [OF wf, of j] by auto
    then show ?thesis
      using k clump_set_index [OF h(1) _ k(3), of i] i by (intro exI [of _ k]) simp
  qed
  have "hash_wf ?t (insert i H)"
    unfolding hash_wf_def
  proof (intro conjI)
    show "\<forall>j \<in> insert i H. 0 < j \<and> j < length ?t"
      using i hash_wf_bound [OF wf] by auto
    show "\<forall>p < length ?t. ix ?t p \<noteq> 0 \<longrightarrow> ix ?t p \<in> insert i H"
      using hash_wf_ix [OF wf] h(1) by (auto simp: nth_list_update)
    show "\<forall>p < length ?t. \<forall>k < length ?t. ix ?t p \<noteq> 0 \<longrightarrow> ix ?t p = ix ?t k \<longrightarrow> p = k"
      using hash_wf_inj [OF wf] hash_wf_ix [OF wf] i h(1) by (auto simp: nth_list_update split: if_splits)
    show "\<forall>j \<in> insert i H. \<exists>k < length ?t. ix ?t k = j \<and> clump ?t (home ?t j) k"
      using slot by simp
  qed
  then show ?thesis
    using h by (auto simp: ipc_hash_table_insert_def set_ie_index_def)
qed


subsection \<open>Deletion\<close>

lemma hash_delete_find:
  assumes q: "q < length t" "ix t q = i" and h: "h < length t" and a: "a < length t"
    and uniq: "\<forall>p < length t. ix t p = i \<longrightarrow> p = q"
    and le: "cdist (length t) a h \<le> cdist (length t) a q"
  shows "ipc_hash_table_delete_find t (length t) i h = Some q"
  using h le
proof (induction "cdist (length t) a q - cdist (length t) a h" arbitrary: h)
  case 0
  then have "h = q"
    using cdist_inj [OF a] q by simp
  then show ?case
    using q by (subst ipc_hash_table_delete_find.simps) (simp add: entry_at_def)
next
  case (Suc d)
  then have lt: "cdist (length t) a h < cdist (length t) a q"
    by simp
  then have "h \<noteq> q" by auto
  moreover have "ipc_hash_table_delete_find t (length t) i (next_slot (length t) h) = Some q"
    using Suc.prems Suc.hyps(2) lt cdist_before_next(1) [OF a Suc.prems(1) q(1) q(1) lt]
    by (intro Suc.hyps(1)) auto
  ultimately show ?case
    using Suc.prems(1) uniq
    by (subst ipc_hash_table_delete_find.simps) (auto simp: entry_at_def)
qed

text \<open>
  The invariant of the deletion loops. Slot \<open>h\<close> is the hole: it still holds a
  stale non-zero index and counts as removed. \<open>d\<close> is the last slot examined,
  \<open>e\<close> an empty slot beyond it. Every entry of \<open>H\<close> has a slot other than the hole
  and is reachable from its home; if the way crosses the hole, the slot lies
  beyond \<open>d\<close>.
\<close>

definition hole_base :: "ipc_table \<Rightarrow> nat set \<Rightarrow> nat \<Rightarrow> nat \<Rightarrow> bool" where
  "hole_base t H h e \<longleftrightarrow>
     h < length t \<and> e < length t \<and> ix t e = 0 \<and> ix t h \<noteq> 0
     \<and> (\<forall>i \<in> H. 0 < i \<and> i < length t)
     \<and> (\<forall>p < length t. p \<noteq> h \<longrightarrow> ix t p \<noteq> 0 \<longrightarrow> ix t p \<in> H)
     \<and> (\<forall>p < length t. \<forall>k < length t. p \<noteq> h \<longrightarrow> k \<noteq> h \<longrightarrow> ix t p \<noteq> 0 \<longrightarrow> ix t p = ix t k \<longrightarrow> p = k)"

definition hole :: "ipc_table \<Rightarrow> nat set \<Rightarrow> nat \<Rightarrow> nat \<Rightarrow> nat \<Rightarrow> bool" where
  "hole t H h d e \<longleftrightarrow>
     hole_base t H h e \<and> d < length t \<and> cdist (length t) h d < cdist (length t) h e
     \<and> (\<forall>i \<in> H. \<exists>p < length t. p \<noteq> h \<and> ix t p = i \<and> clump t (home t i) p
          \<and> (cdist (length t) (home t i) h < cdist (length t) (home t i) p
               \<longrightarrow> cdist (length t) h d < cdist (length t) h p))"

lemma hole_slots:
  assumes "hole t H h d e"
  shows "h < length t" "d < length t" "e < length t" "ix t e = 0" "ix t h \<noteq> 0"
    "cdist (length t) h d < cdist (length t) h e"
  using assms by (simp_all add: hole_def hole_base_def)

lemma hole_slot:
  assumes "hole t H h d e" "i \<in> H"
  obtains p where "p < length t" "p \<noteq> h" "ix t p = i" "clump t (home t i) p"
    "cdist (length t) (home t i) h < cdist (length t) (home t i) p
       \<longrightarrow> cdist (length t) h d < cdist (length t) h p"
  using assms unfolding hole_def by blast

lemma hole_ix: "hole t H h d e \<Longrightarrow> p < length t \<Longrightarrow> p \<noteq> h \<Longrightarrow> ix t p \<noteq> 0 \<Longrightarrow> ix t p \<in> H"
  unfolding hole_def hole_base_def by blast

lemma hole_inj:
  "hole t H h d e \<Longrightarrow> p < length t \<Longrightarrow> k < length t \<Longrightarrow> p \<noteq> h \<Longrightarrow> k \<noteq> h
     \<Longrightarrow> ix t p \<noteq> 0 \<Longrightarrow> ix t p = ix t k \<Longrightarrow> p = k"
  unfolding hole_def hole_base_def by blast

lemma hole_bound: "hole t H h d e \<Longrightarrow> i \<in> H \<Longrightarrow> 0 < i \<and> i < length t"
  unfolding hole_def hole_base_def by blast

lemma hole_init:
  assumes wf: "hash_wf t H" and i: "i \<in> H" and h: "h < length t" "ix t h = i"
    and e: "e < length t" "ix t e = 0"
  shows "hole t (H - {i}) h h e"
proof -
  have nz: "ix t h \<noteq> 0" using hash_wf_bound [OF wf i] h(2) by simp
  then have pos: "0 < cdist (length t) h e"
    using e by (intro cdist_pos h(1)) auto
  have nonzero: "ix t p \<in> H - {i}" if "p < length t" "p \<noteq> h" "ix t p \<noteq> 0" for p
    using that hash_wf_ix [OF wf that(1,3)] hash_wf_inj [OF wf that(1) h(1)] h(2) by auto
  have slots: "\<exists>p < length t. p \<noteq> h \<and> ix t p = j \<and> clump t (home t j) p
          \<and> (cdist (length t) (home t j) h < cdist (length t) (home t j) p
               \<longrightarrow> 0 < cdist (length t) h p)" if j: "j \<in> H - {i}" for j
  proof -
    obtain p where p: "p < length t" "ix t p = j" "clump t (home t j) p"
      using wf j by (auto elim: hash_wf_slot)
    then have "p \<noteq> h" using j h by auto
    then have "0 < cdist (length t) h p"
      using p(1) by (intro cdist_pos h(1)) auto
    with p \<open>p \<noteq> h\<close> show ?thesis by auto
  qed
  have bound: "0 < j \<and> j < length t" if "j \<in> H - {i}" for j
    using hash_wf_bound [OF wf] that by blast
  have once: "p = k" if "p < length t" "k < length t" "ix t p \<noteq> 0" "ix t p = ix t k" for p k
    using hash_wf_inj [OF wf that] .
  show ?thesis
    unfolding hole_def hole_base_def cdist_self
    by (intro conjI ballI allI impI h(1) e pos nz bound nonzero slots) (auto intro: once)
qed

text \<open>At the end of the clump the hole can be emptied.\<close>

lemma hole_close:
  assumes hl: "hole t H h d e" and z: "ix t (next_slot (length t) d) = 0"
  shows "hash_wf (t[h := (t ! h)\<lparr>ie_index := 0\<rparr>]) H"
proof -
  let ?n = "length t" and ?t = "t[h := (t ! h)\<lparr>ie_index := 0\<rparr>]"
  note h = hole_slots(1,2,3,6) [OF hl]
  have "\<exists>p < ?n. ix ?t p = i \<and> clump ?t (home t i) p" if i: "i \<in> H" for i
  proof -
    obtain p where p: "p < ?n" "p \<noteq> h" "ix t p = i" "clump t (home t i) p"
      "cdist ?n (home t i) h < cdist ?n (home t i) p \<longrightarrow> cdist ?n h d < cdist ?n h p"
      using hl i by (rule hole_slot)
    have a: "home t i < ?n" using h(1) by (rule home_less)
    have "\<not> cdist ?n (home t i) h < cdist ?n (home t i) p"
    proof
      assume cross: "cdist ?n (home t i) h < cdist ?n (home t i) p"
      then have "cdist ?n h d < cdist ?n h p" using p(5) by simp
      then have le: "cdist ?n h (next_slot ?n d) \<le> cdist ?n h p"
        using cdist_before_next(1) [OF h(1,2) p(1) h(3,4)] by simp
      have "p \<noteq> next_slot ?n d"
        using p(3) z hole_bound [OF hl i] by auto
      then have "cdist ?n h (next_slot ?n d) < cdist ?n h p"
        using le cdist_inj [OF h(1) p(1), of "next_slot ?n d"] h(2) by fastforce
      then have "cdist ?n (home t i) (next_slot ?n d) < cdist ?n (home t i) p"
        using cdist_through [OF a h(1) p(1) _ cross] h(2) by simp
      then show False
        using p(4) z next_slot_less [OF h(2)] unfolding clump_def by blast
    qed
    then have "clump ?t (home t i) p"
      using p(4) h(1) by (auto simp: clump_def nth_list_update)
    then show ?thesis using p by (intro exI [of _ p]) simp
  qed
  then have slots: "\<forall>i \<in> H. \<exists>p < ?n. ix ?t p = i \<and> clump ?t (home t i) p"
    by blast
  have ixt: "ix ?t p = (if p = h then 0 else ix t p)" for p
    using h(1) by (rule ix_set_index)
  have nonzero: "\<forall>p < ?n. ix ?t p \<noteq> 0 \<longrightarrow> ix ?t p \<in> H"
    using hole_ix [OF hl] unfolding ixt by auto
  have once: "\<forall>p < ?n. \<forall>k < ?n. ix ?t p \<noteq> 0 \<longrightarrow> ix ?t p = ix ?t k \<longrightarrow> p = k"
    using hole_inj [OF hl] unfolding ixt by (auto split: if_splits)
  have bound: "\<forall>i \<in> H. 0 < i \<and> i < ?n"
    using hole_bound [OF hl] by blast
  show ?thesis
    unfolding hash_wf_def length_list_update ob_set_index
    by (intro conjI bound nonzero once slots)
qed

lemma hole_advance:
  assumes hl: "hole t H h d e" and nz: "ix t (next_slot (length t) d) \<noteq> 0"
  shows "next_slot (length t) d \<noteq> h"
    and "cdist (length t) h (next_slot (length t) d) < cdist (length t) h e"
proof -
  let ?n = "length t"
  note h = hole_slots(1,2,3,6) [OF hl] and ze = hole_slots(4) [OF hl]
  have s: "cdist ?n h (next_slot ?n d) = Suc (cdist ?n h d)"
    using cdist_before_next(1) [OF h(1,2) h(1) h(3,4)] .
  then show "next_slot ?n d \<noteq> h" by auto
  have "next_slot ?n d \<noteq> e" using nz ze by auto
  then have "cdist ?n h (next_slot ?n d) \<noteq> cdist ?n h e"
    using cdist_inj [OF h(1) _ h(3)] h(2) by auto
  then show "cdist ?n h (next_slot ?n d) < cdist ?n h e"
    using s h(4) by simp
qed

text \<open>An object that is not displaced stays where it is.\<close>

lemma hole_skip:
  assumes hl: "hole t H h d e" and nz: "ix t (next_slot (length t) d) \<noteq> 0"
    and stay: "\<not> displaced (next_slot (length t) d) h (home t (ix t (next_slot (length t) d)))"
  shows "hole t H h (next_slot (length t) d) e"
proof -
  let ?n = "length t" and ?d = "next_slot (length t) d"
  note adv = hole_advance [OF hl nz]
  note h = hole_slots(1,2,3,6) [OF hl]
  have dn: "?d < ?n" using h by simp
  have "\<exists>p < ?n. p \<noteq> h \<and> ix t p = i \<and> clump t (home t i) p
          \<and> (cdist ?n (home t i) h < cdist ?n (home t i) p \<longrightarrow> cdist ?n h ?d < cdist ?n h p)"
    if i: "i \<in> H" for i
  proof -
    obtain p where p: "p < ?n" "p \<noteq> h" "ix t p = i" "clump t (home t i) p"
      "cdist ?n (home t i) h < cdist ?n (home t i) p \<longrightarrow> cdist ?n h d < cdist ?n h p"
      using hl i by (rule hole_slot)
    have a: "home t i < ?n" using h(1) by (rule home_less)
    have "cdist ?n h ?d < cdist ?n h p" if cross: "cdist ?n (home t i) h < cdist ?n (home t i) p"
    proof -
      have "p \<noteq> ?d"
        using cross stay p(3) displaced_iff [OF dn h(1) a adv(1)] by auto
      moreover have "cdist ?n h ?d \<le> cdist ?n h p"
        using cross p(5) cdist_before_next(1) [OF h(1,2) p(1) h(3,4)] by simp
      ultimately show ?thesis
        using cdist_inj [OF h(1) p(1) dn] by fastforce
    qed
    then show ?thesis using p by blast
  qed
  with hl adv(2) dn show ?thesis
    unfolding hole_def by (elim conjE) (intro conjI ballI; assumption)
qed


text \<open>A displaced object is moved into the hole; its old slot is the new hole.\<close>

lemma hole_move:
  assumes hl: "hole t H h d e" and nz: "ix t (next_slot (length t) d) \<noteq> 0"
    and move: "displaced (next_slot (length t) d) h (home t (ix t (next_slot (length t) d)))"
  defines "v \<equiv> ix t (next_slot (length t) d)"
  shows "hole (t[h := (t ! h)\<lparr>ie_index := v\<rparr>]) H (next_slot (length t) d) (next_slot (length t) d) e"
proof -
  let ?n = "length t" and ?d = "next_slot (length t) d" and ?t = "t[h := (t ! h)\<lparr>ie_index := v\<rparr>]"
  note adv = hole_advance [OF hl nz]
  note h = hole_slots(1,2,3) [OF hl] and ze = hole_slots(4) [OF hl]
  have dn: "?d < ?n" and ne: "e \<noteq> h" "?d \<noteq> e" "v \<noteq> 0"
    using h adv nz by (auto simp: v_def)
  have vH: "v \<in> H"
    using hole_ix [OF hl dn adv(1) nz] by (simp add: v_def)
  have inj: "p = ?d" if "p < ?n" "p \<noteq> h" "ix t p = v" for p
    using hole_inj [OF hl that(1) dn that(2) adv(1)] that(3) ne(3) by (simp add: v_def)
  have ixt: "ix ?t p = (if p = h then v else ix t p)" for p
    using h(1) by (rule ix_set_index)
  have far_e: "0 < cdist ?n ?d e"
    using dn h(3) ne(2) by (rule cdist_pos)
  have slots: "\<exists>p < ?n. p \<noteq> ?d \<and> ix ?t p = i \<and> clump ?t (home t i) p
      \<and> (cdist ?n (home t i) ?d < cdist ?n (home t i) p \<longrightarrow> 0 < cdist ?n ?d p)"
    if i: "i \<in> H" for i
  proof -
    obtain p where p: "p < ?n" "p \<noteq> h" "ix t p = i" "clump t (home t i) p"
      using hl i by (rule hole_slot)
    have far: "0 < cdist ?n ?d q" if "q < ?n" "q \<noteq> ?d" for q
      using that dn by (intro cdist_pos) auto
    note cl = clump_set_index [OF h(1) ne(3)]
    show ?thesis
    proof (cases "i = v")
      case True
      then have "p = ?d" using inj p by simp
      then have "cdist ?n (home t i) h < cdist ?n (home t i) p"
        using move True displaced_iff [OF dn h(1) _ adv(1)] home_less [OF h(1)] by (simp add: v_def)
      then have "clump ?t (home t i) h"
        using cl [OF p(4)] by (auto simp: clump_def)
      then show ?thesis
        using h(1) adv(1) True far [OF h(1)] by (intro exI [of _ h]) auto
    next
      case False
      then have "p \<noteq> ?d" using p(3) by (auto simp: v_def)
      then show ?thesis
        using p cl [OF p(4)] far [OF p(1)] by (intro exI [of _ p]) auto
    qed
  qed
  have nonzero: "\<forall>p < ?n. p \<noteq> ?d \<longrightarrow> ix ?t p \<noteq> 0 \<longrightarrow> ix ?t p \<in> H"
    using hole_ix [OF hl] vH unfolding ixt by auto
  have once: "\<forall>p < ?n. \<forall>k < ?n. p \<noteq> ?d \<longrightarrow> k \<noteq> ?d \<longrightarrow> ix ?t p \<noteq> 0 \<longrightarrow> ix ?t p = ix ?t k \<longrightarrow> p = k"
  proof (intro allI impI)
    fix p k
    assume "p < ?n" "k < ?n" "p \<noteq> ?d" "k \<noteq> ?d" "ix ?t p \<noteq> 0" "ix ?t p = ix ?t k"
    then show "p = k"
      using inj [of p] inj [of k] hole_inj [OF hl, of p k] by (auto simp: ixt split: if_splits)
  qed
  have stale: "ix ?t ?d \<noteq> 0" "ix ?t e = 0"
    using nz ze ne(1) adv(1) unfolding ixt by simp_all
  have bound: "\<forall>i \<in> H. 0 < i \<and> i < ?n"
    using hole_bound [OF hl] by blast
  show ?thesis
    unfolding hole_def hole_base_def length_list_update ob_set_index cdist_self
    by (intro conjI ballI dn h(3) far_e nonzero once stale bound [THEN bspec, THEN conjunct1] bound [THEN bspec, THEN conjunct2] slots)
qed

text \<open>
  The scan ends with the end of the clump, where the hole can be closed, or with
  a displaced object whose move takes the hole closer to the empty slot \<open>e\<close>.
\<close>

lemma hash_delete_scan:
  assumes "hole t H h d e"
  shows "\<exists>d' v. ipc_hash_table_delete_scan t (length t) h d = Some (d', v) \<and>
           (if v = 0 then hash_wf (t[h := (t ! h)\<lparr>ie_index := 0\<rparr>]) H
            else hole (t[h := (t ! h)\<lparr>ie_index := v\<rparr>]) H d' d' e
                 \<and> cdist (length t) d' e < cdist (length t) d e)"
  using assms
proof (induction "cdist (length t) d e" arbitrary: d rule: less_induct)
  case less
  let ?n = "length t" and ?d = "next_slot (length t) d"
  have h: "d < ?n" "e < ?n" "?d < ?n" "d \<noteq> e"
    using hole_slots [OF less.prems] by auto
  have closer: "cdist ?n ?d e < cdist ?n d e"
    using cdist_from_next_slot [OF h(1,2,4)] by simp
  show ?case
  proof (cases "ix t ?d = 0")
    case True
    then show ?thesis
      using hole_close [OF less.prems True] h
      by (subst ipc_hash_table_delete_scan.simps) (simp add: entry_at_def)
  next
    case False
    have "?d \<noteq> h"
      using hole_advance [OF less.prems False] by simp
    then have v: "ix t ?d < ?n"
      using hole_bound [OF less.prems] hole_ix [OF less.prems h(3)] False by blast
    show ?thesis
    proof (cases "displaced ?d h (home t (ix t ?d))")
      case True
      then show ?thesis
        using hole_move [OF less.prems False True] h v False closer
        by (subst ipc_hash_table_delete_scan.simps) (simp add: entry_at_def)
    next
      case stay: False
      obtain d' v' where "ipc_hash_table_delete_scan t ?n h ?d = Some (d', v')"
        "if v' = 0 then hash_wf (t[h := (t ! h)\<lparr>ie_index := 0\<rparr>]) H
         else hole (t[h := (t ! h)\<lparr>ie_index := v'\<rparr>]) H d' d' e \<and> cdist ?n d' e < cdist ?n ?d e"
        using less.hyps [OF closer hole_skip [OF less.prems False stay]] by blast
      then show ?thesis
        using h v False stay closer
        by (subst ipc_hash_table_delete_scan.simps) (auto simp: entry_at_def split: if_splits)
    qed
  qed
qed

text \<open>\<open>same_payload\<close>: two tables that differ in the reverse table only.\<close>

definition same_payload :: "ipc_table \<Rightarrow> ipc_table \<Rightarrow> bool" where
  "same_payload t t' \<longleftrightarrow>
     map (\<lambda>e. e\<lparr>ie_index := 0\<rparr>) t' = map (\<lambda>e. e\<lparr>ie_index := 0\<rparr>) t"

lemma same_payload_refl [simp]: "same_payload t t"
  by (simp add: same_payload_def)

lemma same_payload_trans: "same_payload t u \<Longrightarrow> same_payload u v \<Longrightarrow> same_payload t v"
  by (simp add: same_payload_def)

lemma same_payload_set_index [simp]: "same_payload t (t[h := (t ! h)\<lparr>ie_index := v\<rparr>])"
  unfolding same_payload_def
  by (cases "h < length t", rule nth_equalityI)
     (simp_all add: nth_list_update list_update_beyond not_less)

lemma same_payload_length: "same_payload t t' \<Longrightarrow> length t' = length t"
  unfolding same_payload_def by (metis length_map)

lemma same_payload_nth:
  assumes "same_payload t t'" "i < length t"
  shows "(t' ! i)\<lparr>ie_index := 0\<rparr> = (t ! i)\<lparr>ie_index := 0\<rparr>"
  using assms same_payload_length [OF assms(1)] unfolding same_payload_def
  by (metis nth_map)

lemma same_payload_fields:
  assumes "same_payload t t'" "i < length t"
  shows "ie_object (t' ! i) = ie_object (t ! i)" "ie_bits (t' ! i) = ie_bits (t ! i)"
    "ie_request (t' ! i) = ie_request (t ! i)"
  using same_payload_nth [OF assms] by (cases "t ! i"; cases "t' ! i"; simp)+

lemma same_payloadI:
  assumes "length t' = length t"
    and "\<And>j. j < length t \<Longrightarrow> ie_object (t' ! j) = ie_object (t ! j)
      \<and> ie_bits (t' ! j) = ie_bits (t ! j) \<and> ie_request (t' ! j) = ie_request (t ! j)"
  shows "same_payload t t'"
  unfolding same_payload_def using assms by (intro nth_equalityI) simp_all

lemma hash_delete_loop:
  assumes "hole t H h h e" and "index \<noteq> 0"
  shows "\<exists>t'. ipc_hash_table_delete_loop t (length t) index h = Some t'
           \<and> hash_wf t' H \<and> same_payload t t'"
  using assms
proof (induction "cdist (length t) h e" arbitrary: t h index rule: less_induct)
  case less
  obtain d v where scan: "ipc_hash_table_delete_scan t (length t) h h = Some (d, v)"
    and v: "if v = 0 then hash_wf (t[h := (t ! h)\<lparr>ie_index := 0\<rparr>]) H
            else hole (t[h := (t ! h)\<lparr>ie_index := v\<rparr>]) H d d e
                 \<and> cdist (length t) d e < cdist (length t) h e"
    using hash_delete_scan [OF less.prems(1)] by blast
  let ?t = "t[h := (t ! h)\<lparr>ie_index := v\<rparr>]"
  have h: "h < length t" using less.prems(1) by (rule hole_slots)
  have "\<exists>t'. ipc_hash_table_delete_loop ?t (length ?t) v d = Some t' \<and> hash_wf t' H \<and> same_payload ?t t'"
  proof (cases "v = 0")
    case True
    then show ?thesis
      using v by (subst ipc_hash_table_delete_loop.simps) simp
  next
    case False
    then show ?thesis
      using v by (intro less.hyps) simp_all
  qed
  then obtain t' where t': "ipc_hash_table_delete_loop ?t (length t) v d = Some t'" "hash_wf t' H"
      "same_payload ?t t'"
    by auto
  moreover have "same_payload t t'"
    using same_payload_trans [OF same_payload_set_index t'(3)] .
  ultimately have "ipc_hash_table_delete_loop t (length t) index h = Some t'"
    using scan h less.prems(2)
    by (subst ipc_hash_table_delete_loop.simps) (simp add: set_ie_index_def)
  with t' \<open>same_payload t t'\<close> show ?case by blast
qed

lemma ipc_hash_table_delete_correct:
  assumes wf: "hash_wf t H" and i: "i \<in> H" and o: "ob t i = obj"
  shows "\<exists>t'. ipc_hash_table_delete t (length t) obj i = Some t'
           \<and> hash_wf t' (H - {i}) \<and> same_payload t t'"
proof -
  have nz: "0 < i" "i < length t" using hash_wf_bound [OF wf i] by auto
  then have pos: "0 < length t" by linarith
  obtain e where e: "e < length t" "ix t e = 0"
    using wf pos by (rule hash_wf_empty_slot)
  obtain q where q: "q < length t" "ix t q = i" "clump t (home t i) q"
    using wf i by (rule hash_wf_slot)
  have "ipc_hash_table_delete_find t (length t) i (IH_TABLE_HASH obj (length t)) = Some q"
    using hash_wf_inj [OF wf] q nz pos
    by (intro hash_delete_find [OF q(1,2), where a = "IH_TABLE_HASH obj (length t)"]) auto
  then show ?thesis
    using hash_delete_loop [OF hole_init [OF wf i q(1,2) e]] nz
    by (simp add: ipc_hash_table_delete_def)
qed

lemma ipc_hash_table_insert_payload:
  assumes "ipc_hash_table_insert t n obj i = Some t'"
  shows "same_payload t t'"
  using assms by (auto simp: ipc_hash_table_insert_def set_ie_index_def bind_eq_Some_conv split: if_splits)

text \<open>Changes to fields other than \<open>ie_index\<close>, away from the hashed entries' objects, keep \<open>hash_wf\<close>.\<close>

lemma hash_wf_cong:
  assumes wf: "hash_wf t H" and len: "length t' = length t"
    and ix: "\<And>h. h < length t \<Longrightarrow> ix t' h = ix t h"
    and ob: "\<And>i. i \<in> H \<Longrightarrow> ob t' i = ob t i"
  shows "hash_wf t' H"
proof -
  have "clump t' a b = clump t a b" for a b
    using ix by (simp add: clump_def len)
  then have "\<exists>h < length t'. ix t' h = i \<and> clump t' (home t' i) h" if "i \<in> H" for i
    using hash_wf_slot [OF wf that] ix ob [OF that] unfolding len by metis
  moreover have "ix t' h \<in> H" if "h < length t" "ix t' h \<noteq> 0" for h
    using hash_wf_ix [OF wf that(1)] ix [OF that(1)] that(2) by simp
  moreover have "h = k" if "h < length t" "k < length t" "ix t' h \<noteq> 0" "ix t' h = ix t' k" for h k
    using hash_wf_inj [OF wf that(1,2)] ix that by simp
  ultimately show ?thesis
    using hash_wf_bound [OF wf] unfolding hash_wf_def len by blast
qed

lemma hash_wf_update:
  assumes wf: "hash_wf t H" and "ie_index e = ix t i" and "i \<in> H \<Longrightarrow> ie_object e = ob t i"
  shows "hash_wf (t[i := e]) H"
proof (rule hash_wf_cong [OF wf])
  show "ix (t[i := e]) h = ix t h" if "h < length t" for h
    using assms(2) that by (cases "h = i") simp_all
  show "ob (t[i := e]) j = ob t j" if "j \<in> H" for j
    using assms(3) that hash_wf_bound [OF wf that] by (cases "j = i") simp_all
qed simp

end
