(* ===== verification/Hash_Map.thy ===== *)
theory Hash_Map
  imports Ipc_Hash
begin

text \<open>
  The interface of the reverse hash table, as a locale of partial maps, and its
  interpretation on the model of \<open>osfmk/ipc/ipc_hash.c\<close>: the three table routines
  refine lookup, update and removal on the map from objects to table slots.
\<close>

subsection \<open>The reverse table as a finite map\<close>

text \<open>
  What the rest of the system relies on: a partial map from keys to slots with
  lookup, insertion of a fresh key, and removal. \<open>accepts\<close> is the precondition of an
  insertion. The lemmas hold for every implementation of the interface; the model of
  \<open>ipc_hash.c\<close> is one.
\<close>

locale reverse_map =
  fixes look :: "'t \<Rightarrow> 'k \<Rightarrow> 'v option option"
    and ins :: "'t \<Rightarrow> 'k \<Rightarrow> 'v \<Rightarrow> 't option"
    and del :: "'t \<Rightarrow> 'k \<Rightarrow> 'v \<Rightarrow> 't option"
    and good :: "'t \<Rightarrow> bool"
    and accepts :: "'t \<Rightarrow> 'k \<Rightarrow> 'v \<Rightarrow> bool"
    and absmap :: "'t \<Rightarrow> 'k \<Rightarrow> 'v option"
  assumes look_abs: "good t \<Longrightarrow> look t k = Some (absmap t k)"
    and ins_abs: "good t \<Longrightarrow> absmap t k = None \<Longrightarrow> accepts t k v \<Longrightarrow>
      \<exists>t'. ins t k v = Some t' \<and> good t' \<and> absmap t' = (absmap t)(k \<mapsto> v)"
    and del_abs: "good t \<Longrightarrow> absmap t k = Some v \<Longrightarrow>
      \<exists>t'. del t k v = Some t' \<and> good t' \<and> absmap t' = (absmap t)(k := None)"
begin

lemma look_after_ins:
  assumes "good t" "absmap t k = None" "accepts t k v" "ins t k v = Some t'"
  shows "look t' k' = (if k' = k then Some (Some v) else look t k')"
  using assms ins_abs [OF assms(1-3)] look_abs by auto

lemma look_after_del:
  assumes "good t" "absmap t k = Some v" "del t k v = Some t'"
  shows "look t' k' = (if k' = k then Some None else look t k')"
  using assms del_abs [OF assms(1-2)] look_abs by auto

lemma del_undoes_ins:
  assumes "good t" "absmap t k = None" "accepts t k v"
  shows "\<exists>t1 t2. ins t k v = Some t1 \<and> del t1 k v = Some t2 \<and> absmap t2 = absmap t
           \<and> (\<forall>k'. look t2 k' = look t k')"
proof -
  obtain t1 where t1: "ins t k v = Some t1" "good t1" "absmap t1 = (absmap t)(k \<mapsto> v)"
    using ins_abs [OF assms] by blast
  then obtain t2 where t2: "del t1 k v = Some t2" "good t2" "absmap t2 = (absmap t1)(k := None)"
    using del_abs [of t1 k v] by auto
  have "absmap t2 = absmap t"
    using t1(3) t2(3) assms(2) by auto
  with t1 t2 assms(1) look_abs show ?thesis by auto
qed

end

text \<open>The map held by a table, its key an object and its result a slot number.\<close>

definition hashed :: "ipc_table \<Rightarrow> nat set" where
  "hashed t = set (filter (\<lambda>i. i \<noteq> 0) (map ie_index t))"

definition hash_map :: "ipc_table \<Rightarrow> addr \<Rightarrow> nat option" where
  "hash_map t obj = find (\<lambda>i. ob t i = obj) (filter (\<lambda>i. i \<noteq> 0) (map ie_index t))"

definition hash_look :: "ipc_table \<Rightarrow> addr \<Rightarrow> nat option option" where
  "hash_look t obj = map_option (map_option snd) (ipc_hash_table_lookup t (length t) obj)"

definition hash_good :: "ipc_table \<Rightarrow> bool" where
  "hash_good t \<longleftrightarrow> t \<noteq> [] \<and> hash_wf t (hashed t) \<and> inj_on (ob t) (hashed t)
     \<and> (\<forall>i \<in> hashed t. ob t i \<noteq> IO_NULL)"

definition hash_accepts :: "ipc_table \<Rightarrow> addr \<Rightarrow> nat \<Rightarrow> bool" where
  "hash_accepts t obj i \<longleftrightarrow>
     0 < i \<and> i < length t \<and> obj \<noteq> IO_NULL \<and> ob t i = obj \<and> i \<notin> hashed t"

lemma hashed_unique: "hash_wf t H \<Longrightarrow> hashed t = H"
proof -
  assume wf: "hash_wf t H"
  have mem: "i \<in> hashed t \<longleftrightarrow> i \<noteq> 0 \<and> (\<exists>h < length t. ix t h = i)" for i
    by (auto simp: hashed_def in_set_conv_nth image_iff) (metis nth_mem)
  show "hashed t = H"
  proof (intro equalityI subsetI)
    fix i assume "i \<in> hashed t"
    then show "i \<in> H" using hash_wf_ix [OF wf] unfolding mem by auto
  next
    fix i assume "i \<in> H"
    then show "i \<in> hashed t"
      using hash_wf_bound [OF wf] hash_wf_slot [OF wf] unfolding mem by (metis less_irrefl)
  qed
qed

lemma hash_map_None_iff: "hash_map t obj = None \<longleftrightarrow> (\<forall>i \<in> hashed t. ob t i \<noteq> obj)"
  unfolding hash_map_def hashed_def find_None_iff by blast

lemma find_SomeD: "find P xs = Some x \<Longrightarrow> x \<in> set xs \<and> P x"
  by (induction xs) (auto split: if_splits)

lemma hash_map_SomeD: "hash_map t obj = Some i \<Longrightarrow> i \<in> hashed t \<and> ob t i = obj"
  unfolding hash_map_def hashed_def by (rule find_SomeD)

lemma hash_map_Some:
  assumes "inj_on (ob t) (hashed t)"
  shows "hash_map t obj = Some i \<longleftrightarrow> i \<in> hashed t \<and> ob t i = obj"
proof (intro iffI hash_map_SomeD)
  assume i: "i \<in> hashed t \<and> ob t i = obj"
  then obtain j where j: "hash_map t obj = Some j"
    using hash_map_None_iff by (metis not_None_eq)
  then have "j \<in> hashed t \<and> ob t j = obj"
    by (rule hash_map_SomeD)
  with i j assms show "hash_map t obj = Some i"
    by (metis inj_onD)
qed

lemma hash_map_eqI:
  assumes "inj_on (ob t) (hashed t)"
    and "\<And>k i. m k = Some i \<longleftrightarrow> i \<in> hashed t \<and> ob t i = k"
  shows "hash_map t = m"
proof
  fix k
  show "hash_map t k = m k"
    using hash_map_Some [OF assms(1), of k] assms(2) [of k] by (metis not_None_eq)
qed

lemma hash_look_map:
  assumes "hash_good t"
  shows "hash_look t obj = Some (hash_map t obj)"
proof (cases "obj = IO_NULL")
  case True
  then have "hash_map t obj = None"
    using assms by (auto simp: hash_map_None_iff hash_good_def)
  with True show ?thesis
    by (simp add: hash_look_def ipc_hash_table_lookup_def)
next
  case False
  have g: "hash_wf t (hashed t)" "0 < length t" "inj_on (ob t) (hashed t)"
    using assms by (auto simp: hash_good_def)
  show ?thesis
  proof (cases "\<exists>i \<in> hashed t. ob t i = obj")
    case True
    then obtain i where "i \<in> hashed t" "ob t i = obj" "hash_look t obj = Some (Some i)"
      using ipc_hash_table_lookup_correct [OF g(1,2) False] by (auto simp: hash_look_def)
    then show ?thesis
      using hash_map_Some [OF g(3), of obj i] by simp
  next
    case none: False
    then have "hash_map t obj = None"
      by (simp add: hash_map_None_iff)
    with none show ?thesis
      using ipc_hash_table_lookup_correct [OF g(1,2) False] by (simp add: hash_look_def)
  qed
qed


lemma hash_ins_map:
  assumes g: "hash_good t" and new: "hash_map t obj = None" and acc: "hash_accepts t obj i"
  shows "\<exists>t'. ipc_hash_table_insert t (length t) obj i = Some t' \<and> hash_good t'
           \<and> hash_map t' = (hash_map t)(obj \<mapsto> i)"
proof -
  have i: "0 < i" "i < length t" "i \<notin> hashed t" "ob t i = obj" "obj \<noteq> IO_NULL"
    using acc by (auto simp: hash_accepts_def)
  have h: "hash_wf t (hashed t)" "inj_on (ob t) (hashed t)"
    using g by (auto simp: hash_good_def)
  obtain h t' where t': "ipc_hash_table_insert t (length t) obj i = Some t'"
      "t' = t[h := (t ! h)\<lparr>ie_index := i\<rparr>]" "hash_wf t' (insert i (hashed t))"
    using ipc_hash_table_insert_correct [OF h(1) i(1-4)] by blast
  have H: "hashed t' = insert i (hashed t)"
    using t'(3) by (rule hashed_unique)
  have ob: "ob t' j = ob t j" for j
    unfolding t'(2) by simp
  have inj: "inj_on (ob t') (hashed t')"
    using h(2) new i(3,4) unfolding H ob hash_map_None_iff by (auto simp: inj_on_def)
  have "hash_good t'"
    using g inj t'(3) i(4,5) unfolding hash_good_def H ob by (auto simp: t'(2))
  moreover have "hash_map t' = (hash_map t)(obj \<mapsto> i)"
    using hash_map_Some [OF h(2)] new i(4) unfolding hash_map_None_iff
    by (intro hash_map_eqI [OF inj]) (auto simp: H ob)
  ultimately show ?thesis using t'(1) by blast
qed

lemma hash_del_map:
  assumes g: "hash_good t" and "hash_map t obj = Some i"
  shows "\<exists>t'. ipc_hash_table_delete t (length t) obj i = Some t' \<and> hash_good t'
           \<and> hash_map t' = (hash_map t)(obj := None)"
proof -
  have h: "hash_wf t (hashed t)" "inj_on (ob t) (hashed t)" "t \<noteq> []"
    using g by (auto simp: hash_good_def)
  have i: "i \<in> hashed t" "ob t i = obj"
    using assms(2) hash_map_SomeD by auto
  obtain t' where t': "ipc_hash_table_delete t (length t) obj i = Some t'"
      "hash_wf t' (hashed t - {i})" "same_payload t t'"
    using ipc_hash_table_delete_correct [OF h(1) i] by blast
  have H: "hashed t' = hashed t - {i}"
    using t'(2) by (rule hashed_unique)
  have ob: "ob t' j = ob t j" if "j \<in> hashed t" for j
    using same_payload_fields(1) [OF t'(3)] hash_wf_bound [OF h(1) that] by simp
  have inj: "inj_on (ob t') (hashed t')"
    using h(2) unfolding H by (auto simp: inj_on_def ob)
  have "t' \<noteq> []"
    using same_payload_length [OF t'(3)] h(3) by auto
  then have "hash_good t'"
    using g inj t'(2) unfolding hash_good_def H by (auto simp: ob)
  moreover have "hash_map t' = (hash_map t)(obj := None)"
    using hash_map_Some [OF h(2)] i h(2)
    by (intro hash_map_eqI [OF inj]) (auto simp: H ob inj_on_def)
  ultimately show ?thesis using t'(1) by blast
qed

interpretation ipc_hash: reverse_map
  hash_look
  "\<lambda>t. ipc_hash_table_insert t (length t)"
  "\<lambda>t. ipc_hash_table_delete t (length t)"
  hash_good hash_accepts hash_map
  by unfold_locales (auto intro: hash_look_map hash_ins_map hash_del_map)

end
