(* ===== verification/Ipc_Space.thy ===== *)
theory Ipc_Space
  imports Hash_Map
begin

text \<open>
  IPC spaces: \<open>struct ipc_space\<close> and the inline routines of
  \<open>osfmk/ipc/ipc_space.h\<close>, creation of a space (\<open>osfmk/ipc/ipc_space.c\<close>), and the
  wrappers of \<open>osfmk/ipc/ipc_hash.c\<close> that work on the table of a space.

  The C pair of \<open>is_table\<close> and \<open>is_table_size\<close> is one list, whose length is the
  size. The pointer \<open>is_table_next\<close> into the array \<open>ipc_table_entries\<close> is an
  index into that array. \<open>is_self\<close> is the address of the space, which other
  structures store.
\<close>

record ipc_space =
  is_self :: addr
  is_bits :: natural_t
  is_table_free :: natural_t
  is_table :: ipc_table
  is_task :: addr
  is_table_next :: nat
  is_low_mod :: nat
  is_high_mod :: nat

definition is_table_size :: "ipc_space \<Rightarrow> nat" where
  "is_table_size space = length (is_table space)"

subsection \<open>State bits and references\<close>

abbreviation (input) IS_REFS_MAX :: natural_t where
  "IS_REFS_MAX \<equiv> 0x0fffffff"

abbreviation (input) IS_INACTIVE :: natural_t where
  "IS_INACTIVE \<equiv> 0x40000000"

abbreviation (input) IS_GROWING :: natural_t where
  "IS_GROWING \<equiv> 0x20000000"

definition is_active :: "ipc_space \<Rightarrow> bool" where
  "is_active is \<longleftrightarrow> (is_bits is AND IS_INACTIVE) \<noteq> IS_INACTIVE"

definition is_mark_inactive :: "ipc_space \<Rightarrow> ipc_space" where
  "is_mark_inactive is = is\<lparr>is_bits := is_bits is OR IS_INACTIVE\<rparr>"

definition is_growing :: "ipc_space \<Rightarrow> bool" where
  "is_growing is \<longleftrightarrow> (is_bits is AND IS_GROWING) = IS_GROWING"

definition is_start_growing :: "ipc_space \<Rightarrow> ipc_space" where
  "is_start_growing is = is\<lparr>is_bits := is_bits is OR IS_GROWING\<rparr>"

definition is_done_growing :: "ipc_space \<Rightarrow> ipc_space" where
  "is_done_growing is = is\<lparr>is_bits := is_bits is AND NOT IS_GROWING\<rparr>"

definition is_refs :: "ipc_space \<Rightarrow> natural_t" where
  "is_refs is = is_bits is AND IS_REFS_MAX"

definition is_reference :: "ipc_space \<Rightarrow> ipc_space" where
  "is_reference is = is\<lparr>is_bits := is_bits is + 1\<rparr>"

text \<open>The result \<open>None\<close> says that the last reference went away and the space was freed.\<close>

definition is_release :: "ipc_space \<Rightarrow> ipc_space option" where
  "is_release is =
     (if is_bits is AND IS_REFS_MAX = 1 then None
      else Some (is\<lparr>is_bits := is_bits is - 1\<rparr>))"

subsection \<open>Creation\<close>

text \<open>
  The initialisation loop of \<open>ipc_space_create\<close>, after the \<open>memset\<close>: every slot
  gets generation \<open>-1\<close> and is linked to its successor, the last one to slot 0.
\<close>

definition ipc_space_init_table :: "nat \<Rightarrow> ipc_table" where
  "ipc_space_init_table new_size =
     map (\<lambda>index. \<lparr>ie_object = IO_NULL, ie_bits = IE_BITS_GEN_MASK, ie_index = 0,
                    ie_request = (if index = new_size - 1 then 0 else index + 1)\<rparr>) [0..<new_size]"

definition ipc_space_initial :: "addr \<Rightarrow> nat \<Rightarrow> nat \<Rightarrow> ipc_space" where
  "ipc_space_initial self new_size next_its =
     \<lparr>is_self = self, is_bits = 2, is_table_free = of_nat (new_size - 1),
      is_table = ipc_space_init_table new_size, is_task = 0,
      is_table_next = next_its, is_low_mod = new_size, is_high_mod = 0\<rparr>"

definition ipc_space_create ::
    "nat list \<Rightarrow> addr option \<Rightarrow> bool \<Rightarrow> nat \<Rightarrow> kern_return + ipc_space" where
  "ipc_space_create ipc_table_entries is_alloc table_alloc initial =
     (case is_alloc of
        None \<Rightarrow> Inl KERN_RESOURCE_SHORTAGE
      | Some self \<Rightarrow>
          if \<not> table_alloc then Inl KERN_RESOURCE_SHORTAGE
          else Inr (ipc_space_initial self (ipc_table_entries ! initial) (initial + 1)))"

definition ipc_space_create_special :: "addr option \<Rightarrow> kern_return + ipc_space" where
  "ipc_space_create_special is_alloc =
     (case is_alloc of
        None \<Rightarrow> Inl KERN_RESOURCE_SHORTAGE
      | Some self \<Rightarrow>
          Inr \<lparr>is_self = self, is_bits = IS_INACTIVE OR 1, is_table_free = 0, is_table = [],
               is_task = 0, is_table_next = 0, is_low_mod = 0, is_high_mod = 0\<rparr>)"

subsection \<open>The reverse hash table of a space\<close>

definition ipc_hash_lookup ::
    "ipc_space \<Rightarrow> addr \<Rightarrow> (mach_port_name_t \<times> nat) option option" where
  "ipc_hash_lookup space obj = ipc_hash_table_lookup (is_table space) (is_table_size space) obj"

definition ipc_hash_insert :: "ipc_space \<Rightarrow> addr \<Rightarrow> mach_port_name_t \<Rightarrow> ipc_space option" where
  "ipc_hash_insert space obj name = do {
     table \<leftarrow> ipc_hash_table_insert (is_table space) (is_table_size space) obj (MACH_PORT_INDEX name);
     Some (space\<lparr>is_table := table\<rparr>) }"

definition ipc_hash_delete :: "ipc_space \<Rightarrow> addr \<Rightarrow> mach_port_name_t \<Rightarrow> ipc_space option" where
  "ipc_hash_delete space obj name = do {
     table \<leftarrow> ipc_hash_table_delete (is_table space) (is_table_size space) obj (MACH_PORT_INDEX name);
     Some (space\<lparr>is_table := table\<rparr>) }"

subsection \<open>Facts about the state bits\<close>

lemma is_bits_independent [simp]:
  "is_active (is_start_growing is) = is_active is"
  "is_active (is_done_growing is) = is_active is"
  "\<not> is_active (is_mark_inactive is)"
  "is_growing (is_mark_inactive is) = is_growing is"
  "is_growing (is_start_growing is)"
  "\<not> is_growing (is_done_growing is)"
  by (simp_all add: is_active_def is_start_growing_def is_done_growing_def is_mark_inactive_def
      is_growing_def bit.conj_disj_distrib2 and.assoc)

lemma is_start_growing_fields [simp]:
  "is_table (is_start_growing is) = is_table is"
  "is_table_free (is_start_growing is) = is_table_free is"
  "is_table (is_done_growing is) = is_table is"
  "is_table_free (is_done_growing is) = is_table_free is"
  by (simp_all add: is_start_growing_def is_done_growing_def)

end
