(* ===== verification/Ipc_Entry.thy ===== *)
theory Ipc_Entry
  imports Ipc_Space
begin

text \<open>
  Capability entries of a space: \<open>osfmk/ipc/ipc_entry.c\<close> except for the growth of
  the table, which is in \<open>Ipc_Grow\<close>. An \<open>ipc_entry_t\<close> pointer into the table of a
  space is the index of the slot, the null pointer is \<open>None\<close>.

  The invariant \<open>table_wf t L X\<close> says: the free slots form an acyclic list \<open>L\<close> that
  starts in slot 0, the slots in \<open>X\<close> are claimed and not yet filled, every other
  slot holds a well-formed right, no two slots name the same port, and the reverse
  hash table holds exactly the slots with a pure send right. The lemmas show that
  every operation keeps it, that a claimed slot carries a fresh and valid name, and
  that looking a name up fails after the slot is released.
\<close>

subsection \<open>Operations\<close>

definition upd_entry :: "ipc_space \<Rightarrow> nat \<Rightarrow> (ipc_entry \<Rightarrow> ipc_entry) \<Rightarrow> ipc_space" where
  "upd_entry space i f = space\<lparr>is_table := (is_table space)[i := f (is_table space ! i)]\<rparr>"

definition ipc_entry_lookup :: "ipc_space \<Rightarrow> mach_port_name_t \<Rightarrow> nat option" where
  "ipc_entry_lookup space name =
     (let index = MACH_PORT_INDEX name in
      if index < is_table_size space then
        (let entry = is_table space ! index in
         if IE_BITS_GEN (ie_bits entry) \<noteq> MACH_PORT_GEN name
            \<or> IE_BITS_TYPE (ie_bits entry) = MACH_PORT_TYPE_NONE
         then None else Some index)
      else None)"

primrec ipc_entries_hold_loop :: "ipc_table \<Rightarrow> nat \<Rightarrow> nat \<Rightarrow> kern_return option" where
  "ipc_entries_hold_loop table 0 next_free = Some KERN_SUCCESS"
| "ipc_entries_hold_loop table (Suc k) next_free = do {
     entry \<leftarrow> entry_at table next_free;
     (if ie_next entry = 0 then Some KERN_NO_SPACE
      else ipc_entries_hold_loop table k (ie_next entry)) }"

definition ipc_entries_hold :: "ipc_space \<Rightarrow> nat \<Rightarrow> kern_return option" where
  "ipc_entries_hold space entries_needed = ipc_entries_hold_loop (is_table space) entries_needed 0"

definition ipc_entry_claim :: "ipc_space \<Rightarrow> (ipc_space \<times> mach_port_name_t \<times> nat) option" where
  "ipc_entry_claim space = do {
     table \<leftarrow> entry_at (is_table space) 0;
     let first_free = ie_next table;
     entry \<leftarrow> entry_at (is_table space) first_free;
     let space = upd_entry space 0 (ie_request_update (\<lambda>_. ie_next entry));
     let space = space\<lparr>is_table_free := is_table_free space - 1\<rparr>;
     let gen = IE_BITS_NEW_GEN (ie_bits entry);
     let space = upd_entry space first_free (\<lambda>e. e\<lparr>ie_bits := gen, ie_request := IE_REQ_NONE\<rparr>);
     Some (space, MACH_PORT_MAKE first_free gen, first_free) }"

text \<open>The result is the return code, or the new space with the name and slot claimed.\<close>

definition ipc_entry_get ::
    "ipc_space \<Rightarrow> (kern_return + ipc_space \<times> mach_port_name_t \<times> nat) option" where
  "ipc_entry_get space = do {
     kr \<leftarrow> ipc_entries_hold space 1;
     (if kr \<noteq> KERN_SUCCESS then Some (Inl kr)
      else do { r \<leftarrow> ipc_entry_claim space; Some (Inr r) }) }"

definition ipc_entry_modified :: "ipc_space \<Rightarrow> mach_port_name_t \<Rightarrow> ipc_space" where
  "ipc_entry_modified space name =
     (let index = MACH_PORT_INDEX name;
          space = (if index < is_low_mod space then space\<lparr>is_low_mod := index\<rparr> else space)
      in if index > is_high_mod space then space\<lparr>is_high_mod := index\<rparr> else space)"

definition ipc_entry_dealloc :: "ipc_space \<Rightarrow> mach_port_name_t \<Rightarrow> nat \<Rightarrow> ipc_space option" where
  "ipc_entry_dealloc space name entry = do {
     e \<leftarrow> entry_at (is_table space) entry;
     (if ie_request e \<noteq> IE_REQ_NONE then None
      else
        let index = MACH_PORT_INDEX name;
            space =
              (if index < is_table_size space \<and> entry = index then
                 (let space = upd_entry space entry (\<lambda>e. e\<lparr>ie_bits := ie_bits e AND IE_BITS_GEN_MASK\<rparr>);
                      space = upd_entry space entry (\<lambda>e. e\<lparr>ie_request := ie_next (is_table space ! 0)\<rparr>);
                      space = upd_entry space 0 (ie_request_update (\<lambda>_. index))
                  in space\<lparr>is_table_free := is_table_free space + 1\<rparr>)
               else space)
        in Some (ipc_entry_modified space name)) }"

text \<open>
  The search for the predecessor of a slot on the free list, in
  \<open>ipc_entry_alloc_name\<close>.
\<close>

partial_function (option) free_predecessor :: "ipc_table \<Rightarrow> nat \<Rightarrow> nat \<Rightarrow> nat option" where
  "free_predecessor table index free_index = do {
     entry \<leftarrow> entry_at table free_index;
     (if ie_next entry \<noteq> index then free_predecessor table index (ie_next entry)
      else Some free_index) }"

text \<open>
  One iteration of the loop of \<open>ipc_entry_alloc_name\<close> for an active space and a
  slot inside the table: the four cases of the C comment.
\<close>

definition ipc_entry_alloc_name_table ::
    "ipc_space \<Rightarrow> mach_port_name_t \<Rightarrow> (kern_return + ipc_space \<times> nat) option" where
  "ipc_entry_alloc_name_table space name =
     (let index = MACH_PORT_INDEX name;
          gen = MACH_PORT_GEN name;
          entry = is_table space ! index
      in if index = 0 then Some (Inl KERN_FAILURE)
         else if IE_BITS_TYPE (ie_bits entry) \<noteq> 0 then
           (if IE_BITS_GEN (ie_bits entry) = gen then Some (Inr (space, index))
            else Some (Inl KERN_FAILURE))
         else do {
           free_index \<leftarrow> free_predecessor (is_table space) index 0;
           let space = upd_entry space free_index (ie_request_update (\<lambda>_. ie_next entry));
           let space = space\<lparr>is_table_free := is_table_free space - 1\<rparr>;
           let space = ipc_entry_modified space
                 (MACH_PORT_MAKE free_index (IE_BITS_GEN (ie_bits (is_table space ! free_index))));
           let space = upd_entry space index (\<lambda>e. e\<lparr>ie_bits := gen, ie_request := IE_REQ_NONE\<rparr>);
           Some (Inr (space, index)) })"

subsection \<open>Well-formed tables\<close>

text \<open>The free list: \<open>free_chain t i L\<close> follows the links from slot \<open>i\<close> through \<open>L\<close> to the end.\<close>

fun free_chain :: "ipc_table \<Rightarrow> nat \<Rightarrow> nat list \<Rightarrow> bool" where
  "free_chain t i [] \<longleftrightarrow> ie_next (t ! i) = 0"
| "free_chain t i (j # L) \<longleftrightarrow> ie_next (t ! i) = j \<and> j \<noteq> 0 \<and> j < length t \<and> free_chain t j L"

definition free_entry :: "ipc_entry \<Rightarrow> bool" where
  "free_entry e \<longleftrightarrow> ie_object e = IO_NULL \<and> IE_BITS_GEN (ie_bits e) = ie_bits e"

abbreviation (input) entry_type :: "ipc_entry \<Rightarrow> mach_port_type_t" where
  "entry_type e \<equiv> IE_BITS_TYPE (ie_bits e)"

abbreviation (input) entry_urefs :: "ipc_entry \<Rightarrow> natural_t" where
  "entry_urefs e \<equiv> IE_BITS_UREFS (ie_bits e)"

definition held_entry :: "ipc_entry \<Rightarrow> bool" where
  "held_entry e \<longleftrightarrow>
     ie_object e = IO_NULL \<and> entry_type e = 0 \<and> entry_urefs e = 0 \<and> ie_request e = IE_REQ_NONE"

definition used_entry :: "ipc_entry \<Rightarrow> bool" where
  "used_entry e \<longleftrightarrow>
     (entry_type e = MACH_PORT_TYPE_SEND \<and> IO_VALID (ie_object e)
          \<and> entry_urefs e \<noteq> 0 \<and> entry_urefs e \<noteq> MACH_PORT_UREFS_MAX)
     \<or> (entry_type e = MACH_PORT_TYPE_SEND_RECEIVE \<and> IO_VALID (ie_object e)
          \<and> entry_urefs e \<noteq> 0 \<and> entry_urefs e \<noteq> MACH_PORT_UREFS_MAX)
     \<or> (entry_type e = MACH_PORT_TYPE_RECEIVE \<and> IO_VALID (ie_object e) \<and> entry_urefs e = 0)
     \<or> (entry_type e = MACH_PORT_TYPE_SEND_ONCE \<and> IO_VALID (ie_object e) \<and> entry_urefs e = 1)
     \<or> (entry_type e = MACH_PORT_TYPE_PORT_SET \<and> IO_VALID (ie_object e) \<and> entry_urefs e = 0
          \<and> ie_request e = IE_REQ_NONE)
     \<or> (entry_type e = MACH_PORT_TYPE_DEAD_NAME \<and> ie_object e = IO_NULL \<and> entry_urefs e \<noteq> 0
          \<and> ie_request e = IE_REQ_NONE)"

definition send_slots :: "ipc_table \<Rightarrow> nat set" where
  "send_slots t = {i. i < length t \<and> entry_type (t ! i) = MACH_PORT_TYPE_SEND}"

text \<open>Slots whose entry is the name of a port: pure send, receive, or both.\<close>

definition naming_slots :: "ipc_table \<Rightarrow> nat set" where
  "naming_slots t = {i. i < length t \<and>
     entry_type (t ! i) \<in> {MACH_PORT_TYPE_SEND, MACH_PORT_TYPE_RECEIVE, MACH_PORT_TYPE_SEND_RECEIVE}}"

definition freelist :: "ipc_table \<Rightarrow> nat list \<Rightarrow> bool" where
  "freelist t L \<longleftrightarrow> t \<noteq> [] \<and> free_chain t 0 L \<and> distinct L \<and> (\<forall>j \<in> set L. free_entry (t ! j))"

definition slots_wf :: "ipc_table \<Rightarrow> nat list \<Rightarrow> nat set \<Rightarrow> bool" where
  "slots_wf t L X \<longleftrightarrow>
     free_entry (t ! 0) \<and> X \<inter> set L = {} \<and> X \<subseteq> {0<..<length t}
     \<and> (\<forall>j < length t. 0 < j \<longrightarrow> j \<notin> set L \<longrightarrow>
          (if j \<in> X then held_entry (t ! j) else used_entry (t ! j)))"

definition table_base :: "ipc_table \<Rightarrow> nat list \<Rightarrow> nat set \<Rightarrow> bool" where
  "table_base t L X \<longleftrightarrow>
     length t < 2 ^ 24 \<and> freelist t L \<and> slots_wf t L X \<and> inj_on (ob t) (naming_slots t)"

definition table_wf :: "ipc_table \<Rightarrow> nat list \<Rightarrow> nat set \<Rightarrow> bool" where
  "table_wf t L X \<longleftrightarrow> table_base t L X \<and> hash_wf t (send_slots t)"

definition space_wf :: "ipc_space \<Rightarrow> nat list \<Rightarrow> nat set \<Rightarrow> bool" where
  "space_wf space L X \<longleftrightarrow>
     table_wf (is_table space) L X \<and> is_table_free space = of_nat (length L)"

subsection \<open>The free list under updates\<close>

lemma free_chain_bounds: "free_chain t i L \<Longrightarrow> j \<in> set L \<Longrightarrow> 0 < j \<and> j < length t"
  by (induction L arbitrary: i) auto

lemma free_chain_cong:
  assumes "length t' = length t" and "\<And>k. k \<in> insert i (set L) \<Longrightarrow> ie_next (t' ! k) = ie_next (t ! k)"
  shows "free_chain t' i L = free_chain t i L"
  using assms(2)
proof (induction L arbitrary: i)
  case (Cons j L)
  then have "free_chain t' j L = free_chain t j L"
    by simp
  with Cons.prems [of i] assms(1) show ?case by simp
qed simp

lemma free_chain_update_other:
  "k \<noteq> i \<Longrightarrow> k \<notin> set L \<Longrightarrow> free_chain (t[k := e]) i L = free_chain t i L"
  by (rule free_chain_cong) (simp, metis insert_iff nth_list_update_neq)

lemma freelist_bounds: "freelist t L \<Longrightarrow> j \<in> set L \<Longrightarrow> 0 < j \<and> j < length t"
  unfolding freelist_def using free_chain_bounds by blast

lemma freelist_update_other:
  assumes "freelist t L" "k \<noteq> 0" "k \<notin> set L"
  shows "freelist (t[k := e]) L"
  using assms unfolding freelist_def
  by (simp add: free_chain_update_other) (metis nth_list_update_neq)

lemma freelist_payload:
  assumes "freelist t L" "same_payload t t'"
  shows "freelist t' L"
proof -
  note f = same_payload_fields [OF assms(2)] and len = same_payload_length [OF assms(2)]
  have "t \<noteq> []" using assms(1) by (simp add: freelist_def)
  then have "0 < length t" by simp
  then have "free_chain t' 0 L = free_chain t 0 L"
    using freelist_bounds [OF assms(1)] f len by (intro free_chain_cong) auto
  moreover have "free_entry (t' ! j) = free_entry (t ! j)" if "j \<in> set L" for j
    using freelist_bounds [OF assms(1) that] f by (simp add: free_entry_def)
  moreover have "t' \<noteq> []" using len \<open>t \<noteq> []\<close> by auto
  ultimately show ?thesis
    using assms(1) by (simp add: freelist_def)
qed

lemma freelist_push:
  assumes "freelist t L" "0 < i" "i < length t" "i \<notin> set L" "free_entry e"
    and "ie_request e = ie_next (t ! 0)"
  shows "freelist (t[i := e, 0 := (t ! 0)\<lparr>ie_request := i\<rparr>]) (i # L)"
proof -
  let ?t = "t[i := e, 0 := (t ! 0)\<lparr>ie_request := i\<rparr>]"
  have L0: "0 \<notin> set L" using freelist_bounds [OF assms(1), of 0] by auto
  have "free_chain ?t i L"
  proof (cases L)
    case Nil
    then show ?thesis using assms by (simp add: freelist_def)
  next
    case (Cons j M)
    have "free_chain ?t j M = free_chain t j M"
      using assms(4) L0 Cons
      by (intro free_chain_cong) (simp, metis insert_iff list.set(2) nth_list_update_neq)
    then show ?thesis using assms Cons by (simp add: freelist_def)
  qed
  moreover have "free_entry (?t ! j)" if "j \<in> set (i # L)" for j
    using that assms L0 by (cases "j = i") (auto simp: freelist_def nth_list_update)
  moreover have "t \<noteq> []" using assms(1) by (simp add: freelist_def)
  ultimately show ?thesis
    using assms unfolding freelist_def by auto
qed

text \<open>Taking a slot out of the free list behind its predecessor.\<close>

lemma free_chain_unlink:
  assumes "free_chain t i (A @ j # B)" "distinct (i # A @ j # B)" "i < length t"
  shows "free_chain (t[last (i # A) := (t ! last (i # A))\<lparr>ie_request := ie_next (t ! j)\<rparr>]) i (A @ B)"
  using assms
proof (induction A arbitrary: i)
  case Nil
  then have "free_chain t j B" "j \<noteq> i" "i \<notin> set B" "i < length t" by auto
  then show ?case
  proof (cases B)
    case (Cons b C)
    then have "free_chain (t[i := (t ! i)\<lparr>ie_request := b\<rparr>]) b C = free_chain t b C"
      using \<open>i \<notin> set B\<close> by (intro free_chain_update_other) auto
    then show ?thesis using Nil Cons by simp
  qed simp
next
  case (Cons a A)
  have "last (a # A) \<in> set (a # A)" by (rule last_in_set) simp
  then have ne: "last (a # A) \<noteq> i" using Cons.prems(2) by auto
  have "free_chain (t[last (a # A) := (t ! last (a # A))\<lparr>ie_request := ie_next (t ! j)\<rparr>]) a (A @ B)"
    using Cons.prems by (intro Cons.IH) auto
  then show ?case using Cons.prems ne by simp
qed

lemma free_predecessor_found:
  assumes "free_chain t i (A @ j # B)" "distinct (A @ j # B)" "i < length t"
  shows "free_predecessor t j i = Some (last (i # A))"
  using assms
proof (induction A arbitrary: i)
  case Nil
  then show ?case
    by (subst free_predecessor.simps) (simp add: entry_at_def)
next
  case (Cons a A)
  then have "free_predecessor t j a = Some (last (a # A))"
    by (intro Cons.IH) auto
  with Cons.prems show ?case
    by (subst free_predecessor.simps) (auto simp: entry_at_def)
qed

lemma ipc_entries_hold_loop_chain:
  assumes "free_chain t i L" "i < length t"
  shows "ipc_entries_hold_loop t k i = Some (if k \<le> length L then KERN_SUCCESS else KERN_NO_SPACE)"
  using assms
proof (induction k arbitrary: i L)
  case (Suc k)
  then show ?case by (cases L) (auto simp: entry_at_def)
qed simp

subsection \<open>Tables under updates\<close>

lemma type_none_iff: "IE_BITS_GEN b = b \<Longrightarrow> IE_BITS_TYPE b = 0 \<and> IE_BITS_UREFS b = 0"
  unfolding IE_BITS_GEN_def IE_BITS_TYPE_def IE_BITS_UREFS_def
proof -
  assume b: "b AND 0xff000000 = b"
  have "b AND m = b AND (0xff000000 AND m)" for m
    by (subst b [symmetric]) (rule and.assoc)
  from this [of "0x1f0000"] this [of "0xffff"]
  show "b AND 0x1f0000 = 0 \<and> b AND 0xffff = 0" by simp
qed

lemma free_entry_type: "free_entry e \<Longrightarrow> entry_type e = 0"
  unfolding free_entry_def using type_none_iff by blast

lemma used_entry_type: "used_entry e \<Longrightarrow> entry_type e \<noteq> 0"
  unfolding used_entry_def by auto

lemma table_wfD:
  assumes "table_wf t L X"
  shows "table_base t L X" "hash_wf t (send_slots t)" "length t < 2 ^ 24" "freelist t L"
    "slots_wf t L X" "inj_on (ob t) (naming_slots t)" "0 < length t"
  using assms by (simp_all add: table_wf_def table_base_def freelist_def)

lemma table_base_free:
  assumes "table_base t L X" "j \<in> set L \<or> j = 0"
  shows "free_entry (t ! j)"
  using assms by (auto simp: table_base_def freelist_def slots_wf_def)

lemma table_base_used_iff:
  assumes "table_base t L X" "j < length t"
  shows "entry_type (t ! j) \<noteq> 0 \<longleftrightarrow> 0 < j \<and> j \<notin> set L \<and> j \<notin> X"
proof (cases "0 < j \<and> j \<notin> set L")
  case True
  then have "if j \<in> X then held_entry (t ! j) else used_entry (t ! j)"
    using assms by (simp add: table_base_def slots_wf_def)
  then show ?thesis
    using True used_entry_type [of "t ! j"] free_entry_type [of "t ! j"]
    by (simp add: held_entry_def split: if_splits)
next
  case False
  then show ?thesis
    using free_entry_type [OF table_base_free [OF assms(1), of j]] by auto
qed

lemma table_base_used:
  assumes "table_base t L X" "j < length t" "entry_type (t ! j) \<noteq> 0"
  shows "used_entry (t ! j)" "0 < j" "j \<notin> set L" "j \<notin> X"
proof -
  show *: "0 < j" "j \<notin> set L" "j \<notin> X"
    using assms(3) table_base_used_iff [OF assms(1,2)] by simp_all
  then show "used_entry (t ! j)"
    using assms by (simp add: table_base_def slots_wf_def)
qed

lemma table_base_held:
  assumes "table_base t L X" "j < length t" "j \<in> X"
  shows "held_entry (t ! j)" "0 < j" "j \<notin> set L"
proof -
  have sl: "slots_wf t L X" using assms(1) by (simp add: table_base_def)
  then show *: "0 < j" "j \<notin> set L"
    using assms(3) by (auto simp: slots_wf_def intro: gr0I)
  then show "held_entry (t ! j)"
    using sl assms(2,3) by (simp add: slots_wf_def)
qed

lemma send_naming: "i \<in> send_slots t \<Longrightarrow> i \<in> naming_slots t"
  by (auto simp: send_slots_def naming_slots_def)

lemma slots_payload:
  assumes "same_payload t t'"
  shows "send_slots t' = send_slots t" "naming_slots t' = naming_slots t"
  using same_payload_fields [OF assms] same_payload_length [OF assms]
  by (auto simp: send_slots_def naming_slots_def)

lemma table_base_payload:
  assumes "table_base t L X" "same_payload t t'"
  shows "table_base t' L X"
proof -
  note f = same_payload_fields [OF assms(2)] and len = same_payload_length [OF assms(2)]
  have pos: "0 < length t" and sl: "slots_wf t L X" and inj: "inj_on (ob t) (naming_slots t)"
    using assms(1) by (auto simp: table_base_def freelist_def)
  have "free_entry (t' ! j) = free_entry (t ! j)" "held_entry (t' ! j) = held_entry (t ! j)"
    "used_entry (t' ! j) = used_entry (t ! j)" if "j < length t" for j
    using f [OF that] by (simp_all add: free_entry_def held_entry_def used_entry_def)
  then have "slots_wf t' L X"
    using sl pos unfolding slots_wf_def len by simp
  moreover have "inj_on (ob t') (naming_slots t')"
    using inj f(1) unfolding slots_payload(2) [OF assms(2)]
    by (auto simp: inj_on_def naming_slots_def)
  ultimately show ?thesis
    using assms freelist_payload [OF _ assms(2)] len by (simp add: table_base_def)
qed

lemma slots_update:
  "send_slots (t[i := e]) =
     (if i < length t \<and> entry_type e = MACH_PORT_TYPE_SEND then insert i (send_slots t)
      else if i < length t then send_slots t - {i} else send_slots t)"
  "naming_slots (t[i := e]) \<subseteq> insert i (naming_slots t)"
  by (auto simp: send_slots_def naming_slots_def nth_list_update)

text \<open>Filling a claimed slot, or replacing one right by another.\<close>

lemma table_base_retype:
  assumes tb: "table_base t L X" and i: "0 < i" "i < length t" "i \<notin> set L" and e: "used_entry e"
    and uniq: "\<And>j. j \<in> naming_slots t \<Longrightarrow> j \<noteq> i \<Longrightarrow>
      i \<in> naming_slots (t[i := e]) \<Longrightarrow> ob t j \<noteq> ie_object e"
  shows "table_base (t[i := e]) L (X - {i})"
proof -
  define u where "u = t[i := e]"
  have sl: "slots_wf t L X" and inj: "inj_on (ob t) (naming_slots t)" and fl: "freelist t L"
    using tb by (auto simp: table_base_def)
  have len: "length u = length t" and ent: "u ! j = (if j = i then e else t ! j)" for j
    using i by (simp_all add: u_def nth_list_update)
  have "slots_wf u L (X - {i})"
    using sl i e unfolding slots_wf_def len by (simp add: ent) blast
  moreover have "freelist u L"
    unfolding u_def using fl i by (intro freelist_update_other) auto
  moreover have "inj_on (ob u) (naming_slots u)"
  proof (rule inj_onI)
    fix j k
    assume jk: "j \<in> naming_slots u" "k \<in> naming_slots u" "ob u j = ob u k"
    have nam: "m \<in> naming_slots t" if "m \<in> naming_slots u" "m \<noteq> i" for m
      using that by (simp add: naming_slots_def len ent)
    have uq: "ob t m \<noteq> ie_object e" if "m \<in> naming_slots u" "i \<in> naming_slots u" "m \<noteq> i" for m
      using uniq [OF nam [OF that(1,3)] that(3)] that(2) by (simp add: u_def)
    consider "j = i" "k = i" | "j = i" "k \<noteq> i" | "j \<noteq> i" "k = i" | "j \<noteq> i" "k \<noteq> i" by blast
    then show "j = k"
    proof cases
      case 4
      then show ?thesis using jk nam inj by (simp add: ent inj_on_def)
    qed (use jk uq [of j] uq [of k] in \<open>simp_all add: ent\<close>)
  qed
  ultimately have "table_base u L (X - {i})"
    using tb len by (simp add: table_base_def)
  then show ?thesis by (simp only: u_def)
qed

text \<open>Taking slot \<open>i\<close> out of the free list, behind its predecessor \<open>p\<close>.\<close>

lemma table_base_unlink:
  assumes tb: "table_base t (A @ i # B) X" and g: "IE_BITS_GEN g = g"
  defines "p \<equiv> last (0 # A)"
  shows "table_base (t[p := (t ! p)\<lparr>ie_request := ie_next (t ! i)\<rparr>,
                       i := (t ! i)\<lparr>ie_bits := g, ie_request := IE_REQ_NONE\<rparr>]) (A @ B) (insert i X)"
proof -
  define u where "u = t[p := (t ! p)\<lparr>ie_request := ie_next (t ! i)\<rparr>,
                       i := (t ! i)\<lparr>ie_bits := g, ie_request := IE_REQ_NONE\<rparr>]"
  have fl: "freelist t (A @ i # B)" and sl: "slots_wf t (A @ i # B) X"
    and inj: "inj_on (ob t) (naming_slots t)"
    using tb by (auto simp: table_base_def)
  note bnd = freelist_bounds [OF fl]
  have i: "0 < i" "i < length t" using bnd [of i] by auto
  then have pos: "0 < length t" by linarith
  have pA: "p = 0 \<or> p \<in> set A" unfolding p_def by (auto simp: last_in_set)
  have d: "distinct (0 # A @ i # B)"
    using fl bnd by (auto simp: freelist_def)
  then have pi: "p \<noteq> i" using pA i by auto
  have len: "length u = length t" by (simp add: u_def)
  have ent: "u ! j = (if j = i then (t ! i)\<lparr>ie_bits := g, ie_request := 0\<rparr>
      else if j = p then (t ! p)\<lparr>ie_request := ie_next (t ! i)\<rparr> else t ! j)" if "j < length t" for j
    unfolding u_def using that i pi by (cases "j = i"; cases "j = p") simp_all
  have free: "free_entry (t ! j)" if "j \<in> insert 0 (set A \<union> insert i (set B))" for j
    using table_base_free [OF tb] that by auto
  have freep: "free_entry (t ! p)" using pA free by auto
  have "free_chain (t[p := (t ! p)\<lparr>ie_request := ie_next (t ! i)\<rparr>]) 0 (A @ B)"
    unfolding p_def using fl d pos by (intro free_chain_unlink) (auto simp: freelist_def)
  then have chain: "free_chain u 0 (A @ B)"
    unfolding u_def using d i by (subst free_chain_update_other) auto
  have freeu: "free_entry (u ! j)" if "j \<in> insert 0 (set A \<union> set B)" for j
  proof -
    have "j < length t" "j \<noteq> i" using that bnd [of j] d i pos by auto
    then show ?thesis using that free [of j] freep by (auto simp: ent free_entry_def)
  qed
  have held: "held_entry (u ! i)"
    using free [of i] i type_none_iff [OF g] by (simp add: ent held_entry_def free_entry_def)
  have same: "u ! j = t ! j" if "j < length t" "0 < j" "j \<notin> set A" "j \<noteq> i" for j
    using that pA by (auto simp: ent)
  have "freelist u (A @ B)"
    using fl chain freeu d len unfolding freelist_def by auto
  moreover have "if j \<in> insert i X then held_entry (u ! j) else used_entry (u ! j)"
    if "j < length t" "0 < j" "j \<notin> set (A @ B)" for j
    using sl that same [of j] held by (cases "j = i") (auto simp: slots_wf_def)
  then have "slots_wf u (A @ B) (insert i X)"
    using sl freeu [of 0] i d unfolding slots_wf_def len by auto
  moreover have "entry_type (u ! j) = entry_type (t ! j)" if "j < length t" for j
    using that free_entry_type [OF free, of i] type_none_iff [OF g] by (simp add: ent)
  then have "naming_slots u = naming_slots t"
    unfolding naming_slots_def len by (intro Collect_cong) auto
  moreover have "ob u j = ob t j" if "j \<in> naming_slots t" for j
    using that by (simp add: ent naming_slots_def)
  ultimately have "table_base u (A @ B) (insert i X)"
    using tb inj len by (simp add: table_base_def inj_on_def)
  then show ?thesis by (simp only: u_def)
qed

text \<open>Putting slot \<open>i\<close> back at the head of the free list.\<close>

lemma table_base_release:
  assumes tb: "table_base t L X" and i: "0 < i" "i < length t" "i \<notin> set L"
    and e: "free_entry e" "ie_request e = ie_next (t ! 0)"
  shows "table_base (t[i := e, 0 := (t ! 0)\<lparr>ie_request := i\<rparr>]) (i # L) (X - {i})"
proof -
  define u where "u = t[i := e, 0 := (t ! 0)\<lparr>ie_request := i\<rparr>]"
  have fl: "freelist t L" and sl: "slots_wf t L X" and inj: "inj_on (ob t) (naming_slots t)"
    using tb by (auto simp: table_base_def)
  have len: "length u = length t" by (simp add: u_def)
  have pos: "0 < length t" using i(2) by linarith
  have ent: "u ! j = (if j = 0 then (t ! 0)\<lparr>ie_request := i\<rparr> else if j = i then e else t ! j)"
    if "j < length t" for j
    unfolding u_def using that i by (cases "j = 0"; cases "j = i") simp_all
  have f0: "free_entry (t ! 0)" using sl by (simp add: slots_wf_def)
  have "freelist u (i # L)"
    unfolding u_def using fl i e by (rule freelist_push)
  moreover have "slots_wf u (i # L) (X - {i})"
    using sl pos unfolding slots_wf_def len by (simp add: ent free_entry_def) blast
  moreover have sub: "j \<in> naming_slots t \<and> ob u j = ob t j" if "j \<in> naming_slots u" for j
    using that free_entry_type [OF e(1)] free_entry_type [OF f0] ent [of j]
    by (cases "j = 0"; cases "j = i") (simp_all add: naming_slots_def len)
  then have "inj_on (ob u) (naming_slots u)"
    using inj by (simp add: inj_on_def)
  ultimately have "table_base u (i # L) (X - {i})"
    using tb len by (simp add: table_base_def)
  then show ?thesis by (simp only: u_def)
qed


text \<open>Updates of slots that are not hashed.\<close>

lemma hash_wf_unhashed_update:
  assumes "hash_wf t (send_slots t)" "ie_index e = ix t i"
    and "entry_type e \<noteq> MACH_PORT_TYPE_SEND" "entry_type (t ! i) \<noteq> MACH_PORT_TYPE_SEND"
  shows "hash_wf (t[i := e]) (send_slots (t[i := e]))"
proof -
  have i: "i \<notin> send_slots t" using assms(4) by (simp add: send_slots_def)
  then have "send_slots (t[i := e]) = send_slots t"
    using assms(3) by (auto simp: slots_update(1))
  then show ?thesis
    using hash_wf_update [OF assms(1,2)] i by simp
qed

text \<open>Updates of a hashed slot that keep its object.\<close>

lemma hash_wf_send_update:
  assumes "hash_wf t (send_slots t)" "ie_index e = ix t i" "i < length t" "ie_object e = ob t i"
    and "entry_type e = MACH_PORT_TYPE_SEND" "entry_type (t ! i) = MACH_PORT_TYPE_SEND"
  shows "hash_wf (t[i := e]) (send_slots (t[i := e]))"
proof -
  have "i \<in> send_slots t" using assms(3,6) by (simp add: send_slots_def)
  then have "send_slots (t[i := e]) = send_slots t"
    using assms(3,5) by (auto simp: slots_update(1))
  then show ?thesis
    using hash_wf_update [OF assms(1,2)] assms(4) by simp
qed

lemma not_send_type: "IE_BITS_TYPE b = 0 \<Longrightarrow> IE_BITS_TYPE b \<noteq> MACH_PORT_TYPE_SEND"
  by simp

subsection \<open>What the operations do\<close>

lemma ipc_entry_lookup_iff:
  "ipc_entry_lookup sp name = Some i \<longleftrightarrow>
     i = MACH_PORT_INDEX name \<and> i < length (is_table sp)
     \<and> IE_BITS_GEN (ie_bits (is_table sp ! i)) = MACH_PORT_GEN name
     \<and> entry_type (is_table sp ! i) \<noteq> 0"
  by (auto simp: ipc_entry_lookup_def Let_def is_table_size_def)

lemma lookup_slot:
  assumes "table_wf (is_table sp) L X" "ipc_entry_lookup sp name = Some i"
  shows "0 < i" "i < length (is_table sp)" "i \<notin> set L" "i \<notin> X" "used_entry (is_table sp ! i)"
    "MACH_PORT_INDEX name = i"
proof -
  show "MACH_PORT_INDEX name = i" and i: "i < length (is_table sp)"
    using assms(2) by (simp_all add: ipc_entry_lookup_iff)
  have "entry_type (is_table sp ! i) \<noteq> 0"
    using assms(2) by (auto simp: ipc_entry_lookup_iff)
  from table_base_used [OF table_wfD(1) [OF assms(1)] i this]
  show "0 < i" "i \<notin> set L" "i \<notin> X" "used_entry (is_table sp ! i)" by simp_all
qed

text \<open>The unlinking of a free slot, shared by \<open>ipc_entry_claim\<close> and \<open>ipc_entry_alloc_name\<close>.\<close>

lemma table_wf_unlink:
  assumes wf: "table_wf t (A @ i # B) X" and g: "IE_BITS_GEN g = g" and p: "p = last (0 # A)"
  shows "table_wf (t[p := (t ! p)\<lparr>ie_request := ie_next (t ! i)\<rparr>,
                     i := (t ! i)\<lparr>ie_bits := g, ie_request := IE_REQ_NONE\<rparr>]) (A @ B) (insert i X)"
proof -
  have fl: "freelist t (A @ i # B)" using wf by (rule table_wfD)
  have "p \<in> set (A @ i # B) \<or> p = 0" unfolding p by (auto simp: last_in_set)
  then have fp: "entry_type (t ! p) = 0" and fi: "entry_type (t ! i) = 0"
    using table_base_free [OF table_wfD(1) [OF wf]] free_entry_type by auto
  have "i \<noteq> p"
    using freelist_bounds [OF fl, of i] fl unfolding p freelist_def by (auto simp: last_in_set)
  then have "hash_wf (t[p := (t ! p)\<lparr>ie_request := ie_next (t ! i)\<rparr>,
                     i := (t ! i)\<lparr>ie_bits := g, ie_request := IE_REQ_NONE\<rparr>])
     (send_slots (t[p := (t ! p)\<lparr>ie_request := ie_next (t ! i)\<rparr>,
                     i := (t ! i)\<lparr>ie_bits := g, ie_request := IE_REQ_NONE\<rparr>]))"
    using fp fi type_none_iff [OF g]
    by (auto intro!: hash_wf_unhashed_update table_wfD(2) [OF wf])
  then show ?thesis
    unfolding table_wf_def
    using table_base_unlink [OF table_wfD(1) [OF wf] g] p by blast
qed

lemma ipc_entry_claim_spec:
  assumes wf: "space_wf sp (i # L) X"
  defines "t \<equiv> is_table sp"
  shows "ipc_entry_claim sp = Some
      (sp\<lparr>is_table_free := is_table_free sp - 1,
          is_table := t[0 := (t ! 0)\<lparr>ie_request := ie_next (t ! i)\<rparr>,
                        i := (t ! i)\<lparr>ie_bits := IE_BITS_NEW_GEN (ie_bits (t ! i)),
                                    ie_request := IE_REQ_NONE\<rparr>]\<rparr>,
       MACH_PORT_MAKE i (IE_BITS_NEW_GEN (ie_bits (t ! i))), i)"
proof -
  have fl: "freelist t (i # L)" and pos: "0 < length t"
    using wf by (auto simp: space_wf_def t_def dest: table_wfD)
  then have "ie_next (t ! 0) = i" "0 < i" "i < length t"
    by (auto simp: freelist_def)
  then show ?thesis
    using pos unfolding t_def
    by (simp add: ipc_entry_claim_def entry_at_def upd_entry_def Let_def)
qed

lemma ipc_entry_claim_wf:
  assumes wf: "space_wf sp (i # L) X" and c: "ipc_entry_claim sp = Some (sp', name, j)"
  shows "space_wf sp' L (insert i X)" "j = i" "MACH_PORT_INDEX name = i" "MACH_PORT_VALID name"
    "ipc_entry_lookup sp name = None" "MACH_PORT_GEN name = IE_BITS_GEN (ie_bits (is_table sp' ! i))"
proof -
  let ?t = "is_table sp" and ?g = "IE_BITS_NEW_GEN (ie_bits (is_table sp ! i))"
  have tw: "table_wf ?t ([] @ i # L) X" and free: "is_table_free sp = of_nat (Suc (length L))"
    using wf by (simp_all add: space_wf_def)
  have i: "0 < i" "i < length ?t" "i < 2 ^ 24 - 1"
    using freelist_bounds [OF table_wfD(4) [OF tw], of i] table_wfD(3) [OF tw] by auto
  note eq = c [unfolded ipc_entry_claim_spec [OF wf]]
  show "space_wf sp' L (insert i X)"
    using table_wf_unlink [OF tw, of ?g 0] eq free by (auto simp: space_wf_def)
  show "j = i" using eq by simp
  have name: "name = MACH_PORT_MAKE i ?g" using eq by auto
  then show idx: "MACH_PORT_INDEX name = i" "MACH_PORT_VALID name"
    using i by (auto intro: MACH_PORT_MAKE_valid)
  show "ipc_entry_lookup sp name = None"
    using free_entry_type [OF table_base_free [OF table_wfD(1) [OF tw], of i]] i
    by (simp add: ipc_entry_lookup_def idx Let_def)
  show "MACH_PORT_GEN name = IE_BITS_GEN (ie_bits (is_table sp' ! i))"
    using name eq i by auto
qed


lemma ipc_entry_modified_fields [simp]:
  "is_table (ipc_entry_modified sp name) = is_table sp"
  "is_table_free (ipc_entry_modified sp name) = is_table_free sp"
  "is_self (ipc_entry_modified sp name) = is_self sp"
  "is_bits (ipc_entry_modified sp name) = is_bits sp"
  "is_table_next (ipc_entry_modified sp name) = is_table_next sp"
  "is_task (ipc_entry_modified sp name) = is_task sp"
  by (simp_all add: ipc_entry_modified_def Let_def)

lemma space_wf_modified [simp]: "space_wf (ipc_entry_modified sp name) L X = space_wf sp L X"
  by (simp add: space_wf_def)

lemma ipc_entry_modified_range:
  "is_low_mod (ipc_entry_modified sp name) = min (is_low_mod sp) (MACH_PORT_INDEX name)"
  "is_high_mod (ipc_entry_modified sp name) = max (is_high_mod sp) (MACH_PORT_INDEX name)"
  by (simp_all add: ipc_entry_modified_def Let_def)

lemma ipc_entries_hold_spec:
  assumes "space_wf sp L X"
  shows "ipc_entries_hold sp k = Some (if k \<le> length L then KERN_SUCCESS else KERN_NO_SPACE)"
  using assms unfolding ipc_entries_hold_def
  by (intro ipc_entries_hold_loop_chain) (auto simp: space_wf_def table_wf_def table_base_def freelist_def)

text \<open>
  Releasing slot \<open>i\<close>: \<open>t\<close> is the table just before the release, in which the slot
  has already lost its object and left the reverse table.
\<close>

lemma table_wf_release:
  assumes tb: "table_base t0 L X" and t: "same_payload (t0[i := e]) t"
    and h: "hash_wf t (send_slots t0 - {i})" and i: "0 < i" "i < length t0" "i \<notin> set L"
    and e: "ie_object e = IO_NULL"
  shows "table_wf (t[i := (t ! i)\<lparr>ie_bits := ie_bits (t ! i) AND IE_BITS_GEN_MASK,
                                 ie_request := ie_next (t ! 0)\<rparr>,
                     0 := (t ! 0)\<lparr>ie_request := i\<rparr>]) (i # L) (X - {i})"
proof -
  define f where "f = e\<lparr>ie_bits := ie_bits e AND IE_BITS_GEN_MASK, ie_request := ie_next (t0 ! 0)\<rparr>"
  define u where "u = t[i := (t ! i)\<lparr>ie_bits := ie_bits (t ! i) AND IE_BITS_GEN_MASK,
                                 ie_request := ie_next (t ! 0)\<rparr>, 0 := (t ! 0)\<lparr>ie_request := i\<rparr>]"
  define u0 where "u0 = t0[i := f, 0 := (t0 ! 0)\<lparr>ie_request := i\<rparr>]"
  have pos: "0 < length t0" using i(2) by linarith
  have free: "free_entry f"
    using e by (simp add: f_def free_entry_def IE_BITS_GEN_def and.assoc)
  have base: "table_base u0 (i # L) (X - {i})"
    unfolding u0_def using free by (intro table_base_release [OF tb i]) (simp_all add: f_def)
  note len = same_payload_length [OF t]
  have fld: "ie_object (t ! j) = ie_object (if j = i then e else t0 ! j)
      \<and> ie_bits (t ! j) = ie_bits (if j = i then e else t0 ! j)
      \<and> ie_request (t ! j) = ie_request (if j = i then e else t0 ! j)" if "j < length t0" for j
    using same_payload_fields [OF t, of j] that by simp
  have pay: "same_payload u0 u"
  proof (rule same_payloadI)
    fix j assume "j < length u0"
    then have j: "j < length t0" by (simp add: u0_def)
    consider "j = 0" | "j = i" | "j \<noteq> 0" "j \<noteq> i" by blast
    then show "ie_object (u ! j) = ie_object (u0 ! j) \<and> ie_bits (u ! j) = ie_bits (u0 ! j)
        \<and> ie_request (u ! j) = ie_request (u0 ! j)"
      by cases (use fld [OF j] fld [OF pos] j pos i len in
          \<open>simp_all add: u_def u0_def f_def split: if_splits\<close>)
  qed (use len in \<open>simp add: u_def u0_def\<close>)
  have f0: "entry_type (t0 ! 0) = 0"
    using free_entry_type [OF table_base_free [OF tb, of 0]] by simp
  have "send_slots u0 = send_slots t0 - {i}"
    using i pos f0 free_entry_type [OF free]
    by (auto simp: u0_def send_slots_def nth_list_update split: if_splits intro: gr0I)
  moreover have "hash_wf u (send_slots t0 - {i})"
    unfolding u_def using i f0 by (intro hash_wf_update h) (auto simp: send_slots_def)
  ultimately show ?thesis
    using table_base_payload [OF base pay] slots_payload(1) [OF pay]
    by (simp add: table_wf_def u_def)
qed

lemma ipc_entry_dealloc_spec:
  assumes tb: "table_base t0 L X" and t: "same_payload (t0[i := e]) (is_table sp)"
    and h: "hash_wf (is_table sp) (send_slots t0 - {i})" and i: "0 < i" "i < length t0" "i \<notin> set L"
    and e: "ie_object e = IO_NULL" "ie_request e = IE_REQ_NONE"
    and n: "MACH_PORT_INDEX name = i" and free: "is_table_free sp = of_nat (length L)"
  shows "\<exists>sp'. ipc_entry_dealloc sp name i = Some sp' \<and> space_wf sp' (i # L) (X - {i})
           \<and> is_self sp' = is_self sp \<and> is_bits sp' = is_bits sp
           \<and> is_table_next sp' = is_table_next sp \<and> is_task sp' = is_task sp
           \<and> (\<forall>j < length t0. j \<noteq> i \<longrightarrow> ie_object (is_table sp' ! j) = ie_object (t0 ! j)
                \<and> ie_bits (is_table sp' ! j) = ie_bits (t0 ! j))
           \<and> ie_bits (is_table sp' ! i) = IE_BITS_GEN (ie_bits e)
           \<and> length (is_table sp') = length t0"
proof -
  let ?t = "is_table sp"
  have len: "length ?t = length t0" using same_payload_length [OF t] by simp
  have pos: "0 < length t0" using i(2) by linarith
  have ei: "ie_request (?t ! i) = 0" "ie_bits (?t ! i) = ie_bits e"
    using same_payload_fields [OF t, of i] i e by simp_all
  have ej: "ie_object (?t ! j) = ie_object (t0 ! j) \<and> ie_bits (?t ! j) = ie_bits (t0 ! j)"
    if "j < length t0" "j \<noteq> i" for j
    using same_payload_fields [OF t, of j] that by simp
  define u where "u = ?t[i := (?t ! i)\<lparr>ie_bits := ie_bits (?t ! i) AND IE_BITS_GEN_MASK,
                             ie_request := ie_next (?t ! 0)\<rparr>, 0 := (?t ! 0)\<lparr>ie_request := i\<rparr>]"
  have "ipc_entry_dealloc sp name i =
      Some (ipc_entry_modified (sp\<lparr>is_table := u, is_table_free := is_table_free sp + 1\<rparr>) name)"
    using ei i pos n len
    by (simp add: ipc_entry_dealloc_def entry_at_def is_table_size_def upd_entry_def Let_def u_def)
  moreover have "table_wf u (i # L) (X - {i})"
    unfolding u_def by (rule table_wf_release [OF tb t h i e(1)])
  moreover have "ie_object (u ! j) = ie_object (t0 ! j) \<and> ie_bits (u ! j) = ie_bits (t0 ! j)"
    if "j < length t0" "j \<noteq> i" for j
    using ej [OF that] that len by (cases "j = 0") (simp_all add: u_def)
  moreover have "ie_bits (u ! i) = IE_BITS_GEN (ie_bits e)" "length u = length t0"
    using i ei len by (simp_all add: u_def IE_BITS_GEN_def)
  ultimately show ?thesis
    using free by (simp add: space_wf_def)
qed


lemma lookup_cong:
  assumes "length (is_table sp') = length (is_table sp)"
    and "\<And>j. j < length (is_table sp) \<Longrightarrow>
      entry_type (is_table sp' ! j) = entry_type (is_table sp ! j)
      \<and> (entry_type (is_table sp ! j) \<noteq> 0 \<longrightarrow>
           IE_BITS_GEN (ie_bits (is_table sp' ! j)) = IE_BITS_GEN (ie_bits (is_table sp ! j)))"
  shows "ipc_entry_lookup sp' name = ipc_entry_lookup sp name"
  using assms(1) assms(2) [of "MACH_PORT_INDEX name"]
  by (auto simp: ipc_entry_lookup_def is_table_size_def Let_def)

text \<open>
  \<open>space_extends sp sp'\<close>: the rights of \<open>sp\<close> are untouched in \<open>sp'\<close>, whose table may be larger
  and may have other free slots claimed.
\<close>

definition space_extends :: "ipc_space \<Rightarrow> ipc_space \<Rightarrow> bool" where
  "space_extends sp sp' \<longleftrightarrow>
     is_self sp' = is_self sp \<and> is_task sp' = is_task sp \<and> is_active sp' = is_active sp
     \<and> is_growing sp' = is_growing sp \<and> length (is_table sp) \<le> length (is_table sp')
     \<and> (\<forall>j < length (is_table sp).
          ie_object (is_table sp' ! j) = ie_object (is_table sp ! j)
          \<and> entry_type (is_table sp' ! j) = entry_type (is_table sp ! j)
          \<and> (entry_type (is_table sp ! j) \<noteq> 0 \<longrightarrow> ie_bits (is_table sp' ! j) = ie_bits (is_table sp ! j)
               \<and> ie_request (is_table sp' ! j) = ie_request (is_table sp ! j)))
     \<and> (\<forall>j < length (is_table sp'). length (is_table sp) \<le> j \<longrightarrow>
          ie_object (is_table sp' ! j) = IO_NULL \<and> entry_type (is_table sp' ! j) = 0)"

lemma space_extendsD:
  assumes "space_extends sp sp'"
  shows "is_self sp' = is_self sp" "is_task sp' = is_task sp" "is_active sp' = is_active sp"
    "is_growing sp' = is_growing sp" "length (is_table sp) \<le> length (is_table sp')"
    "j < length (is_table sp) \<Longrightarrow> ie_object (is_table sp' ! j) = ie_object (is_table sp ! j)"
    "j < length (is_table sp) \<Longrightarrow> entry_type (is_table sp' ! j) = entry_type (is_table sp ! j)"
    "j < length (is_table sp) \<Longrightarrow> entry_type (is_table sp ! j) \<noteq> 0 \<Longrightarrow>
       ie_bits (is_table sp' ! j) = ie_bits (is_table sp ! j)
       \<and> ie_request (is_table sp' ! j) = ie_request (is_table sp ! j)"
    "length (is_table sp) \<le> j \<Longrightarrow> j < length (is_table sp') \<Longrightarrow>
       ie_object (is_table sp' ! j) = IO_NULL \<and> entry_type (is_table sp' ! j) = 0"
  using assms by (simp_all add: space_extends_def)

lemma space_extends_refl: "space_extends sp sp"
  by (simp add: space_extends_def)

lemma space_extends_trans:
  assumes "space_extends sp sp'" "space_extends sp' sp''"
  shows "space_extends sp sp''"
proof -
  note d1 = space_extendsD [OF assms(1)] and d2 = space_extendsD [OF assms(2)]
  have "ie_object (is_table sp'' ! j) = ie_object (is_table sp ! j)
      \<and> entry_type (is_table sp'' ! j) = entry_type (is_table sp ! j)
      \<and> (entry_type (is_table sp ! j) \<noteq> 0 \<longrightarrow> ie_bits (is_table sp'' ! j) = ie_bits (is_table sp ! j)
           \<and> ie_request (is_table sp'' ! j) = ie_request (is_table sp ! j))"
    if "j < length (is_table sp)" for j
  proof -
    have j: "j < length (is_table sp')" using that d1(5) by linarith
    show ?thesis using d1(6-8) [OF that] d2(6-8) [OF j] by simp
  qed
  moreover have "ie_object (is_table sp'' ! j) = IO_NULL \<and> entry_type (is_table sp'' ! j) = 0"
    if "length (is_table sp) \<le> j" "j < length (is_table sp'')" for j
    using d1(9) [OF that(1)] d2(6,7) [of j] d2(9) [OF _ that(2)]
    by (cases "j < length (is_table sp')") simp_all
  ultimately show ?thesis
    using d1(1-5) d2(1-5) unfolding space_extends_def by simp
qed

lemma space_extends_lookup:
  assumes "space_extends sp sp'"
  shows "ipc_entry_lookup sp' name = ipc_entry_lookup sp name"
proof -
  note d = space_extendsD [OF assms]
  note j = d(6-9) [of "MACH_PORT_INDEX name"]
  show ?thesis
    using d(5) j by (auto simp: ipc_entry_lookup_def is_table_size_def Let_def)
qed

lemma unlink_extends:
  assumes wf: "table_wf (is_table sp) (A @ i # B) X" and g: "IE_BITS_GEN g = g"
    and p: "p = last (0 # A)" and t: "is_table sp' = (is_table sp)
      [p := (is_table sp ! p)\<lparr>ie_request := q\<rparr>,
       i := (is_table sp ! i)\<lparr>ie_bits := g, ie_request := r\<rparr>]"
    and f: "is_self sp' = is_self sp" "is_task sp' = is_task sp" "is_bits sp' = is_bits sp"
  shows "space_extends sp sp'"
proof -
  have "p \<in> set (A @ i # B) \<or> p = 0" unfolding p by (auto simp: last_in_set)
  then have free: "entry_type (is_table sp ! i) = 0" "entry_type (is_table sp ! p) = 0"
    using free_entry_type [OF table_base_free [OF table_wfD(1) [OF wf]]] by auto
  have "ie_object (is_table sp' ! j) = ie_object (is_table sp ! j)
      \<and> entry_type (is_table sp' ! j) = entry_type (is_table sp ! j)
      \<and> (entry_type (is_table sp ! j) \<noteq> 0 \<longrightarrow> ie_bits (is_table sp' ! j) = ie_bits (is_table sp ! j)
           \<and> ie_request (is_table sp' ! j) = ie_request (is_table sp ! j))"
    if "j < length (is_table sp)" for j
    using that free type_none_iff [OF g] unfolding t by (cases "j = i"; cases "j = p") simp_all
  moreover have "length (is_table sp') = length (is_table sp)" by (simp add: t)
  ultimately show ?thesis
    using f unfolding space_extends_def by (simp add: is_active_def is_growing_def)
qed

text \<open>Creation of a space establishes the invariant, with every slot but 0 on the free list.\<close>

lemma free_chain_upt:
  assumes "\<And>j. j < length t \<Longrightarrow> ie_next (t ! j) = (if j = length t - 1 then 0 else j + 1)"
    and "i < length t"
  shows "free_chain t i [i + 1..<length t]"
  using assms(2)
proof (induction "length t - i" arbitrary: i)
  case (Suc d)
  show ?case
  proof (cases "i + 1 < length t")
    case True
    then have "free_chain t (i + 1) [i + 1 + 1..<length t]"
      using Suc by (intro Suc.hyps) auto
    then show ?thesis
      using True assms(1) [OF Suc.prems] by (simp add: upt_rec [of "Suc i"])
  next
    case False
    then show ?thesis using assms(1) [OF Suc.prems] Suc.prems by simp
  qed
qed simp

lemma ipc_space_init_table_wf:
  assumes "0 < n" "n < 2 ^ 24"
  shows "table_wf (ipc_space_init_table n) [1..<n] {}"
proof -
  let ?t = "ipc_space_init_table n"
  have len: "length ?t = n" by (simp add: ipc_space_init_table_def)
  have ent: "ie_object (?t ! j) = IO_NULL \<and> ie_bits (?t ! j) = 0xff000000 \<and> ie_index (?t ! j) = 0
      \<and> ie_next (?t ! j) = (if j = n - 1 then 0 else j + 1)" if "j < n" for j
    using that by (simp add: ipc_space_init_table_def)
  have free: "free_entry (?t ! j)" and untyped: "entry_type (?t ! j) = 0" if "j < n" for j
    using ent [OF that] by (simp_all add: free_entry_def IE_BITS_GEN_def IE_BITS_TYPE_def)
  have "free_chain ?t 0 [0 + 1..<length ?t]"
    using ent assms(1) by (intro free_chain_upt) (simp_all add: len)
  then have "freelist ?t [1..<n]"
    using assms(1) len free by (auto simp: freelist_def)
  moreover have none: "naming_slots ?t = {}" "send_slots ?t = {}"
    using untyped by (auto simp: naming_slots_def send_slots_def len)
  moreover have "hash_wf ?t {}"
    using ent by (simp add: hash_wf_def len)
  moreover have "slots_wf ?t [1..<n] {}"
    using free assms(1) by (auto simp: slots_wf_def len)
  ultimately show ?thesis
    using assms(2) len by (simp add: table_wf_def table_base_def)
qed

lemma ipc_space_initial_wf:
  assumes "0 < n" "n < 2 ^ 24"
  shows "space_wf (ipc_space_initial self n k) [1..<n] {}"
  using ipc_space_init_table_wf [OF assms] by (simp add: space_wf_def ipc_space_initial_def)

lemma ipc_entry_alloc_name_free:
  assumes wf: "space_wf sp L X" and i: "MACH_PORT_INDEX name = i" "i \<in> set L"
  shows "\<exists>sp' A B. L = A @ i # B \<and> ipc_entry_alloc_name_table sp name = Some (Inr (sp', i))
           \<and> space_wf sp' (A @ B) (insert i X) \<and> space_extends sp sp'
           \<and> ie_bits (is_table sp' ! i) = MACH_PORT_GEN name
           \<and> is_table_next sp' = is_table_next sp \<and> length (is_table sp') = length (is_table sp)"
proof -
  let ?t = "is_table sp"
  obtain A B where L: "L = A @ i # B" using i(2) split_list by metis
  define p where "p = last (0 # A)"
  have tw: "table_wf ?t (A @ i # B) X" and fr: "is_table_free sp = of_nat (length L)"
    using wf by (auto simp: space_wf_def L)
  have fl: "freelist ?t (A @ i # B)" using tw by (rule table_wfD)
  have bnd: "0 < i" "i < length ?t"
    using freelist_bounds [OF fl, of i] by auto
  have pred: "free_predecessor ?t i 0 = Some p"
    unfolding p_def using fl by (intro free_predecessor_found) (auto simp: freelist_def)
  have ty: "entry_type (?t ! i) = 0"
    using free_entry_type [OF table_base_free [OF table_wfD(1) [OF tw], of i]] by simp
  have "p \<noteq> i"
    using fl bnd unfolding p_def freelist_def by (auto simp: last_in_set)
  define u where "u = ?t[p := (?t ! p)\<lparr>ie_request := ie_next (?t ! i)\<rparr>,
      i := (?t ! i)\<lparr>ie_bits := MACH_PORT_GEN name, ie_request := IE_REQ_NONE\<rparr>]"
  obtain sp' where sp': "ipc_entry_alloc_name_table sp name = Some (Inr (sp', i))"
      "is_table sp' = u" "is_table_free sp' = is_table_free sp - 1" "is_self sp' = is_self sp"
      "is_task sp' = is_task sp" "is_bits sp' = is_bits sp" "is_table_next sp' = is_table_next sp"
    using pred ty bnd \<open>p \<noteq> i\<close>
    by (simp add: ipc_entry_alloc_name_table_def i(1) Let_def upd_entry_def u_def)
  have "table_wf u (A @ B) (insert i X)"
    unfolding u_def by (intro table_wf_unlink [OF tw]) (simp_all add: p_def)
  then have "space_wf sp' (A @ B) (insert i X)"
    using sp' fr L by (simp add: space_wf_def)
  moreover have "space_extends sp sp'"
    by (rule unlink_extends [OF tw _ p_def]) (simp_all add: sp'(2) u_def sp'(4-6))
  moreover have "ie_bits (is_table sp' ! i) = MACH_PORT_GEN name" "length (is_table sp') = length ?t"
    using bnd by (simp_all add: sp'(2) u_def)
  ultimately show ?thesis using sp' L by blast
qed

end
