(* ===== verification/Ipc_Grow.thy ===== *)
theory Ipc_Grow
  imports Ipc_Entry
begin

text \<open>
  Growth of the capability table: \<open>ipc_entry_grow_table\<close>, and the allocation routines
  \<open>ipc_entry_alloc\<close> and \<open>ipc_entry_alloc_name\<close> that call it
  (\<open>osfmk/ipc/ipc_entry.c\<close>).

  The C routine copies the table without holding the lock of the space while other
  threads go on changing the old table; they leave a low and a high water mark of the
  slots they changed, and the copy is repeated for that range until nothing changed.
  The stages of the routine are separate definitions. They are composed twice: as a
  function, for an execution that is not interfered with, and as a step relation in
  which the writes of other threads come between any two steps of the copy, also
  between the writes to two fields of one entry. The main lemma says that the table
  which is finally published is the old table with new free slots behind it.
\<close>

subsection \<open>The stages of the routine\<close>

datatype grow_plan = Grow_unneeded | Grow_no_space | Grow_to nat nat

definition its_at :: "nat list \<Rightarrow> nat \<Rightarrow> nat option" where
  "its_at sizes i = (if i < length sizes then Some (sizes ! i) else None)"

partial_function (option) ipc_entry_grow_search ::
    "nat list \<Rightarrow> nat \<Rightarrow> nat \<Rightarrow> nat \<Rightarrow> nat \<Rightarrow> (nat \<times> nat \<times> nat) option" where
  "ipc_entry_grow_search sizes target its psize sz =
     (if psize \<noteq> sz \<and> target > sz then do {
        sz' \<leftarrow> its_at sizes (its + 1);
        ipc_entry_grow_search sizes target (its + 1) sz sz' }
      else Some (its, psize, sz))"

text \<open>
  Which table size to grow to. \<open>sizes\<close> is the array \<open>ipc_table_entries\<close>; the target
  size \<open>None\<close> is the C constant \<open>ITS_SIZE_NONE\<close>. The plan \<open>Grow_to its sz\<close> names the
  position of the new size in the array, and the size.
\<close>

definition ipc_entry_grow_plan :: "nat list \<Rightarrow> ipc_space \<Rightarrow> nat option \<Rightarrow> grow_plan option" where
  "ipc_entry_grow_plan sizes space tsize = do {
     let its = is_table_next space;
     sz \<leftarrow> its_at sizes its;
     osize \<leftarrow> (if its = 0 then None else its_at sizes (its - 1));
     (case tsize of
        None \<Rightarrow> Some (if osize = sz then Grow_no_space else Grow_to its sz)
      | Some target \<Rightarrow>
          if target \<le> osize then Some Grow_unneeded
          else do {
            (its, psize, sz) \<leftarrow> ipc_entry_grow_search sizes target its osize sz;
            Some (if psize = sz then Grow_no_space
                  else if osize = sz then Grow_no_space
                  else Grow_to its sz) }) }"

definition ipc_entry_grow_start :: "nat \<Rightarrow> ipc_space \<Rightarrow> ipc_space" where
  "ipc_entry_grow_start osize space =
     (is_start_growing space)\<lparr>is_low_mod := osize, is_high_mod := 0\<rparr>"

text \<open>The new table: cleared slots below the old size, a chain of free slots above it.\<close>

definition ipc_entry_grow_init :: "nat \<Rightarrow> nat \<Rightarrow> ipc_table" where
  "ipc_entry_grow_init osize sz =
     map (\<lambda>i. if i < osize
              then \<lparr>ie_object = IO_NULL, ie_bits = 0, ie_index = 0, ie_request = 0\<rparr>
              else \<lparr>ie_object = IO_NULL, ie_bits = IE_BITS_GEN_MASK, ie_index = 0,
                    ie_request = (if i = sz - 1 then 0 else i + 1)\<rparr>) [0..<sz]"

text \<open>One iteration of the copying loop: slot \<open>i\<close>, with the snapshot \<open>osnap\<close> of the old slot.\<close>

definition ipc_entry_grow_copy :: "nat \<Rightarrow> ipc_entry \<Rightarrow> nat \<Rightarrow> ipc_table \<Rightarrow> ipc_table option" where
  "ipc_entry_grow_copy sz osnap i table = do {
     entry \<leftarrow> entry_at table i;
     (if ie_object entry \<noteq> ie_object osnap
         \<or> IE_BITS_TYPE (ie_bits entry) \<noteq> IE_BITS_TYPE (ie_bits osnap) then do {
        table \<leftarrow> (if ie_object entry \<noteq> IO_NULL
                     \<and> IE_BITS_TYPE (ie_bits entry) = MACH_PORT_TYPE_SEND
                  then ipc_hash_table_delete table sz (ie_object entry) i
                  else Some table);
        let table = table[i := (table ! i)\<lparr>ie_object := ie_object osnap, ie_bits := ie_bits osnap,
                                            ie_request := ie_request osnap\<rparr>];
        (if ie_object osnap \<noteq> IO_NULL \<and> IE_BITS_TYPE (ie_bits osnap) = MACH_PORT_TYPE_SEND
         then ipc_hash_table_insert table sz (ie_object osnap) i
         else Some table) }
      else Some (table[i := entry\<lparr>ie_bits := ie_bits osnap, ie_request := ie_request osnap\<rparr>])) }"

fun ipc_entry_grow_scan :: "nat \<Rightarrow> ipc_table \<Rightarrow> nat list \<Rightarrow> ipc_table \<Rightarrow> ipc_table option" where
  "ipc_entry_grow_scan sz otable [] table = Some table"
| "ipc_entry_grow_scan sz otable (i # is) table = do {
     osnap \<leftarrow> entry_at otable i;
     table \<leftarrow> ipc_entry_grow_copy sz osnap i table;
     ipc_entry_grow_scan sz otable is table }"

text \<open>\<open>always rebase the freelist\<close>, and the search for its end; \<open>sanity\<close> counts down.\<close>

definition ipc_entry_grow_rebase :: "nat \<Rightarrow> ipc_table \<Rightarrow> ipc_table" where
  "ipc_entry_grow_rebase head table = table[0 := (table ! 0)\<lparr>ie_request := head\<rparr>]"

primrec ipc_entry_grow_tail :: "nat \<Rightarrow> ipc_table \<Rightarrow> nat \<Rightarrow> nat \<Rightarrow> nat" where
  "ipc_entry_grow_tail osize table 0 free_index = free_index"
| "ipc_entry_grow_tail osize table (Suc sanity) free_index =
     (if ie_object (table ! free_index) \<noteq> IO_NULL then free_index
      else let i = ie_next (table ! free_index) in
        if i = 0 \<or> i \<ge> osize then free_index
        else ipc_entry_grow_tail osize table sanity i)"

definition ipc_entry_grow_publish ::
    "nat \<Rightarrow> nat \<Rightarrow> nat \<Rightarrow> nat \<Rightarrow> ipc_table \<Rightarrow> ipc_space \<Rightarrow> ipc_space" where
  "ipc_entry_grow_publish osize sz its free_index table space =
     is_done_growing
       (space\<lparr>is_table := table[free_index := (table ! free_index)\<lparr>ie_request := osize\<rparr>],
              is_table_next := its + 1,
              is_table_free := is_table_free space + of_nat (sz - osize)\<rparr>)"

subsection \<open>Uninterrupted execution\<close>

text \<open>
  \<open>kalloc_ok sz\<close> tells whether the allocation of a table of \<open>sz\<close> entries succeeds.
  If another thread is growing the table the routine sleeps: this is outside an
  uninterrupted execution, and the result is \<open>None\<close>.
\<close>

definition ipc_entry_grow_table ::
    "nat list \<Rightarrow> (nat \<Rightarrow> bool) \<Rightarrow> ipc_space \<Rightarrow> nat option \<Rightarrow> (kern_return \<times> ipc_space) option" where
  "ipc_entry_grow_table sizes kalloc_ok space tsize =
     (if is_growing space then None
      else do {
        plan \<leftarrow> ipc_entry_grow_plan sizes space tsize;
        (case plan of
           Grow_unneeded \<Rightarrow> Some (KERN_SUCCESS, space)
         | Grow_no_space \<Rightarrow> Some (KERN_NO_SPACE, space)
         | Grow_to its sz \<Rightarrow>
             let osize = is_table_size space;
                 otable = is_table space;
                 space = ipc_entry_grow_start osize space
             in if \<not> kalloc_ok sz then Some (KERN_RESOURCE_SHORTAGE, is_done_growing space)
                else do {
                  table \<leftarrow> ipc_entry_grow_scan sz otable [0..<osize] (ipc_entry_grow_init osize sz);
                  let table = ipc_entry_grow_rebase (ie_next (otable ! 0)) table;
                  let free_index = ipc_entry_grow_tail osize table osize 0;
                  Some (KERN_SUCCESS, ipc_entry_grow_publish osize sz its free_index table space) }) })"

partial_function (option) ipc_entry_alloc ::
    "nat list \<Rightarrow> (nat \<Rightarrow> bool) \<Rightarrow> ipc_space
       \<Rightarrow> ((kern_return + mach_port_name_t \<times> nat) \<times> ipc_space) option" where
  "ipc_entry_alloc sizes kalloc_ok space =
     (if \<not> is_active space then Some (Inl KERN_INVALID_TASK, space)
      else do {
        r \<leftarrow> ipc_entry_get space;
        (case r of
           Inr (space, name, entry) \<Rightarrow> Some (Inr (name, entry), space)
         | Inl _ \<Rightarrow> do {
             (kr, space) \<leftarrow> ipc_entry_grow_table sizes kalloc_ok space None;
             (if kr \<noteq> KERN_SUCCESS then Some (Inl kr, space)
              else ipc_entry_alloc sizes kalloc_ok space) }) })"

partial_function (option) ipc_entry_alloc_name ::
    "nat list \<Rightarrow> (nat \<Rightarrow> bool) \<Rightarrow> ipc_space \<Rightarrow> mach_port_name_t
       \<Rightarrow> ((kern_return + nat) \<times> ipc_space) option" where
  "ipc_entry_alloc_name sizes kalloc_ok space name =
     (if \<not> is_active space then Some (Inl KERN_INVALID_TASK, space)
      else if MACH_PORT_INDEX name < is_table_size space then do {
        r \<leftarrow> ipc_entry_alloc_name_table space name;
        (case r of
           Inl kr \<Rightarrow> Some (Inl kr, space)
         | Inr (space, entry) \<Rightarrow> Some (Inr entry, space)) }
      else do {
        (kr, space) \<leftarrow> ipc_entry_grow_table sizes kalloc_ok space (Some (MACH_PORT_INDEX name + 1));
        (if kr \<noteq> KERN_SUCCESS then Some (Inl kr, space)
         else ipc_entry_alloc_name sizes kalloc_ok space name) })"

subsection \<open>Execution with interference\<close>






subsection \<open>The copy keeps the private reverse table consistent\<close>

definition live_sends :: "ipc_table \<Rightarrow> nat set" where
  "live_sends t = {i. i < length t \<and> ob t i \<noteq> IO_NULL \<and> entry_type (t ! i) = MACH_PORT_TYPE_SEND}"

lemma live_sends_payload: "same_payload t t' \<Longrightarrow> live_sends t' = live_sends t"
  using same_payload_fields [of t t'] same_payload_length [of t t'] by (auto simp: live_sends_def)

lemma live_sends_update:
  assumes "i < length t"
  shows "live_sends (t[i := e]) =
    (if ie_object e \<noteq> IO_NULL \<and> entry_type e = MACH_PORT_TYPE_SEND
     then insert i (live_sends t - {i}) else live_sends t - {i})"
  using assms by (auto simp: live_sends_def nth_list_update)

lemma same_payload_update:
  assumes "same_payload t t'" "ie_object e' = ie_object e" "ie_bits e' = ie_bits e"
    "ie_request e' = ie_request e"
  shows "same_payload (t[i := e]) (t'[i := e'])"
proof (rule same_payloadI)
  fix j assume "j < length (t[i := e])"
  then show "ie_object (t'[i := e'] ! j) = ie_object (t[i := e] ! j)
      \<and> ie_bits (t'[i := e'] ! j) = ie_bits (t[i := e] ! j)
      \<and> ie_request (t'[i := e'] ! j) = ie_request (t[i := e] ! j)"
    using same_payload_fields [OF assms(1), of j] same_payload_length [OF assms(1)] assms(2-4)
    by (cases "j = i") simp_all
qed (simp add: same_payload_length [OF assms(1)])

lemma grow_copy_spec:
  assumes wf: "hash_wf t (live_sends t)" and i: "i < length t" "i = 0 \<Longrightarrow> ie_object osnap = IO_NULL"
  shows "\<exists>t'. ipc_entry_grow_copy (length t) osnap i t = Some t'
           \<and> hash_wf t' (live_sends t') \<and> same_payload (t[i := osnap]) t'"
proof -
  let ?live = "ie_object osnap \<noteq> IO_NULL \<and> entry_type osnap = MACH_PORT_TYPE_SEND"
  let ?H = "live_sends t - {i}"
  show ?thesis
  proof (cases "ob t i \<noteq> ie_object osnap \<or> entry_type (t ! i) \<noteq> entry_type osnap")
    case True
    obtain t1 where t1: "(if ob t i \<noteq> IO_NULL \<and> entry_type (t ! i) = MACH_PORT_TYPE_SEND
        then ipc_hash_table_delete t (length t) (ob t i) i else Some t) = Some t1"
        "hash_wf t1 ?H" "same_payload t t1"
      using ipc_hash_table_delete_correct [OF wf, of i "ob t i"] wf i
      by (cases "i \<in> live_sends t") (auto simp: live_sends_def)
    define t2 where "t2 = t1[i := (t1 ! i)\<lparr>ie_object := ie_object osnap, ie_bits := ie_bits osnap,
                                            ie_request := ie_request osnap\<rparr>]"
    have len: "length t1 = length t" "length t2 = length t"
      using same_payload_length [OF t1(3)] by (simp_all add: t2_def)
    have pay2: "same_payload (t[i := osnap]) t2"
      unfolding t2_def using t1(3) by (intro same_payload_update) simp_all
    have h2: "hash_wf t2 ?H"
      unfolding t2_def using t1(2) by (intro hash_wf_update) auto
    have "\<exists>t3. (if ?live then ipc_hash_table_insert t2 (length t) (ie_object osnap) i
        else Some t2) = Some t3 \<and> hash_wf t3 (if ?live then insert i ?H else ?H) \<and> same_payload t2 t3"
    proof (cases ?live)
      case live: True
      then have "0 < i" using i(2) by (cases i) auto
      then obtain h where "ipc_hash_table_insert t2 (length t2) (ie_object osnap) i
          = Some (t2[h := (t2 ! h)\<lparr>ie_index := i\<rparr>])"
        "hash_wf (t2[h := (t2 ! h)\<lparr>ie_index := i\<rparr>]) (insert i ?H)"
        using ipc_hash_table_insert_correct [OF h2, of i "ie_object osnap"] i(1) len
        by (auto simp: t2_def)
      then show ?thesis using live len by auto
    qed (use h2 in auto)
    then obtain t3 where t3: "(if ?live then ipc_hash_table_insert t2 (length t) (ie_object osnap) i
        else Some t2) = Some t3" "hash_wf t3 (if ?live then insert i ?H else ?H)" "same_payload t2 t3"
      by blast
    have pay3: "same_payload (t[i := osnap]) t3"
      using same_payload_trans [OF pay2 t3(3)] .
    have "hash_wf t3 (live_sends t3)"
      using t3(2) live_sends_payload [OF pay3] live_sends_update [OF i(1)] by simp
    moreover have "ipc_entry_grow_copy (length t) osnap i t = Some t3"
      by (simp only: ipc_entry_grow_copy_def entry_at_def i(1) if_True Option.bind.bind_lunit True
          t1(1) Let_def t2_def [symmetric] t3(1))
    ultimately show ?thesis using pay3 by blast
  next
    case False
    define t' where "t' = t[i := (t ! i)\<lparr>ie_bits := ie_bits osnap, ie_request := ie_request osnap\<rparr>]"
    have "ipc_entry_grow_copy (length t) osnap i t = Some t'"
      using False i(1) by (simp add: ipc_entry_grow_copy_def entry_at_def t'_def)
    moreover have "same_payload (t[i := osnap]) t'"
      unfolding t'_def using False by (intro same_payload_update) simp_all
    moreover from this have "live_sends t' = live_sends (t[i := osnap])"
      by (rule live_sends_payload)
    moreover have "i \<in> live_sends t \<longleftrightarrow> ie_object osnap \<noteq> IO_NULL \<and> entry_type osnap = MACH_PORT_TYPE_SEND"
      using False i(1) by (simp add: live_sends_def)
    then have "live_sends (t[i := osnap]) = live_sends t"
      unfolding live_sends_update [OF i(1)] by auto
    moreover have "hash_wf t' (live_sends t)"
      unfolding t'_def using wf by (rule hash_wf_update) simp_all
    ultimately show ?thesis by auto
  qed
qed

subsection \<open>The end of the free list\<close>

lemma grow_tail_chain:
  assumes "free_chain t i L" "length L \<le> k" "\<forall>j \<in> insert i (set L). ob t j = IO_NULL"
    and "\<forall>j \<in> set L. j < osize"
  shows "ipc_entry_grow_tail osize t k i = last (i # L)"
  using assms
proof (induction k arbitrary: i L)
  case (Suc k)
  then show ?case by (cases L) (auto simp: Let_def)
qed simp

lemma free_chain_extend:
  assumes "free_chain t i L" "distinct (i # L)" "i < length t" "free_chain t m M" "0 < m" "m < length t"
    and "m \<notin> insert i (set L)" "set M \<inter> insert i (set L) = {}"
  shows "free_chain (t[last (i # L) := (t ! last (i # L))\<lparr>ie_request := m\<rparr>]) i (L @ m # M)"
  using assms
proof (induction L arbitrary: i)
  case Nil
  then show ?case by (simp add: free_chain_update_other)
next
  case (Cons a L)
  have "last (a # L) \<in> set (a # L)" by (rule last_in_set) simp
  then have ne: "last (a # L) \<noteq> i" using Cons.prems(2) by auto
  have "free_chain (t[last (a # L) := (t ! last (a # L))\<lparr>ie_request := m\<rparr>]) a (L @ m # M)"
    using Cons.prems by (intro Cons.IH) auto
  then show ?case using Cons.prems ne by simp
qed

lemma free_chain_upt_from:
  assumes "\<And>j. m \<le> j \<Longrightarrow> j < n \<Longrightarrow> ie_next (t ! j) = (if j = n - 1 then 0 else j + 1)"
    and "m \<le> i" "i < n" "n \<le> length t"
  shows "free_chain t i [i + 1..<n]"
  using assms(2,3)
proof (induction "n - i" arbitrary: i)
  case (Suc d)
  show ?case
  proof (cases "i + 1 < n")
    case True
    then have "free_chain t (i + 1) [i + 1 + 1..<n]"
      using Suc by (intro Suc.hyps) auto
    then show ?thesis
      using True assms(1) [OF Suc.prems] assms(4) by (simp add: upt_rec [of "Suc i"])
  next
    case False
    then show ?thesis using assms(1) [OF Suc.prems] Suc.prems by simp
  qed
qed simp

text \<open>
  A new table that agrees with the old one below \<open>osize\<close> and holds a chain of free
  slots above it is well-formed once the two free lists are linked.
\<close>

definition grown :: "nat \<Rightarrow> nat \<Rightarrow> ipc_table \<Rightarrow> bool" where
  "grown osize sz t \<longleftrightarrow> length t = sz \<and> hash_wf t (live_sends t)
     \<and> (\<forall>j. osize \<le> j \<longrightarrow> j < sz \<longrightarrow> ie_object (t ! j) = IO_NULL \<and> ie_bits (t ! j) = IE_BITS_GEN_MASK
          \<and> ie_next (t ! j) = (if j = sz - 1 then 0 else j + 1))"

lemma table_wf_link:
  assumes wf: "table_wf ot L X" and len: "length ot < sz" "sz < 2 ^ 24"
    and g: "grown (length ot) sz t"
    and agree: "\<And>j. j < length ot \<Longrightarrow> ie_object (t ! j) = ie_object (ot ! j)
      \<and> ie_bits (t ! j) = ie_bits (ot ! j) \<and> ie_request (t ! j) = ie_request (ot ! j)"
    and f: "f = ipc_entry_grow_tail (length ot) t (length ot) 0"
  shows "f = last (0 # L)"
    and "table_wf (t[f := (t ! f)\<lparr>ie_request := length ot\<rparr>]) (L @ [length ot..<sz]) X"
proof -
  let ?m = "length ot"
  define u where "u = t[f := (t ! f)\<lparr>ie_request := ?m\<rparr>]"
  note bnd = freelist_bounds [OF table_wfD(4) [OF wf]] and pos = table_wfD(7) [OF wf]
  have X: "X \<subseteq> {0<..<?m}" using table_wfD(5) [OF wf] by (simp add: slots_wf_def)
  have lt: "length t = sz" and hw: "hash_wf t (live_sends t)"
    and up: "\<And>j. ?m \<le> j \<Longrightarrow> j < sz \<Longrightarrow> ie_object (t ! j) = IO_NULL
      \<and> ie_bits (t ! j) = 0xff000000 \<and> ie_next (t ! j) = (if j = sz - 1 then 0 else j + 1)"
    using g by (auto simp: grown_def)
  have fl: "free_chain ot 0 L" "distinct L" using table_wfD(4) [OF wf] by (auto simp: freelist_def)
  have ch: "free_chain t 0 L"
  proof -
    have "free_chain (ot @ drop ?m t) 0 L" if "free_chain ot 0 L" for L
      using that
    proof -
      have "free_chain (ot @ drop ?m t) i L" if "free_chain ot i L" "i < ?m" for i
        using that by (induction L arbitrary: i) (auto simp: nth_append)
      then show ?thesis using that pos by blast
    qed
    from this [OF fl(1)] show ?thesis
      by (rule free_chain_cong [THEN iffD1, rotated 2])
         (use lt len agree bnd pos in \<open>auto simp: nth_append\<close>)
  qed
  have L: "set L \<subseteq> {1..<?m}" using bnd by (auto simp: Suc_le_eq)
  have "length L \<le> ?m"
    using card_mono [OF _ L] distinct_card [OF fl(2)] by simp
  moreover have "ob t j = IO_NULL" if "j \<in> insert 0 (set L)" for j
    using table_base_free [OF table_wfD(1) [OF wf], of j] that agree [of j] bnd [of j] pos
    by (auto simp: free_entry_def)
  ultimately show last: "f = last (0 # L)"
    unfolding f using ch bnd by (intro grow_tail_chain) auto
  have fm: "f = 0 \<or> f \<in> set L"
    using last by (auto simp: last_in_set split: if_splits)
  then have fb: "f < ?m"
    using L pos by auto
  have cons: "[?m..<sz] = ?m # [?m + 1..<sz]" using len by (simp add: upt_rec)
  have "free_chain t ?m [?m + 1..<sz]"
    using up len lt by (intro free_chain_upt_from [of ?m]) auto
  then have chain: "free_chain u 0 (L @ [?m..<sz])"
    unfolding u_def last cons using ch fl L pos len lt
    by (intro free_chain_extend) auto
  have ent: "ie_object (u ! j) = ie_object (t ! j)" "ie_bits (u ! j) = ie_bits (t ! j)"
    "j \<noteq> f \<Longrightarrow> u ! j = t ! j" for j
    unfolding u_def using fb len lt by (cases "j = f"; simp)+
  have lu: "length u = sz" by (simp add: u_def lt)
  have freeu: "free_entry (u ! j)" if "j \<in> insert 0 (set L) \<union> {?m..<sz}" for j
    using that table_base_free [OF table_wfD(1) [OF wf], of j] agree [of j] bnd [of j] up [of j] pos
    by (auto simp: free_entry_def ent IE_BITS_GEN_def)
  have fll: "freelist u (L @ [?m..<sz])"
    using chain fl L freeu len lu by (auto simp: freelist_def)
  have sl: "slots_wf u (L @ [?m..<sz]) X"
  proof -
    have "if j \<in> X then held_entry (u ! j) else used_entry (u ! j)"
      if "j < sz" "0 < j" "j \<notin> set (L @ [?m..<sz])" for j
    proof -
      have j: "j < ?m" "j \<notin> set L" "j \<noteq> f" using that fm by auto
      then have "if j \<in> X then held_entry (ot ! j) else used_entry (ot ! j)"
        using table_wfD(5) [OF wf] that(2) by (simp add: slots_wf_def)
      then show ?thesis
        using agree [OF j(1)] ent(3) [OF j(3)]
        by (simp add: held_entry_def free_entry_def used_entry_def split: if_splits)
    qed
    then show ?thesis
      using table_wfD(5) [OF wf] freeu [of 0] X len unfolding slots_wf_def lu by auto
  qed
  have ty: "entry_type (u ! j) = (if j < ?m then entry_type (ot ! j) else 0)" if "j < sz" for j
    using that agree [of j] up [of j] by (simp add: ent IE_BITS_TYPE_def)
  have nam: "naming_slots u = naming_slots ot" "send_slots u = send_slots ot"
    using ty len by (auto simp: naming_slots_def send_slots_def lu split: if_splits)
  have "inj_on (ob u) (naming_slots u)"
    using table_wfD(6) [OF wf] agree unfolding nam(1)
    by (auto simp: inj_on_def ent naming_slots_def)
  then have "table_base u (L @ [?m..<sz]) X"
    using fll sl len lu by (simp add: table_base_def)
  moreover have "live_sends t = send_slots u"
  proof -
    have "ob u j \<noteq> IO_NULL" if "j \<in> send_slots u" for j
      using that table_base_used(1) [OF \<open>table_base u _ X\<close>, of j]
      by (auto simp: send_slots_def used_entry_def IO_VALID_def)
    then show ?thesis by (auto simp: live_sends_def send_slots_def ent lt lu)
  qed
  moreover have "hash_wf u (live_sends t)"
    unfolding u_def using hw by (rule hash_wf_update) simp_all
  ultimately show "table_wf (t[f := (t ! f)\<lparr>ie_request := ?m\<rparr>]) (L @ [?m..<sz]) X"
    unfolding table_wf_def u_def by simp
qed


subsection \<open>The invariant of the interleaved execution\<close>





lemma grown_payload:
  assumes "grown osize sz t" "hash_wf t' (live_sends t')" "same_payload (t[i := e]) t'" "i < osize"
  shows "grown osize sz t'"
  using assms same_payload_fields [OF assms(3)] same_payload_length [OF assms(3)]
  by (simp add: grown_def)

lemma grown_init:
  assumes "osize < sz"
  shows "grown osize sz (ipc_entry_grow_init osize sz)"
proof -
  have "live_sends (ipc_entry_grow_init osize sz) = {}"
    by (auto simp: live_sends_def ipc_entry_grow_init_def)
  moreover have "hash_wf (ipc_entry_grow_init osize sz) {}"
    by (simp add: hash_wf_def ipc_entry_grow_init_def)
  ultimately show ?thesis
    by (simp add: grown_def ipc_entry_grow_init_def)
qed
















lemma grow_publish_wf:
  assumes wf: "space_wf sp L X" and sz: "length (is_table sp) < sz" "sz < 2 ^ 24"
    and g: "grown (length (is_table sp)) sz t"
    and agree: "\<And>j. j < length (is_table sp) \<Longrightarrow> ie_object (t ! j) = ie_object (is_table sp ! j)
      \<and> ie_bits (t ! j) = ie_bits (is_table sp ! j) \<and> ie_request (t ! j) = ie_request (is_table sp ! j)"
    and f: "f = ipc_entry_grow_tail (length (is_table sp)) t (length (is_table sp)) 0"
    and sp'_def: "sp' = ipc_entry_grow_publish (length (is_table sp)) sz its f t sp"
  shows "space_wf sp' (L @ [length (is_table sp)..<sz]) X" "length (is_table sp') = sz"
    "ipc_entry_lookup sp' name = ipc_entry_lookup sp name"
    "j < length (is_table sp) \<Longrightarrow> ie_object (is_table sp' ! j) = ie_object (is_table sp ! j)
       \<and> ie_bits (is_table sp' ! j) = ie_bits (is_table sp ! j)
       \<and> (j \<noteq> last (0 # L) \<longrightarrow> ie_request (is_table sp' ! j) = ie_request (is_table sp ! j))"
proof -
  let ?m = "length (is_table sp)" and ?u = "t[f := (t ! f)\<lparr>ie_request := length (is_table sp)\<rparr>]"
  have tw: "table_wf (is_table sp) L X" and fr: "is_table_free sp = of_nat (length L)"
    using wf by (simp_all add: space_wf_def)
  note link = table_wf_link [OF tw sz g agree f]
  have tab: "is_table sp' = ?u" by (simp add: sp'_def ipc_entry_grow_publish_def)
  have lt: "length t = sz" using g by (simp add: grown_def)
  show "space_wf sp' (L @ [?m..<sz]) X"
    using link(2) fr sz by (simp add: space_wf_def tab) (simp add: sp'_def ipc_entry_grow_publish_def)
  show "length (is_table sp') = sz" by (simp add: tab lt)
  have fields: "ie_object (?u ! j) = ie_object (t ! j)" "ie_bits (?u ! j) = ie_bits (t ! j)"
    "j \<noteq> f \<Longrightarrow> ie_request (?u ! j) = ie_request (t ! j)" if "j < sz" for j
    using that lt by (cases "j = f"; simp)+
  show old: "ie_object (is_table sp' ! j) = ie_object (is_table sp ! j)
       \<and> ie_bits (is_table sp' ! j) = ie_bits (is_table sp ! j)
       \<and> (j \<noteq> last (0 # L) \<longrightarrow> ie_request (is_table sp' ! j) = ie_request (is_table sp ! j))"
    if "j < ?m" for j
    using fields [of j] agree [OF that] that sz link(1) unfolding tab by auto
  have new: "entry_type (is_table sp' ! j) = 0" if "?m \<le> j" "j < sz" for j
    using that g fields [of j] by (simp add: tab grown_def IE_BITS_TYPE_def)
  show "ipc_entry_lookup sp' name = ipc_entry_lookup sp name"
    using old [of "MACH_PORT_INDEX name"] new [of "MACH_PORT_INDEX name"] sz(1)
    by (simp add: ipc_entry_lookup_def is_table_size_def Let_def tab lt)
qed


subsection \<open>Growth and allocation without interference\<close>

lemma grow_scan_spec:
  assumes "grown osize sz t" "set is \<subseteq> {..<osize}" "osize = length ot" "osize < sz"
    and "ob ot 0 = IO_NULL"
  shows "\<exists>t'. ipc_entry_grow_scan sz ot is t = Some t' \<and> grown osize sz t'
    \<and> (\<forall>j < osize. j \<in> set is \<or> (ie_object (t ! j) = ie_object (ot ! j)
          \<and> ie_bits (t ! j) = ie_bits (ot ! j) \<and> ie_request (t ! j) = ie_request (ot ! j))
        \<longrightarrow> ie_object (t' ! j) = ie_object (ot ! j)
          \<and> ie_bits (t' ! j) = ie_bits (ot ! j) \<and> ie_request (t' ! j) = ie_request (ot ! j))"
  using assms
proof (induction "is" arbitrary: t)
  case (Cons i "is")
  then have i: "i < osize" "i < length t" "length t = sz" and hw: "hash_wf t (live_sends t)"
    by (auto simp: grown_def)
  obtain t1 where t1: "ipc_entry_grow_copy sz (ot ! i) i t = Some t1" "hash_wf t1 (live_sends t1)"
      "same_payload (t[i := ot ! i]) t1"
    using grow_copy_spec [OF hw i(2), of "ot ! i"] Cons.prems(5) i(3) by auto
  have g1: "grown osize sz t1"
    using grown_payload [OF Cons.prems(1) t1(2,3) i(1)] .
  have f1: "ie_object (t1 ! j) = ie_object ((t[i := ot ! i]) ! j)"
    "ie_bits (t1 ! j) = ie_bits ((t[i := ot ! i]) ! j)"
    "ie_request (t1 ! j) = ie_request ((t[i := ot ! i]) ! j)" if "j < osize" for j
    using same_payload_fields [OF t1(3), of j] that i Cons.prems(4) by simp_all
  obtain t' where t': "ipc_entry_grow_scan sz ot is t1 = Some t'" "grown osize sz t'"
    "\<forall>j < osize. j \<in> set is \<or> (ie_object (t1 ! j) = ie_object (ot ! j)
          \<and> ie_bits (t1 ! j) = ie_bits (ot ! j) \<and> ie_request (t1 ! j) = ie_request (ot ! j))
        \<longrightarrow> ie_object (t' ! j) = ie_object (ot ! j)
          \<and> ie_bits (t' ! j) = ie_bits (ot ! j) \<and> ie_request (t' ! j) = ie_request (ot ! j)"
    using Cons.IH [OF g1] Cons.prems by auto
  have "ie_object (t' ! j) = ie_object (ot ! j)
          \<and> ie_bits (t' ! j) = ie_bits (ot ! j) \<and> ie_request (t' ! j) = ie_request (ot ! j)"
    if "j < osize" "j \<in> set (i # is) \<or> (ie_object (t ! j) = ie_object (ot ! j)
          \<and> ie_bits (t ! j) = ie_bits (ot ! j) \<and> ie_request (t ! j) = ie_request (ot ! j))" for j
    using t'(3) that f1 [OF that(1)] i(2) by (cases "j = i") auto
  then show ?case
    using t1(1) t'(1,2) i(1) Cons.prems(3) by (simp add: entry_at_def)
qed simp

text \<open>\<open>sizes_ok\<close>: the size array is as \<open>ipc_table.h\<close> demands and the space points to its next size.\<close>

definition sizes_ok :: "nat list \<Rightarrow> ipc_space \<Rightarrow> bool" where
  "sizes_ok sizes sp \<longleftrightarrow>
     (let k = is_table_next sp; n = length sizes in
      0 < k \<and> k < n \<and> sizes ! (k - 1) = is_table_size sp
      \<and> sorted_wrt (<) (butlast sizes) \<and> last sizes = sizes ! (n - 2)
      \<and> last sizes < 2 ^ 24)"

lemma sizes_last:
  fixes sizes :: "nat list"
  assumes "last sizes = sizes ! (length sizes - 2)" "0 < i" "i = length sizes - 1"
  shows "sizes ! (i - 1) = sizes ! i" "sizes ! i = last sizes"
proof -
  have "sizes \<noteq> []" "i - 1 = length sizes - 2" using assms(2,3) by auto
  then show "sizes ! (i - 1) = sizes ! i" "sizes ! i = last sizes"
    using assms(1,3) by (simp_all add: last_conv_nth)
qed

lemma sizes_mono:
  fixes sizes :: "nat list"
  assumes "sorted_wrt (<) (butlast sizes)" "last sizes = sizes ! (length sizes - 2)"
    and "0 < i" "i < length sizes" "i \<noteq> length sizes - 1"
  shows "sizes ! (i - 1) < sizes ! i"
proof -
  have "butlast sizes ! (i - 1) < butlast sizes ! i"
    using assms by (intro sorted_wrt_nth_less [OF assms(1)]) auto
  then show ?thesis using assms(3-5) by (simp add: nth_butlast)
qed

lemma sizes_bound:
  fixes sizes :: "nat list"
  assumes "sorted_wrt (<) (butlast sizes)" "last sizes = sizes ! (length sizes - 2)"
    and "2 \<le> length sizes" "i < length sizes"
  shows "sizes ! i \<le> last sizes"
proof -
  consider "i = length sizes - 1" | "i = length sizes - 2" | "i < length sizes - 2"
    using assms(3,4) by linarith
  then show ?thesis
  proof cases
    case 1
    then show ?thesis using assms(3) sizes_last(2) [OF assms(2), of i] by simp
  next
    case 3
    then have "butlast sizes ! i < butlast sizes ! (length sizes - 2)"
      using assms(3) by (intro sorted_wrt_nth_less [OF assms(1)]) auto
    then show ?thesis using 3 assms(2,3) by (simp add: nth_butlast)
  qed (use assms(2) in simp)
qed

text \<open>An uninterrupted growth to the planned size.\<close>

lemma ipc_entry_grow_table_to:
  assumes wf: "space_wf sp L X" and ng: "\<not> is_growing sp"
    and plan: "ipc_entry_grow_plan sizes sp tsize = Some (Grow_to its n)"
    and lt: "is_table_size sp < n" and n: "n < 2 ^ 24"
  shows "\<exists>sp'. ipc_entry_grow_table sizes kalloc_ok sp tsize =
             Some (if kalloc_ok n then KERN_SUCCESS else KERN_RESOURCE_SHORTAGE, sp')
           \<and> space_extends sp sp' \<and> \<not> is_growing sp'
           \<and> (if kalloc_ok n then space_wf sp' (L @ [is_table_size sp..<n]) X
                \<and> is_table_size sp' = n \<and> is_table_next sp' = its + 1
              else space_wf sp' L X \<and> is_table sp' = is_table sp
                \<and> is_table_next sp' = is_table_next sp)"
proof (cases "kalloc_ok n")
  case no: False
  then show ?thesis
    using plan ng lt wf
    by (simp add: ipc_entry_grow_table_def Let_def space_wf_def ipc_entry_grow_start_def
        space_extends_def is_start_growing_def is_done_growing_def is_active_def is_growing_def
        bit.conj_disj_distrib2 and.assoc)
next
  case yes: True
  let ?m = "is_table_size sp" and ?ot = "is_table sp"
  define sp1 where "sp1 = ipc_entry_grow_start ?m sp"
  have wf1: "space_wf sp1 L X" and t1: "is_table sp1 = ?ot"
    using wf by (simp_all add: sp1_def space_wf_def ipc_entry_grow_start_def)
  have tw: "table_wf ?ot L X" using wf by (simp add: space_wf_def)
  have o0: "ob ?ot 0 = IO_NULL"
    using table_base_free [OF table_wfD(1) [OF tw], of 0] by (simp add: free_entry_def)
  have m: "?m = length ?ot" and t1m: "length (is_table sp1) = ?m"
    by (simp_all add: is_table_size_def t1)
  have sub: "set [0..<?m] \<subseteq> {..<?m}" by auto
  have "\<exists>t. ipc_entry_grow_scan n ?ot [0..<?m] (ipc_entry_grow_init ?m n) = Some t
    \<and> grown ?m n t \<and> (\<forall>j < ?m. ie_object (t ! j) = ie_object (?ot ! j)
      \<and> ie_bits (t ! j) = ie_bits (?ot ! j) \<and> ie_request (t ! j) = ie_request (?ot ! j))"
    using grow_scan_spec [OF grown_init [OF lt] sub m lt o0] by auto
  then obtain t where t: "ipc_entry_grow_scan n ?ot [0..<?m] (ipc_entry_grow_init ?m n) = Some t"
    "grown ?m n t" "\<forall>j < ?m. ie_object (t ! j) = ie_object (?ot ! j)
      \<and> ie_bits (t ! j) = ie_bits (?ot ! j) \<and> ie_request (t ! j) = ie_request (?ot ! j)"
    by blast
  have r0: "ie_request (?ot ! 0) = ie_request (t ! 0)"
    using t(3) table_wfD(7) [OF tw] by (simp add: m)
  have "(t ! 0)\<lparr>ie_request := ie_request (t ! 0)\<rparr> = t ! 0"
    by (cases "t ! 0") simp
  then have reb: "ipc_entry_grow_rebase (ie_next (?ot ! 0)) t = t"
    by (simp add: ipc_entry_grow_rebase_def r0)
  define sp' where "sp' = ipc_entry_grow_publish (length (is_table sp1)) n its
    (ipc_entry_grow_tail (length (is_table sp1)) t (length (is_table sp1)) 0) t sp1"
  have res: "ipc_entry_grow_table sizes kalloc_ok sp tsize = Some (KERN_SUCCESS, sp')"
    using plan ng lt yes t(1) reb t1m
    by (simp add: ipc_entry_grow_table_def Let_def sp'_def flip: sp1_def)
  have lt1: "length (is_table sp1) < n" using lt by (simp add: t1 m)
  have g1: "grown (length (is_table sp1)) n t" using t(2) by (simp add: t1 m)
  have ag: "ie_object (t ! j) = ie_object (is_table sp1 ! j)
      \<and> ie_bits (t ! j) = ie_bits (is_table sp1 ! j) \<and> ie_request (t ! j) = ie_request (is_table sp1 ! j)"
    if "j < length (is_table sp1)" for j
    using t(3) that by (simp add: t1 m)
  note pub = grow_publish_wf [OF wf1 lt1 n g1 ag refl sp'_def]
  have w': "space_wf sp' (L @ [?m..<n]) X" and l': "length (is_table sp') = n"
    using pub(1,2) by (simp_all add: t1 m)
  have nx: "is_table_next sp' = its + 1" "is_self sp' = is_self sp" "is_task sp' = is_task sp"
      "is_active sp' = is_active sp" "\<not> is_growing sp'"
    by (simp_all add: sp'_def ipc_entry_grow_publish_def sp1_def ipc_entry_grow_start_def is_active_def
        is_start_growing_def is_done_growing_def is_growing_def bit.conj_disj_distrib2 and.assoc)
  have old: "ie_object (is_table sp' ! j) = ie_object (?ot ! j)
      \<and> entry_type (is_table sp' ! j) = entry_type (?ot ! j)
      \<and> (entry_type (?ot ! j) \<noteq> 0 \<longrightarrow> ie_bits (is_table sp' ! j) = ie_bits (?ot ! j)
           \<and> ie_request (is_table sp' ! j) = ie_request (?ot ! j))" if "j < length ?ot" for j
  proof -
    have "entry_type (?ot ! last (0 # L)) = 0"
      using free_entry_type [OF table_base_free [OF table_wfD(1) [OF tw], of "last (0 # L)"]]
      by (auto simp: last_in_set)
    then show ?thesis using pub(4) [of j] that by (simp add: t1) blast
  qed
  have new: "ie_object (is_table sp' ! j) = IO_NULL \<and> entry_type (is_table sp' ! j) = 0"
    if "length ?ot \<le> j" "j < length (is_table sp')" for j
  proof -
    have "j \<in> set (L @ [?m..<n])" using that l' m by simp
    then have "free_entry (is_table sp' ! j)"
      using w' table_base_free by (fastforce simp: space_wf_def dest: table_wfD)
    then show ?thesis using free_entry_type by (simp add: free_entry_def)
  qed
  have "space_extends sp sp'"
    using old new nx ng l' lt by (simp add: space_extends_def m)
  then show ?thesis using res yes w' nx l' by (simp add: is_table_size_def)
qed

text \<open>The plans: growing to the next size, and growing to hold a given index.\<close>

lemma sizes_okD:
  assumes "sizes_ok sizes sp"
  shows "0 < is_table_next sp" "is_table_next sp < length sizes"
    "sizes ! (is_table_next sp - 1) = is_table_size sp" "sorted_wrt (<) (butlast sizes)"
    "last sizes = sizes ! (length sizes - 2)" "last sizes < 2 ^ 24" "2 \<le> length sizes"
  using assms by (auto simp: sizes_ok_def Let_def)

lemma grow_plan_next:
  assumes sz: "sizes_ok sizes sp"
  shows "ipc_entry_grow_plan sizes sp None =
    Some (if is_table_next sp = length sizes - 1 then Grow_no_space
          else Grow_to (is_table_next sp) (sizes ! is_table_next sp))"
    "is_table_next sp \<noteq> length sizes - 1 \<Longrightarrow> is_table_size sp < sizes ! is_table_next sp"
    "sizes ! is_table_next sp < 2 ^ 24"
proof -
  note k = sizes_okD [OF sz]
  show lt: "is_table_size sp < sizes ! is_table_next sp" if "is_table_next sp \<noteq> length sizes - 1"
    using sizes_mono [OF k(4,5,1,2) that] k(3) by simp
  show "sizes ! is_table_next sp < 2 ^ 24"
    using sizes_bound [OF k(4,5,7,2)] k(6) by simp
  show "ipc_entry_grow_plan sizes sp None =
    Some (if is_table_next sp = length sizes - 1 then Grow_no_space
          else Grow_to (is_table_next sp) (sizes ! is_table_next sp))"
    using k lt sizes_last(1) [OF k(5,1)]
    by (cases "is_table_next sp = length sizes - 1")
      (simp_all add: ipc_entry_grow_plan_def its_at_def Let_def)
qed

lemma sizes_ok_grown:
  assumes "sizes_ok sizes sp" "its < length sizes - 1" "is_table_size sp' = sizes ! its"
    "is_table_next sp' = its + 1"
  shows "sizes_ok sizes sp'"
  using assms by (simp add: sizes_ok_def Let_def)

lemma ipc_entry_grow_table_next:
  assumes wf: "space_wf sp L X" and sz: "sizes_ok sizes sp" and ng: "\<not> is_growing sp"
  shows "\<exists>kr sp'. ipc_entry_grow_table sizes kalloc_ok sp None = Some (kr, sp')
      \<and> kr = (if is_table_next sp = length sizes - 1 then KERN_NO_SPACE
              else if kalloc_ok (sizes ! is_table_next sp) then KERN_SUCCESS
              else KERN_RESOURCE_SHORTAGE)
      \<and> space_extends sp sp' \<and> \<not> is_growing sp' \<and> sizes_ok sizes sp'
      \<and> (if kr = KERN_SUCCESS then space_wf sp' (L @ [is_table_size sp..<sizes ! is_table_next sp]) X
           \<and> is_table_size sp < sizes ! is_table_next sp
         else space_wf sp' L X \<and> is_table sp' = is_table sp)"
proof (cases "is_table_next sp = length sizes - 1")
  case True
  then show ?thesis
    using grow_plan_next(1) [OF sz] ng wf sz space_extends_refl
    by (simp add: ipc_entry_grow_table_def)
next
  case False
  note plan = grow_plan_next [OF sz]
  have p: "ipc_entry_grow_plan sizes sp None = Some (Grow_to (is_table_next sp) (sizes ! is_table_next sp))"
    using plan(1) False by simp
  obtain sp' where "ipc_entry_grow_table sizes kalloc_ok sp None =
      Some (if kalloc_ok (sizes ! is_table_next sp) then KERN_SUCCESS else KERN_RESOURCE_SHORTAGE, sp')"
    and e: "space_extends sp sp'" "\<not> is_growing sp'"
    and c: "if kalloc_ok (sizes ! is_table_next sp)
        then space_wf sp' (L @ [is_table_size sp..<sizes ! is_table_next sp]) X
          \<and> is_table_size sp' = sizes ! is_table_next sp \<and> is_table_next sp' = is_table_next sp + 1
        else space_wf sp' L X \<and> is_table sp' = is_table sp \<and> is_table_next sp' = is_table_next sp"
    using ipc_entry_grow_table_to [OF wf ng p plan(2) [OF False] plan(3), of kalloc_ok] by blast
  moreover have "sizes_ok sizes sp'"
  proof (cases "kalloc_ok (sizes ! is_table_next sp)")
    case True
    then show ?thesis
      using c sizes_okD(2) [OF sz] False by (intro sizes_ok_grown [OF sz, of "is_table_next sp"]) auto
  next
    case no: False
    then show ?thesis using c sz by (simp add: sizes_ok_def Let_def is_table_size_def)
  qed
  ultimately show ?thesis using False plan(2) [OF False] by (auto split: if_splits)
qed

lemma ipc_entry_claim_extends:
  assumes wf: "space_wf sp (i # L) X" and c: "ipc_entry_claim sp = Some (sp', name, j)"
  shows "space_extends sp sp'" "is_table_next sp' = is_table_next sp"
    "length (is_table sp') = length (is_table sp)" "ie_bits (is_table sp' ! i) = MACH_PORT_GEN name"
proof -
  have tw: "table_wf (is_table sp) ([] @ i # L) X" using wf by (simp add: space_wf_def)
  note eq = c [unfolded ipc_entry_claim_spec [OF wf]]
  show "space_extends sp sp'"
    by (rule unlink_extends [OF tw, of "IE_BITS_NEW_GEN (ie_bits (is_table sp ! i))" 0])
      (use eq in auto)
  show "is_table_next sp' = is_table_next sp" "length (is_table sp') = length (is_table sp)"
    using eq by auto
  have i: "i < length (is_table sp)"
    using freelist_bounds [OF table_wfD(4) [OF tw], of i] by simp
  then show "ie_bits (is_table sp' ! i) = MACH_PORT_GEN name"
    using eq by auto
qed

lemma ipc_entry_get_spec:
  assumes wf: "space_wf sp L X"
  shows "if L = [] then ipc_entry_get sp = Some (Inl KERN_NO_SPACE)
         else \<exists>sp' name. ipc_entry_get sp = Some (Inr (sp', name, hd L))
                \<and> MACH_PORT_VALID name \<and> ipc_entry_lookup sp name = None
                \<and> MACH_PORT_INDEX name = hd L \<and> ie_bits (is_table sp' ! hd L) = MACH_PORT_GEN name
                \<and> space_wf sp' (tl L) (insert (hd L) X) \<and> space_extends sp sp'
                \<and> is_table_next sp' = is_table_next sp
                \<and> length (is_table sp') = length (is_table sp)"
proof (cases L)
  case Nil
  then show ?thesis
    using ipc_entries_hold_spec [OF wf, of 1] by (simp add: ipc_entry_get_def)
next
  case (Cons i M)
  have wf': "space_wf sp (i # M) X" using wf Cons by simp
  obtain sp' name j where c: "ipc_entry_claim sp = Some (sp', name, j)"
    using ipc_entry_claim_spec [OF wf'] by blast
  note cw = ipc_entry_claim_wf [OF wf' c] and cl = ipc_entry_claim_extends [OF wf' c]
  have "ipc_entry_get sp = Some (Inr (sp', name, i))"
    using ipc_entries_hold_spec [OF wf, of 1] Cons c cw(2) by (simp add: ipc_entry_get_def)
  then show ?thesis using Cons cw cl by auto
qed

text \<open>The complete behaviour of \<open>ipc_entry_alloc\<close>.\<close>

definition entry_claimed ::
    "nat list \<Rightarrow> ipc_space \<Rightarrow> nat set \<Rightarrow> mach_port_name_t \<Rightarrow> nat \<Rightarrow> ipc_space \<Rightarrow> bool" where
  "entry_claimed sizes sp X name i sp' \<longleftrightarrow>
     MACH_PORT_INDEX name = i \<and> ie_bits (is_table sp' ! i) = MACH_PORT_GEN name
     \<and> (\<exists>L'. space_wf sp' L' (insert i X)) \<and> space_extends sp sp' \<and> i \<notin> X
     \<and> ipc_entry_lookup sp name = None \<and> sizes_ok sizes sp'"

lemma sizes_ok_cong:
  "is_table_next sp' = is_table_next sp \<Longrightarrow> length (is_table sp') = length (is_table sp) \<Longrightarrow>
     sizes_ok sizes sp' = sizes_ok sizes sp"
  by (simp add: sizes_ok_def Let_def is_table_size_def)

lemma space_wf_hd_claimed:
  assumes "space_wf sp L X" "L \<noteq> []"
  shows "hd L \<notin> X" "0 < hd L" "hd L < length (is_table sp)"
proof -
  have tw: "table_wf (is_table sp) L X" and h: "hd L \<in> set L"
    using assms by (simp_all add: space_wf_def)
  then show "hd L \<notin> X" using table_wfD(5) [OF tw] by (auto simp: slots_wf_def)
  show "0 < hd L" "hd L < length (is_table sp)"
    using freelist_bounds [OF table_wfD(4) [OF tw] h] by simp_all
qed

lemma ipc_entry_get_claimed:
  assumes wf: "space_wf sp L X" and sz: "sizes_ok sizes sp" and L: "L \<noteq> []"
  obtains sp' name i where "ipc_entry_get sp = Some (Inr (sp', name, i))" "MACH_PORT_VALID name"
    "entry_claimed sizes sp X name i sp'"
proof -
  obtain sp' name where g: "ipc_entry_get sp = Some (Inr (sp', name, hd L))" "MACH_PORT_VALID name"
      "ipc_entry_lookup sp name = None" "MACH_PORT_INDEX name = hd L"
      "ie_bits (is_table sp' ! hd L) = MACH_PORT_GEN name"
      "space_wf sp' (tl L) (insert (hd L) X)" "space_extends sp sp'"
      "is_table_next sp' = is_table_next sp" "length (is_table sp') = length (is_table sp)"
    using ipc_entry_get_spec [OF wf] L by auto
  have "entry_claimed sizes sp X name (hd L) sp'"
    unfolding entry_claimed_def
    using g space_wf_hd_claimed(1) [OF wf L] sz sizes_ok_cong [OF g(8,9)] by blast
  then show ?thesis using that g(1,2) by blast
qed

lemma entry_claimed_extends:
  assumes e: "space_extends sp sp'" and c: "entry_claimed sizes sp' X name i sp''"
  shows "entry_claimed sizes sp X name i sp''"
  using c space_extends_trans [OF e] space_extends_lookup [OF e]
  unfolding entry_claimed_def by auto

lemma ipc_entry_alloc_spec:
  assumes wf: "space_wf sp L X" and sz: "sizes_ok sizes sp" and ng: "\<not> is_growing sp"
  shows "\<exists>r sp'. ipc_entry_alloc sizes kalloc_ok sp = Some (r, sp')
    \<and> (case r of
         Inl kr \<Rightarrow> kr = (if \<not> is_active sp then KERN_INVALID_TASK
                         else if is_table_next sp = length sizes - 1 then KERN_NO_SPACE
                         else KERN_RESOURCE_SHORTAGE)
           \<and> (is_active sp \<longrightarrow> L = [] \<and> (is_table_next sp = length sizes - 1
                \<or> \<not> kalloc_ok (sizes ! is_table_next sp)))
           \<and> space_wf sp' L X \<and> is_table sp' = is_table sp \<and> space_extends sp sp' \<and> sizes_ok sizes sp'
       | Inr (name, i) \<Rightarrow> is_active sp \<and> MACH_PORT_VALID name \<and> entry_claimed sizes sp X name i sp')"
proof (cases "is_active sp")
  case False
  then show ?thesis
    using wf sz space_extends_refl by (subst ipc_entry_alloc.simps) simp
next
  case act: True
  show ?thesis
  proof (cases "L = []")
    case False
    then show ?thesis
      using ipc_entry_get_claimed [OF wf sz] act by (subst ipc_entry_alloc.simps) fastforce
  next
    case nil: True
    have get: "ipc_entry_get sp = Some (Inl KERN_NO_SPACE)"
      using ipc_entry_get_spec [OF wf] nil by simp
    obtain kr sp' where g: "ipc_entry_grow_table sizes kalloc_ok sp None = Some (kr, sp')"
      "kr = (if is_table_next sp = length sizes - 1 then KERN_NO_SPACE
              else if kalloc_ok (sizes ! is_table_next sp) then KERN_SUCCESS
              else KERN_RESOURCE_SHORTAGE)"
      "space_extends sp sp'" "\<not> is_growing sp'" "sizes_ok sizes sp'"
      "if kr = KERN_SUCCESS then space_wf sp' (L @ [is_table_size sp..<sizes ! is_table_next sp]) X
           \<and> is_table_size sp < sizes ! is_table_next sp
         else space_wf sp' L X \<and> is_table sp' = is_table sp"
      using ipc_entry_grow_table_next [OF wf sz ng, of kalloc_ok] by blast
    show ?thesis
    proof (cases "kr = KERN_SUCCESS")
      case False
      then show ?thesis
        using g act get nil by (subst ipc_entry_alloc.simps) (simp split: if_splits)
    next
      case True
      then have "space_wf sp' [is_table_size sp..<sizes ! is_table_next sp] X"
        "[is_table_size sp..<sizes ! is_table_next sp] \<noteq> []" using g(6) nil by simp_all
      then obtain sp2 name i where c: "ipc_entry_get sp' = Some (Inr (sp2, name, i))"
          "MACH_PORT_VALID name" "entry_claimed sizes sp' X name i sp2"
        using ipc_entry_get_claimed [OF _ g(5)] by blast
      have "is_active sp'" using act space_extendsD(3) [OF g(3)] by simp
      then have "ipc_entry_alloc sizes kalloc_ok sp = Some (Inr (name, i), sp2)"
        using act get g(1) True c(1)
        by (subst ipc_entry_alloc.simps, simp, subst ipc_entry_alloc.simps, simp)
      then show ?thesis using entry_claimed_extends [OF g(3) c(3)] c(2) act by simp
    qed
  qed
qed

text \<open>Allocation of a given name: the search for a size that holds the index.\<close>

lemma grow_search_found:
  assumes sz: "sorted_wrt (<) (butlast sizes)" "last sizes = sizes ! (length sizes - 2)"
    and k: "0 < its" "its < length sizes"
  shows "\<exists>its'. its \<le> its' \<and> its' < length sizes
    \<and> ipc_entry_grow_search sizes target its (sizes ! (its - 1)) (sizes ! its)
        = Some (its', sizes ! (its' - 1), sizes ! its')
    \<and> (if target \<le> last sizes \<and> its < length sizes - 1
        then its' < length sizes - 1 \<and> target \<le> sizes ! its'
        else target \<le> last sizes \<or> its' = length sizes - 1)"
  using k
proof (induction "length sizes - its" arbitrary: its)
  case (Suc d)
  note step = ipc_entry_grow_search.simps [of sizes target its "sizes ! (its - 1)" "sizes ! its"]
  show ?case
  proof (cases "sizes ! (its - 1) \<noteq> sizes ! its \<and> target > sizes ! its")
    case False
    then have res: "ipc_entry_grow_search sizes target its (sizes ! (its - 1)) (sizes ! its)
        = Some (its, sizes ! (its - 1), sizes ! its)"
      unfolding step by auto
    have "its = length sizes - 1" if "sizes ! (its - 1) = sizes ! its"
      using sizes_mono [OF sz Suc.prems] that by fastforce
    moreover have "sizes ! its \<le> last sizes"
      using sizes_bound [OF sz _ Suc.prems(2)] Suc.prems by simp
    ultimately show ?thesis
      using res False Suc.prems by (intro exI [of _ its]) auto
  next
    case True
    then have ne: "its \<noteq> length sizes - 1"
      using sizes_last(1) [OF sz(2) Suc.prems(1)] by auto
    then have its1: "its + 1 < length sizes" using Suc.prems by linarith
    have res: "ipc_entry_grow_search sizes target its (sizes ! (its - 1)) (sizes ! its)
        = ipc_entry_grow_search sizes target (its + 1) (sizes ! (its + 1 - 1)) (sizes ! (its + 1))"
      unfolding step using True its1 by (simp add: its_at_def)
    obtain its' where i: "its + 1 \<le> its'" "its' < length sizes"
        "ipc_entry_grow_search sizes target (its + 1) (sizes ! (its + 1 - 1)) (sizes ! (its + 1))
          = Some (its', sizes ! (its' - 1), sizes ! its')"
        "if target \<le> last sizes \<and> its + 1 < length sizes - 1
         then its' < length sizes - 1 \<and> target \<le> sizes ! its'
         else target \<le> last sizes \<or> its' = length sizes - 1"
    proof -
      have d: "d = length sizes - (its + 1)" and pos: "0 < its + 1" using Suc.hyps(2) by simp_all
      from Suc.hyps(1) [OF d pos its1] that show ?thesis by (elim exE conjE)
    qed
    have "its + 1 < length sizes - 1" if "target \<le> last sizes"
    proof (rule ccontr)
      assume "\<not> ?thesis"
      then have "its = length sizes - 2" using its1 by linarith
      then show False using True that sz(2) by simp
    qed
    then show ?thesis using i res by (intro exI [of _ its']) auto
  qed
qed simp

lemma grow_plan_target:
  assumes sz: "sizes_ok sizes sp" and t: "is_table_size sp < target"
  shows "if target \<le> last sizes
    then \<exists>its. its < length sizes - 1 \<and> target \<le> sizes ! its \<and> sizes ! its < 2 ^ 24
           \<and> ipc_entry_grow_plan sizes sp (Some target) = Some (Grow_to its (sizes ! its))
    else ipc_entry_grow_plan sizes sp (Some target) = Some Grow_no_space"
proof -
  note k = sizes_okD [OF sz]
  obtain its where i: "is_table_next sp \<le> its" "its < length sizes"
      "ipc_entry_grow_search sizes target (is_table_next sp) (is_table_size sp) (sizes ! is_table_next sp)
        = Some (its, sizes ! (its - 1), sizes ! its)"
      "if target \<le> last sizes \<and> is_table_next sp < length sizes - 1
       then its < length sizes - 1 \<and> target \<le> sizes ! its
       else target \<le> last sizes \<or> its = length sizes - 1"
    using grow_search_found [OF k(4,5,1,2), of target] k(3) by auto
  have plan: "ipc_entry_grow_plan sizes sp (Some target) =
      Some (if sizes ! (its - 1) = sizes ! its then Grow_no_space
            else if is_table_size sp = sizes ! its then Grow_no_space else Grow_to its (sizes ! its))"
  proof -
    have "its_at sizes (is_table_next sp - 1) = Some (is_table_size sp)"
      using k(2,3) by (simp add: its_at_def)
    then show ?thesis
      using k(1,2) t i(3) by (simp add: ipc_entry_grow_plan_def its_at_def [of _ "is_table_next sp"] Let_def)
  qed
  show ?thesis
  proof (cases "target \<le> last sizes")
    case True
    have "is_table_next sp \<noteq> length sizes - 1"
      using sizes_last [OF k(5,1)] k(3) t True by auto
    then have "is_table_next sp < length sizes - 1" using k(2) by linarith
    then have its: "its < length sizes - 1" "target \<le> sizes ! its" using i(4) True by simp_all
    have "sizes ! (its - 1) < sizes ! its"
      using sizes_mono [OF k(4,5) _ i(2)] i(1) k(1) its(1) by simp
    then show ?thesis
      using plan its t True sizes_bound [OF k(4,5,7) i(2)] k(6) by auto
  next
    case False
    then have "its = length sizes - 1" using i(4) by simp
    then show ?thesis using plan sizes_last(1) [OF k(5) _ _] i(1) k(1) False by auto
  qed
qed

lemma alloc_name_table_claimed:
  assumes wf: "space_wf sp L X" and sz: "sizes_ok sizes sp"
    and i: "MACH_PORT_INDEX name = i" "i \<in> set L"
  shows "\<exists>sp'. ipc_entry_alloc_name_table sp name = Some (Inr (sp', i))
           \<and> entry_claimed sizes sp X name i sp'"
proof -
  have tw: "table_wf (is_table sp) L X" using wf by (simp add: space_wf_def)
  obtain sp' A B where s: "ipc_entry_alloc_name_table sp name = Some (Inr (sp', i))"
      "space_wf sp' (A @ B) (insert i X)" "space_extends sp sp'"
      "ie_bits (is_table sp' ! i) = MACH_PORT_GEN name" "is_table_next sp' = is_table_next sp"
      "length (is_table sp') = length (is_table sp)"
    using ipc_entry_alloc_name_free [OF wf i] by blast
  have "i \<notin> X" using table_wfD(5) [OF tw] i(2) by (auto simp: slots_wf_def)
  moreover have "ipc_entry_lookup sp name = None"
    using free_entry_type [OF table_base_free [OF table_wfD(1) [OF tw], of i]] i
    by (simp add: ipc_entry_lookup_def Let_def)
  ultimately show ?thesis
    using s i(1) sz sizes_ok_cong [OF s(5,6)] unfolding entry_claimed_def by blast
qed

lemma ipc_entry_alloc_name_spec:
  assumes wf: "space_wf sp L X" and sz: "sizes_ok sizes sp" and ng: "\<not> is_growing sp"
    and act: "is_active sp" and i: "MACH_PORT_INDEX name = i" "0 < i" "i \<notin> X"
  shows "\<exists>r sp'. ipc_entry_alloc_name sizes kalloc_ok sp name = Some (r, sp')
    \<and> (if i < is_table_size sp \<and> i \<notin> set L
       then sp' = sp \<and> r = (if ipc_entry_lookup sp name = Some i then Inr i else Inl KERN_FAILURE)
       else case r of
         Inl kr \<Rightarrow> kr = (if i < last sizes then KERN_RESOURCE_SHORTAGE else KERN_NO_SPACE)
           \<and> is_table_size sp \<le> i \<and> space_wf sp' L X \<and> is_table sp' = is_table sp
           \<and> space_extends sp sp' \<and> sizes_ok sizes sp'
       | Inr j \<Rightarrow> j = i \<and> i < last sizes \<and> entry_claimed sizes sp X name i sp')"
proof -
  have tw: "table_wf (is_table sp) L X" using wf by (simp add: space_wf_def)
  note k = sizes_okD [OF sz]
  have last: "is_table_size sp \<le> last sizes"
    using sizes_bound [OF k(4,5,7), of "is_table_next sp - 1"] k(2,3) by simp
  note step = ipc_entry_alloc_name.simps [of sizes kalloc_ok sp name]
  consider (free) "i \<in> set L" | (used) "i < is_table_size sp" "i \<notin> set L" | (out) "is_table_size sp \<le> i"
    by linarith
  then show ?thesis
  proof cases
    case free
    then have b: "i < is_table_size sp"
      using freelist_bounds [OF table_wfD(4) [OF tw]] by (simp add: is_table_size_def)
    obtain sp' where s: "ipc_entry_alloc_name_table sp name = Some (Inr (sp', i))"
        "entry_claimed sizes sp X name i sp'"
      using alloc_name_table_claimed [OF wf sz i(1) free] by blast
    then show ?thesis using act b free last i(1) by (simp add: step)
  next
    case used
    then have "entry_type (is_table sp ! i) \<noteq> 0"
      using table_base_used_iff [OF table_wfD(1) [OF tw]] i by (simp add: is_table_size_def)
    then show ?thesis
      using act used i
      by (simp add: step ipc_entry_alloc_name_table_def ipc_entry_lookup_def Let_def is_table_size_def)
  next
    case out
    then have ni: "i \<notin> set L"
      using freelist_bounds [OF table_wfD(4) [OF tw], of i] by (auto simp: is_table_size_def)
    have t: "is_table_size sp < Suc i" using out by simp
    show ?thesis
    proof (cases "i < last sizes")
      case False
      then have "ipc_entry_grow_plan sizes sp (Some (Suc i)) = Some Grow_no_space"
        using grow_plan_target [OF sz t] by simp
      then show ?thesis
        using act out i ng wf sz False space_extends_refl
        by (simp add: step ipc_entry_grow_table_def)
    next
      case True
      then obtain its where p: "its < length sizes - 1" "Suc i \<le> sizes ! its" "sizes ! its < 2 ^ 24"
          "ipc_entry_grow_plan sizes sp (Some (Suc i)) = Some (Grow_to its (sizes ! its))"
        using grow_plan_target [OF sz t] by auto
      have lt: "is_table_size sp < sizes ! its" using t p(2) by simp
      obtain sp' where g: "ipc_entry_grow_table sizes kalloc_ok sp (Some (Suc i)) =
             Some (if kalloc_ok (sizes ! its) then KERN_SUCCESS else KERN_RESOURCE_SHORTAGE, sp')"
          "space_extends sp sp'" "\<not> is_growing sp'"
          "if kalloc_ok (sizes ! its) then space_wf sp' (L @ [is_table_size sp..<sizes ! its]) X
                \<and> is_table_size sp' = sizes ! its \<and> is_table_next sp' = its + 1
              else space_wf sp' L X \<and> is_table sp' = is_table sp
                \<and> is_table_next sp' = is_table_next sp"
        using ipc_entry_grow_table_to [OF wf ng p(4) lt p(3), of kalloc_ok] by blast
      show ?thesis
      proof (cases "kalloc_ok (sizes ! its)")
        case False
        then have "sizes_ok sizes sp'"
          using g(4) sz by (simp add: sizes_ok_def Let_def is_table_size_def)
        then show ?thesis
          using g False act out i True by (simp add: step)
      next
        case yes: True
        have w': "space_wf sp' (L @ [is_table_size sp..<sizes ! its]) X" "is_table_size sp' = sizes ! its"
          "sizes_ok sizes sp'" "is_active sp'"
          using g yes p(1) act space_extendsD(3) [OF g(2)]
          by (auto intro: sizes_ok_grown [OF sz, of its])
        have in_L: "i \<in> set (L @ [is_table_size sp..<sizes ! its])" using out p(2) by simp
        obtain sp2 where s: "ipc_entry_alloc_name_table sp' name = Some (Inr (sp2, i))"
            "entry_claimed sizes sp' X name i sp2"
          using alloc_name_table_claimed [OF w'(1,3) i(1) in_L] by blast
        have "ipc_entry_alloc_name sizes kalloc_ok sp' name = Some (Inr i, sp2)"
          using w'(2,4) p(2) s(1) i(1) by (subst ipc_entry_alloc_name.simps) simp
        then have "ipc_entry_alloc_name sizes kalloc_ok sp name = Some (Inr i, sp2)"
          using g yes act out i by (simp add: step)
        then show ?thesis
          using entry_claimed_extends [OF g(2) s(2)] out True ni by simp
      qed
    qed
  qed
qed

subsection \<open>Properties\<close>


lemma init_table_1: "ipc_space_init_table 1 =
    [\<lparr>ie_object = IO_NULL, ie_bits = 0xff000000, ie_index = 0, ie_request = 0\<rparr>]"
  by (simp add: ipc_space_init_table_def)


text \<open>
  C11. \<open>ipc_entry_alloc\<close> always returns, and its result is as documented: the space is
  dead, or the table has reached its maximal size, or there is no memory for a larger
  table (and then no right has changed), or the result is a claimed slot whose name is
  valid and was not in use, in a well-formed space in which every other name still
  denotes what it denoted.
\<close>

theorem ipc_entry_alloc_correct:
  assumes wf: "space_wf sp L X" and sz: "sizes_ok sizes sp" and ng: "\<not> is_growing sp"
  shows "\<exists>r sp'. ipc_entry_alloc sizes kalloc_ok sp = Some (r, sp')
    \<and> r \<in> (if \<not> is_active sp then {Inl KERN_INVALID_TASK}
             else if L = [] \<and> is_table_next sp = length sizes - 1 then {Inl KERN_NO_SPACE}
             else if L = [] \<and> \<not> kalloc_ok (sizes ! is_table_next sp) then {Inl KERN_RESOURCE_SHORTAGE}
             else range Inr)
    \<and> (case r of
         Inl kr \<Rightarrow> space_wf sp' L X \<and> is_table sp' = is_table sp
       | Inr (name, i) \<Rightarrow> MACH_PORT_VALID name \<and> MACH_PORT_INDEX name = i \<and> i \<notin> X
           \<and> ipc_entry_lookup sp name = None \<and> (\<exists>L'. space_wf sp' L' (insert i X)))
    \<and> (\<forall>n. ipc_entry_lookup sp' n = ipc_entry_lookup sp n)"
proof -
  obtain r sp' where a: "ipc_entry_alloc sizes kalloc_ok sp = Some (r, sp')"
    and c: "case r of
         Inl kr \<Rightarrow> kr = (if \<not> is_active sp then KERN_INVALID_TASK
                         else if is_table_next sp = length sizes - 1 then KERN_NO_SPACE
                         else KERN_RESOURCE_SHORTAGE)
           \<and> (is_active sp \<longrightarrow> L = [] \<and> (is_table_next sp = length sizes - 1
                \<or> \<not> kalloc_ok (sizes ! is_table_next sp)))
           \<and> space_wf sp' L X \<and> is_table sp' = is_table sp \<and> space_extends sp sp' \<and> sizes_ok sizes sp'
       | Inr (name, i) \<Rightarrow> is_active sp \<and> MACH_PORT_VALID name \<and> entry_claimed sizes sp X name i sp'"
    using ipc_entry_alloc_spec [OF wf sz ng, of kalloc_ok] by blast
  show ?thesis
  proof (cases r)
    case (Inl kr)
    then show ?thesis
      using a c space_extends_lookup [of sp sp'] by (auto split: if_splits)
  next
    case (Inr ni)
    obtain name i where ni: "ni = (name, i)" by (cases ni)
    have cl: "is_active sp" "MACH_PORT_VALID name" "entry_claimed sizes sp X name i sp'"
      using c by (simp_all add: Inr ni)
    have "L \<noteq> [] \<or> is_table_next sp \<noteq> length sizes - 1 \<and> kalloc_ok (sizes ! is_table_next sp)"
    proof (rule ccontr)
      assume "\<not> ?thesis"
      then have "\<exists>kr sp'. kr \<noteq> KERN_SUCCESS \<and> ipc_entry_grow_table sizes kalloc_ok sp None = Some (kr, sp')"
        "ipc_entry_get sp = Some (Inl KERN_NO_SPACE)"
        using ipc_entry_grow_table_next [OF wf sz ng, of kalloc_ok] ipc_entry_get_spec [OF wf]
        by (auto split: if_splits)
      then show False
        using a cl(1) by (subst (asm) (1) ipc_entry_alloc.simps) (auto simp: Inr)
    qed
    then show ?thesis
      using a cl space_extends_lookup [of sp sp'] by (auto simp: Inr ni entry_claimed_def)
  qed
qed

theorem ipc_entry_alloc_correct_witness:
  "\<exists>sp' name i L'.
     ipc_entry_alloc [1, 2, 2] (\<lambda>_. True) (ipc_space_initial 0x1000 1 1) = Some (Inr (name, i), sp')
     \<and> MACH_PORT_VALID name \<and> space_wf sp' L' {i}"
proof -
  let ?sp = "ipc_space_initial 0x1000 1 1"
  have wf: "space_wf ?sp [1..<1] {}" by (rule ipc_space_initial_wf) simp_all
  have sz: "sizes_ok [1, 2, 2] ?sp"
    by (simp add: sizes_ok_def ipc_space_initial_def is_table_size_def init_table_1 [simplified])
  have st: "\<not> is_growing ?sp" "is_active ?sp" "is_table_next ?sp = 1"
    by (simp_all add: ipc_space_initial_def is_growing_def is_active_def)
  show ?thesis
    using ipc_entry_alloc_correct [OF wf sz st(1), of "\<lambda>_. True"] st(2,3) by auto
qed

end
