(* ===== verification/Ipc_Heap.thy ===== *)
theory Ipc_Heap
  imports Ipc_Grow
begin

text \<open>
  The kernel objects that capabilities denote: ports (\<open>struct ipc_port\<close> of
  \<open>osfmk/ipc/ipc_port.h\<close> with the message queue of \<open>osfmk/ipc/ipc_mqueue.h\<close> and the
  common header \<open>struct ipc_object\<close>) and port sets (\<open>struct ipc_pset\<close>), the heap that
  holds them, reference counting (\<open>io_reference\<close>, \<open>io_release\<close>, \<open>io_free\<close>), and the
  notifications of \<open>osfmk/ipc/ipc_notify.c\<close>.

  The heap is a partial map from addresses to objects. Loading from an address that
  holds no object gives \<open>None\<close>. What the routines hand to other subsystems is
  recorded in the event list \<open>k_events\<close>, in order: the notification messages that the
  generated stubs \<open>mach_notify_*\<close> send, wake-ups of waiting threads, the destruction of
  kernel objects behind a port, the release of message buffers, and guard exceptions. Messages that are
  thrown away with a queue wait in \<open>k_delayed\<close>, the per-thread queue \<open>ith_messages\<close>.
\<close>

subsection \<open>Ports\<close>

text \<open>
  One slot of a port's table of notification requests. The unions \<open>notify\<close> (a tagged
  port pointer or a 32-bit free-list link) and \<open>name\<close> are one field each; writing the
  link changes the low half of the pointer field only. Slot 0 is the header of the
  table: its link heads the free list, and \<open>ipr_size\<close> (a pointer into
  \<open>ipc_table_requests\<close>, here an index) is kept beside the slots.
\<close>

record ipc_port_request =
  ipr_soright :: addr
  ipr_name :: mach_port_name_t

record ipc_port_requests =
  ipr_size :: nat
  ipr_slots :: "ipc_port_request list"

definition ipr_next :: "ipc_port_request \<Rightarrow> nat" where
  "ipr_next ipr = unat (ipr_soright ipr AND 0xffffffff)"

definition set_ipr_next :: "nat \<Rightarrow> ipc_port_request \<Rightarrow> ipc_port_request" where
  "set_ipr_next i ipr =
     ipr\<lparr>ipr_soright := (ipr_soright ipr AND NOT 0xffffffff) OR (of_nat i AND 0xffffffff)\<rparr>"

abbreviation (input) IPR_SOR_SPARM_MASK :: addr where
  "IPR_SOR_SPARM_MASK \<equiv> 1"

abbreviation (input) IPR_SOR_SPREQ_MASK :: addr where
  "IPR_SOR_SPREQ_MASK \<equiv> 2"

abbreviation (input) IPR_SOR_SPBIT_MASK :: addr where
  "IPR_SOR_SPBIT_MASK \<equiv> 3"

definition IPR_SOR_SPARMED :: "addr \<Rightarrow> bool" where
  "IPR_SOR_SPARMED sor \<longleftrightarrow> sor AND IPR_SOR_SPARM_MASK \<noteq> 0"

definition IPR_SOR_SPREQ :: "addr \<Rightarrow> bool" where
  "IPR_SOR_SPREQ sor \<longleftrightarrow> sor AND IPR_SOR_SPREQ_MASK \<noteq> 0"

definition IPR_SOR_PORT :: "addr \<Rightarrow> addr" where
  "IPR_SOR_PORT sor = sor AND NOT IPR_SOR_SPBIT_MASK"

definition IPR_SOR_MAKE :: "addr \<Rightarrow> addr \<Rightarrow> addr" where
  "IPR_SOR_MAKE p m = p OR m"

text \<open>
  The union \<open>data\<close> of a port (receiver space, destination port, or time of death) is the
  one field \<open>ip_data\<close>. \<open>ip_in_pset\<close> is the identifier of the port's wait-queue links, zero
  when the port is in no set.
\<close>

record ipc_port =
  ip_references :: natural_t
  ip_bits :: natural_t
  ip_receiver_name :: mach_port_name_t
  ip_in_pset :: addr
  imq_messages :: "addr list"
  imq_seqno :: natural_t
  imq_msgcount :: "16 word"
  imq_qlimit :: "16 word"
  imq_fullwaiters :: bool
  ip_sprequests :: bool
  ip_spimportant :: bool
  ip_impdonation :: bool
  ip_tempowner :: bool
  ip_guarded :: bool
  ip_strict_guard :: bool
  ip_impcount :: "24 word"
  ip_data :: addr
  ip_kobject :: addr
  ip_nsrequest :: addr
  ip_pdrequest :: addr
  ip_requests :: "ipc_port_requests option"
  ip_premsg :: addr
  ip_context :: addr
  ip_mscount :: natural_t
  ip_srights :: natural_t
  ip_sorights :: natural_t

abbreviation (input) ip_receiver :: "ipc_port \<Rightarrow> addr" where
  "ip_receiver \<equiv> ip_data"

abbreviation (input) ip_destination :: "ipc_port \<Rightarrow> addr" where
  "ip_destination \<equiv> ip_data"

text \<open>Writing the 32-bit member \<open>timestamp\<close> changes the low half of the union.\<close>

definition set_ip_timestamp :: "natural_t \<Rightarrow> ipc_port \<Rightarrow> ipc_port" where
  "set_ip_timestamp ts port =
     port\<lparr>ip_data := (ip_data port AND NOT 0xffffffff) OR ucast ts\<rparr>"

abbreviation (input) IP_BIT_PREALLOC :: natural_t where
  "IP_BIT_PREALLOC \<equiv> 0x00008000"

definition IP_PREALLOC :: "ipc_port \<Rightarrow> bool" where
  "IP_PREALLOC port \<longleftrightarrow> ip_bits port AND IP_BIT_PREALLOC \<noteq> 0"

definition IP_CLEAR_PREALLOC :: "ipc_port \<Rightarrow> ipc_port" where
  "IP_CLEAR_PREALLOC port =
     port\<lparr>ip_bits := ip_bits port AND NOT IP_BIT_PREALLOC, ip_premsg := 0\<rparr>"

definition ip_full :: "ipc_port \<Rightarrow> bool" where
  "ip_full port \<longleftrightarrow> imq_msgcount port \<ge> imq_qlimit port"

definition IP_TIMESTAMP_ORDER :: "natural_t \<Rightarrow> natural_t \<Rightarrow> bool" where
  "IP_TIMESTAMP_ORDER one two \<longleftrightarrow> sint (one - two) < 0"

definition io_active_bits :: "natural_t \<Rightarrow> bool" where
  "io_active_bits bits \<longleftrightarrow> bits AND IO_BITS_ACTIVE \<noteq> 0"

abbreviation (input) ip_active :: "ipc_port \<Rightarrow> bool" where
  "ip_active port \<equiv> io_active_bits (ip_bits port)"

definition io_otype_bits :: "natural_t \<Rightarrow> natural_t" where
  "io_otype_bits bits = drop_bit 16 (bits AND IO_BITS_OTYPE)"

subsection \<open>Port sets\<close>

record ipc_pset =
  ips_references :: natural_t
  ips_bits :: natural_t
  ips_local_name :: mach_port_name_t

abbreviation (input) ips_active :: "ipc_pset \<Rightarrow> bool" where
  "ips_active pset \<equiv> io_active_bits (ips_bits pset)"

subsection \<open>The heap\<close>

datatype ipc_object = Io_Port ipc_port | Io_Pset ipc_pset

datatype ipc_event =
    Notify_port_deleted addr mach_port_name_t
  | Notify_send_possible addr mach_port_name_t
  | Notify_port_destroyed addr addr
  | Notify_no_senders addr natural_t
  | Notify_send_once addr
  | Notify_dead_name addr mach_port_name_t
  | Receivers_changed addr
  | Senders_restarted addr
  | Waitq_deinit addr
  | Waitq_unlink_all addr
  | Kobject_destroy addr
  | Kmsg_free addr
  | Kmsg_reap_delayed "addr list"
  | Guard_exception "64 word" "64 word"
  | Sender_awakened addr
  | Importance_task_release addr

record kern =
  k_objects :: "addr \<Rightarrow> ipc_object option"
  k_timestamp :: natural_t
  k_events :: "ipc_event list"
  k_delayed :: "addr list"
  k_space_kernel :: addr
  k_prealloc_inuse :: "addr \<Rightarrow> addr"

definition emit :: "ipc_event \<Rightarrow> kern \<Rightarrow> kern" where
  "emit ev k = k\<lparr>k_events := k_events k @ [ev]\<rparr>"

text \<open>
  \<open>mach_port_guard_exception\<close> of \<open>osfmk/ipc/mach_port.c\<close>: the event is the pair of exception
  codes that is saved in the thread. The guard that was supplied only goes to the log.
\<close>

abbreviation (input) kGUARD_EXC_DESTROY :: natural_t where
  "kGUARD_EXC_DESTROY \<equiv> 1"

abbreviation (input) kGUARD_EXC_MOD_REFS :: natural_t where
  "kGUARD_EXC_MOD_REFS \<equiv> 2"

abbreviation (input) kGUARD_EXC_SET_CONTEXT :: natural_t where
  "kGUARD_EXC_SET_CONTEXT \<equiv> 4"

abbreviation (input) kGUARD_EXC_UNGUARDED :: natural_t where
  "kGUARD_EXC_UNGUARDED \<equiv> 8"

abbreviation (input) kGUARD_EXC_INCORRECT_GUARD :: natural_t where
  "kGUARD_EXC_INCORRECT_GUARD \<equiv> 16"

abbreviation (input) GUARD_TYPE_MACH_PORT :: "64 word" where
  "GUARD_TYPE_MACH_PORT \<equiv> 1"

definition guard_exc_code :: "natural_t \<Rightarrow> mach_port_name_t \<Rightarrow> 64 word" where
  "guard_exc_code reason name =
     push_bit 61 GUARD_TYPE_MACH_PORT OR push_bit 32 (ucast reason) OR ucast name"

definition mach_port_guard_exception ::
    "mach_port_name_t \<Rightarrow> 64 word \<Rightarrow> 64 word \<Rightarrow> natural_t \<Rightarrow> kern \<Rightarrow> kern" where
  "mach_port_guard_exception name inguard portguard reason k =
     (let code = guard_exc_code reason name; subcode = portguard
      in emit (Guard_exception code subcode) k)"

lemma mach_port_guard_exception_emit [simp]:
  "mach_port_guard_exception name inguard portguard reason k
     = emit (Guard_exception (guard_exc_code reason name) portguard) k"
  by (simp add: mach_port_guard_exception_def)

definition port_at :: "kern \<Rightarrow> addr \<Rightarrow> ipc_port option" where
  "port_at k a = (case k_objects k a of Some (Io_Port p) \<Rightarrow> Some p | _ \<Rightarrow> None)"

definition pset_at :: "kern \<Rightarrow> addr \<Rightarrow> ipc_pset option" where
  "pset_at k a = (case k_objects k a of Some (Io_Pset p) \<Rightarrow> Some p | _ \<Rightarrow> None)"

definition put_port :: "addr \<Rightarrow> ipc_port \<Rightarrow> kern \<Rightarrow> kern" where
  "put_port a p k = k\<lparr>k_objects := (k_objects k)(a \<mapsto> Io_Port p)\<rparr>"

definition put_pset :: "addr \<Rightarrow> ipc_pset \<Rightarrow> kern \<Rightarrow> kern" where
  "put_pset a p k = k\<lparr>k_objects := (k_objects k)(a \<mapsto> Io_Pset p)\<rparr>"

definition upd_port :: "addr \<Rightarrow> (ipc_port \<Rightarrow> ipc_port) \<Rightarrow> kern \<Rightarrow> kern option" where
  "upd_port a f k = do { p \<leftarrow> port_at k a; Some (put_port a (f p) k) }"

subsection \<open>Reference counts\<close>

definition io_bits_at :: "kern \<Rightarrow> addr \<Rightarrow> natural_t option" where
  "io_bits_at k a =
     (case k_objects k a of
        None \<Rightarrow> None
      | Some (Io_Port p) \<Rightarrow> Some (ip_bits p)
      | Some (Io_Pset s) \<Rightarrow> Some (ips_bits s))"

definition io_reference :: "addr \<Rightarrow> kern \<Rightarrow> kern option" where
  "io_reference io k =
     (case k_objects k io of
        None \<Rightarrow> None
      | Some (Io_Port p) \<Rightarrow> Some (put_port io (p\<lparr>ip_references := ip_references p + 1\<rparr>) k)
      | Some (Io_Pset s) \<Rightarrow> Some (put_pset io (s\<lparr>ips_references := ips_references s + 1\<rparr>) k))"

definition ipc_port_finalize :: "addr \<Rightarrow> kern \<Rightarrow> kern option" where
  "ipc_port_finalize port k = do {
     p \<leftarrow> port_at k port;
     let k = (case ip_requests p of
                Some requests \<Rightarrow> put_port port (p\<lparr>ip_requests := None\<rparr>) k
              | None \<Rightarrow> k);
     Some (emit (Waitq_deinit port) k) }"

definition io_free :: "natural_t \<Rightarrow> addr \<Rightarrow> kern \<Rightarrow> kern option" where
  "io_free otype object k = do {
     k \<leftarrow> (if otype = IOT_PORT then ipc_port_finalize object k else Some k);
     Some (k\<lparr>k_objects := (k_objects k)(object := None)\<rparr>) }"

definition io_release :: "addr \<Rightarrow> kern \<Rightarrow> kern option" where
  "io_release io k =
     (case k_objects k io of
        None \<Rightarrow> None
      | Some (Io_Port p) \<Rightarrow>
          (let k = put_port io (p\<lparr>ip_references := ip_references p - 1\<rparr>) k in
           if ip_references p = 1 then io_free (io_otype_bits (ip_bits p)) io k else Some k)
      | Some (Io_Pset s) \<Rightarrow>
          (let k = put_pset io (s\<lparr>ips_references := ips_references s - 1\<rparr>) k in
           if ips_references s = 1 then io_free (io_otype_bits (ips_bits s)) io k else Some k))"

abbreviation (input) ip_reference :: "addr \<Rightarrow> kern \<Rightarrow> kern option" where
  "ip_reference \<equiv> io_reference"

abbreviation (input) ip_release :: "addr \<Rightarrow> kern \<Rightarrow> kern option" where
  "ip_release \<equiv> io_release"

subsection \<open>Notifications\<close>

text \<open>
  Each routine calls the generated stub of the same kind, which sends the message and
  consumes the send-once right.
\<close>

definition ipc_notify_port_deleted :: "addr \<Rightarrow> mach_port_name_t \<Rightarrow> kern \<Rightarrow> kern" where
  "ipc_notify_port_deleted port name = emit (Notify_port_deleted port name)"

definition ipc_notify_send_possible :: "addr \<Rightarrow> mach_port_name_t \<Rightarrow> kern \<Rightarrow> kern" where
  "ipc_notify_send_possible port name = emit (Notify_send_possible port name)"

definition ipc_notify_port_destroyed :: "addr \<Rightarrow> addr \<Rightarrow> kern \<Rightarrow> kern" where
  "ipc_notify_port_destroyed port right = emit (Notify_port_destroyed port right)"

definition ipc_notify_no_senders :: "addr \<Rightarrow> natural_t \<Rightarrow> kern \<Rightarrow> kern" where
  "ipc_notify_no_senders port mscount = emit (Notify_no_senders port mscount)"

definition ipc_notify_send_once :: "addr \<Rightarrow> kern \<Rightarrow> kern" where
  "ipc_notify_send_once port = emit (Notify_send_once port)"

definition ipc_notify_dead_name :: "addr \<Rightarrow> mach_port_name_t \<Rightarrow> kern \<Rightarrow> kern" where
  "ipc_notify_dead_name port name = emit (Notify_dead_name port name)"

subsection \<open>Message queues and port sets\<close>

definition ipc_mqueue_init_port :: "ipc_port \<Rightarrow> ipc_port" where
  "ipc_mqueue_init_port port =
     port\<lparr>ip_in_pset := 0, imq_messages := [], imq_seqno := 0, imq_msgcount := 0,
          imq_qlimit := 5, imq_fullwaiters := False\<rparr>"

definition ipc_mqueue_changed :: "addr \<Rightarrow> kern \<Rightarrow> kern" where
  "ipc_mqueue_changed port = emit (Receivers_changed port)"

text \<open>
  \<open>ipc_mqueue_destroy\<close>: the messages move to the thread's queue of deferred messages, which
  is reaped at once, until it is empty, if it was empty before (no outer activation will reap it).
\<close>

definition ipc_mqueue_destroy :: "addr \<Rightarrow> kern \<Rightarrow> kern option" where
  "ipc_mqueue_destroy port k = do {
     p \<leftarrow> port_at k port;
     let k = emit (Senders_restarted port) k;
     let reap = (imq_messages p \<noteq> [] \<and> k_delayed k = []);
     let k = k\<lparr>k_delayed := k_delayed k @ imq_messages p\<rparr>;
     let k = put_port port (p\<lparr>imq_fullwaiters := False, imq_messages := [], imq_msgcount := 0\<rparr>) k;
     Some (if reap then emit (Kmsg_reap_delayed (k_delayed k)) (k\<lparr>k_delayed := []\<rparr>) else k) }"

definition ipc_mqueue_deinit :: "addr \<Rightarrow> kern \<Rightarrow> kern" where
  "ipc_mqueue_deinit port = emit (Waitq_deinit port)"

definition ipc_pset_remove_from_all :: "addr \<Rightarrow> kern \<Rightarrow> (kern_return \<times> kern) option" where
  "ipc_pset_remove_from_all port k = do {
     p \<leftarrow> port_at k port;
     (if ip_in_pset p = 0 then Some (KERN_NOT_IN_SET, k)
      else Some (KERN_SUCCESS, emit (Waitq_unlink_all port) (put_port port (p\<lparr>ip_in_pset := 0\<rparr>) k))) }"

definition ipc_pset_destroy :: "addr \<Rightarrow> kern \<Rightarrow> kern option" where
  "ipc_pset_destroy pset k = do {
     s \<leftarrow> pset_at k pset;
     let k = put_pset pset (s\<lparr>ips_bits := ips_bits s AND NOT IO_BITS_ACTIVE\<rparr>) k;
     let k = emit (Waitq_unlink_all pset) k;
     let k = ipc_mqueue_changed pset k;
     let k = ipc_mqueue_deinit pset k;
     io_release pset k }"

subsection \<open>Loads and stores\<close>

lemma objects_put [simp]:
  "k_objects (put_port a p k) = (k_objects k)(a \<mapsto> Io_Port p)"
  "k_objects (put_pset a s k) = (k_objects k)(a \<mapsto> Io_Pset s)"
  "k_objects (emit ev k) = k_objects k"
  by (simp_all add: put_port_def put_pset_def emit_def)

lemma port_at_put [simp]:
  "port_at (put_port a p k) b = (if b = a then Some p else port_at k b)"
  "port_at (put_pset a s k) b = (if b = a then None else port_at k b)"
  "port_at (emit ev k) b = port_at k b"
  by (simp_all add: port_at_def)

lemma pset_at_put [simp]:
  "pset_at (put_port a p k) b = (if b = a then None else pset_at k b)"
  "pset_at (put_pset a s k) b = (if b = a then Some s else pset_at k b)"
  "pset_at (emit ev k) b = pset_at k b"
  by (simp_all add: pset_at_def)

lemma port_at_eq: "port_at k a = Some p \<longleftrightarrow> k_objects k a = Some (Io_Port p)"
  by (auto simp: port_at_def split: option.splits ipc_object.splits)

lemma pset_at_eq: "pset_at k a = Some s \<longleftrightarrow> k_objects k a = Some (Io_Pset s)"
  by (auto simp: pset_at_def split: option.splits ipc_object.splits)

lemma put_put [simp]:
  "put_port a p (put_port a q k) = put_port a p k"
  by (simp add: put_port_def)

lemma put_port_emit: "put_port a p (emit ev k) = emit ev (put_port a p k)"
  by (simp add: put_port_def emit_def)

lemma put_port_same: "port_at k a = Some p \<Longrightarrow> put_port a p k = k"
  by (cases k) (simp add: put_port_def port_at_eq fun_upd_idem)

lemma kern_fields_put [simp]:
  "k_timestamp (put_port a p k) = k_timestamp k" "k_events (put_port a p k) = k_events k"
  "k_delayed (put_port a p k) = k_delayed k" "k_space_kernel (put_port a p k) = k_space_kernel k"
  "k_prealloc_inuse (put_port a p k) = k_prealloc_inuse k"
  "k_timestamp (emit ev k) = k_timestamp k" "k_events (emit ev k) = k_events k @ [ev]"
  "k_delayed (emit ev k) = k_delayed k" "k_space_kernel (emit ev k) = k_space_kernel k"
  "k_prealloc_inuse (emit ev k) = k_prealloc_inuse k"
  by (simp_all add: put_port_def emit_def)

lemma upd_port_eq: "port_at k a = Some p \<Longrightarrow> upd_port a f k = Some (put_port a (f p) k)"
  by (simp add: upd_port_def)

lemma io_reference_port:
  "port_at k a = Some p \<Longrightarrow>
     io_reference a k = Some (put_port a (p\<lparr>ip_references := ip_references p + 1\<rparr>) k)"
  by (simp add: io_reference_def port_at_eq)

text \<open>The number of references an object has; an address without object has none.\<close>

definition io_refs :: "kern \<Rightarrow> addr \<Rightarrow> nat" where
  "io_refs k a =
     (case k_objects k a of
        None \<Rightarrow> 0
      | Some (Io_Port p) \<Rightarrow> unat (ip_references p)
      | Some (Io_Pset s) \<Rightarrow> unat (ips_references s))"

end
