(* ===== verification/Ipc_Right.thy ===== *)
theory Ipc_Right
  imports Ipc_Port
begin

text \<open>
  Capability rights: the operations of \<open>osfmk/ipc/ipc_right.c\<close> that look rights up,
  release them and change their user references. The state is a pair of the write-locked
  space and the kernel heap; an entry is given by its slot. The large \<open>switch\<close>
  statements of the C routines are split into one definition per case.
\<close>

type_synonym right_result = "(kern_return \<times> ipc_space \<times> kern) option"

abbreviation (input) ent :: "ipc_space \<Rightarrow> nat \<Rightarrow> ipc_entry" where
  "ent space i \<equiv> is_table space ! i"

abbreviation (input) set_bits :: "ipc_space \<Rightarrow> nat \<Rightarrow> ipc_entry_bits_t \<Rightarrow> ipc_space" where
  "set_bits space i b \<equiv> upd_entry space i (ie_bits_update (\<lambda>_. b))"

abbreviation (input) set_object :: "ipc_space \<Rightarrow> nat \<Rightarrow> addr \<Rightarrow> ipc_space" where
  "set_object space i obj \<equiv> upd_entry space i (ie_object_update (\<lambda>_. obj))"

abbreviation (input) set_request :: "ipc_space \<Rightarrow> nat \<Rightarrow> nat \<Rightarrow> ipc_space" where
  "set_request space i r \<equiv> upd_entry space i (ie_request_update (\<lambda>_. r))"

subsection \<open>Lookup\<close>

definition ipc_right_lookup_write :: "ipc_space \<Rightarrow> mach_port_name_t \<Rightarrow> kern_return + nat" where
  "ipc_right_lookup_write space name =
     (if \<not> is_active space then Inl KERN_INVALID_TASK
      else case ipc_entry_lookup space name of
             None \<Rightarrow> Inl KERN_INVALID_NAME
           | Some entry \<Rightarrow> Inr entry)"

definition ipc_right_lookup_two_write ::
    "ipc_space \<Rightarrow> mach_port_name_t \<Rightarrow> mach_port_name_t \<Rightarrow> kern_return + nat \<times> nat" where
  "ipc_right_lookup_two_write space name1 name2 =
     (if \<not> is_active space then Inl KERN_INVALID_TASK
      else case ipc_entry_lookup space name1 of
             None \<Rightarrow> Inl KERN_INVALID_NAME
           | Some entry1 \<Rightarrow>
               (case ipc_entry_lookup space name2 of
                  None \<Rightarrow> Inl KERN_INVALID_NAME
                | Some entry2 \<Rightarrow> Inr (entry1, entry2)))"

text \<open>
  The result \<open>Some (Some (name, entry))\<close> is TRUE. In the case of a receive right the
  entry pointer of a lookup that fails would be null; the model has no result then.
\<close>

definition ipc_right_reverse ::
    "ipc_space \<Rightarrow> addr \<Rightarrow> kern \<Rightarrow> (mach_port_name_t \<times> nat) option option" where
  "ipc_right_reverse space object k = do {
     port \<leftarrow> port_at k object;
     (if \<not> ip_active port then Some None
      else if ip_receiver port = is_self space then do {
        let name = ip_receiver_name port;
        entry \<leftarrow> ipc_entry_lookup space name;
        Some (Some (name, entry)) }
      else ipc_hash_lookup space object) }"

definition ipc_right_inuse :: "ipc_space \<Rightarrow> nat \<Rightarrow> bool" where
  "ipc_right_inuse space entry \<longleftrightarrow> IE_BITS_TYPE (ie_bits (ent space entry)) \<noteq> MACH_PORT_TYPE_NONE"

subsection \<open>Requests on an entry\<close>

definition ipc_right_request_cancel ::
    "ipc_space \<Rightarrow> addr \<Rightarrow> mach_port_name_t \<Rightarrow> nat \<Rightarrow> kern \<Rightarrow> (addr \<times> ipc_space \<times> kern) option" where
  "ipc_right_request_cancel space port name entry k =
     (if ie_request (ent space entry) = IE_REQ_NONE then Some (IP_NULL, space, k)
      else do {
        p \<leftarrow> port_at k port;
        (previous, p) \<leftarrow> ipc_port_request_cancel p (ie_request (ent space entry));
        let k = put_port port p k;
        let space = set_request space entry IE_REQ_NONE;
        Some (previous, ipc_entry_modified space name, k) })"

text \<open>The macro tests \<open>ie_request\<close> before the call.\<close>

definition ipc_right_request_cancel_macro ::
    "ipc_space \<Rightarrow> addr \<Rightarrow> mach_port_name_t \<Rightarrow> nat \<Rightarrow> kern \<Rightarrow> (addr \<times> ipc_space \<times> kern) option" where
  "ipc_right_request_cancel_macro space port name entry k =
     (if ie_request (ent space entry) = IE_REQ_NONE then Some (IP_NULL, space, k)
      else ipc_right_request_cancel space port name entry k)"

text \<open>
  \<open>ipc_right_check\<close> returns whether the port is dead; if so, the entry is a dead name
  afterwards and the caller owns the reference the entry had.
\<close>

definition ipc_right_check ::
    "ipc_space \<Rightarrow> addr \<Rightarrow> mach_port_name_t \<Rightarrow> nat \<Rightarrow> kern \<Rightarrow> (bool \<times> ipc_space \<times> kern) option" where
  "ipc_right_check space port name entry k = do {
     p \<leftarrow> port_at k port;
     (if ip_active p then Some (False, space, k)
      else do {
        let bits = ie_bits (ent space entry);
        let p = (if bits AND MACH_PORT_TYPE_SEND \<noteq> 0
                 then p\<lparr>ip_srights := ip_srights p - 1\<rparr>
                 else p\<lparr>ip_sorights := ip_sorights p - 1\<rparr>);
        let k = put_port port p k;
        space \<leftarrow> (if bits AND MACH_PORT_TYPE_SEND \<noteq> 0 then ipc_hash_delete space port name
                  else Some space);
        let bits = (bits AND NOT IE_BITS_TYPE_MASK) OR MACH_PORT_TYPE_DEAD_NAME;
        (bits, space) \<leftarrow>
          (if ie_request (ent space entry) \<noteq> IE_REQ_NONE then do {
             ty \<leftarrow> ipc_port_request_type p (ie_request (ent space entry));
             Some (if ty \<noteq> 0 then bits + 1 else bits, set_request space entry IE_REQ_NONE) }
           else Some (bits, space));
        let space = set_bits space entry bits;
        let space = set_object space entry IO_NULL;
        Some (True, ipc_entry_modified space name, k) }) }"

subsection \<open>Dropping the send right of a port\<close>

text \<open>
  \<open>if (--port->ip_srights == 0) ...\<close>: the no-senders request that has to be notified
  (\<open>IP_NULL\<close> if none) with the make-send count, as it occurs in several routines.
\<close>

definition ipc_right_drop_send :: "addr \<Rightarrow> kern \<Rightarrow> (addr \<times> natural_t \<times> kern) option" where
  "ipc_right_drop_send port k = do {
     p \<leftarrow> port_at k port;
     let p = p\<lparr>ip_srights := ip_srights p - 1\<rparr>;
     (if ip_srights p = 0 \<and> ip_nsrequest p \<noteq> IP_NULL
      then Some (ip_nsrequest p, ip_mscount p, put_port port (p\<lparr>ip_nsrequest := IP_NULL\<rparr>) k)
      else Some (IP_NULL, 0, put_port port p k)) }"

definition notify_no_senders_if :: "addr \<Rightarrow> natural_t \<Rightarrow> kern \<Rightarrow> kern" where
  "notify_no_senders_if nsrequest mscount k =
     (if nsrequest \<noteq> IP_NULL then ipc_notify_no_senders nsrequest mscount k else k)"

definition notify_port_deleted_if :: "addr \<Rightarrow> mach_port_name_t \<Rightarrow> kern \<Rightarrow> kern" where
  "notify_port_deleted_if request name k =
     (if request \<noteq> IP_NULL then ipc_notify_port_deleted request name k else k)"

subsection \<open>Terminating and destroying an entry\<close>

text \<open>The common end of the port cases of \<open>ipc_right_terminate\<close> and \<open>ipc_right_destroy\<close>.\<close>

definition ipc_right_release_port ::
    "mach_port_type_t \<Rightarrow> addr \<Rightarrow> mach_port_name_t \<Rightarrow> addr \<Rightarrow> kern \<Rightarrow> kern option" where
  "ipc_right_release_port type port name request k = do {
     (nsrequest, mscount, k) \<leftarrow>
       (if type AND MACH_PORT_TYPE_SEND \<noteq> 0 then ipc_right_drop_send port k
        else Some (IP_NULL, 0, k));
     k \<leftarrow> (if type AND MACH_PORT_TYPE_RECEIVE \<noteq> 0 then do {
             k \<leftarrow> ipc_port_clear_receiver port k;
             ipc_port_destroy port k }
           else if type AND MACH_PORT_TYPE_SEND_ONCE \<noteq> 0 then Some (ipc_notify_send_once port k)
           else ip_release port k);
     let k = notify_no_senders_if nsrequest mscount k;
     Some (notify_port_deleted_if request name k) }"

definition ipc_right_terminate ::
    "ipc_space \<Rightarrow> mach_port_name_t \<Rightarrow> nat \<Rightarrow> kern \<Rightarrow> (ipc_space \<times> kern) option" where
  "ipc_right_terminate space name entry k =
     (let bits = ie_bits (ent space entry);
          type = IE_BITS_TYPE bits
      in if type = MACH_PORT_TYPE_DEAD_NAME then Some (space, k)
         else if type = MACH_PORT_TYPE_PORT_SET then do {
           k \<leftarrow> ipc_pset_destroy (ie_object (ent space entry)) k;
           Some (space, k) }
         else if type \<in> {MACH_PORT_TYPE_SEND, MACH_PORT_TYPE_RECEIVE,
                         MACH_PORT_TYPE_SEND_RECEIVE, MACH_PORT_TYPE_SEND_ONCE} then do {
           let port = ie_object (ent space entry);
           p \<leftarrow> port_at k port;
           (if \<not> ip_active p then do {
              k \<leftarrow> ip_release port k;
              Some (space, k) }
            else do {
              (request, space, k) \<leftarrow> ipc_right_request_cancel_macro space port name entry k;
              k \<leftarrow> ipc_right_release_port type port name request k;
              Some (space, k) }) }
         else None)"

definition ipc_right_destroy_port ::
    "ipc_space \<Rightarrow> mach_port_name_t \<Rightarrow> nat \<Rightarrow> mach_port_type_t \<Rightarrow> bool \<Rightarrow> addr \<Rightarrow> kern \<Rightarrow> right_result" where
  "ipc_right_destroy_port space name entry type check_guard guard k = do {
     let port = ie_object (ent space entry);
     space \<leftarrow> (if type = MACH_PORT_TYPE_SEND then ipc_hash_delete space port name else Some space);
     p \<leftarrow> port_at k port;
     (if \<not> ip_active p then do {
        let space = set_request space entry IE_REQ_NONE;
        let space = set_object space entry IO_NULL;
        space \<leftarrow> ipc_entry_dealloc space name entry;
        k \<leftarrow> ip_release port k;
        Some (KERN_SUCCESS, space, k) }
      else if type AND MACH_PORT_TYPE_RECEIVE \<noteq> 0 \<and> check_guard \<and> ip_guarded p
              \<and> guard \<noteq> ip_context p
      then Some (KERN_INVALID_RIGHT, space, mach_port_guard_exception name 0 (ip_context p) kGUARD_EXC_DESTROY k)
      else do {
        (request, space, k) \<leftarrow> ipc_right_request_cancel_macro space port name entry k;
        let space = set_object space entry IO_NULL;
        space \<leftarrow> ipc_entry_dealloc space name entry;
        k \<leftarrow> ipc_right_release_port type port name request k;
        Some (KERN_SUCCESS, space, k) }) }"

definition ipc_right_destroy ::
    "ipc_space \<Rightarrow> mach_port_name_t \<Rightarrow> nat \<Rightarrow> bool \<Rightarrow> addr \<Rightarrow> kern \<Rightarrow> right_result" where
  "ipc_right_destroy space name entry check_guard guard k =
     (let bits = ie_bits (ent space entry);
          space = set_bits space entry (bits AND NOT IE_BITS_TYPE_MASK);
          type = IE_BITS_TYPE bits
      in if type = MACH_PORT_TYPE_DEAD_NAME then do {
           space \<leftarrow> ipc_entry_dealloc space name entry;
           Some (KERN_SUCCESS, space, k) }
         else if type = MACH_PORT_TYPE_PORT_SET then do {
           let pset = ie_object (ent space entry);
           let space = set_object space entry IO_NULL;
           space \<leftarrow> ipc_entry_dealloc space name entry;
           k \<leftarrow> ipc_pset_destroy pset k;
           Some (KERN_SUCCESS, space, k) }
         else if type \<in> {MACH_PORT_TYPE_SEND, MACH_PORT_TYPE_RECEIVE,
                         MACH_PORT_TYPE_SEND_RECEIVE, MACH_PORT_TYPE_SEND_ONCE}
         then ipc_right_destroy_port space name entry type check_guard guard k
         else None)"

subsection \<open>Deallocating one user reference\<close>

text \<open>
  The label \<open>dead_name\<close> of \<open>ipc_right_dealloc\<close>; \<open>port\<close> is the port whose right was just
  converted to a dead name, or \<open>IP_NULL\<close>.
\<close>

definition ipc_right_dealloc_dead_name ::
    "ipc_space \<Rightarrow> mach_port_name_t \<Rightarrow> nat \<Rightarrow> addr \<Rightarrow> kern \<Rightarrow> right_result" where
  "ipc_right_dealloc_dead_name space name entry port k = do {
     let bits = ie_bits (ent space entry);
     space \<leftarrow> (if IE_BITS_UREFS bits = 1 then ipc_entry_dealloc space name entry
               else Some (ipc_entry_modified (set_bits space entry (bits - 1)) name));
     k \<leftarrow> (if port \<noteq> IP_NULL then ip_release port k else Some k);
     Some (KERN_SUCCESS, space, k) }"

definition ipc_right_dealloc_send_once ::
    "ipc_space \<Rightarrow> mach_port_name_t \<Rightarrow> nat \<Rightarrow> kern \<Rightarrow> right_result" where
  "ipc_right_dealloc_send_once space name entry k = do {
     let port = ie_object (ent space entry);
     (dead, space, k) \<leftarrow> ipc_right_check space port name entry k;
     (if dead then ipc_right_dealloc_dead_name space name entry port k
      else do {
        (request, space, k) \<leftarrow> ipc_right_request_cancel_macro space port name entry k;
        let space = set_object space entry IO_NULL;
        space \<leftarrow> ipc_entry_dealloc space name entry;
        let k = ipc_notify_send_once port k;
        Some (KERN_SUCCESS, space, notify_port_deleted_if request name k) }) }"

text \<open>
  Giving up the last user reference of a pure send right on an active port.
\<close>

definition ipc_right_dealloc_last_send ::
    "ipc_space \<Rightarrow> mach_port_name_t \<Rightarrow> nat \<Rightarrow> addr \<Rightarrow> kern \<Rightarrow> right_result" where
  "ipc_right_dealloc_last_send space name entry port k = do {
     (nsrequest, mscount, k) \<leftarrow> ipc_right_drop_send port k;
     (request, space, k) \<leftarrow> ipc_right_request_cancel_macro space port name entry k;
     space \<leftarrow> ipc_hash_delete space port name;
     let space = set_object space entry IO_NULL;
     space \<leftarrow> ipc_entry_dealloc space name entry;
     k \<leftarrow> ip_release port k;
     let k = notify_no_senders_if nsrequest mscount k;
     Some (KERN_SUCCESS, space, notify_port_deleted_if request name k) }"

definition ipc_right_dealloc_send ::
    "ipc_space \<Rightarrow> mach_port_name_t \<Rightarrow> nat \<Rightarrow> kern \<Rightarrow> right_result" where
  "ipc_right_dealloc_send space name entry k = do {
     let bits = ie_bits (ent space entry);
     let port = ie_object (ent space entry);
     (dead, space, k) \<leftarrow> ipc_right_check space port name entry k;
     (if dead then ipc_right_dealloc_dead_name space name entry port k
      else if IE_BITS_UREFS bits = 1 then ipc_right_dealloc_last_send space name entry port k
      else Some (KERN_SUCCESS, ipc_entry_modified (set_bits space entry (bits - 1)) name, k)) }"

definition ipc_right_dealloc_send_receive ::
    "ipc_space \<Rightarrow> mach_port_name_t \<Rightarrow> nat \<Rightarrow> kern \<Rightarrow> right_result" where
  "ipc_right_dealloc_send_receive space name entry k = do {
     let bits = ie_bits (ent space entry);
     let port = ie_object (ent space entry);
     (nsrequest, mscount, space, k) \<leftarrow>
       (if IE_BITS_UREFS bits = 1 then do {
          (nsrequest, mscount, k) \<leftarrow> ipc_right_drop_send port k;
          Some (nsrequest, mscount,
                set_bits space entry (bits AND NOT (IE_BITS_UREFS_MASK OR MACH_PORT_TYPE_SEND)), k) }
        else Some (IP_NULL, 0, set_bits space entry (bits - 1), k));
     let space = ipc_entry_modified space name;
     Some (KERN_SUCCESS, space, notify_no_senders_if nsrequest mscount k) }"

definition ipc_right_dealloc ::
    "ipc_space \<Rightarrow> mach_port_name_t \<Rightarrow> nat \<Rightarrow> kern \<Rightarrow> right_result" where
  "ipc_right_dealloc space name entry k =
     (let type = IE_BITS_TYPE (ie_bits (ent space entry))
      in if type = MACH_PORT_TYPE_DEAD_NAME then
           ipc_right_dealloc_dead_name space name entry IP_NULL k
         else if type = MACH_PORT_TYPE_SEND_ONCE then ipc_right_dealloc_send_once space name entry k
         else if type = MACH_PORT_TYPE_SEND then ipc_right_dealloc_send space name entry k
         else if type = MACH_PORT_TYPE_SEND_RECEIVE then
           ipc_right_dealloc_send_receive space name entry k
         else Some (KERN_INVALID_RIGHT, space, k))"

subsection \<open>Losing a receive right\<close>

text \<open>
  What happens to the entry when its receive right goes away: the common part of
  \<open>ipc_right_delta\<close> and \<open>ipc_right_destruct\<close>. With a send right left, the entry becomes a
  hashed send right if the port survives (port-destroyed request), and a dead name
  otherwise. The first component of the result is the cancelled request.
\<close>

definition ipc_right_lose_receive ::
    "ipc_space \<Rightarrow> mach_port_name_t \<Rightarrow> nat \<Rightarrow> addr \<Rightarrow> kern \<Rightarrow> (addr \<times> ipc_space \<times> kern) option" where
  "ipc_right_lose_receive space name entry port k = do {
     let bits = ie_bits (ent space entry);
     p \<leftarrow> port_at k port;
     (if bits AND MACH_PORT_TYPE_SEND \<noteq> 0 then
        (if ip_pdrequest p \<noteq> IP_NULL then do {
           let space = ipc_entry_modified space name;
           let space = set_bits space entry (bits AND NOT MACH_PORT_TYPE_RECEIVE);
           space \<leftarrow> ipc_hash_insert space port name;
           k \<leftarrow> ip_reference port k;
           Some (IP_NULL, space, k) }
         else do {
           let bits = (bits AND NOT IE_BITS_TYPE_MASK) OR MACH_PORT_TYPE_DEAD_NAME;
           let (bits, space) = (if ie_request (ent space entry) \<noteq> IE_REQ_NONE
                                then (bits + 1, set_request space entry IE_REQ_NONE)
                                else (bits, space));
           let space = set_bits space entry bits;
           let space = set_object space entry IO_NULL;
           Some (IP_NULL, ipc_entry_modified space name, k) })
      else do {
        (request, space, k) \<leftarrow> ipc_right_request_cancel_macro space port name entry k;
        let space = set_object space entry IO_NULL;
        space \<leftarrow> ipc_entry_dealloc space name entry;
        Some (request, space, k) }) }"

subsection \<open>Changing user references\<close>

definition ipc_right_delta_port_set ::
    "ipc_space \<Rightarrow> mach_port_name_t \<Rightarrow> nat \<Rightarrow> mach_port_delta_t \<Rightarrow> kern \<Rightarrow> right_result" where
  "ipc_right_delta_port_set space name entry delta k =
     (if ie_bits (ent space entry) AND MACH_PORT_TYPE_PORT_SET = 0
      then Some (KERN_INVALID_RIGHT, space, k)
      else if delta = 0 then Some (KERN_SUCCESS, space, k)
      else if delta \<noteq> -1 then Some (KERN_INVALID_VALUE, space, k)
      else do {
        let pset = ie_object (ent space entry);
        let space = set_object space entry IO_NULL;
        space \<leftarrow> ipc_entry_dealloc space name entry;
        k \<leftarrow> ipc_pset_destroy pset k;
        Some (KERN_SUCCESS, space, k) })"

definition ipc_right_delta_receive ::
    "ipc_space \<Rightarrow> mach_port_name_t \<Rightarrow> nat \<Rightarrow> mach_port_delta_t \<Rightarrow> kern \<Rightarrow> right_result" where
  "ipc_right_delta_receive space name entry delta k =
     (if ie_bits (ent space entry) AND MACH_PORT_TYPE_RECEIVE = 0
      then Some (KERN_INVALID_RIGHT, space, k)
      else if delta = 0 then Some (KERN_SUCCESS, space, k)
      else if delta \<noteq> -1 then Some (KERN_INVALID_VALUE, space, k)
      else do {
        let port = ie_object (ent space entry);
        p \<leftarrow> port_at k port;
        (if ip_guarded p
         then Some (KERN_INVALID_RIGHT, space, mach_port_guard_exception name 0 (ip_context p) kGUARD_EXC_MOD_REFS k)
         else do {
           (request, space, k) \<leftarrow> ipc_right_lose_receive space name entry port k;
           k \<leftarrow> ipc_port_clear_receiver port k;
           k \<leftarrow> ipc_port_destroy port k;
           Some (KERN_SUCCESS, space, notify_port_deleted_if request name k) }) })"

definition ipc_right_delta_send_once ::
    "ipc_space \<Rightarrow> mach_port_name_t \<Rightarrow> nat \<Rightarrow> mach_port_delta_t \<Rightarrow> kern \<Rightarrow> right_result" where
  "ipc_right_delta_send_once space name entry delta k =
     (if ie_bits (ent space entry) AND MACH_PORT_TYPE_SEND_ONCE = 0
      then Some (KERN_INVALID_RIGHT, space, k)
      else do {
        let port = ie_object (ent space entry);
        (dead, space, k) \<leftarrow> ipc_right_check space port name entry k;
        (if dead then do {
           k \<leftarrow> ip_release port k;
           Some (KERN_INVALID_RIGHT, space, k) }
         else if sint delta > 0 \<or> sint delta < -1 then Some (KERN_INVALID_VALUE, space, k)
         else if delta = 0 then Some (KERN_SUCCESS, space, k)
         else do {
           (request, space, k) \<leftarrow> ipc_right_request_cancel_macro space port name entry k;
           let space = set_object space entry IO_NULL;
           space \<leftarrow> ipc_entry_dealloc space name entry;
           let k = ipc_notify_send_once port k;
           Some (KERN_SUCCESS, space, notify_port_deleted_if request name k) }) })"

text \<open>
  In the case of dead names \<open>relport\<close> holds the port of a right that was converted by this
  call. The exits \<open>invalid_value\<close> and \<open>urefs_overflow\<close> do not release it.
\<close>

definition ipc_right_delta_dead_name_urefs ::
    "ipc_space \<Rightarrow> mach_port_name_t \<Rightarrow> nat \<Rightarrow> mach_port_delta_t \<Rightarrow> addr \<Rightarrow> kern \<Rightarrow> right_result" where
  "ipc_right_delta_dead_name_urefs space name entry delta relport k =
     (let bits = ie_bits (ent space entry);
          urefs = IE_BITS_UREFS bits
      in if MACH_PORT_UREFS_UNDERFLOW urefs delta then Some (KERN_INVALID_VALUE, space, k)
         else if MACH_PORT_UREFS_OVERFLOW urefs delta then Some (KERN_UREFS_OVERFLOW, space, k)
         else do {
           space \<leftarrow> (if urefs + delta = 0 then ipc_entry_dealloc space name entry
                     else Some (ipc_entry_modified (set_bits space entry (bits + delta)) name));
           k \<leftarrow> (if relport \<noteq> IP_NULL then ip_release relport k else Some k);
           Some (KERN_SUCCESS, space, k) })"

definition ipc_right_delta_dead_name ::
    "ipc_space \<Rightarrow> mach_port_name_t \<Rightarrow> nat \<Rightarrow> mach_port_delta_t \<Rightarrow> kern \<Rightarrow> right_result" where
  "ipc_right_delta_dead_name space name entry delta k =
     (let bits = ie_bits (ent space entry) in
      if bits AND MACH_PORT_TYPE_SEND_RIGHTS \<noteq> 0 then do {
        let port = ie_object (ent space entry);
        (dead, space, k) \<leftarrow> ipc_right_check space port name entry k;
        (if \<not> dead then Some (KERN_INVALID_RIGHT, space, k)
         else ipc_right_delta_dead_name_urefs space name entry delta port k) }
      else if bits AND MACH_PORT_TYPE_DEAD_NAME = 0 then Some (KERN_INVALID_RIGHT, space, k)
      else ipc_right_delta_dead_name_urefs space name entry delta IP_NULL k)"

definition ipc_right_delta_last_send ::
    "ipc_space \<Rightarrow> mach_port_name_t \<Rightarrow> nat \<Rightarrow> addr \<Rightarrow> kern \<Rightarrow> right_result" where
  "ipc_right_delta_last_send space name entry port k = do {
     let bits = ie_bits (ent space entry);
     (nsrequest, mscount, k) \<leftarrow> ipc_right_drop_send port k;
     (request, space, k) \<leftarrow>
       (if bits AND MACH_PORT_TYPE_RECEIVE \<noteq> 0 then
          Some (IP_NULL, ipc_entry_modified (set_bits space entry
                  (bits AND NOT (IE_BITS_UREFS_MASK OR MACH_PORT_TYPE_SEND))) name, k)
        else do {
          (request, space, k) \<leftarrow> ipc_right_request_cancel_macro space port name entry k;
          space \<leftarrow> ipc_hash_delete space port name;
          k \<leftarrow> ip_release port k;
          let space = set_object space entry IO_NULL;
          space \<leftarrow> ipc_entry_dealloc space name entry;
          Some (request, space, k) });
     let k = notify_no_senders_if nsrequest mscount k;
     Some (KERN_SUCCESS, space, notify_port_deleted_if request name k) }"

definition ipc_right_delta_send ::
    "ipc_space \<Rightarrow> mach_port_name_t \<Rightarrow> nat \<Rightarrow> mach_port_delta_t \<Rightarrow> kern \<Rightarrow> right_result" where
  "ipc_right_delta_send space name entry delta k =
     (let bits = ie_bits (ent space entry) in
      if bits AND MACH_PORT_TYPE_SEND = 0 then Some (KERN_INVALID_RIGHT, space, k)
      else do {
        let port = ie_object (ent space entry);
        (dead, space, k) \<leftarrow> ipc_right_check space port name entry k;
        let urefs = IE_BITS_UREFS bits;
        (if dead then do {
           k \<leftarrow> ip_release port k;
           Some (KERN_INVALID_RIGHT, space, k) }
         else if MACH_PORT_UREFS_UNDERFLOW urefs delta then Some (KERN_INVALID_VALUE, space, k)
         else if MACH_PORT_UREFS_OVERFLOW (urefs + 1) delta then Some (KERN_UREFS_OVERFLOW, space, k)
         else if urefs + delta = 0 then ipc_right_delta_last_send space name entry port k
         else Some (KERN_SUCCESS, ipc_entry_modified (set_bits space entry (bits + delta)) name, k)) })"

definition ipc_right_delta ::
    "ipc_space \<Rightarrow> mach_port_name_t \<Rightarrow> nat \<Rightarrow> mach_port_right_t \<Rightarrow> mach_port_delta_t \<Rightarrow> kern
       \<Rightarrow> right_result" where
  "ipc_right_delta space name entry right delta k =
     (if right = MACH_PORT_RIGHT_PORT_SET then ipc_right_delta_port_set space name entry delta k
      else if right = MACH_PORT_RIGHT_RECEIVE then ipc_right_delta_receive space name entry delta k
      else if right = MACH_PORT_RIGHT_SEND_ONCE then ipc_right_delta_send_once space name entry delta k
      else if right = MACH_PORT_RIGHT_DEAD_NAME then ipc_right_delta_dead_name space name entry delta k
      else if right = MACH_PORT_RIGHT_SEND then ipc_right_delta_send space name entry delta k
      else None)"

subsection \<open>Destructing a receive right\<close>

text \<open>
  The reduction of the send rights by \<open>srdelta\<close>; \<open>None\<close> inside the result is the exit
  \<open>invalid_value\<close>.
\<close>

definition ipc_right_destruct_srights ::
    "ipc_space \<Rightarrow> nat \<Rightarrow> mach_port_delta_t \<Rightarrow> addr \<Rightarrow> kern
       \<Rightarrow> (addr \<times> natural_t \<times> ipc_space \<times> kern) option option" where
  "ipc_right_destruct_srights space entry srdelta port k =
     (if srdelta = 0 then Some (Some (IP_NULL, 0, space, k))
      else
        let bits = ie_bits (ent space entry);
            urefs = IE_BITS_UREFS bits
        in if MACH_PORT_UREFS_UNDERFLOW urefs srdelta then Some None
           else if urefs + srdelta = 0 then do {
             (nsrequest, mscount, k) \<leftarrow> ipc_right_drop_send port k;
             let space = set_bits space entry
                           (bits AND NOT (IE_BITS_UREFS_MASK OR MACH_PORT_TYPE_SEND));
             Some (Some (nsrequest, mscount, space, k)) }
           else Some (Some (IP_NULL, 0, set_bits space entry (bits + srdelta), k)))"

definition ipc_right_destruct ::
    "ipc_space \<Rightarrow> mach_port_name_t \<Rightarrow> nat \<Rightarrow> mach_port_delta_t \<Rightarrow> addr \<Rightarrow> kern \<Rightarrow> right_result" where
  "ipc_right_destruct space name entry srdelta guard k =
     (let bits = ie_bits (ent space entry) in
      if bits AND MACH_PORT_TYPE_RECEIVE = 0 \<or> srdelta \<noteq> 0 \<and> bits AND MACH_PORT_TYPE_SEND = 0
      then Some (KERN_INVALID_RIGHT, space, k)
      else if sint srdelta > 0 then Some (KERN_INVALID_VALUE, space, k)
      else do {
        let port = ie_object (ent space entry);
        p \<leftarrow> port_at k port;
        (if ip_guarded p \<and> guard \<noteq> ip_context p
         then Some (KERN_INVALID_ARGUMENT, space, mach_port_guard_exception name 0 (ip_context p) kGUARD_EXC_DESTROY k)
         else do {
           reduced \<leftarrow> ipc_right_destruct_srights space entry srdelta port k;
           (case reduced of
              None \<Rightarrow> Some (KERN_INVALID_VALUE, space, k)
            | Some (nsrequest, mscount, space, k) \<Rightarrow> do {
                (request, space, k) \<leftarrow> ipc_right_lose_receive space name entry port k;
                let k = notify_no_senders_if nsrequest mscount k;
                k \<leftarrow> ipc_port_clear_receiver port k;
                k \<leftarrow> ipc_port_destroy port k;
                Some (KERN_SUCCESS, space, notify_port_deleted_if request name k) }) }) })"

subsection \<open>Information about a right\<close>

definition ipc_right_info ::
    "ipc_space \<Rightarrow> mach_port_name_t \<Rightarrow> nat \<Rightarrow> kern
       \<Rightarrow> (mach_port_type_t \<times> natural_t \<times> ipc_space \<times> kern) option" where
  "ipc_right_info space name entry k = do {
     let bits = ie_bits (ent space entry);
     let request = ie_request (ent space entry);
     let port = ie_object (ent space entry);
     let request_type = (\<lambda>k. if request \<noteq> IE_REQ_NONE then do {
                               p \<leftarrow> port_at k port;
                               ipc_port_request_type p request }
                             else Some 0);
     (type, bits, space, k) \<leftarrow>
       (if bits AND MACH_PORT_TYPE_RECEIVE \<noteq> 0 then do {
          type \<leftarrow> request_type k;
          Some (type, bits, space, k) }
        else if bits AND MACH_PORT_TYPE_SEND_RIGHTS \<noteq> 0 then do {
          (dead, space, k) \<leftarrow> ipc_right_check space port name entry k;
          (if \<not> dead then do {
             type \<leftarrow> request_type k;
             Some (type, bits, space, k) }
           else do {
             let bits = ie_bits (ent space entry);
             k \<leftarrow> ip_release port k;
             Some (0, bits, space, k) }) }
        else Some (0, bits, space, k));
     Some (type OR IE_BITS_TYPE bits, IE_BITS_UREFS bits, space, k) }"

subsection \<open>Requesting a notification\<close>

definition ipc_port_request_cancel_prev :: "ipc_port \<Rightarrow> nat \<Rightarrow> (addr \<times> ipc_port) option" where
  "ipc_port_request_cancel_prev p prev_request =
     (if prev_request \<noteq> IE_REQ_NONE then ipc_port_request_cancel p prev_request
      else Some (IP_NULL, p))"

text \<open>
  The case of an active port. The inner \<open>None\<close> says that the loop goes on with another
  iteration, after the request table has grown.
\<close>

definition ipc_right_request_alloc_active ::
    "nat list \<Rightarrow> (nat \<Rightarrow> bool) \<Rightarrow> ipc_space \<Rightarrow> mach_port_name_t \<Rightarrow> nat \<Rightarrow> bool \<Rightarrow> bool \<Rightarrow> addr \<Rightarrow> kern
       \<Rightarrow> ((kern_return + addr) option \<times> ipc_space \<times> kern) option" where
  "ipc_right_request_alloc_active sizes kalloc_ok space name entry immediate send_possible notify k = do {
     let prev_request = ie_request (ent space entry);
     let port = ie_object (ent space entry);
     p \<leftarrow> port_at k port;
     (previous, p') \<leftarrow> ipc_port_request_cancel_prev p prev_request;
     let none = ipc_entry_modified (set_request space entry IE_REQ_NONE) name;
     (if notify = IP_NULL then Some (Some (Inr previous), none, put_port port p' k)
      else if send_possible \<and> immediate
              \<and> (ie_bits (ent space entry) AND MACH_PORT_TYPE_SEND_ONCE \<noteq> 0
                 \<or> ip_receiver p = k_space_kernel k \<or> \<not> ip_full p)
      then Some (Some (Inr previous), none, ipc_notify_send_possible notify name (put_port port p' k))
      else do {
        r \<leftarrow> ipc_port_request_alloc p' name notify send_possible immediate;
        (case r of
           Inl kr \<Rightarrow> do {
             (kr, k) \<leftarrow> ipc_port_request_grow sizes kalloc_ok port None (put_port port p' k);
             Some (if kr \<noteq> KERN_SUCCESS then Some (Inl kr) else None, space, k) }
         | Inr (new_request, p') \<Rightarrow>
             Some (Some (Inr previous),
                   ipc_entry_modified (set_request space entry new_request) name,
                   put_port port p' k)) }) }"

text \<open>
  The part after the \<open>if\<close> for port rights: an immediate notification for a dead name, or
  an error. \<open>port\<close> is the port whose right was converted in this iteration, or \<open>IP_NULL\<close>.
\<close>

definition ipc_right_request_alloc_dead ::
    "ipc_space \<Rightarrow> mach_port_name_t \<Rightarrow> nat \<Rightarrow> bool \<Rightarrow> bool \<Rightarrow> addr \<Rightarrow> addr \<Rightarrow> kern
       \<Rightarrow> ((kern_return + addr) \<times> ipc_space \<times> kern) option" where
  "ipc_right_request_alloc_dead space name entry immediate send_possible notify port k = do {
     let bits = ie_bits (ent space entry);
     k \<leftarrow> (if port \<noteq> IP_NULL then ip_release port k else Some k);
     (if (send_possible \<or> immediate) \<and> notify \<noteq> IP_NULL \<and> bits AND MACH_PORT_TYPE_DEAD_NAME \<noteq> 0
      then
        if MACH_PORT_UREFS_OVERFLOW (IE_BITS_UREFS bits) 1
        then Some (Inl KERN_UREFS_OVERFLOW, space, k)
        else Some (Inr IP_NULL, ipc_entry_modified (set_bits space entry (bits + 1)) name,
                   ipc_notify_dead_name notify name k)
      else if bits AND MACH_PORT_TYPE_PORT_OR_DEAD \<noteq> 0
      then Some (Inl KERN_INVALID_ARGUMENT, space, k)
      else Some (Inl KERN_INVALID_RIGHT, space, k)) }"

definition ipc_right_request_alloc_iter ::
    "nat list \<Rightarrow> (nat \<Rightarrow> bool) \<Rightarrow> ipc_space \<Rightarrow> mach_port_name_t \<Rightarrow> bool \<Rightarrow> bool \<Rightarrow> addr \<Rightarrow> kern
       \<Rightarrow> ((kern_return + addr) option \<times> ipc_space \<times> kern) option" where
  "ipc_right_request_alloc_iter sizes kalloc_ok space name immediate send_possible notify k =
     (case ipc_right_lookup_write space name of
        Inl kr \<Rightarrow> Some (Some (Inl kr), space, k)
      | Inr entry \<Rightarrow>
          if notify = IP_NULL \<and> ie_request (ent space entry) = IE_REQ_NONE
          then Some (Some (Inr IP_NULL), space, k)
          else if ie_bits (ent space entry) AND MACH_PORT_TYPE_PORT_RIGHTS \<noteq> 0 then do {
            let port = ie_object (ent space entry);
            (dead, space, k) \<leftarrow> ipc_right_check space port name entry k;
            (if \<not> dead
             then ipc_right_request_alloc_active sizes kalloc_ok space name entry
                    immediate send_possible notify k
             else do {
               (r, space, k) \<leftarrow> ipc_right_request_alloc_dead space name entry
                                 immediate send_possible notify port k;
               Some (Some r, space, k) }) }
          else do {
            (r, space, k) \<leftarrow> ipc_right_request_alloc_dead space name entry
                              immediate send_possible notify IP_NULL k;
            Some (Some r, space, k) })"

partial_function (option) ipc_right_request_alloc ::
    "nat list \<Rightarrow> (nat \<Rightarrow> bool) \<Rightarrow> ipc_space \<Rightarrow> mach_port_name_t \<Rightarrow> bool \<Rightarrow> bool \<Rightarrow> addr \<Rightarrow> kern
       \<Rightarrow> ((kern_return + addr) \<times> ipc_space \<times> kern) option" where
  "ipc_right_request_alloc sizes kalloc_ok space name immediate send_possible notify k = do {
     (r, space, k) \<leftarrow> ipc_right_request_alloc_iter sizes kalloc_ok space name
                       immediate send_possible notify k;
     (case r of
        Some res \<Rightarrow> Some (res, space, k)
      | None \<Rightarrow> ipc_right_request_alloc sizes kalloc_ok space name immediate send_possible notify k) }"

end
