(* ===== verification/Ipc_Right_Copy.thy ===== *)
theory Ipc_Right_Copy
  imports Ipc_Right
begin

text \<open>
  Moving capabilities between a space and a message: \<open>ipc_right_copyin\<close> and its variants,
  \<open>ipc_right_copyout\<close> and \<open>ipc_right_rename\<close> of \<open>osfmk/ipc/ipc_right.c\<close>, one definition
  per disposition.

  The result of a copyin is the return code, or the object with the send-once right for a
  port-deleted notification (\<open>objectp\<close>, \<open>sorightp\<close>); then the port to release
  (\<open>releasep\<close>), the space and the heap. The assertion count \<open>assertcntp\<close> belongs to
  importance inheritance and is always 0 here.
\<close>

type_synonym copyin_result = "((kern_return + addr \<times> addr) \<times> addr \<times> ipc_space \<times> kern) option"

subsection \<open>Checking a copyin in advance\<close>

definition ipc_right_copyin_check ::
    "ipc_space \<Rightarrow> nat \<Rightarrow> mach_msg_type_name \<Rightarrow> kern \<Rightarrow> bool option" where
  "ipc_right_copyin_check space entry msgt_name k =
     (let bits = ie_bits (ent space entry) in
      if msgt_name \<in> {MACH_MSG_TYPE_MAKE_SEND, MACH_MSG_TYPE_MAKE_SEND_ONCE, MACH_MSG_TYPE_MOVE_RECEIVE}
      then Some (bits AND MACH_PORT_TYPE_RECEIVE \<noteq> 0)
      else if msgt_name \<in> {MACH_MSG_TYPE_COPY_SEND, MACH_MSG_TYPE_MOVE_SEND, MACH_MSG_TYPE_MOVE_SEND_ONCE}
      then
        if bits AND MACH_PORT_TYPE_DEAD_NAME \<noteq> 0 then Some True
        else if bits AND MACH_PORT_TYPE_SEND_RIGHTS = 0 then Some False
        else do {
          p \<leftarrow> port_at k (ie_object (ent space entry));
          Some (if \<not> ip_active p then True
                else if msgt_name = MACH_MSG_TYPE_MOVE_SEND_ONCE
                then bits AND MACH_PORT_TYPE_SEND_ONCE \<noteq> 0
                else bits AND MACH_PORT_TYPE_SEND \<noteq> 0) }
      else None)"

subsection \<open>Copyin\<close>

definition ipc_right_copyin_make_send :: "ipc_space \<Rightarrow> nat \<Rightarrow> kern \<Rightarrow> copyin_result" where
  "ipc_right_copyin_make_send space entry k =
     (if ie_bits (ent space entry) AND MACH_PORT_TYPE_RECEIVE = 0
      then Some (Inl KERN_INVALID_RIGHT, IP_NULL, space, k)
      else do {
        let port = ie_object (ent space entry);
        k \<leftarrow> upd_port port (\<lambda>p. p\<lparr>ip_mscount := ip_mscount p + 1, ip_srights := ip_srights p + 1\<rparr>) k;
        k \<leftarrow> ip_reference port k;
        Some (Inr (port, IP_NULL), IP_NULL, space, k) })"

definition ipc_right_copyin_make_send_once :: "ipc_space \<Rightarrow> nat \<Rightarrow> kern \<Rightarrow> copyin_result" where
  "ipc_right_copyin_make_send_once space entry k =
     (if ie_bits (ent space entry) AND MACH_PORT_TYPE_RECEIVE = 0
      then Some (Inl KERN_INVALID_RIGHT, IP_NULL, space, k)
      else do {
        let port = ie_object (ent space entry);
        k \<leftarrow> upd_port port (\<lambda>p. p\<lparr>ip_sorights := ip_sorights p + 1\<rparr>) k;
        k \<leftarrow> ip_reference port k;
        Some (Inr (port, IP_NULL), IP_NULL, space, k) })"

definition ipc_right_copyin_move_receive ::
    "ipc_space \<Rightarrow> mach_port_name_t \<Rightarrow> nat \<Rightarrow> kern \<Rightarrow> copyin_result" where
  "ipc_right_copyin_move_receive space name entry k =
     (let bits = ie_bits (ent space entry) in
      if bits AND MACH_PORT_TYPE_RECEIVE = 0
      then Some (Inl KERN_INVALID_RIGHT, IP_NULL, space, k)
      else do {
        let port = ie_object (ent space entry);
        (request, space, k) \<leftarrow>
          (if bits AND MACH_PORT_TYPE_SEND \<noteq> 0 then do {
             space \<leftarrow> ipc_hash_insert space port name;
             k \<leftarrow> ip_reference port k;
             Some (IP_NULL, space, k) }
           else do {
             (request, space, k) \<leftarrow> ipc_right_request_cancel_macro space port name entry k;
             Some (request, set_object space entry IO_NULL, k) });
        let space = set_bits space entry (bits AND NOT MACH_PORT_TYPE_RECEIVE);
        let space = ipc_entry_modified space name;
        k \<leftarrow> ipc_port_clear_receiver port k;
        k \<leftarrow> upd_port port (\<lambda>p. p\<lparr>ip_receiver_name := MACH_PORT_NULL, ip_data := IP_NULL\<rparr>) k;
        Some (Inr (port, request), IP_NULL, space, k) })"

text \<open>The labels \<open>copy_dead\<close> and \<open>move_dead\<close>.\<close>

definition ipc_right_copyin_copy_dead :: "ipc_space \<Rightarrow> bool \<Rightarrow> addr \<Rightarrow> kern \<Rightarrow> copyin_result" where
  "ipc_right_copyin_copy_dead space deadok release k =
     (if \<not> deadok then Some (Inl KERN_INVALID_RIGHT, release, space, k)
      else Some (Inr (IO_DEAD, IP_NULL), release, space, k))"

definition ipc_right_copyin_move_dead ::
    "ipc_space \<Rightarrow> mach_port_name_t \<Rightarrow> nat \<Rightarrow> bool \<Rightarrow> addr \<Rightarrow> kern \<Rightarrow> copyin_result" where
  "ipc_right_copyin_move_dead space name entry deadok release k =
     (let bits = ie_bits (ent space entry) in
      if \<not> deadok then Some (Inl KERN_INVALID_RIGHT, release, space, k)
      else
        let bits = (if IE_BITS_UREFS bits = 1 then bits AND NOT MACH_PORT_TYPE_DEAD_NAME else bits)
        in Some (Inr (IO_DEAD, IP_NULL), release,
                 ipc_entry_modified (set_bits space entry (bits - 1)) name, k))"

definition ipc_right_copyin_copy_send ::
    "ipc_space \<Rightarrow> mach_port_name_t \<Rightarrow> nat \<Rightarrow> bool \<Rightarrow> kern \<Rightarrow> copyin_result" where
  "ipc_right_copyin_copy_send space name entry deadok k =
     (let bits = ie_bits (ent space entry) in
      if bits AND MACH_PORT_TYPE_DEAD_NAME \<noteq> 0 then ipc_right_copyin_copy_dead space deadok IP_NULL k
      else if bits AND MACH_PORT_TYPE_SEND_RIGHTS = 0
      then Some (Inl KERN_INVALID_RIGHT, IP_NULL, space, k)
      else do {
        let port = ie_object (ent space entry);
        (dead, space, k) \<leftarrow> ipc_right_check space port name entry k;
        (if dead then ipc_right_copyin_copy_dead space deadok port k
         else if bits AND MACH_PORT_TYPE_SEND = 0
         then Some (Inl KERN_INVALID_RIGHT, IP_NULL, space, k)
         else do {
           k \<leftarrow> upd_port port (\<lambda>p. p\<lparr>ip_srights := ip_srights p + 1\<rparr>) k;
           k \<leftarrow> ip_reference port k;
           Some (Inr (port, IP_NULL), IP_NULL, space, k) }) })"

text \<open>The part of the case \<open>MACH_MSG_TYPE_MOVE_SEND\<close> that runs with the port locked and active.\<close>

definition ipc_right_copyin_move_send_active ::
    "ipc_space \<Rightarrow> mach_port_name_t \<Rightarrow> nat \<Rightarrow> addr \<Rightarrow> kern \<Rightarrow> copyin_result" where
  "ipc_right_copyin_move_send_active space name entry port k = do {
     let bits = ie_bits (ent space entry);
     (request, space, k) \<leftarrow>
       (if IE_BITS_UREFS bits = 1 then do {
          (request, space, k) \<leftarrow>
            (if bits AND MACH_PORT_TYPE_RECEIVE \<noteq> 0 then do {
               k \<leftarrow> ip_reference port k;
               Some (IP_NULL, space, k) }
             else do {
               (request, space, k) \<leftarrow> ipc_right_request_cancel_macro space port name entry k;
               space \<leftarrow> ipc_hash_delete space port name;
               Some (request, set_object space entry IO_NULL, k) });
          Some (request,
                set_bits space entry (bits AND NOT (IE_BITS_UREFS_MASK OR MACH_PORT_TYPE_SEND)), k) }
        else do {
          k \<leftarrow> upd_port port (\<lambda>p. p\<lparr>ip_srights := ip_srights p + 1\<rparr>) k;
          k \<leftarrow> ip_reference port k;
          Some (IP_NULL, set_bits space entry (bits - 1), k) });
     Some (Inr (port, request), IP_NULL, ipc_entry_modified space name, k) }"

definition ipc_right_copyin_move_send ::
    "ipc_space \<Rightarrow> mach_port_name_t \<Rightarrow> nat \<Rightarrow> bool \<Rightarrow> kern \<Rightarrow> copyin_result" where
  "ipc_right_copyin_move_send space name entry deadok k =
     (let bits = ie_bits (ent space entry) in
      if bits AND MACH_PORT_TYPE_DEAD_NAME \<noteq> 0
      then ipc_right_copyin_move_dead space name entry deadok IP_NULL k
      else if bits AND MACH_PORT_TYPE_SEND_RIGHTS = 0
      then Some (Inl KERN_INVALID_RIGHT, IP_NULL, space, k)
      else do {
        let port = ie_object (ent space entry);
        (dead, space, k) \<leftarrow> ipc_right_check space port name entry k;
        (if dead then ipc_right_copyin_move_dead space name entry deadok port k
         else if bits AND MACH_PORT_TYPE_SEND = 0
         then Some (Inl KERN_INVALID_RIGHT, IP_NULL, space, k)
         else ipc_right_copyin_move_send_active space name entry port k) })"

definition ipc_right_copyin_move_send_once ::
    "ipc_space \<Rightarrow> mach_port_name_t \<Rightarrow> nat \<Rightarrow> bool \<Rightarrow> kern \<Rightarrow> copyin_result" where
  "ipc_right_copyin_move_send_once space name entry deadok k =
     (let bits = ie_bits (ent space entry) in
      if bits AND MACH_PORT_TYPE_DEAD_NAME \<noteq> 0
      then ipc_right_copyin_move_dead space name entry deadok IP_NULL k
      else if bits AND MACH_PORT_TYPE_SEND_RIGHTS = 0
      then Some (Inl KERN_INVALID_RIGHT, IP_NULL, space, k)
      else do {
        let port = ie_object (ent space entry);
        (dead, space, k) \<leftarrow> ipc_right_check space port name entry k;
        (if dead then ipc_right_copyin_move_dead space name entry deadok port k
         else if bits AND MACH_PORT_TYPE_SEND_ONCE = 0
         then Some (Inl KERN_INVALID_RIGHT, IP_NULL, space, k)
         else do {
           (request, space, k) \<leftarrow> ipc_right_request_cancel_macro space port name entry k;
           let space = set_object space entry IO_NULL;
           let space = set_bits space entry
                         (bits AND NOT (IE_BITS_UREFS_MASK OR MACH_PORT_TYPE_SEND_ONCE));
           Some (Inr (port, request), IP_NULL, ipc_entry_modified space name, k) }) })"

definition ipc_right_copyin ::
    "ipc_space \<Rightarrow> mach_port_name_t \<Rightarrow> nat \<Rightarrow> mach_msg_type_name \<Rightarrow> bool \<Rightarrow> kern \<Rightarrow> copyin_result" where
  "ipc_right_copyin space name entry msgt_name deadok k =
     (case msgt_name of
        MACH_MSG_TYPE_MAKE_SEND \<Rightarrow> ipc_right_copyin_make_send space entry k
      | MACH_MSG_TYPE_MAKE_SEND_ONCE \<Rightarrow> ipc_right_copyin_make_send_once space entry k
      | MACH_MSG_TYPE_MOVE_RECEIVE \<Rightarrow> ipc_right_copyin_move_receive space name entry k
      | MACH_MSG_TYPE_COPY_SEND \<Rightarrow> ipc_right_copyin_copy_send space name entry deadok k
      | MACH_MSG_TYPE_MOVE_SEND \<Rightarrow> ipc_right_copyin_move_send space name entry deadok k
      | MACH_MSG_TYPE_MOVE_SEND_ONCE \<Rightarrow> ipc_right_copyin_move_send_once space name entry deadok k
      | _ \<Rightarrow> Some (Inl KERN_INVALID_RIGHT, IP_NULL, space, k))"

definition ipc_right_copyin_undo ::
    "ipc_space \<Rightarrow> mach_port_name_t \<Rightarrow> nat \<Rightarrow> mach_msg_type_name \<Rightarrow> addr \<Rightarrow> addr \<Rightarrow> kern
       \<Rightarrow> (ipc_space \<times> kern) option" where
  "ipc_right_copyin_undo space name entry msgt_name object soright k = do {
     let bits = ie_bits (ent space entry);
     (space, k) \<leftarrow>
       (if soright \<noteq> IP_NULL then
          Some (set_bits space entry ((bits AND NOT IE_BITS_RIGHT_MASK) OR MACH_PORT_TYPE_DEAD_NAME OR 2), k)
        else if IE_BITS_TYPE bits = MACH_PORT_TYPE_NONE then
          Some (set_bits space entry ((bits AND NOT IE_BITS_RIGHT_MASK) OR MACH_PORT_TYPE_DEAD_NAME OR 1), k)
        else if IE_BITS_TYPE bits = MACH_PORT_TYPE_DEAD_NAME then
          Some (if msgt_name \<noteq> MACH_MSG_TYPE_COPY_SEND then set_bits space entry (bits + 1) else space, k)
        else do {
          let space = (if msgt_name \<noteq> MACH_MSG_TYPE_COPY_SEND
                       then set_bits space entry (bits + 1) else space);
          (dead, space, k) \<leftarrow> ipc_right_check space object name entry k;
          Some (space, k) });
     let space = ipc_entry_modified space name;
     k \<leftarrow> (if object \<noteq> IO_DEAD then io_release object k else Some k);
     Some (space, k) }"

subsection \<open>Copyin with two dispositions\<close>

definition ipc_right_copyin_two_move_sends ::
    "ipc_space \<Rightarrow> mach_port_name_t \<Rightarrow> nat \<Rightarrow> kern \<Rightarrow> copyin_result" where
  "ipc_right_copyin_two_move_sends space name entry k =
     (let bits = ie_bits (ent space entry);
          urefs = IE_BITS_UREFS bits
      in if bits AND MACH_PORT_TYPE_SEND = 0 then Some (Inl KERN_INVALID_RIGHT, IP_NULL, space, k)
         else if urefs < 2 then Some (Inl KERN_INVALID_RIGHT, IP_NULL, space, k)
         else do {
           let port = ie_object (ent space entry);
           (dead, space, k) \<leftarrow> ipc_right_check space port name entry k;
           (if dead then Some (Inl KERN_INVALID_RIGHT, port, space, k)
            else do {
              (request, space, k) \<leftarrow>
                (if urefs = 2 then do {
                   (request, space, k) \<leftarrow>
                     (if bits AND MACH_PORT_TYPE_RECEIVE \<noteq> 0 then do {
                        k \<leftarrow> upd_port port (\<lambda>p. p\<lparr>ip_srights := ip_srights p + 1\<rparr>) k;
                        k \<leftarrow> ip_reference port k;
                        k \<leftarrow> ip_reference port k;
                        Some (IP_NULL, space, k) }
                      else do {
                        (request, space, k) \<leftarrow> ipc_right_request_cancel_macro space port name entry k;
                        k \<leftarrow> upd_port port (\<lambda>p. p\<lparr>ip_srights := ip_srights p + 1\<rparr>) k;
                        k \<leftarrow> ip_reference port k;
                        space \<leftarrow> ipc_hash_delete space port name;
                        Some (request, set_object space entry IO_NULL, k) });
                   Some (request,
                         set_bits space entry (bits AND NOT (IE_BITS_UREFS_MASK OR MACH_PORT_TYPE_SEND)),
                         k) }
                 else do {
                   k \<leftarrow> upd_port port (\<lambda>p. p\<lparr>ip_srights := ip_srights p + 2\<rparr>) k;
                   k \<leftarrow> ip_reference port k;
                   k \<leftarrow> ip_reference port k;
                   Some (IP_NULL, set_bits space entry (bits - 2), k) });
              Some (Inr (port, request), IP_NULL, ipc_entry_modified space name, k) }) })"

definition ipc_right_copyin_two ::
    "ipc_space \<Rightarrow> mach_port_name_t \<Rightarrow> nat \<Rightarrow> mach_msg_type_name \<Rightarrow> mach_msg_type_name \<Rightarrow> kern
       \<Rightarrow> copyin_result" where
  "ipc_right_copyin_two space name entry msgt_one msgt_two k = do {
     ok \<leftarrow> ipc_right_copyin_check space entry msgt_two k;
     (if \<not> ok then Some (Inl KERN_INVALID_CAPABILITY, IP_NULL, space, k)
      else if msgt_one = MACH_MSG_TYPE_MOVE_SEND_ONCE \<or> msgt_two = MACH_MSG_TYPE_MOVE_SEND_ONCE
      then Some (Inl KERN_INVALID_RIGHT, IP_NULL, space, k)
      else if msgt_one \<in> {MACH_MSG_TYPE_MAKE_SEND, MACH_MSG_TYPE_MAKE_SEND_ONCE}
              \<or> msgt_two \<in> {MACH_MSG_TYPE_MAKE_SEND, MACH_MSG_TYPE_MAKE_SEND_ONCE}
      then do {
        (r, release, space, k) \<leftarrow> ipc_right_copyin space name entry msgt_one False k;
        (case r of
           Inl kr \<Rightarrow> Some (Inl kr, release, space, k)
         | Inr (object, soright) \<Rightarrow> do {
             (r2, release, space, k) \<leftarrow> ipc_right_copyin space name entry msgt_two False k;
             let soright = (case r2 of Inr (object_two, so) \<Rightarrow> so | Inl _ \<Rightarrow> soright);
             Some (Inr (object, soright), release, space, k) }) }
      else if msgt_one = MACH_MSG_TYPE_MOVE_SEND \<and> msgt_two = MACH_MSG_TYPE_MOVE_SEND
      then ipc_right_copyin_two_move_sends space name entry k
      else do {
        let msgt_name = (if msgt_one = MACH_MSG_TYPE_MOVE_SEND \<or> msgt_two = MACH_MSG_TYPE_MOVE_SEND
                         then MACH_MSG_TYPE_MOVE_SEND else MACH_MSG_TYPE_COPY_SEND);
        (r, release, space, k) \<leftarrow> ipc_right_copyin space name entry msgt_name False k;
        (case r of
           Inl kr \<Rightarrow> Some (Inl kr, release, space, k)
         | Inr (object, soright) \<Rightarrow> do {
             (_, k) \<leftarrow> ipc_port_copy_send object k;
             Some (Inr (object, soright), release, space, k) }) }) }"

subsection \<open>Copyout\<close>

definition ipc_right_copyout_send_once ::
    "ipc_space \<Rightarrow> mach_port_name_t \<Rightarrow> nat \<Rightarrow> kern \<Rightarrow> right_result" where
  "ipc_right_copyout_send_once space name entry k =
     (let bits = ie_bits (ent space entry);
          space = set_bits space entry (bits OR (MACH_PORT_TYPE_SEND_ONCE OR 1))
      in Some (KERN_SUCCESS, ipc_entry_modified space name, k))"

definition ipc_right_copyout_send ::
    "ipc_space \<Rightarrow> mach_port_name_t \<Rightarrow> nat \<Rightarrow> bool \<Rightarrow> addr \<Rightarrow> kern \<Rightarrow> right_result" where
  "ipc_right_copyout_send space name entry overflow port k =
     (let bits = ie_bits (ent space entry);
          finish = (\<lambda>space k. Some (KERN_SUCCESS,
                      ipc_entry_modified (set_bits space entry ((bits OR MACH_PORT_TYPE_SEND) + 1)) name, k))
      in if bits AND MACH_PORT_TYPE_SEND \<noteq> 0 then
           (if IE_BITS_UREFS bits + 1 = MACH_PORT_UREFS_MAX then
              (if overflow then do {
                 k \<leftarrow> upd_port port (\<lambda>p. p\<lparr>ip_srights := ip_srights p - 1\<rparr>) k;
                 k \<leftarrow> ip_release port k;
                 Some (KERN_SUCCESS, space, k) }
               else Some (KERN_UREFS_OVERFLOW, space, k))
            else do {
              k \<leftarrow> upd_port port (\<lambda>p. p\<lparr>ip_srights := ip_srights p - 1\<rparr>) k;
              k \<leftarrow> ip_release port k;
              finish space k })
         else if bits AND MACH_PORT_TYPE_RECEIVE \<noteq> 0 then do {
           k \<leftarrow> ip_release port k;
           finish space k }
         else do {
           space \<leftarrow> ipc_hash_insert space port name;
           finish space k })"

definition ipc_right_copyout_receive ::
    "ipc_space \<Rightarrow> mach_port_name_t \<Rightarrow> nat \<Rightarrow> addr \<Rightarrow> kern \<Rightarrow> right_result" where
  "ipc_right_copyout_receive space name entry port k = do {
     let bits = ie_bits (ent space entry);
     p \<leftarrow> port_at k port;
     let dest = ip_destination p;
     let k = put_port port (p\<lparr>ip_receiver_name := name, ip_data := is_self space\<rparr>) k;
     (space, k) \<leftarrow>
       (if bits AND MACH_PORT_TYPE_SEND \<noteq> 0 then do {
          k \<leftarrow> ip_release port k;
          space \<leftarrow> ipc_hash_delete space port name;
          Some (space, k) }
        else Some (space, k));
     let space = set_bits space entry (bits OR MACH_PORT_TYPE_RECEIVE);
     let space = ipc_entry_modified space name;
     k \<leftarrow> (if dest \<noteq> IP_NULL then ip_release dest k else Some k);
     Some (KERN_SUCCESS, space, k) }"

definition ipc_right_copyout ::
    "ipc_space \<Rightarrow> mach_port_name_t \<Rightarrow> nat \<Rightarrow> mach_msg_type_name \<Rightarrow> bool \<Rightarrow> addr \<Rightarrow> kern \<Rightarrow> right_result" where
  "ipc_right_copyout space name entry msgt_name overflow object k =
     (if msgt_name = MACH_MSG_TYPE_PORT_SEND_ONCE then ipc_right_copyout_send_once space name entry k
      else if msgt_name = MACH_MSG_TYPE_PORT_SEND
      then ipc_right_copyout_send space name entry overflow object k
      else if msgt_name = MACH_MSG_TYPE_PORT_RECEIVE
      then ipc_right_copyout_receive space name entry object k
      else None)"

subsection \<open>Renaming\<close>

definition ipc_port_request_rename ::
    "addr \<Rightarrow> nat \<Rightarrow> mach_port_name_t \<Rightarrow> kern \<Rightarrow> kern option" where
  "ipc_port_request_rename port index nname k = do {
     p \<leftarrow> port_at k port;
     table \<leftarrow> ip_requests p;
     ipr \<leftarrow> ipr_at table index;
     Some (put_port port (p\<lparr>ip_requests := Some (upd_ipr index (ipr_name_update (\<lambda>_. nname)) table)\<rparr>) k) }"

text \<open>
  The first part of \<open>ipc_right_rename\<close>: what becomes of a notification request. The result
  is the request, the bits and the object for the new entry, and the port to release.
\<close>

definition ipc_right_rename_request ::
    "ipc_space \<Rightarrow> mach_port_name_t \<Rightarrow> nat \<Rightarrow> mach_port_name_t \<Rightarrow> kern
       \<Rightarrow> (nat \<times> ipc_entry_bits_t \<times> addr \<times> addr \<times> ipc_space \<times> kern) option" where
  "ipc_right_rename_request space oname oentry nname k =
     (let request = ie_request (ent space oentry);
          bits = ie_bits (ent space oentry);
          object = ie_object (ent space oentry)
      in if request \<noteq> IE_REQ_NONE then do {
           (dead, space, k) \<leftarrow> ipc_right_check space object oname oentry k;
           (if dead then Some (IE_REQ_NONE, ie_bits (ent space oentry), IO_NULL, object, space, k)
            else do {
              k \<leftarrow> ipc_port_request_rename object request nname k;
              Some (request, bits, object, IP_NULL, set_request space oentry IE_REQ_NONE, k) }) }
         else Some (request, bits, object, IP_NULL, space, k))"

definition ipc_right_rename_object ::
    "ipc_space \<Rightarrow> mach_port_name_t \<Rightarrow> mach_port_name_t \<Rightarrow> mach_port_type_t \<Rightarrow> addr \<Rightarrow> kern
       \<Rightarrow> (ipc_space \<times> kern) option" where
  "ipc_right_rename_object space oname nname type object k =
     (if type = MACH_PORT_TYPE_SEND then do {
        space \<leftarrow> ipc_hash_delete space object oname;
        space \<leftarrow> ipc_hash_insert space object nname;
        Some (space, k) }
      else if type = MACH_PORT_TYPE_RECEIVE \<or> type = MACH_PORT_TYPE_SEND_RECEIVE then do {
        k \<leftarrow> upd_port object (\<lambda>p. p\<lparr>ip_receiver_name := nname\<rparr>) k;
        Some (space, k) }
      else if type = MACH_PORT_TYPE_PORT_SET then do {
        s \<leftarrow> pset_at k object;
        Some (space, put_pset object (s\<lparr>ips_local_name := nname\<rparr>) k) }
      else if type = MACH_PORT_TYPE_SEND_ONCE \<or> type = MACH_PORT_TYPE_DEAD_NAME then Some (space, k)
      else None)"

definition ipc_right_rename ::
    "ipc_space \<Rightarrow> mach_port_name_t \<Rightarrow> nat \<Rightarrow> mach_port_name_t \<Rightarrow> nat \<Rightarrow> kern \<Rightarrow> right_result" where
  "ipc_right_rename space oname oentry nname nentry k = do {
     (request, bits, object, release_port, space, k) \<leftarrow>
       ipc_right_rename_request space oname oentry nname k;
     let space = upd_entry space nentry
           (\<lambda>e. e\<lparr>ie_bits := ie_bits e OR (bits AND IE_BITS_RIGHT_MASK),
                  ie_request := request, ie_object := object\<rparr>);
     (space, k) \<leftarrow> ipc_right_rename_object space oname nname (IE_BITS_TYPE bits) object k;
     let space = set_object space oentry IO_NULL;
     space \<leftarrow> ipc_entry_dealloc space oname oentry;
     let space = ipc_entry_modified space nname;
     k \<leftarrow> (if release_port \<noteq> IP_NULL then ip_release release_port k else Some k);
     Some (KERN_SUCCESS, space, k) }"

end
