(* ===== verification/Ipc_Object.thy ===== *)
theory Ipc_Object
  imports Ipc_Right_Copy
begin

text \<open>
  The routines of \<open>osfmk/ipc/ipc_object.c\<close>: translating names, allocating objects, and the
  copyin and copyout of capabilities as messages use them; the allocation of ports and port
  sets (\<open>ipc_port_alloc\<close>, \<open>ipc_pset_alloc\<close> and the variants with a given name); and the
  routines of \<open>osfmk/ipc/ipc_space.c\<close> that empty or terminate a space.

  \<open>sizes\<close> and \<open>kalloc_ok\<close> are the table sizes and the outcome of allocations, as in
  \<open>Ipc_Grow\<close>. \<open>fresh\<close> is the result of \<open>io_alloc\<close>: the address of a new object, or \<open>IO_NULL\<close>.
\<close>

subsection \<open>Translation\<close>

definition ipc_object_translate ::
    "ipc_space \<Rightarrow> mach_port_name_t \<Rightarrow> mach_port_right_t \<Rightarrow> kern_return + addr" where
  "ipc_object_translate space name right =
     (case ipc_right_lookup_write space name of
        Inl kr \<Rightarrow> Inl kr
      | Inr entry \<Rightarrow>
          if ie_bits (ent space entry) AND MACH_PORT_TYPE right = MACH_PORT_TYPE_NONE
          then Inl KERN_INVALID_RIGHT
          else Inr (ie_object (ent space entry)))"

definition ipc_object_translate_two ::
    "ipc_space \<Rightarrow> mach_port_name_t \<Rightarrow> mach_port_right_t \<Rightarrow> mach_port_name_t \<Rightarrow> mach_port_right_t
       \<Rightarrow> kern_return + addr \<times> addr" where
  "ipc_object_translate_two space name1 right1 name2 right2 =
     (case ipc_right_lookup_two_write space name1 name2 of
        Inl kr \<Rightarrow> Inl kr
      | Inr (entry1, entry2) \<Rightarrow>
          if ie_bits (ent space entry1) AND MACH_PORT_TYPE right1 = MACH_PORT_TYPE_NONE
          then Inl KERN_INVALID_RIGHT
          else if ie_bits (ent space entry2) AND MACH_PORT_TYPE right2 = MACH_PORT_TYPE_NONE
          then Inl KERN_INVALID_RIGHT
          else Inr (ie_object (ent space entry1), ie_object (ent space entry2)))"

subsection \<open>Allocation\<close>

definition ipc_object_alloc_dead ::
    "nat list \<Rightarrow> (nat \<Rightarrow> bool) \<Rightarrow> ipc_space \<Rightarrow> ((kern_return + mach_port_name_t) \<times> ipc_space) option" where
  "ipc_object_alloc_dead sizes kalloc_ok space = do {
     (r, space) \<leftarrow> ipc_entry_alloc sizes kalloc_ok space;
     (case r of
        Inl kr \<Rightarrow> Some (Inl kr, space)
      | Inr (name, entry) \<Rightarrow>
          let space = set_bits space entry
                        (ie_bits (ent space entry) OR (MACH_PORT_TYPE_DEAD_NAME OR 1))
          in Some (Inr name, ipc_entry_modified space name)) }"

definition ipc_object_alloc_dead_name ::
    "nat list \<Rightarrow> (nat \<Rightarrow> bool) \<Rightarrow> ipc_space \<Rightarrow> mach_port_name_t \<Rightarrow> (kern_return \<times> ipc_space) option" where
  "ipc_object_alloc_dead_name sizes kalloc_ok space name = do {
     (r, space) \<leftarrow> ipc_entry_alloc_name sizes kalloc_ok space name;
     (case r of
        Inl kr \<Rightarrow> Some (kr, space)
      | Inr entry \<Rightarrow>
          if ipc_right_inuse space entry then Some (KERN_NAME_EXISTS, space)
          else
            let space = set_bits space entry
                          (ie_bits (ent space entry) OR (MACH_PORT_TYPE_DEAD_NAME OR 1))
            in Some (KERN_SUCCESS, ipc_entry_modified space name)) }"

text \<open>The cleared object after \<open>io_alloc\<close> and \<open>bzero\<close>, and the two header fields set at the end.\<close>

definition io_alloc_bzero :: "natural_t \<Rightarrow> addr \<Rightarrow> kern \<Rightarrow> kern" where
  "io_alloc_bzero otype fresh k =
     (if otype = IOT_PORT then put_port fresh blank_port k
      else put_pset fresh \<lparr>ips_references = 0, ips_bits = 0, ips_local_name = 0\<rparr> k)"

definition io_set_header :: "natural_t \<Rightarrow> addr \<Rightarrow> kern \<Rightarrow> kern option" where
  "io_set_header otype object k =
     (case k_objects k object of
        None \<Rightarrow> None
      | Some (Io_Port p) \<Rightarrow>
          Some (put_port object (p\<lparr>ip_references := 1, ip_bits := io_makebits True otype 0\<rparr>) k)
      | Some (Io_Pset s) \<Rightarrow>
          Some (put_pset object (s\<lparr>ips_references := 1, ips_bits := io_makebits True otype 0\<rparr>) k))"

definition ipc_object_alloc ::
    "nat list \<Rightarrow> (nat \<Rightarrow> bool) \<Rightarrow> addr \<Rightarrow> ipc_space \<Rightarrow> natural_t \<Rightarrow> mach_port_type_t \<Rightarrow> natural_t \<Rightarrow> kern
       \<Rightarrow> ((kern_return + mach_port_name_t \<times> addr) \<times> ipc_space \<times> kern) option" where
  "ipc_object_alloc sizes kalloc_ok fresh space otype type urefs k =
     (if fresh = IO_NULL then Some (Inl KERN_RESOURCE_SHORTAGE, space, k)
      else do {
        let k = io_alloc_bzero otype fresh k;
        (r, space) \<leftarrow> ipc_entry_alloc sizes kalloc_ok space;
        (case r of
           Inl kr \<Rightarrow> do {
             k \<leftarrow> io_free otype fresh k;
             Some (Inl kr, space, k) }
         | Inr (name, entry) \<Rightarrow> do {
             let space = set_bits space entry (ie_bits (ent space entry) OR (type OR urefs));
             let space = set_object space entry fresh;
             let space = ipc_entry_modified space name;
             k \<leftarrow> io_set_header otype fresh k;
             Some (Inr (name, fresh), space, k) }) })"

definition ipc_object_alloc_name ::
    "nat list \<Rightarrow> (nat \<Rightarrow> bool) \<Rightarrow> addr \<Rightarrow> ipc_space \<Rightarrow> natural_t \<Rightarrow> mach_port_type_t \<Rightarrow> natural_t
       \<Rightarrow> mach_port_name_t \<Rightarrow> kern \<Rightarrow> ((kern_return + addr) \<times> ipc_space \<times> kern) option" where
  "ipc_object_alloc_name sizes kalloc_ok fresh space otype type urefs name k =
     (if fresh = IO_NULL then Some (Inl KERN_RESOURCE_SHORTAGE, space, k)
      else do {
        let k = io_alloc_bzero otype fresh k;
        (r, space) \<leftarrow> ipc_entry_alloc_name sizes kalloc_ok space name;
        (case r of
           Inl kr \<Rightarrow> do {
             k \<leftarrow> io_free otype fresh k;
             Some (Inl kr, space, k) }
         | Inr entry \<Rightarrow>
             if ipc_right_inuse space entry then do {
               k \<leftarrow> io_free otype fresh k;
               Some (Inl KERN_NAME_EXISTS, space, k) }
             else do {
               let space = set_bits space entry (ie_bits (ent space entry) OR (type OR urefs));
               let space = set_object space entry fresh;
               let space = ipc_entry_modified space name;
               k \<leftarrow> io_set_header otype fresh k;
               Some (Inr fresh, space, k) }) })"

definition ipc_port_alloc ::
    "nat list \<Rightarrow> (nat \<Rightarrow> bool) \<Rightarrow> addr \<Rightarrow> ipc_space \<Rightarrow> kern
       \<Rightarrow> ((kern_return + mach_port_name_t \<times> addr) \<times> ipc_space \<times> kern) option" where
  "ipc_port_alloc sizes kalloc_ok fresh space k = do {
     (r, space, k) \<leftarrow> ipc_object_alloc sizes kalloc_ok fresh space IOT_PORT MACH_PORT_TYPE_RECEIVE 0 k;
     (case r of
        Inl kr \<Rightarrow> Some (Inl kr, space, k)
      | Inr (name, port) \<Rightarrow> do {
          k \<leftarrow> upd_port port (ipc_port_init (is_self space) name) k;
          Some (Inr (name, port), space, k) }) }"

definition ipc_port_alloc_name ::
    "nat list \<Rightarrow> (nat \<Rightarrow> bool) \<Rightarrow> addr \<Rightarrow> ipc_space \<Rightarrow> mach_port_name_t \<Rightarrow> kern
       \<Rightarrow> ((kern_return + addr) \<times> ipc_space \<times> kern) option" where
  "ipc_port_alloc_name sizes kalloc_ok fresh space name k = do {
     (r, space, k) \<leftarrow>
       ipc_object_alloc_name sizes kalloc_ok fresh space IOT_PORT MACH_PORT_TYPE_RECEIVE 0 name k;
     (case r of
        Inl kr \<Rightarrow> Some (Inl kr, space, k)
      | Inr port \<Rightarrow> do {
          k \<leftarrow> upd_port port (ipc_port_init (is_self space) name) k;
          Some (Inr port, space, k) }) }"

definition ipc_pset_alloc ::
    "nat list \<Rightarrow> (nat \<Rightarrow> bool) \<Rightarrow> addr \<Rightarrow> ipc_space \<Rightarrow> kern
       \<Rightarrow> ((kern_return + mach_port_name_t \<times> addr) \<times> ipc_space \<times> kern) option" where
  "ipc_pset_alloc sizes kalloc_ok fresh space k = do {
     (r, space, k) \<leftarrow>
       ipc_object_alloc sizes kalloc_ok fresh space IOT_PORT_SET MACH_PORT_TYPE_PORT_SET 0 k;
     (case r of
        Inl kr \<Rightarrow> Some (Inl kr, space, k)
      | Inr (name, pset) \<Rightarrow> do {
          s \<leftarrow> pset_at k pset;
          Some (Inr (name, pset), space, put_pset pset (s\<lparr>ips_local_name := name\<rparr>) k) }) }"

definition ipc_pset_alloc_name ::
    "nat list \<Rightarrow> (nat \<Rightarrow> bool) \<Rightarrow> addr \<Rightarrow> ipc_space \<Rightarrow> mach_port_name_t \<Rightarrow> kern
       \<Rightarrow> ((kern_return + addr) \<times> ipc_space \<times> kern) option" where
  "ipc_pset_alloc_name sizes kalloc_ok fresh space name k = do {
     (r, space, k) \<leftarrow>
       ipc_object_alloc_name sizes kalloc_ok fresh space IOT_PORT_SET MACH_PORT_TYPE_PORT_SET 0 name k;
     (case r of
        Inl kr \<Rightarrow> Some (Inl kr, space, k)
      | Inr pset \<Rightarrow> do {
          s \<leftarrow> pset_at k pset;
          Some (Inr pset, space, put_pset pset (s\<lparr>ips_local_name := name\<rparr>) k) }) }"

subsection \<open>Copyin\<close>

definition ipc_object_copyin_type :: "mach_msg_type_name \<Rightarrow> mach_msg_type_name" where
  "ipc_object_copyin_type msgt_name =
     (case msgt_name of
        MACH_MSG_TYPE_MOVE_RECEIVE \<Rightarrow> MACH_MSG_TYPE_PORT_RECEIVE
      | MACH_MSG_TYPE_MOVE_SEND_ONCE \<Rightarrow> MACH_MSG_TYPE_PORT_SEND_ONCE
      | MACH_MSG_TYPE_MAKE_SEND_ONCE \<Rightarrow> MACH_MSG_TYPE_PORT_SEND_ONCE
      | MACH_MSG_TYPE_MOVE_SEND \<Rightarrow> MACH_MSG_TYPE_PORT_SEND
      | MACH_MSG_TYPE_MAKE_SEND \<Rightarrow> MACH_MSG_TYPE_PORT_SEND
      | MACH_MSG_TYPE_COPY_SEND \<Rightarrow> MACH_MSG_TYPE_PORT_SEND
      | _ \<Rightarrow> MACH_MSG_TYPE_PORT_NONE)"

definition ipc_object_copyin ::
    "ipc_space \<Rightarrow> mach_port_name_t \<Rightarrow> mach_msg_type_name \<Rightarrow> kern
       \<Rightarrow> ((kern_return + addr) \<times> ipc_space \<times> kern) option" where
  "ipc_object_copyin space name msgt_name k =
     (case ipc_right_lookup_write space name of
        Inl kr \<Rightarrow> Some (Inl kr, space, k)
      | Inr entry \<Rightarrow> do {
          (r, release_port, space, k) \<leftarrow> ipc_right_copyin space name entry msgt_name True k;
          space \<leftarrow> (if IE_BITS_TYPE (ie_bits (ent space entry)) = MACH_PORT_TYPE_NONE
                    then ipc_entry_dealloc space name entry else Some space);
          k \<leftarrow> (if release_port \<noteq> IP_NULL then ip_release release_port k else Some k);
          (case r of
             Inl kr \<Rightarrow> Some (Inl kr, space, k)
           | Inr (object, soright) \<Rightarrow>
               Some (Inr object, space, notify_port_deleted_if soright name k)) })"

definition ipc_object_copyin_from_kernel :: "addr \<Rightarrow> mach_msg_type_name \<Rightarrow> kern \<Rightarrow> kern option" where
  "ipc_object_copyin_from_kernel object msgt_name k =
     (case msgt_name of
        MACH_MSG_TYPE_MOVE_RECEIVE \<Rightarrow>
          upd_port object (\<lambda>p. if ip_destination p \<noteq> IP_NULL
                               then p\<lparr>ip_mscount := 0, ip_receiver_name := MACH_PORT_NULL, ip_data := IP_NULL\<rparr>
                               else p) k
      | MACH_MSG_TYPE_COPY_SEND \<Rightarrow> do {
          k \<leftarrow> upd_port object (\<lambda>p. if ip_active p then p\<lparr>ip_srights := ip_srights p + 1\<rparr> else p) k;
          ip_reference object k }
      | MACH_MSG_TYPE_MAKE_SEND \<Rightarrow> do {
          k \<leftarrow> upd_port object (\<lambda>p. if ip_active p then p\<lparr>ip_mscount := ip_mscount p + 1\<rparr> else p) k;
          k \<leftarrow> upd_port object (\<lambda>p. p\<lparr>ip_srights := ip_srights p + 1\<rparr>) k;
          ip_reference object k }
      | MACH_MSG_TYPE_MOVE_SEND \<Rightarrow> Some k
      | MACH_MSG_TYPE_MAKE_SEND_ONCE \<Rightarrow> do {
          k \<leftarrow> upd_port object (\<lambda>p. p\<lparr>ip_sorights := ip_sorights p + 1\<rparr>) k;
          ip_reference object k }
      | MACH_MSG_TYPE_MOVE_SEND_ONCE \<Rightarrow> Some k
      | _ \<Rightarrow> None)"

subsection \<open>Destroying naked capabilities\<close>

definition ipc_object_destroy :: "addr \<Rightarrow> mach_msg_type_name \<Rightarrow> kern \<Rightarrow> kern option" where
  "ipc_object_destroy object msgt_name k =
     (if msgt_name = MACH_MSG_TYPE_PORT_SEND then ipc_port_release_send object k
      else if msgt_name = MACH_MSG_TYPE_PORT_SEND_ONCE then Some (ipc_notify_send_once object k)
      else if msgt_name = MACH_MSG_TYPE_PORT_RECEIVE then ipc_port_release_receive object k
      else None)"

abbreviation (input) MACH_PORT_QLIMIT_KERNEL :: "16 word" where
  "MACH_PORT_QLIMIT_KERNEL \<equiv> 65534"

definition ip_full_kernel :: "ipc_port \<Rightarrow> bool" where
  "ip_full_kernel port \<longleftrightarrow> imq_msgcount port \<ge> MACH_PORT_QLIMIT_KERNEL"

definition ipc_object_destroy_dest :: "addr \<Rightarrow> mach_msg_type_name \<Rightarrow> kern \<Rightarrow> kern option" where
  "ipc_object_destroy_dest object msgt_name k =
     (if msgt_name = MACH_MSG_TYPE_PORT_SEND then ipc_port_release_send object k
      else if msgt_name = MACH_MSG_TYPE_PORT_SEND_ONCE then do {
        p \<leftarrow> port_at k object;
        (if ip_active p \<and> \<not> ip_full_kernel p then Some (ipc_notify_send_once object k)
         else ipc_port_release_sonce object k) }
      else None)"

subsection \<open>Copyout\<close>

text \<open>
  The loop of \<open>ipc_object_copyout\<close> finds the entry for the object: the entry that already
  names it, or a new one. The loop does not change the heap.
\<close>

partial_function (option) ipc_object_copyout_entry ::
    "nat list \<Rightarrow> (nat \<Rightarrow> bool) \<Rightarrow> ipc_space \<Rightarrow> addr \<Rightarrow> mach_msg_type_name \<Rightarrow> kern
       \<Rightarrow> ((kern_return + mach_port_name_t \<times> nat) \<times> ipc_space) option" where
  "ipc_object_copyout_entry sizes kalloc_ok space object msgt_name k =
     (if \<not> is_active space then Some (Inl KERN_INVALID_TASK, space)
      else do {
        found \<leftarrow> (if msgt_name \<noteq> MACH_MSG_TYPE_PORT_SEND_ONCE
                  then ipc_right_reverse space object k else Some None);
        (case found of
           Some (name, entry) \<Rightarrow> Some (Inr (name, entry), space)
         | None \<Rightarrow> do {
             r \<leftarrow> ipc_entry_get space;
             (case r of
                Inl _ \<Rightarrow> do {
                  (kr, space) \<leftarrow> ipc_entry_grow_table sizes kalloc_ok space None;
                  (if kr \<noteq> KERN_SUCCESS then Some (Inl kr, space)
                   else ipc_object_copyout_entry sizes kalloc_ok space object msgt_name k) }
              | Inr (space, name, entry) \<Rightarrow> do {
                  bits \<leftarrow> io_bits_at k object;
                  (if \<not> io_active_bits bits then do {
                     space \<leftarrow> ipc_entry_dealloc space name entry;
                     Some (Inl KERN_INVALID_CAPABILITY, space) }
                   else Some (Inr (name, entry), set_object space entry object)) }) }) })"

definition ipc_object_copyout ::
    "nat list \<Rightarrow> (nat \<Rightarrow> bool) \<Rightarrow> ipc_space \<Rightarrow> addr \<Rightarrow> mach_msg_type_name \<Rightarrow> bool \<Rightarrow> kern
       \<Rightarrow> ((kern_return + mach_port_name_t) \<times> ipc_space \<times> kern) option" where
  "ipc_object_copyout sizes kalloc_ok space object msgt_name overflow k = do {
     (r, space) \<leftarrow> ipc_object_copyout_entry sizes kalloc_ok space object msgt_name k;
     (case r of
        Inl kr \<Rightarrow> Some (Inl kr, space, k)
      | Inr (name, entry) \<Rightarrow> do {
          (kr, space, k) \<leftarrow> ipc_right_copyout space name entry msgt_name overflow object k;
          Some (if kr = KERN_SUCCESS then Inr name else Inl kr, space, k) }) }"

definition ipc_object_copyout_name ::
    "nat list \<Rightarrow> (nat \<Rightarrow> bool) \<Rightarrow> ipc_space \<Rightarrow> addr \<Rightarrow> mach_msg_type_name \<Rightarrow> bool \<Rightarrow> mach_port_name_t \<Rightarrow> kern
       \<Rightarrow> right_result" where
  "ipc_object_copyout_name sizes kalloc_ok space object msgt_name overflow name k = do {
     (r, space) \<leftarrow> ipc_entry_alloc_name sizes kalloc_ok space name;
     (case r of
        Inl kr \<Rightarrow> Some (kr, space, k)
      | Inr entry \<Rightarrow> do {
          found \<leftarrow> (if msgt_name \<noteq> MACH_MSG_TYPE_PORT_SEND_ONCE
                    then ipc_right_reverse space object k else Some None);
          (case found of
             Some (oname, oentry) \<Rightarrow>
               if name \<noteq> oname then do {
                 space \<leftarrow> (if IE_BITS_TYPE (ie_bits (ent space entry)) = MACH_PORT_TYPE_NONE
                           then ipc_entry_dealloc space name entry else Some space);
                 Some (KERN_RIGHT_EXISTS, space, k) }
               else ipc_right_copyout space name entry msgt_name overflow object k
           | None \<Rightarrow>
               if ipc_right_inuse space entry then Some (KERN_NAME_EXISTS, space, k)
               else do {
                 bits \<leftarrow> io_bits_at k object;
                 (if \<not> io_active_bits bits then do {
                    space \<leftarrow> ipc_entry_dealloc space name entry;
                    Some (KERN_INVALID_CAPABILITY, space, k) }
                  else ipc_right_copyout (set_object space entry object) name entry
                         msgt_name overflow object k) }) }) }"

text \<open>
  \<open>ipc_object_copyout_dest\<close> gives up the reference first and goes on to use the object,
  which stays alive because it is active.
\<close>

definition ipc_object_copyout_dest ::
    "ipc_space \<Rightarrow> addr \<Rightarrow> mach_msg_type_name \<Rightarrow> kern \<Rightarrow> (mach_port_name_t \<times> kern) option" where
  "ipc_object_copyout_dest space object msgt_name k = do {
     k \<leftarrow> io_release object k;
     p \<leftarrow> port_at k object;
     let receiver = (ip_receiver p = is_self space);
     (if msgt_name = MACH_MSG_TYPE_PORT_SEND then do {
        let name = (if receiver then ip_receiver_name p else MACH_PORT_NULL);
        (nsrequest, mscount, k) \<leftarrow> ipc_right_drop_send object k;
        Some (name, notify_no_senders_if nsrequest mscount k) }
      else if msgt_name = MACH_MSG_TYPE_PORT_SEND_ONCE then
        (if receiver
         then Some (ip_receiver_name p, put_port object (p\<lparr>ip_sorights := ip_sorights p - 1\<rparr>) k)
         else do {
           k \<leftarrow> ip_reference object k;
           Some (MACH_PORT_NULL, ipc_notify_send_once object k) })
      else None) }"

definition ipc_object_rename ::
    "nat list \<Rightarrow> (nat \<Rightarrow> bool) \<Rightarrow> ipc_space \<Rightarrow> mach_port_name_t \<Rightarrow> mach_port_name_t \<Rightarrow> kern
       \<Rightarrow> right_result" where
  "ipc_object_rename sizes kalloc_ok space oname nname k = do {
     (r, space) \<leftarrow> ipc_entry_alloc_name sizes kalloc_ok space nname;
     (case r of
        Inl kr \<Rightarrow> Some (kr, space, k)
      | Inr nentry \<Rightarrow>
          if ipc_right_inuse space nentry then Some (KERN_NAME_EXISTS, space, k)
          else
            (case (if oname = nname then None else ipc_entry_lookup space oname) of
               None \<Rightarrow> do {
                 space \<leftarrow> ipc_entry_dealloc space nname nentry;
                 Some (KERN_INVALID_NAME, space, k) }
             | Some oentry \<Rightarrow> ipc_right_rename space oname oentry nname nentry k)) }"

text \<open>
  \<open>ipc_port_copyout_send\<close>, used by the kernel to hand a send right to a task. A null or
  dead right becomes the name with the same bits.
\<close>

definition ipc_port_copyout_send ::
    "nat list \<Rightarrow> (nat \<Rightarrow> bool) \<Rightarrow> addr \<Rightarrow> ipc_space \<Rightarrow> kern
       \<Rightarrow> (mach_port_name_t \<times> ipc_space \<times> kern) option" where
  "ipc_port_copyout_send sizes kalloc_ok sright space k =
     (if IP_VALID sright then do {
        (r, space, k) \<leftarrow>
          ipc_object_copyout sizes kalloc_ok space sright MACH_MSG_TYPE_PORT_SEND True k;
        (case r of
           Inr name \<Rightarrow> Some (name, space, k)
         | Inl kr \<Rightarrow> do {
             k \<leftarrow> ipc_port_release_send sright k;
             Some (if kr = KERN_INVALID_CAPABILITY then MACH_PORT_DEAD else MACH_PORT_NULL, space, k) }) }
      else Some (ucast sright, space, k))"

subsection \<open>Emptying and terminating a space\<close>

text \<open>
  The scan of \<open>ipc_space_clean\<close>, which destroys the first right that it finds and starts
  again. \<open>None\<close> is also the result if a growth of the table is under way, for which the
  C routine would sleep.
\<close>

fun ipc_space_first :: "ipc_table \<Rightarrow> nat list \<Rightarrow> nat option" where
  "ipc_space_first table [] = None"
| "ipc_space_first table (index # is) =
     (if IE_BITS_TYPE (ie_bits (table ! index)) \<noteq> MACH_PORT_TYPE_NONE then Some index
      else ipc_space_first table is)"

partial_function (option) ipc_space_clean :: "ipc_space \<Rightarrow> kern \<Rightarrow> (ipc_space \<times> kern) option" where
  "ipc_space_clean space k =
     (if is_growing space then None
      else if \<not> is_active space then Some (space, k)
      else case ipc_space_first (is_table space) [0..<is_table_size space] of
             None \<Rightarrow> Some (space, k)
           | Some index \<Rightarrow> do {
               let name = MACH_PORT_MAKE index (IE_BITS_GEN (ie_bits (ent space index)));
               (kr, space, k) \<leftarrow> ipc_right_destroy space name index False 0 k;
               ipc_space_clean space k })"

fun ipc_space_terminate_loop :: "nat list \<Rightarrow> ipc_space \<Rightarrow> kern \<Rightarrow> (ipc_space \<times> kern) option" where
  "ipc_space_terminate_loop [] space k = Some (space, k)"
| "ipc_space_terminate_loop (index # is) space k =
     (if IE_BITS_TYPE (ie_bits (ent space index)) \<noteq> MACH_PORT_TYPE_NONE then do {
        let name = MACH_PORT_MAKE index (IE_BITS_GEN (ie_bits (ent space index)));
        (space, k) \<leftarrow> ipc_right_terminate space name index k;
        ipc_space_terminate_loop is space k }
      else ipc_space_terminate_loop is space k)"

text \<open>The space in the result is \<open>None\<close> if its last reference is gone.\<close>

definition ipc_space_terminate :: "ipc_space \<Rightarrow> kern \<Rightarrow> (ipc_space option \<times> kern) option" where
  "ipc_space_terminate space k =
     (if \<not> is_active space then Some (Some space, k)
      else do {
        let space = is_mark_inactive space;
        (if is_growing space then None
         else do {
           (space, k) \<leftarrow> ipc_space_terminate_loop [0..<is_table_size space] space k;
           let space = space\<lparr>is_table := [], is_table_free := 0\<rparr>;
           Some (is_release space, k) }) })"

end
