(* ===== verification/Ipc_Ledger.thy ===== *)
theory Ipc_Ledger
  imports Ipc_Port
begin

text \<open>
  The ledger of rights: what the counters of the kernel objects have to do with the entries
  of a space.

  A port counts its references, its send rights and its send-once rights. Every entry of
  the space that denotes a port accounts for one reference, and for one send or send-once
  right if it is of that type. The rest is held outside of the table: by messages, by
  other spaces, by notification requests and by code that is in the middle of an
  operation. \<open>holdings\<close> describes this rest, and \<open>cap_inv\<close> says that the counters of every object are
  exactly the sum of the two. The holdings are integers, so that an operation may lower a
  counter first and take the right out of the entry later.

  The lemmas describe the elementary moves of the operations: changing a counter, taking a
  right from an entry into the hand or putting it there, releasing a slot, cancelling a
  notification request, and destroying a port. Each gives the new holdings. An operation
  is a sequence of such moves.
\<close>

unbundle bit_operations_syntax

subsection \<open>Entry bits under the operations\<close>

lemma type_bit_iff:
  "b AND MACH_PORT_TYPE_SEND = IE_BITS_TYPE b AND MACH_PORT_TYPE_SEND"
  "b AND MACH_PORT_TYPE_RECEIVE = IE_BITS_TYPE b AND MACH_PORT_TYPE_RECEIVE"
  "b AND MACH_PORT_TYPE_SEND_ONCE = IE_BITS_TYPE b AND MACH_PORT_TYPE_SEND_ONCE"
  "b AND MACH_PORT_TYPE_PORT_SET = IE_BITS_TYPE b AND MACH_PORT_TYPE_PORT_SET"
  "b AND MACH_PORT_TYPE_DEAD_NAME = IE_BITS_TYPE b AND MACH_PORT_TYPE_DEAD_NAME"
  "b AND MACH_PORT_TYPE_SEND_RIGHTS = IE_BITS_TYPE b AND MACH_PORT_TYPE_SEND_RIGHTS"
  "b AND MACH_PORT_TYPE_PORT_RIGHTS = IE_BITS_TYPE b AND MACH_PORT_TYPE_PORT_RIGHTS"
  "b AND MACH_PORT_TYPE_PORT_OR_DEAD = IE_BITS_TYPE b AND MACH_PORT_TYPE_PORT_OR_DEAD"
  by (simp_all add: IE_BITS_TYPE_def and.assoc)

lemma ie_to_dead [ie_bits]:
  "IE_BITS_TYPE ((b AND NOT IE_BITS_TYPE_MASK) OR MACH_PORT_TYPE_DEAD_NAME) = MACH_PORT_TYPE_DEAD_NAME"
  "IE_BITS_UREFS ((b AND NOT IE_BITS_TYPE_MASK) OR MACH_PORT_TYPE_DEAD_NAME) = IE_BITS_UREFS b"
  "IE_BITS_GEN ((b AND NOT IE_BITS_TYPE_MASK) OR MACH_PORT_TYPE_DEAD_NAME) = IE_BITS_GEN b"
  by (simp_all add: ie_unfold)

lemma ie_no_send [ie_bits]:
  "IE_BITS_TYPE (b AND NOT (IE_BITS_UREFS_MASK OR MACH_PORT_TYPE_SEND))
     = IE_BITS_TYPE b AND NOT MACH_PORT_TYPE_SEND"
  "IE_BITS_UREFS (b AND NOT (IE_BITS_UREFS_MASK OR MACH_PORT_TYPE_SEND)) = 0"
  "IE_BITS_GEN (b AND NOT (IE_BITS_UREFS_MASK OR MACH_PORT_TYPE_SEND)) = IE_BITS_GEN b"
  by (simp_all add: ie_unfold)

lemma ie_no_send_once [ie_bits]:
  "IE_BITS_TYPE (b AND NOT (IE_BITS_UREFS_MASK OR MACH_PORT_TYPE_SEND_ONCE))
     = IE_BITS_TYPE b AND NOT MACH_PORT_TYPE_SEND_ONCE"
  "IE_BITS_UREFS (b AND NOT (IE_BITS_UREFS_MASK OR MACH_PORT_TYPE_SEND_ONCE)) = 0"
  "IE_BITS_GEN (b AND NOT (IE_BITS_UREFS_MASK OR MACH_PORT_TYPE_SEND_ONCE)) = IE_BITS_GEN b"
  by (simp_all add: ie_unfold)

lemma ie_no_receive [ie_bits]:
  "IE_BITS_TYPE (b AND NOT MACH_PORT_TYPE_RECEIVE) = IE_BITS_TYPE b AND NOT MACH_PORT_TYPE_RECEIVE"
  "IE_BITS_UREFS (b AND NOT MACH_PORT_TYPE_RECEIVE) = IE_BITS_UREFS b"
  "IE_BITS_GEN (b AND NOT MACH_PORT_TYPE_RECEIVE) = IE_BITS_GEN b"
  by (simp_all add: ie_unfold)

lemma used_entry_cases [consumes 1, case_names send send_receive receive send_once port_set dead_name]:
  assumes "used_entry e"
  obtains "entry_type e = MACH_PORT_TYPE_SEND" "IO_VALID (ie_object e)"
      "entry_urefs e \<noteq> 0" "entry_urefs e \<noteq> MACH_PORT_UREFS_MAX"
    | "entry_type e = MACH_PORT_TYPE_SEND_RECEIVE" "IO_VALID (ie_object e)"
      "entry_urefs e \<noteq> 0" "entry_urefs e \<noteq> MACH_PORT_UREFS_MAX"
    | "entry_type e = MACH_PORT_TYPE_RECEIVE" "IO_VALID (ie_object e)" "entry_urefs e = 0"
    | "entry_type e = MACH_PORT_TYPE_SEND_ONCE" "IO_VALID (ie_object e)" "entry_urefs e = 1"
    | "entry_type e = MACH_PORT_TYPE_PORT_SET" "IO_VALID (ie_object e)" "entry_urefs e = 0"
      "ie_request e = IE_REQ_NONE"
    | "entry_type e = MACH_PORT_TYPE_DEAD_NAME" "ie_object e = IO_NULL" "entry_urefs e \<noteq> 0"
      "ie_request e = IE_REQ_NONE"
  using assms unfolding used_entry_def by (elim disjE conjE) simp_all

subsection \<open>Holdings\<close>

record holdings =
  h_refs :: "addr \<Rightarrow> int"
  h_sends :: "addr \<Rightarrow> int"
  h_sonces :: "addr \<Rightarrow> int"
  h_recvs :: "addr set"

definition add_ref :: "addr \<Rightarrow> int \<Rightarrow> holdings \<Rightarrow> holdings" where
  "add_ref a n H = H\<lparr>h_refs := (h_refs H)(a := h_refs H a + n)\<rparr>"

definition add_send :: "addr \<Rightarrow> int \<Rightarrow> holdings \<Rightarrow> holdings" where
  "add_send a n H = H\<lparr>h_sends := (h_sends H)(a := h_sends H a + n)\<rparr>"

definition add_sonce :: "addr \<Rightarrow> int \<Rightarrow> holdings \<Rightarrow> holdings" where
  "add_sonce a n H = H\<lparr>h_sonces := (h_sonces H)(a := h_sonces H a + n)\<rparr>"

definition add_recv :: "addr \<Rightarrow> holdings \<Rightarrow> holdings" where
  "add_recv a H = H\<lparr>h_recvs := insert a (h_recvs H)\<rparr>"

lemma add_fields [simp]:
  "h_refs (add_ref a n H) b = (if b = a then h_refs H a + n else h_refs H b)"
  "h_sends (add_ref a n H) = h_sends H" "h_sonces (add_ref a n H) = h_sonces H"
  "h_recvs (add_ref a n H) = h_recvs H"
  "h_sends (add_send a n H) b = (if b = a then h_sends H a + n else h_sends H b)"
  "h_refs (add_send a n H) = h_refs H" "h_sonces (add_send a n H) = h_sonces H"
  "h_recvs (add_send a n H) = h_recvs H"
  "h_sonces (add_sonce a n H) b = (if b = a then h_sonces H a + n else h_sonces H b)"
  "h_refs (add_sonce a n H) = h_refs H" "h_sends (add_sonce a n H) = h_sends H"
  "h_recvs (add_sonce a n H) = h_recvs H"
  "h_refs (add_recv a H) = h_refs H" "h_sends (add_recv a H) = h_sends H"
  "h_sonces (add_recv a H) = h_sonces H" "h_recvs (add_recv a H) = insert a (h_recvs H)"
  by (simp_all add: add_ref_def add_send_def add_sonce_def add_recv_def)

lemma add_zero [simp]: "add_ref a 0 H = H" "add_send a 0 H = H" "add_sonce a 0 H = H"
  by (simp_all add: add_ref_def add_send_def add_sonce_def fun_upd_idem)

lemma add_add [simp]:
  "add_ref a m (add_ref a n H) = add_ref a (n + m) H"
  "add_send a m (add_send a n H) = add_send a (n + m) H"
  "add_sonce a m (add_sonce a n H) = add_sonce a (n + m) H"
  by (simp_all add: add_ref_def add_send_def add_sonce_def add.assoc)

text \<open>References innermost, then send rights, send-once rights, and receive rights outermost.\<close>

lemma add_order [simp]:
  "add_ref a m (add_send b n H) = add_send b n (add_ref a m H)"
  "add_ref a m (add_sonce b n H) = add_sonce b n (add_ref a m H)"
  "add_send a m (add_sonce b n H) = add_sonce b n (add_send a m H)"
  "add_ref a m (add_recv b H) = add_recv b (add_ref a m H)"
  "add_send a m (add_recv b H) = add_recv b (add_send a m H)"
  "add_sonce a m (add_recv b H) = add_recv b (add_sonce a m H)"
  by (simp_all add: add_ref_def add_send_def add_sonce_def add_recv_def)

subsection \<open>Rights in a table\<close>

definition entry_refs :: "ipc_entry \<Rightarrow> addr \<Rightarrow> int" where
  "entry_refs e a = of_bool (ie_object e = a)"

definition entry_sends :: "ipc_entry \<Rightarrow> addr \<Rightarrow> int" where
  "entry_sends e a = of_bool (ie_object e = a \<and> ie_bits e AND MACH_PORT_TYPE_SEND \<noteq> 0)"

definition entry_sonces :: "ipc_entry \<Rightarrow> addr \<Rightarrow> int" where
  "entry_sonces e a = of_bool (ie_object e = a \<and> ie_bits e AND MACH_PORT_TYPE_SEND_ONCE \<noteq> 0)"

definition entry_recv :: "ipc_entry \<Rightarrow> addr \<Rightarrow> bool" where
  "entry_recv e a \<longleftrightarrow> ie_object e = a \<and> ie_bits e AND MACH_PORT_TYPE_RECEIVE \<noteq> 0"

lemmas entry_rights = entry_refs_def entry_sends_def entry_sonces_def entry_recv_def

definition refs_in :: "ipc_table \<Rightarrow> addr \<Rightarrow> int" where
  "refs_in t a = (\<Sum>e \<leftarrow> t. entry_refs e a)"

definition sends_in :: "ipc_table \<Rightarrow> addr \<Rightarrow> int" where
  "sends_in t a = (\<Sum>e \<leftarrow> t. entry_sends e a)"

definition sonces_in :: "ipc_table \<Rightarrow> addr \<Rightarrow> int" where
  "sonces_in t a = (\<Sum>e \<leftarrow> t. entry_sonces e a)"

definition recv_in :: "ipc_table \<Rightarrow> addr \<Rightarrow> bool" where
  "recv_in t a \<longleftrightarrow> (\<exists>e \<in> set t. entry_recv e a)"

text \<open>
  \<open>slot_frame i sp sp'\<close>: the spaces differ in slot \<open>i\<close>, in free slots and in the reverse
  table at most.
\<close>

definition slot_frame :: "nat \<Rightarrow> ipc_space \<Rightarrow> ipc_space \<Rightarrow> bool" where
  "slot_frame i sp sp' \<longleftrightarrow>
     is_self sp' = is_self sp \<and> is_bits sp' = is_bits sp \<and> is_task sp' = is_task sp
     \<and> is_table_next sp' = is_table_next sp \<and> length (is_table sp') = length (is_table sp)
     \<and> (\<forall>j < length (is_table sp). j \<noteq> i \<longrightarrow>
          ie_object (is_table sp' ! j) = ie_object (is_table sp ! j)
          \<and> ie_bits (is_table sp' ! j) = ie_bits (is_table sp ! j)
          \<and> (entry_type (is_table sp ! j) \<noteq> 0 \<longrightarrow>
               ie_request (is_table sp' ! j) = ie_request (is_table sp ! j)))"

lemma slot_frameD:
  assumes "slot_frame i sp sp'"
  shows "is_self sp' = is_self sp" "is_bits sp' = is_bits sp" "is_task sp' = is_task sp"
    "is_table_next sp' = is_table_next sp" "length (is_table sp') = length (is_table sp)"
    "j < length (is_table sp) \<Longrightarrow> j \<noteq> i \<Longrightarrow> ie_object (is_table sp' ! j) = ie_object (is_table sp ! j)"
    "j < length (is_table sp) \<Longrightarrow> j \<noteq> i \<Longrightarrow> ie_bits (is_table sp' ! j) = ie_bits (is_table sp ! j)"
    "j < length (is_table sp) \<Longrightarrow> j \<noteq> i \<Longrightarrow> entry_type (is_table sp ! j) \<noteq> 0 \<Longrightarrow>
       ie_request (is_table sp' ! j) = ie_request (is_table sp ! j)"
  using assms by (simp_all add: slot_frame_def)

lemma slot_frame_refl [simp]: "slot_frame i sp sp"
  by (simp add: slot_frame_def)

lemma slot_frame_trans [trans]: "slot_frame i sp sp' \<Longrightarrow> slot_frame i sp' sp'' \<Longrightarrow> slot_frame i sp sp''"
  by (simp add: slot_frame_def)

lemma slot_frame_modified [simp]:
  "slot_frame i sp (ipc_entry_modified sp' name) = slot_frame i sp sp'"
  by (simp add: slot_frame_def)

lemma slot_frame_upd [simp]: "slot_frame i sp (upd_entry sp i f)"
  by (simp add: slot_frame_def upd_entry_def)

lemma slot_frame_upd_trans: "slot_frame i sp sp' \<Longrightarrow> slot_frame i sp (upd_entry sp' i f)"
  using slot_frame_trans slot_frame_upd by blast

lemma slot_frame_payload:
  assumes "same_payload ((is_table sp)[i := e]) t"
  shows "slot_frame i sp (sp\<lparr>is_table := t\<rparr>)"
  using same_payload_length [OF assms] same_payload_fields [OF assms]
  by (simp add: slot_frame_def)

lemma sum_list_map_update:
  assumes "i < length xs"
  shows "(\<Sum>y \<leftarrow> xs[i := x]. f y) = (\<Sum>y \<leftarrow> xs. f y) - f (xs ! i) + (f x :: int)"
  using assms
proof (induction xs arbitrary: i)
  case (Cons y ys)
  then show ?case by (cases i) simp_all
qed simp

lemma rights_in_frame:
  assumes "slot_frame i sp sp'" "i < length (is_table sp)"
  shows "refs_in (is_table sp') a
           = refs_in (is_table sp) a - entry_refs (is_table sp ! i) a + entry_refs (is_table sp' ! i) a"
    and "sends_in (is_table sp') a
           = sends_in (is_table sp) a - entry_sends (is_table sp ! i) a + entry_sends (is_table sp' ! i) a"
    and "sonces_in (is_table sp') a
           = sonces_in (is_table sp) a - entry_sonces (is_table sp ! i) a + entry_sonces (is_table sp' ! i) a"
proof -
  note d = slot_frameD [OF assms(1)]
  have *: "map f (is_table sp') = map f ((is_table sp)[i := is_table sp' ! i])"
    if "\<And>e e'. ie_object e' = ie_object e \<Longrightarrow> ie_bits e' = ie_bits e \<Longrightarrow> f e' = f e"
    for f :: "ipc_entry \<Rightarrow> int"
  proof (rule nth_equalityI)
    fix j assume "j < length (map f (is_table sp'))"
    then have j: "j < length (is_table sp)" using d(5) by simp
    show "map f (is_table sp') ! j = map f ((is_table sp)[i := is_table sp' ! i]) ! j"
    proof (cases "j = i")
      case False
      have "f (is_table sp' ! j) = f (is_table sp ! j)"
        using d(6,7) [OF j False] by (rule that)
      then show ?thesis using False j d(5) by simp
    qed (use j d(5) in simp)
  qed (simp add: d(5))
  show "refs_in (is_table sp') a
           = refs_in (is_table sp) a - entry_refs (is_table sp ! i) a + entry_refs (is_table sp' ! i) a"
    unfolding refs_in_def using assms(2) by (subst *) (simp_all add: entry_rights sum_list_map_update)
  show "sends_in (is_table sp') a
           = sends_in (is_table sp) a - entry_sends (is_table sp ! i) a + entry_sends (is_table sp' ! i) a"
    unfolding sends_in_def using assms(2) by (subst *) (simp_all add: entry_rights sum_list_map_update)
  show "sonces_in (is_table sp') a
           = sonces_in (is_table sp) a - entry_sonces (is_table sp ! i) a + entry_sonces (is_table sp' ! i) a"
    unfolding sonces_in_def using assms(2) by (subst *) (simp_all add: entry_rights sum_list_map_update)
qed

lemma sum_list_ge_nth:
  assumes "i < length xs" "\<And>x. x \<in> set xs \<Longrightarrow> 0 \<le> f x"
  shows "(f (xs ! i) :: int) \<le> (\<Sum>x \<leftarrow> xs. f x)" "0 \<le> (\<Sum>x \<leftarrow> xs. f x)"
  using assms member_le_sum_list [of "f (xs ! i)" "map f xs"] sum_list_nonneg [of "map f xs"] by auto

lemma rights_in_ge:
  assumes "i < length t"
  shows "entry_refs (t ! i) a \<le> refs_in t a" "entry_sends (t ! i) a \<le> sends_in t a"
    "entry_sonces (t ! i) a \<le> sonces_in t a"
  unfolding refs_in_def sends_in_def sonces_in_def
  by (rule sum_list_ge_nth(1) [OF assms]; simp add: entry_rights)+

lemma rights_in_nonneg: "0 \<le> refs_in t a" "0 \<le> sends_in t a" "0 \<le> sonces_in t a"
  unfolding refs_in_def sends_in_def sonces_in_def
  by (auto intro!: sum_list_nonneg simp: entry_rights)

lemma refs_in_zero: "refs_in t a = 0 \<longleftrightarrow> (\<forall>e \<in> set t. ie_object e \<noteq> a)"
  unfolding refs_in_def by (subst sum_list_nonneg_eq_0_iff) (auto simp: entry_refs_def)

lemma sends_le_refs: "sends_in t a \<le> refs_in t a" "sonces_in t a \<le> refs_in t a"
  unfolding refs_in_def sends_in_def sonces_in_def by (auto intro!: sum_list_mono simp: entry_rights)

lemma recv_in_iff: "recv_in t a \<longleftrightarrow> (\<exists>i < length t. entry_recv (t ! i) a)"
  unfolding recv_in_def by (metis in_set_conv_nth)

subsection \<open>The invariant\<close>

definition req_ok :: "ipc_port \<Rightarrow> nat \<Rightarrow> bool" where
  "req_ok p r \<longleftrightarrow>
     r = IE_REQ_NONE \<or> (case ip_requests p of None \<Rightarrow> False | Some table \<Rightarrow> r < length (ipr_slots table))"

text \<open>A request table has at least its header.\<close>

definition requests_ok :: "ipc_port \<Rightarrow> bool" where
  "requests_ok p \<longleftrightarrow> (case ip_requests p of None \<Rightarrow> True | Some table \<Rightarrow> ipr_slots table \<noteq> [])"

text \<open>
  What an entry says about the object it denotes: rights denote ports, whose request table
  has the slot of the entry's request; a receive right denotes an active port that knows the
  space and the name of the entry; port sets denote port sets.
\<close>

definition slot_ok :: "addr \<Rightarrow> kern \<Rightarrow> nat \<Rightarrow> ipc_entry \<Rightarrow> bool" where
  "slot_ok self k i e \<longleftrightarrow>
     (entry_type e \<in> {MACH_PORT_TYPE_SEND, MACH_PORT_TYPE_RECEIVE, MACH_PORT_TYPE_SEND_RECEIVE,
                       MACH_PORT_TYPE_SEND_ONCE} \<longrightarrow>
        (case port_at k (ie_object e) of
           None \<Rightarrow> False
         | Some p \<Rightarrow> req_ok p (ie_request e)
             \<and> (ie_bits e AND MACH_PORT_TYPE_RECEIVE \<noteq> 0 \<longrightarrow>
                  ip_active p \<and> ip_receiver p = self
                  \<and> ip_receiver_name p = MACH_PORT_MAKE i (IE_BITS_GEN (ie_bits e)))))
     \<and> (entry_type e = MACH_PORT_TYPE_PORT_SET \<longrightarrow> pset_at k (ie_object e) \<noteq> None)"

text \<open>The account of the object at an address.\<close>

definition port_ok :: "addr \<Rightarrow> ipc_table \<Rightarrow> holdings \<Rightarrow> addr \<Rightarrow> ipc_port \<Rightarrow> bool" where
  "port_ok self t H a p \<longleftrightarrow>
     ip_references p \<noteq> 0 \<and> uint (ip_references p) = refs_in t a + h_refs H a
     \<and> io_otype_bits (ip_bits p) = IOT_PORT
     \<and> requests_ok p
     \<and> (ip_active p \<longrightarrow>
          uint (ip_srights p) = sends_in t a + h_sends H a
          \<and> uint (ip_sorights p) = sonces_in t a + h_sonces H a
          \<and> (ip_receiver p = self \<longrightarrow> recv_in t a \<or> a \<in> h_recvs H))"

definition addr_ok :: "addr \<Rightarrow> ipc_table \<Rightarrow> kern \<Rightarrow> holdings \<Rightarrow> addr \<Rightarrow> bool" where
  "addr_ok self t k H a \<longleftrightarrow>
     (case k_objects k a of
        None \<Rightarrow> refs_in t a = 0 \<and> h_refs H a = 0
      | Some (Io_Port p) \<Rightarrow> port_ok self t H a p
      | Some (Io_Pset s) \<Rightarrow>
          ips_references s \<noteq> 0 \<and> uint (ips_references s) = refs_in t a + h_refs H a
          \<and> io_otype_bits (ips_bits s) = IOT_PORT_SET)"

text \<open>No object lies at the null address, at the dead address or where the space is.\<close>

definition heap_ok :: "addr \<Rightarrow> kern \<Rightarrow> bool" where
  "heap_ok self k \<longleftrightarrow>
     self \<noteq> IO_NULL \<and> k_objects k IO_NULL = None \<and> k_objects k IO_DEAD = None \<and> k_objects k self = None"

definition cap_inv :: "ipc_space \<Rightarrow> kern \<Rightarrow> holdings \<Rightarrow> nat set \<Rightarrow> bool" where
  "cap_inv sp k H X \<longleftrightarrow>
     (\<exists>L. space_wf sp L X) \<and> heap_ok (is_self sp) k
     \<and> (\<forall>i < length (is_table sp). slot_ok (is_self sp) k i (is_table sp ! i))
     \<and> (\<forall>a. a \<noteq> IO_NULL \<longrightarrow> addr_ok (is_self sp) (is_table sp) k H a)"

lemma cap_invD:
  assumes "cap_inv sp k H X"
  shows "\<exists>L. space_wf sp L X" "heap_ok (is_self sp) k"
    "i < length (is_table sp) \<Longrightarrow> slot_ok (is_self sp) k i (is_table sp ! i)"
    "a \<noteq> IO_NULL \<Longrightarrow> addr_ok (is_self sp) (is_table sp) k H a"
  using assms by (simp_all add: cap_inv_def)

lemma slot_ok_objects:
  assumes "k_objects k' (ie_object e) = k_objects k (ie_object e)"
  shows "slot_ok self k' i e = slot_ok self k i e"
  using assms by (simp add: slot_ok_def port_at_def pset_at_def)

lemma cap_inv_cong:
  assumes "k_objects k' = k_objects k" "is_self sp' = is_self sp" "is_table sp' = is_table sp"
    "is_table_free sp' = is_table_free sp"
  shows "cap_inv sp' k' H X = cap_inv sp k H X"
  using assms by (simp add: cap_inv_def heap_ok_def addr_ok_def space_wf_def slot_ok_def port_at_def pset_at_def)

lemma cap_inv_emit [simp]: "cap_inv sp (emit ev k) H X = cap_inv sp k H X"
  by (rule cap_inv_cong) simp_all

lemma cap_inv_modified [simp]: "cap_inv (ipc_entry_modified sp name) k H X = cap_inv sp k H X"
  by (rule cap_inv_cong) simp_all

text \<open>An object lies at a proper address.\<close>

lemma heap_ok_object:
  assumes "heap_ok self k" "k_objects k a = Some x"
  shows "a \<noteq> IO_NULL" "a \<noteq> IO_DEAD" "a \<noteq> self" "IO_VALID a"
proof -
  show *: "a \<noteq> IO_NULL" "a \<noteq> IO_DEAD" "a \<noteq> self"
    using assms by (auto simp: heap_ok_def)
  then show "IO_VALID a" by (simp add: IO_VALID_def)
qed

text \<open>\<open>only_at a k k'\<close>: the heaps differ at address \<open>a\<close> at most.\<close>

definition only_at :: "addr \<Rightarrow> kern \<Rightarrow> kern \<Rightarrow> bool" where
  "only_at a k k' \<longleftrightarrow>
     (\<forall>b. b \<noteq> a \<longrightarrow> k_objects k' b = k_objects k b) \<and> k_space_kernel k' = k_space_kernel k"

lemma only_at_refl [simp]: "only_at a k k"
  by (simp add: only_at_def)

lemma only_at_trans [trans]: "only_at a k k' \<Longrightarrow> only_at a k' k'' \<Longrightarrow> only_at a k k''"
  by (simp add: only_at_def)

lemma only_at_put [simp]: "only_at a k (put_port a p k')  = only_at a k k'"
  "only_at a k (emit ev k') = only_at a k k'"
  by (simp_all add: only_at_def)

lemma cap_inv_heap:
  assumes inv: "cap_inv sp k H X" and k': "only_at a k k'" and a: "k_objects k a \<noteq> None"
    and H: "\<And>b. b \<noteq> a \<Longrightarrow> h_refs H' b = h_refs H b \<and> h_sends H' b = h_sends H b
      \<and> h_sonces H' b = h_sonces H b \<and> (b \<in> h_recvs H \<longrightarrow> b \<in> h_recvs H')"
    and slots: "\<And>i. i < length (is_table sp) \<Longrightarrow> ie_object (is_table sp ! i) = a \<Longrightarrow>
      slot_ok (is_self sp) k i (is_table sp ! i) \<Longrightarrow> slot_ok (is_self sp) k' i (is_table sp ! i)"
    and at: "addr_ok (is_self sp) (is_table sp) k' H' a"
  shows "cap_inv sp k' H' X"
proof -
  note d = cap_invD [OF inv]
  obtain x where x: "k_objects k a = Some x" using a by blast
  note av = heap_ok_object [OF d(2) x]
  have other: "k_objects k' b = k_objects k b" if "b \<noteq> a" for b
    using k' that by (simp add: only_at_def)
  have "heap_ok (is_self sp) k'"
    using d(2) av other by (auto simp: heap_ok_def)
  moreover have "slot_ok (is_self sp) k' i (is_table sp ! i)" if i: "i < length (is_table sp)" for i
    using slots [OF i] d(3) [OF i] slot_ok_objects [OF other]
    by (cases "ie_object (is_table sp ! i) = a") simp_all
  moreover have "addr_ok (is_self sp) (is_table sp) k' H' b" if b: "b \<noteq> IO_NULL" for b
  proof (cases "b = a")
    case False
    then show ?thesis
      using d(4) [OF b] other [OF False] H [OF False]
      by (auto simp: addr_ok_def port_ok_def split: option.splits ipc_object.splits)
  qed (use at in simp)
  ultimately show ?thesis
    using d(1) unfolding cap_inv_def by simp
qed

subsection \<open>Changing the counters of a port\<close>

lemma uint_minus1: "x \<noteq> 0 \<Longrightarrow> uint (x - 1) = uint x - 1" for x :: "'a :: len word"
proof -
  assume "x \<noteq> 0"
  then have "1 \<le> uint x" using uint_0_iff [of x] unsigned_greater_eq [of x, where 'a = int] by linarith
  then have "uint x - 1 = (uint x - 1) mod 2 ^ LENGTH('a)"
    using uint_lt2p [of x] by (intro mod_pos_pos_trivial [symmetric]) linarith+
  then show ?thesis by (simp add: uint_word_ariths)
qed

lemma uint_plus1: "x + 1 \<noteq> 0 \<Longrightarrow> uint (x + 1) = uint x + 1" for x :: "'a :: len word"
  using uint_minus1 [of "x + 1"] by simp

text \<open>\<open>port_like p p'\<close>: what the entries of a space say about the port stays true.\<close>

definition port_like :: "ipc_port \<Rightarrow> ipc_port \<Rightarrow> bool" where
  "port_like p p' \<longleftrightarrow>
     ip_active p' = ip_active p \<and> io_otype_bits (ip_bits p') = io_otype_bits (ip_bits p)
     \<and> ip_data p' = ip_data p \<and> ip_receiver_name p' = ip_receiver_name p
     \<and> (\<forall>r. req_ok p r \<longrightarrow> req_ok p' r) \<and> (requests_ok p \<longrightarrow> requests_ok p')"

lemma port_likeD:
  assumes "port_like p p'"
  shows "ip_active p' = ip_active p" "io_otype_bits (ip_bits p') = io_otype_bits (ip_bits p)"
    "ip_data p' = ip_data p" "ip_receiver_name p' = ip_receiver_name p"
    "req_ok p r \<Longrightarrow> req_ok p' r" "requests_ok p \<Longrightarrow> requests_ok p'"
  using assms by (simp_all add: port_like_def)

lemma port_likeI:
  assumes "ip_bits p' = ip_bits p" "ip_data p' = ip_data p" "ip_receiver_name p' = ip_receiver_name p"
    "map_option (length \<circ> ipr_slots) (ip_requests p') = map_option (length \<circ> ipr_slots) (ip_requests p)"
  shows "port_like p p'"
  using assms unfolding port_like_def req_ok_def requests_ok_def
  by (cases "ip_requests p"; cases "ip_requests p'") auto

lemma slot_ok_like:
  assumes "slot_ok self k i e" "port_at k (ie_object e) = Some p" "port_at k' (ie_object e) = Some p'"
    "port_like p p'"
  shows "slot_ok self k' i e"
proof -
  have "pset_at k (ie_object e) = None"
    using assms(2) by (simp add: port_at_eq pset_at_def)
  then show ?thesis
    using assms(1-3) port_likeD [OF assms(4)] by (auto simp: slot_ok_def)
qed

lemma cap_inv_portD:
  assumes "cap_inv sp k H X" "port_at k a = Some p"
  shows "port_ok (is_self sp) (is_table sp) H a p" "a \<noteq> IO_NULL" "a \<noteq> IO_DEAD" "a \<noteq> is_self sp"
    "IO_VALID a"
proof -
  have o: "k_objects k a = Some (Io_Port p)" using assms(2) by (simp add: port_at_eq)
  note d = cap_invD [OF assms(1)]
  show *: "a \<noteq> IO_NULL" "a \<noteq> IO_DEAD" "a \<noteq> is_self sp" "IO_VALID a"
    using heap_ok_object [OF d(2) o] by simp_all
  show "port_ok (is_self sp) (is_table sp) H a p"
    using d(4) [OF *(1)] o by (simp add: addr_ok_def)
qed

lemma cap_inv_port:
  assumes inv: "cap_inv sp k H X" and p: "port_at k a = Some p" and k': "only_at a k k'"
    and p': "port_at k' a = Some p'" "port_like p p'"
    and refs: "ip_references p' \<noteq> 0" "uint (ip_references p') = uint (ip_references p) + r"
    and cnt: "ip_active p \<Longrightarrow> uint (ip_srights p') = uint (ip_srights p) + s
        \<and> uint (ip_sorights p') = uint (ip_sorights p) + q"
  shows "cap_inv sp k' (add_ref a r (add_send a s (add_sonce a q H))) X"
proof (rule cap_inv_heap [OF inv k'])
  show "k_objects k a \<noteq> None" using p by (simp add: port_at_eq)
  show "slot_ok (is_self sp) k' i (is_table sp ! i)"
    if "ie_object (is_table sp ! i) = a" "slot_ok (is_self sp) k i (is_table sp ! i)" for i
    using slot_ok_like [OF that(2), of p k' p'] that(1) p p' by simp
  have "port_ok (is_self sp) (is_table sp) (add_ref a r (add_send a s (add_sonce a q H))) a p'"
    using cap_inv_portD(1) [OF inv p] refs cnt port_likeD [OF p'(2)] by (simp add: port_ok_def)
  then show "addr_ok (is_self sp) (is_table sp) k' (add_ref a r (add_send a s (add_sonce a q H))) a"
    using p'(1) by (simp add: addr_ok_def port_at_eq)
qed simp

text \<open>
  \<open>port_room k a\<close>: the counters of the port are so far from their maximum that one
  operation cannot make them wrap around. The code does not check this.
\<close>

definition port_room :: "kern \<Rightarrow> addr \<Rightarrow> bool" where
  "port_room k a \<longleftrightarrow>
     (case port_at k a of
        None \<Rightarrow> True
      | Some p \<Rightarrow> ip_references p < 0xfffffff0 \<and> ip_srights p < 0xfffffff0 \<and> ip_sorights p < 0xfffffff0)"

lemma room_plus1: "x < 0xfffffff0 \<Longrightarrow> x + 1 \<noteq> 0 \<and> uint (x + 1) = uint x + 1" for x :: natural_t
proof -
  assume "x < 0xfffffff0"
  then have "x \<noteq> - 1" by auto
  then have "x + 1 \<noteq> 0" by (metis add_cancel_right_left add_eq_0_iff2)
  then show ?thesis using uint_plus1 by blast
qed

lemma cap_inv_refs_pos:
  assumes "cap_inv sp k H X" "port_at k a = Some p"
  shows "ip_references p \<noteq> 0"
  using cap_inv_portD(1) [OF assms] by (simp add: port_ok_def)

lemma ip_reference_inv:
  assumes inv: "cap_inv sp k H X" and p: "port_at k a = Some p" and room: "ip_references p + 1 \<noteq> 0"
  shows "cap_inv sp (put_port a (p\<lparr>ip_references := ip_references p + 1\<rparr>) k) (add_ref a 1 H) X"
  using cap_inv_port [OF inv p, of "put_port a (p\<lparr>ip_references := ip_references p + 1\<rparr>) k" _ 1 0 0]
    room uint_plus1 [OF room] by (simp add: port_likeI)

lemma cap_inv_srights:
  assumes inv: "cap_inv sp k H X" and p: "port_at k a = Some p"
    and n: "ip_active p \<Longrightarrow> uint n = uint (ip_srights p) + s"
  shows "cap_inv sp (put_port a (p\<lparr>ip_srights := n\<rparr>) k) (add_send a s H) X"
  using cap_inv_port [OF inv p, of "put_port a (p\<lparr>ip_srights := n\<rparr>) k" _ 0 s 0]
    n cap_inv_refs_pos [OF inv p] by (simp add: port_likeI)

lemma cap_inv_sorights:
  assumes inv: "cap_inv sp k H X" and p: "port_at k a = Some p"
    and n: "ip_active p \<Longrightarrow> uint n = uint (ip_sorights p) + s"
  shows "cap_inv sp (put_port a (p\<lparr>ip_sorights := n\<rparr>) k) (add_sonce a s H) X"
  using cap_inv_port [OF inv p, of "put_port a (p\<lparr>ip_sorights := n\<rparr>) k" _ 0 0 s]
    n cap_inv_refs_pos [OF inv p] by (simp add: port_likeI)

text \<open>Changes of a port that concern none of the counters.\<close>

lemma cap_inv_same_counts:
  assumes inv: "cap_inv sp k H X" and p: "port_at k a = Some p" and l: "port_like p p'"
    and c: "ip_references p' = ip_references p" "ip_srights p' = ip_srights p"
      "ip_sorights p' = ip_sorights p"
  shows "cap_inv sp (put_port a p' k) H X"
  using cap_inv_port [OF inv p, of "put_port a p' k" p' 0 0 0] l c cap_inv_refs_pos [OF inv p] by simp

subsection \<open>Releasing a reference\<close>

lemma io_release_port:
  assumes p: "port_at k a = Some p" and ot: "io_otype_bits (ip_bits p) = IOT_PORT"
  shows "\<exists>k'. io_release a k = Some k' \<and> only_at a k k'
    \<and> k_objects k' a = (if ip_references p = 1 then None
        else Some (Io_Port (p\<lparr>ip_references := ip_references p - 1\<rparr>)))
    \<and> k_events k' = k_events k @ (if ip_references p = 1 then [Waitq_deinit a] else [])"
proof (cases "ip_references p = 1")
  case True
  then show ?thesis
    using p ot by (cases "ip_requests p")
      (simp_all add: port_at_eq io_release_def io_free_def ipc_port_finalize_def only_at_def)
next
  case False
  then show ?thesis using p by (simp add: port_at_eq io_release_def)
qed

lemma io_release_inv:
  assumes inv: "cap_inv sp k H X" and p: "port_at k a = Some p" and h: "0 < h_refs H a"
  shows "\<exists>k'. io_release a k = Some k' \<and> only_at a k k' \<and> cap_inv sp k' (add_ref a (- 1) H) X
    \<and> k_objects k' a = (if ip_references p = 1 then None
        else Some (Io_Port (p\<lparr>ip_references := ip_references p - 1\<rparr>)))
    \<and> k_events k' = k_events k @ (if ip_references p = 1 then [Waitq_deinit a] else [])"
proof -
  note ok = cap_inv_portD(1) [OF inv p, unfolded port_ok_def]
  have ot: "io_otype_bits (ip_bits p) = IOT_PORT" and nz: "ip_references p \<noteq> 0" using ok by simp_all
  obtain k' where k': "io_release a k = Some k'" "only_at a k k'"
      "k_objects k' a = (if ip_references p = 1 then None
        else Some (Io_Port (p\<lparr>ip_references := ip_references p - 1\<rparr>)))"
      "k_events k' = k_events k @ (if ip_references p = 1 then [Waitq_deinit a] else [])"
    using io_release_port [OF p ot] by blast
  have "cap_inv sp k' (add_ref a (- 1) H) X"
  proof (cases "ip_references p = 1")
    case True
    then have z: "refs_in (is_table sp) a = 0" "h_refs H a = 1"
      using ok h rights_in_nonneg(1) [of "is_table sp" a] by simp_all
    show ?thesis
    proof (rule cap_inv_heap [OF inv k'(2)])
      show "k_objects k a \<noteq> None" using p by (simp add: port_at_eq)
      show "slot_ok (is_self sp) k' i (is_table sp ! i)"
        if "i < length (is_table sp)" "ie_object (is_table sp ! i) = a" for i
        using z(1) that nth_mem unfolding refs_in_zero by blast
      show "addr_ok (is_self sp) (is_table sp) k' (add_ref a (- 1) H) a"
        using k'(3) True z by (simp add: addr_ok_def)
    qed simp
  next
    case False
    then have p': "port_at k' a = Some (p\<lparr>ip_references := ip_references p - 1\<rparr>)"
      using k'(3) by (simp add: port_at_eq)
    have "ip_references p - 1 \<noteq> 0" using False by simp
    then show ?thesis
      using cap_inv_port [OF inv p k'(2) p', of "- 1" 0 0] uint_minus1 [OF nz] by (simp add: port_likeI)
  qed
  then show ?thesis using k' by blast
qed

lemma ipc_pset_destroy_inv:
  assumes inv: "cap_inv sp k H X" and s: "pset_at k a = Some s" and h: "0 < h_refs H a"
  shows "\<exists>k'. ipc_pset_destroy a k = Some k' \<and> only_at a k k' \<and> cap_inv sp k' (add_ref a (- 1) H) X"
proof -
  have o: "k_objects k a = Some (Io_Pset s)" using s by (simp add: pset_at_eq)
  have a: "a \<noteq> IO_NULL" using heap_ok_object [OF cap_invD(2) [OF inv] o] by simp
  have ok: "ips_references s \<noteq> 0" "uint (ips_references s) = refs_in (is_table sp) a + h_refs H a"
      "io_otype_bits (ips_bits s) = IOT_PORT_SET"
    using cap_invD(4) [OF inv a] o by (simp_all add: addr_ok_def)
  define s' where "s' = s\<lparr>ips_bits := ips_bits s AND NOT IO_BITS_ACTIVE, ips_references := ips_references s - 1\<rparr>"
  have ot: "io_otype_bits (ips_bits s AND NOT IO_BITS_ACTIVE) = IOT_PORT_SET"
    using ok(3) by (simp add: io_otype_bits_def and.assoc)
  have "\<exists>k'. ipc_pset_destroy a k = Some k' \<and> only_at a k k'
      \<and> k_objects k' a = (if ips_references s = 1 then None else Some (Io_Pset s'))"
    using o ot s by (simp add: ipc_pset_destroy_def io_release_def io_free_def s'_def Let_def
        ipc_mqueue_changed_def ipc_mqueue_deinit_def only_at_def put_pset_def emit_def)
  then obtain k' where k': "ipc_pset_destroy a k = Some k'" "only_at a k k'"
      "k_objects k' a = (if ips_references s = 1 then None else Some (Io_Pset s'))"
    by blast
  have "cap_inv sp k' (add_ref a (- 1) H) X"
  proof (rule cap_inv_heap [OF inv k'(2)])
    show "k_objects k a \<noteq> None" using o by simp
    have one: "refs_in (is_table sp) a = 0" "h_refs H a = 1" if "ips_references s = 1"
      using that ok(2) h rights_in_nonneg(1) [of "is_table sp" a] by simp_all
    show "slot_ok (is_self sp) k' i (is_table sp ! i)"
      if i: "i < length (is_table sp)" "ie_object (is_table sp ! i) = a"
        and sl: "slot_ok (is_self sp) k i (is_table sp ! i)" for i
    proof (cases "ips_references s = 1")
      case True
      then show ?thesis using one(1) i nth_mem unfolding refs_in_zero by blast
    next
      case False
      then show ?thesis
        using sl i(2) o k'(3) by (auto simp: slot_ok_def port_at_def pset_at_def)
    qed
    show "addr_ok (is_self sp) (is_table sp) k' (add_ref a (- 1) H) a"
      using k'(3) ok ot one uint_minus1 [OF ok(1)]
      by (cases "ips_references s = 1") (simp_all add: addr_ok_def s'_def)
  qed simp
  then show ?thesis using k' by blast
qed

subsection \<open>Changing an entry\<close>

text \<open>
  \<open>moved e e' a H\<close>: the holdings after the rights to \<open>a\<close> in an entry have become those of \<open>e'\<close>
  instead of those of \<open>e\<close>; the difference is in the hand now.
\<close>

definition moved :: "ipc_entry \<Rightarrow> ipc_entry \<Rightarrow> addr \<Rightarrow> holdings \<Rightarrow> holdings" where
  "moved e e' a H =
     (let H' = add_ref a (entry_refs e a - entry_refs e' a)
                 (add_send a (entry_sends e a - entry_sends e' a)
                   (add_sonce a (entry_sonces e a - entry_sonces e' a) H))
      in if entry_recv e a \<and> \<not> entry_recv e' a then add_recv a H' else H')"

lemma moved_fields:
  "h_refs (moved e e' a H) b = h_refs H b + (if b = a then entry_refs e a - entry_refs e' a else 0)"
  "h_sends (moved e e' a H) b = h_sends H b + (if b = a then entry_sends e a - entry_sends e' a else 0)"
  "h_sonces (moved e e' a H) b = h_sonces H b + (if b = a then entry_sonces e a - entry_sonces e' a else 0)"
  "h_recvs H \<subseteq> h_recvs (moved e e' a H)"
  "entry_recv e a \<Longrightarrow> \<not> entry_recv e' a \<Longrightarrow> a \<in> h_recvs (moved e e' a H)"
  by (auto simp: moved_def Let_def)

lemma moved_cong:
  assumes "ie_object e1 = ie_object e" "ie_bits e1 = ie_bits e" "ie_object e1' = ie_object e'"
    "ie_bits e1' = ie_bits e'"
  shows "moved e1 e1' a H = moved e e' a H"
  using assms by (simp add: moved_def entry_rights)

lemma slot_ok_fields:
  assumes "ie_object e' = ie_object e" "ie_bits e' = ie_bits e" "ie_request e' = ie_request e"
  shows "slot_ok self k i e' = slot_ok self k i e"
  unfolding slot_ok_def assms by (rule refl)

lemma slot_ok_untyped: "entry_type e = 0 \<Longrightarrow> slot_ok self k i e"
  by (simp add: slot_ok_def)

lemma recv_in_frame:
  assumes fr: "slot_frame i sp sp'" and r: "recv_in (is_table sp) b"
    and i: "entry_recv (is_table sp ! i) b \<Longrightarrow> entry_recv (is_table sp' ! i) b"
  shows "recv_in (is_table sp') b"
proof -
  note d = slot_frameD [OF fr]
  obtain j where j: "j < length (is_table sp)" "entry_recv (is_table sp ! j) b"
    using r by (auto simp: recv_in_iff)
  have "entry_recv (is_table sp' ! j) b"
    using i j d(6,7) [OF j(1)] by (cases "j = i") (simp_all add: entry_recv_def)
  then show ?thesis using j(1) d(5) by (auto simp: recv_in_iff)
qed

lemma cap_inv_table:
  assumes inv: "cap_inv sp k H X" and wf': "space_wf sp' L' X'" and fr: "slot_frame i sp sp'"
    and i: "i < length (is_table sp)" and ok: "slot_ok (is_self sp) k i (is_table sp' ! i)"
    and a: "a \<noteq> IO_NULL" and obj: "ie_object (is_table sp ! i) \<in> {a, IO_NULL}"
      "ie_object (is_table sp' ! i) \<in> {a, IO_NULL}"
    and live: "a \<in> {ie_object (is_table sp ! i), ie_object (is_table sp' ! i)} \<Longrightarrow> k_objects k a \<noteq> None"
  shows "cap_inv sp' k (moved (is_table sp ! i) (is_table sp' ! i) a H) X'"
proof -
  let ?t = "is_table sp" and ?t' = "is_table sp'" and ?H = "moved (is_table sp ! i) (is_table sp' ! i) a H"
  note d = cap_invD [OF inv] and f = slot_frameD [OF fr]
  note r = rights_in_frame [OF fr i]
  have other: "entry_refs (?t ! i) b = 0 \<and> entry_refs (?t' ! i) b = 0" if "b \<noteq> a" "b \<noteq> IO_NULL" for b
    using obj that by (auto simp: entry_rights)
  have other2: "entry_sends (?t ! i) b = 0 \<and> entry_sends (?t' ! i) b = 0
      \<and> entry_sonces (?t ! i) b = 0 \<and> entry_sonces (?t' ! i) b = 0 \<and> \<not> entry_recv (?t ! i) b"
    if "b \<noteq> a" "b \<noteq> IO_NULL" for b
    using obj that by (auto simp: entry_rights)
  have "slot_ok (is_self sp') k j (?t' ! j)" if j: "j < length ?t'" for j
  proof (cases "j = i")
    case False
    have j': "j < length ?t" using j f(5) by simp
    note fj = f(6-8) [OF j' False]
    show ?thesis
      using d(3) [OF j'] fj slot_ok_fields [of "?t' ! j" "?t ! j"] slot_ok_untyped [of "?t' ! j"] f(1)
      by (cases "entry_type (?t ! j) = 0") simp_all
  qed (use ok f(1) in simp)
  moreover have "addr_ok (is_self sp') ?t' k ?H b" if b: "b \<noteq> IO_NULL" for b
  proof -
    have cnt: "refs_in ?t' b + h_refs ?H b = refs_in ?t b + h_refs H b"
        "sends_in ?t' b + h_sends ?H b = sends_in ?t b + h_sends H b"
        "sonces_in ?t' b + h_sonces ?H b = sonces_in ?t b + h_sonces H b"
      using r [of b] other [OF _ b] other2 [OF _ b] by (cases "b = a"; simp add: moved_fields)+
    have rv: "recv_in ?t b \<or> b \<in> h_recvs H \<Longrightarrow> recv_in ?t' b \<or> b \<in> h_recvs ?H"
      using recv_in_frame [OF fr, of b] moved_fields(4,5) other2 [OF _ b] by (cases "b = a") blast+
    have zero: "refs_in ?t' b = 0 \<and> h_refs ?H b = 0" if n: "k_objects k b = None"
    proof -
      have "b = a \<Longrightarrow> entry_refs (?t ! i) b = 0 \<and> entry_refs (?t' ! i) b = 0"
        using live n by (auto simp: entry_rights)
      then show ?thesis
        using d(4) [OF b] n r(1) [of b] other [OF _ b] by (cases "b = a") (simp_all add: addr_ok_def moved_fields)
    qed
    show ?thesis
      using d(4) [OF b] cnt rv f(1) zero
      by (auto simp: addr_ok_def port_ok_def split: option.splits ipc_object.splits)
  qed
  ultimately show ?thesis
    using wf' d(2) f(1) unfolding cap_inv_def by auto
qed

lemma table_base_hold:
  assumes tb: "table_base t L X" and i: "0 < i" "i < length t" "i \<notin> set L" and e: "held_entry e"
  shows "table_base (t[i := e]) L (insert i X)"
proof -
  define u where "u = t[i := e]"
  have sl: "slots_wf t L X" and inj: "inj_on (ob t) (naming_slots t)" and fl: "freelist t L"
    using tb by (auto simp: table_base_def)
  have len: "length u = length t" and ent: "u ! j = (if j = i then e else t ! j)" for j
    using i by (simp_all add: u_def nth_list_update)
  have "slots_wf u L (insert i X)"
    using sl i e unfolding slots_wf_def len by (simp add: ent)
  moreover have "freelist u L"
    unfolding u_def using fl i by (intro freelist_update_other) auto
  moreover have "naming_slots u \<subseteq> naming_slots t - {i}"
    using e free_entry_type by (auto simp: naming_slots_def len ent held_entry_def split: if_splits)
  then have "inj_on (ob u) (naming_slots u)"
    using inj unfolding inj_on_def by (simp add: ent) blast
  ultimately have "table_base u L (insert i X)"
    using tb len by (simp add: table_base_def)
  then show ?thesis by (simp only: u_def)
qed

text \<open>A slot that is in use or claimed.\<close>

definition live_slot :: "ipc_space \<Rightarrow> nat set \<Rightarrow> nat \<Rightarrow> bool" where
  "live_slot sp X i \<longleftrightarrow> i < length (is_table sp) \<and> (entry_type (is_table sp ! i) \<noteq> 0 \<or> i \<in> X)"

lemma live_slotD:
  assumes "live_slot sp X i" "space_wf sp L X"
  shows "0 < i" "i < length (is_table sp)" "i \<notin> set L"
proof -
  have tb: "table_base (is_table sp) L X" using assms(2) by (simp add: space_wf_def table_wf_def)
  show i: "i < length (is_table sp)" using assms(1) by (simp add: live_slot_def)
  show "0 < i" "i \<notin> set L"
    using assms(1) table_base_used [OF tb i] table_base_held [OF tb i] by (auto simp: live_slot_def)
qed

abbreviation (input) naming_type :: "mach_port_type_t \<Rightarrow> bool" where
  "naming_type ty \<equiv> ty \<in> {MACH_PORT_TYPE_SEND, MACH_PORT_TYPE_RECEIVE, MACH_PORT_TYPE_SEND_RECEIVE}"

text \<open>The entry becomes \<open>e\<close>; the final table may differ from that in the reverse table.\<close>

lemma space_wf_edit:
  assumes wf: "space_wf sp L X" and i: "live_slot sp X i"
    and pay: "same_payload ((is_table sp)[i := e]) (is_table sp')"
    and free: "is_table_free sp' = is_table_free sp"
    and h: "hash_wf (is_table sp') (send_slots ((is_table sp)[i := e]))"
    and e: "used_entry e \<or> held_entry e"
    and uniq: "naming_type (entry_type e) \<Longrightarrow>
      naming_type (entry_type (is_table sp ! i)) \<and> ie_object e = ie_object (is_table sp ! i)
      \<or> (\<forall>j \<in> naming_slots (is_table sp). j \<noteq> i \<longrightarrow> ob (is_table sp) j \<noteq> ie_object e)"
  shows "space_wf sp' L (if entry_type e = 0 then insert i X else X - {i})"
proof -
  let ?t = "is_table sp"
  note l = live_slotD [OF i wf]
  have tb: "table_base ?t L X" and fr: "is_table_free sp = of_nat (length L)"
    using wf by (simp_all add: space_wf_def table_wf_def)
  have inj: "inj_on (ob ?t) (naming_slots ?t)" using tb by (simp add: table_base_def)
  have "table_base (?t[i := e]) L (if entry_type e = 0 then insert i X else X - {i})"
  proof (cases "entry_type e = 0")
    case True
    then have "held_entry e" using e used_entry_type by blast
    then show ?thesis using True table_base_hold [OF tb l] by simp
  next
    case False
    then have u: "used_entry e" using e free_entry_type by (auto simp: held_entry_def)
    have "ob ?t j \<noteq> ie_object e"
      if j: "j \<in> naming_slots ?t" "j \<noteq> i" and ii: "i \<in> naming_slots (?t[i := e])" for j
    proof -
      have nt: "naming_type (entry_type e)" using ii l(2) by (simp add: naming_slots_def)
      have "naming_type (entry_type (?t ! i)) \<Longrightarrow> i \<in> naming_slots ?t"
        using l(2) by (simp add: naming_slots_def)
      then show ?thesis using uniq [OF nt] inj j unfolding inj_on_def by metis
    qed
    then show ?thesis using False table_base_retype [OF tb l u] by simp
  qed
  from table_base_payload [OF this pay] show ?thesis
    using h slots_payload(1) [OF pay] free fr by (simp add: space_wf_def table_wf_def)
qed

lemma cap_inv_edit:
  assumes inv: "cap_inv sp k H X" and i: "live_slot sp X i"
    and pay: "same_payload ((is_table sp)[i := e]) (is_table sp')"
    and fr: "slot_frame i sp sp'" "is_table_free sp' = is_table_free sp"
    and h: "hash_wf (is_table sp') (send_slots ((is_table sp)[i := e]))"
    and e: "used_entry e \<or> held_entry e"
    and uniq: "naming_type (entry_type e) \<Longrightarrow>
      naming_type (entry_type (is_table sp ! i)) \<and> ie_object e = ie_object (is_table sp ! i)
      \<or> (\<forall>j \<in> naming_slots (is_table sp). j \<noteq> i \<longrightarrow> ob (is_table sp) j \<noteq> ie_object e)"
    and ok: "slot_ok (is_self sp) k i e" and a: "a \<noteq> IO_NULL"
    and obj: "ie_object (is_table sp ! i) \<in> {a, IO_NULL}" "ie_object e \<in> {a, IO_NULL}"
    and live: "a \<in> {ie_object (is_table sp ! i), ie_object e} \<Longrightarrow> k_objects k a \<noteq> None"
  shows "cap_inv sp' k (moved (is_table sp ! i) e a H) (if entry_type e = 0 then insert i X else X - {i})"
proof -
  obtain L where wf: "space_wf sp L X" using cap_invD(1) [OF inv] by blast
  have il: "i < length (is_table sp)" using i by (simp add: live_slot_def)
  then have f: "ie_object (is_table sp' ! i) = ie_object e" "ie_bits (is_table sp' ! i) = ie_bits e"
      "ie_request (is_table sp' ! i) = ie_request e"
    using same_payload_fields [OF pay, of i] by simp_all
  show ?thesis
    using cap_inv_table [OF inv space_wf_edit [OF wf i pay fr(2) h e uniq] fr(1) il, of a]
      ok a obj live f slot_ok_fields [OF f] moved_cong [OF refl refl f(1,2)] by simp
qed

lemma upd_entry_fields [simp]:
  "is_table (upd_entry sp i f) = (is_table sp)[i := f (is_table sp ! i)]"
  "is_table_free (upd_entry sp i f) = is_table_free sp" "is_self (upd_entry sp i f) = is_self sp"
  "is_bits (upd_entry sp i f) = is_bits sp" "is_task (upd_entry sp i f) = is_task sp"
  "is_table_next (upd_entry sp i f) = is_table_next sp"
  by (simp_all add: upd_entry_def)

text \<open>Changes of an entry that keep it in the reverse table or out of it.\<close>

lemma cap_inv_upd:
  assumes inv: "cap_inv sp k H X" and i: "live_slot sp X i" and e: "f (is_table sp ! i) = e"
    and ix: "ie_index e = ie_index (is_table sp ! i)"
    and snd: "entry_type e = MACH_PORT_TYPE_SEND \<longleftrightarrow> entry_type (is_table sp ! i) = MACH_PORT_TYPE_SEND"
    and same: "naming_type (entry_type e) \<Longrightarrow>
      naming_type (entry_type (is_table sp ! i)) \<and> ie_object e = ie_object (is_table sp ! i)
      \<or> (\<forall>j \<in> naming_slots (is_table sp). j \<noteq> i \<longrightarrow> ob (is_table sp) j \<noteq> ie_object e)"
    and keep: "entry_type e = MACH_PORT_TYPE_SEND \<Longrightarrow> ie_object e = ie_object (is_table sp ! i)"
    and use: "used_entry e \<or> held_entry e"
    and ok: "slot_ok (is_self sp) k i e" and a: "a \<noteq> IO_NULL"
    and obj: "ie_object (is_table sp ! i) \<in> {a, IO_NULL}" "ie_object e \<in> {a, IO_NULL}"
    and live: "a \<in> {ie_object (is_table sp ! i), ie_object e} \<Longrightarrow> k_objects k a \<noteq> None"
  shows "cap_inv (upd_entry sp i f) k (moved (is_table sp ! i) e a H)
           (if entry_type e = 0 then insert i X else X - {i})"
proof -
  let ?t = "is_table sp"
  obtain L where "space_wf sp L X" using cap_invD(1) [OF inv] by blast
  then have hw: "hash_wf ?t (send_slots ?t)" by (simp add: space_wf_def table_wf_def)
  have il: "i < length ?t" using i by (simp add: live_slot_def)
  have "hash_wf (?t[i := e]) (send_slots (?t[i := e]))"
    using hash_wf_send_update [OF hw ix il] hash_wf_unhashed_update [OF hw ix] snd keep
    by (cases "entry_type e = MACH_PORT_TYPE_SEND") simp_all
  then show ?thesis
    by (intro cap_inv_edit [OF inv i]) (use e same use ok a obj live in simp_all)
qed

subsection \<open>The reverse table\<close>

lemma ipc_hash_delete_inv:
  assumes inv: "cap_inv sp k H X" and i: "i < length (is_table sp)"
    "entry_type (is_table sp ! i) = MACH_PORT_TYPE_SEND" "ie_object (is_table sp ! i) = a"
    and n: "MACH_PORT_INDEX name = i"
  shows "\<exists>t. ipc_hash_delete sp a name = Some (sp\<lparr>is_table := t\<rparr>) \<and> same_payload (is_table sp) t
           \<and> hash_wf t (send_slots (is_table sp) - {i})"
proof -
  obtain L where "space_wf sp L X" using cap_invD(1) [OF inv] by blast
  then have "hash_wf (is_table sp) (send_slots (is_table sp))" by (simp add: space_wf_def table_wf_def)
  moreover have "i \<in> send_slots (is_table sp)" using i by (simp add: send_slots_def)
  ultimately obtain t where "ipc_hash_table_delete (is_table sp) (length (is_table sp)) a i = Some t"
      "hash_wf t (send_slots (is_table sp) - {i})" "same_payload (is_table sp) t"
    using ipc_hash_table_delete_correct i(3) by blast
  then show ?thesis
    using n by (intro exI [of _ t]) (simp add: ipc_hash_delete_def is_table_size_def)
qed

lemma ipc_hash_insert_inv:
  assumes h: "hash_wf (is_table sp) S" and i: "0 < i" "i < length (is_table sp)" "i \<notin> S"
    "ie_object (is_table sp ! i) = a" and n: "MACH_PORT_INDEX name = i"
  shows "\<exists>t. ipc_hash_insert sp a name = Some (sp\<lparr>is_table := t\<rparr>) \<and> same_payload (is_table sp) t
           \<and> hash_wf t (insert i S)"
proof -
  obtain t where t: "ipc_hash_table_insert (is_table sp) (length (is_table sp)) a i = Some t"
      "hash_wf t (insert i S)"
    using ipc_hash_table_insert_correct [OF h i(1-4)] by blast
  then show ?thesis
    using ipc_hash_table_insert_payload [OF t(1)] n
    by (intro exI [of _ t]) (simp add: ipc_hash_insert_def is_table_size_def)
qed

lemma same_payload_upd:
  assumes "same_payload t t'" "i < length t" "e\<lparr>ie_index := 0\<rparr> = e'\<lparr>ie_index := 0\<rparr>"
  shows "same_payload (t[i := e]) (t'[i := e'])"
  using assms same_payload_length [OF assms(1)] unfolding same_payload_def
  by (simp add: map_update)

subsection \<open>Releasing a slot\<close>

text \<open>\<open>taken e a H\<close>: everything that the entry held is in the hand.\<close>

definition taken :: "ipc_entry \<Rightarrow> addr \<Rightarrow> holdings \<Rightarrow> holdings" where
  "taken e a H =
     (let H' = add_ref a (entry_refs e a) (add_send a (entry_sends e a) (add_sonce a (entry_sonces e a) H))
      in if entry_recv e a then add_recv a H' else H')"

lemma moved_null: "ie_object e' = IO_NULL \<Longrightarrow> a \<noteq> IO_NULL \<Longrightarrow> moved e e' a H = taken e a H"
  by (auto simp: moved_def taken_def Let_def entry_rights)

lemma ipc_entry_dealloc_frame:
  assumes "ipc_entry_dealloc sp name i = Some sp'" "entry_type (is_table sp ! 0) = 0"
    "0 < i" "i < length (is_table sp)"
  shows "slot_frame i sp sp'" "ie_object (is_table sp' ! i) = ie_object (is_table sp ! i)"
proof -
  define t where "t = is_table sp"
  have z: "0 < length t" using assms(4) unfolding t_def by linarith
  obtain t' where t': "is_table sp' = t' \<and> is_self sp' = is_self sp \<and> is_bits sp' = is_bits sp
      \<and> is_task sp' = is_task sp \<and> is_table_next sp' = is_table_next sp"
    and "t' = t \<or> t' = t[i := (t ! i)\<lparr>ie_bits := ie_bits (t ! i) AND IE_BITS_GEN_MASK,
                                      ie_request := ie_next (t ! 0)\<rparr>, 0 := (t ! 0)\<lparr>ie_request := i\<rparr>]"
    using assms z unfolding t_def
    by (auto simp: ipc_entry_dealloc_def Let_def entry_at_def split: if_splits)
  then have "length t' = length t" and ent: "ie_object (t' ! j) = ie_object (t ! j)
      \<and> (j \<noteq> i \<longrightarrow> ie_bits (t' ! j) = ie_bits (t ! j)) \<and> (j \<noteq> i \<longrightarrow> j \<noteq> 0 \<longrightarrow> t' ! j = t ! j)" for j
    using assms(3,4) z unfolding t_def by (auto simp: nth_list_update)
  moreover have "j \<noteq> 0" if "entry_type (t ! j) \<noteq> 0" for j
    using that assms(2) unfolding t_def by metis
  ultimately show "slot_frame i sp sp'" "ie_object (is_table sp' ! i) = ie_object (is_table sp ! i)"
    using t' unfolding slot_frame_def t_def by auto
qed

lemma ipc_entry_dealloc_inv:
  assumes inv: "cap_inv sp k H X" and i: "live_slot sp X i"
    and pay: "same_payload ((is_table sp)[i := e]) (is_table sp1)"
    and fr: "slot_frame i sp sp1" "is_table_free sp1 = is_table_free sp"
    and h: "hash_wf (is_table sp1) (send_slots (is_table sp) - {i})"
    and e: "ie_object e = IO_NULL" "ie_request e = IE_REQ_NONE"
    and n: "MACH_PORT_INDEX name = i" and a: "a \<noteq> IO_NULL"
    and obj: "ie_object (is_table sp ! i) \<in> {a, IO_NULL}"
    and live: "a = ie_object (is_table sp ! i) \<Longrightarrow> k_objects k a \<noteq> None"
  shows "\<exists>sp'. ipc_entry_dealloc sp1 name i = Some sp' \<and> slot_frame i sp sp'
           \<and> cap_inv sp' k (taken (is_table sp ! i) a H) (X - {i})
           \<and> ie_bits (is_table sp' ! i) = IE_BITS_GEN (ie_bits e)"
proof -
  obtain L where wf: "space_wf sp L X" using cap_invD(1) [OF inv] by blast
  note l = live_slotD [OF i wf]
  have tb: "table_base (is_table sp) L X" and free: "is_table_free sp = of_nat (length L)"
    using wf by (simp_all add: space_wf_def table_wf_def)
  obtain sp' where sp': "ipc_entry_dealloc sp1 name i = Some sp'" "space_wf sp' (i # L) (X - {i})"
      "ie_bits (is_table sp' ! i) = IE_BITS_GEN (ie_bits e)"
    using ipc_entry_dealloc_spec [OF tb pay h l e n] free fr(2) by auto
  have z: "0 < length (is_table sp)" using l(2) by linarith
  have "entry_type (is_table sp ! 0) = 0"
    using free_entry_type [OF table_base_free [OF tb, of 0]] by simp
  then have "entry_type (is_table sp1 ! 0) = 0"
    using slot_frameD(7) [OF fr(1) z] l(1) by simp
  note df = ipc_entry_dealloc_frame [OF sp'(1) this l(1)]
  have len: "length (is_table sp1) = length (is_table sp)" using slot_frameD(5) [OF fr(1)] .
  have fr': "slot_frame i sp sp'" using slot_frame_trans [OF fr(1) df(1)] l(2) len by simp
  have o: "ie_object (is_table sp' ! i) = IO_NULL"
    using df(2) len l(2) e(1) same_payload_fields(1) [OF pay, of i] by simp
  have ty: "entry_type (is_table sp' ! i) = 0"
    using sp'(3) type_none_iff [of "IE_BITS_GEN (ie_bits e)"] by simp
  have "cap_inv sp' k (moved (is_table sp ! i) (is_table sp' ! i) a H) (X - {i})"
    using cap_inv_table [OF inv sp'(2) fr' l(2) slot_ok_untyped [OF ty] a] obj o live a by auto
  then show ?thesis using sp' fr' moved_null [OF o a] by auto
qed

subsection \<open>Destroying a port\<close>

lemma ipc_port_clear_receiver_eq:
  assumes "port_at k a = Some p"
  shows "\<exists>evs. ipc_port_clear_receiver a k = Some (put_port a
      (p\<lparr>ip_in_pset := 0, ip_mscount := 0, imq_seqno := 0, ip_context := 0,
         ip_guarded := False, ip_strict_guard := False\<rparr>) (k\<lparr>k_events := k_events k @ evs\<rparr>))
    \<and> evs = (if ip_in_pset p \<noteq> 0 then [Waitq_unlink_all a] else []) @ [Receivers_changed a]"
  using assms by (cases p; cases "ip_in_pset p = 0")
    (simp_all add: ipc_port_clear_receiver_def ipc_pset_remove_from_all_def ipc_mqueue_changed_def
      upd_port_def emit_def put_port_def port_at_def)

lemma ipc_port_clear_receiver_inv:
  assumes inv: "cap_inv sp k H X" and p: "port_at k a = Some p"
  shows "\<exists>k' p'. ipc_port_clear_receiver a k = Some k' \<and> only_at a k k' \<and> cap_inv sp k' H X
    \<and> port_at k' a = Some p' \<and> port_like p p' \<and> ip_references p' = ip_references p
    \<and> ip_pdrequest p' = ip_pdrequest p \<and> ip_requests p' = ip_requests p"
proof -
  let ?p = "p\<lparr>ip_in_pset := 0, ip_mscount := 0, imq_seqno := 0, ip_context := 0,
         ip_guarded := False, ip_strict_guard := False\<rparr>"
  obtain evs where eq: "ipc_port_clear_receiver a k = Some (put_port a ?p (k\<lparr>k_events := k_events k @ evs\<rparr>))"
    using ipc_port_clear_receiver_eq [OF p] by blast
  have "cap_inv sp (k\<lparr>k_events := k_events k @ evs\<rparr>) H X"
    using inv cap_inv_cong [of "k\<lparr>k_events := k_events k @ evs\<rparr>" k sp sp] by simp
  then have "cap_inv sp (put_port a ?p (k\<lparr>k_events := k_events k @ evs\<rparr>)) H X"
    using p by (intro cap_inv_same_counts) (auto simp: port_at_def intro: port_likeI)
  moreover have "only_at a k (put_port a ?p (k\<lparr>k_events := k_events k @ evs\<rparr>))"
    by (simp add: only_at_def)
  moreover have "port_like p ?p" by (rule port_likeI) simp_all
  ultimately show ?thesis using eq by auto
qed

lemma dnnotify_loop_fields [simp]:
  "k_objects (ipc_port_dnnotify_loop iprs k) = k_objects k"
  "k_space_kernel (ipc_port_dnnotify_loop iprs k) = k_space_kernel k"
  by (induction iprs arbitrary: k) (simp_all add: Let_def ipc_notify_dead_name_def)

lemma port_at_dnnotify_loop [simp]: "port_at (ipc_port_dnnotify_loop iprs k) a = port_at k a"
  by (simp add: port_at_def)

text \<open>The work of \<open>ipc_port_destroy_dead\<close> up to the release of the reference.\<close>

lemma destroy_prealloc_eq:
  assumes "port_at k a = Some p"
  shows "\<exists>k' p'. ipc_port_destroy_prealloc a k = Some k' \<and> only_at a k k' \<and> port_at k' a = Some p'
    \<and> ip_references p' = ip_references p \<and> ip_requests p' = ip_requests p \<and> ip_data p' = ip_data p
    \<and> ip_active p' = ip_active p \<and> io_otype_bits (ip_bits p') = io_otype_bits (ip_bits p)"
  using assms
  by (auto simp: ipc_port_destroy_prealloc_def Let_def IP_CLEAR_PREALLOC_def io_active_bits_def
      io_otype_bits_def and.assoc)

lemma mqueue_destroy_eq:
  assumes "port_at k a = Some p"
  shows "\<exists>k' p'. ipc_mqueue_destroy a k = Some k' \<and> only_at a k k' \<and> port_at k' a = Some p'
    \<and> ip_references p' = ip_references p \<and> ip_requests p' = ip_requests p \<and> ip_bits p' = ip_bits p"
  using assms by (auto simp: ipc_mqueue_destroy_def Let_def only_at_def emit_def port_at_def put_port_def
      split: option.splits ipc_object.splits)

lemma destroy_dead_eq:
  assumes p: "port_at k a = Some p"
  shows "\<exists>k' p'. ipc_port_destroy_dead a k = io_release a k' \<and> only_at a k k' \<and> port_at k' a = Some p'
    \<and> ip_references p' = ip_references p \<and> ip_requests p' = ip_requests p \<and> \<not> ip_active p'
    \<and> io_otype_bits (ip_bits p') = io_otype_bits (ip_bits p)"
proof -
  define p1 where "p1 = set_ip_timestamp (k_timestamp k) (p\<lparr>ip_bits := ip_bits p AND NOT IO_BITS_ACTIVE\<rparr>)"
  define k1 where "k1 = put_port a p1 (k\<lparr>k_timestamp := k_timestamp k + 1\<rparr>)"
  have p1: "port_at k1 a = Some p1" "only_at a k k1" "ip_references p1 = ip_references p"
      "ip_requests p1 = ip_requests p" "\<not> ip_active p1"
      "io_otype_bits (ip_bits p1) = io_otype_bits (ip_bits p)"
    by (simp_all add: k1_def p1_def set_ip_timestamp_def io_active_bits_def io_otype_bits_def
        and.assoc only_at_def)
  obtain k2 p2 where p2: "ipc_port_destroy_prealloc a k1 = Some k2" "only_at a k1 k2" "port_at k2 a = Some p2"
      "ip_references p2 = ip_references p1" "ip_requests p2 = ip_requests p1" "ip_active p2 = ip_active p1"
      "io_otype_bits (ip_bits p2) = io_otype_bits (ip_bits p1)"
    using destroy_prealloc_eq [OF p1(1)] by blast
  define k3 where "k3 = (if ip_nsrequest p1 \<noteq> IP_NULL then ipc_notify_send_once (ip_nsrequest p1) k2 else k2)"
  have k3: "port_at k3 a = Some p2" "only_at a k2 k3"
    using p2(3) by (simp_all add: k3_def ipc_notify_send_once_def)
  obtain k4 p4 where p4: "ipc_mqueue_destroy a k3 = Some k4" "only_at a k3 k4" "port_at k4 a = Some p4"
      "ip_references p4 = ip_references p2" "ip_requests p4 = ip_requests p2" "ip_bits p4 = ip_bits p2"
    using mqueue_destroy_eq [OF k3(1)] by blast
  define k5 where "k5 = emit (Kobject_destroy a)
      (case ip_requests p4 of None \<Rightarrow> ipc_mqueue_deinit a k4
       | Some requests \<Rightarrow> ipc_port_dnnotify_loop (tl (ipr_slots requests)) (ipc_mqueue_deinit a k4))"
  have "only_at a k4 k5" "port_at k5 a = Some p4"
    using p4(3) by (auto simp: k5_def ipc_mqueue_deinit_def only_at_def split: option.splits)
  moreover have "ipc_port_destroy_dead a k = io_release a k5"
    using p p2(1) p4(1,3) unfolding k5_def k3_def k1_def p1_def
    by (auto simp: ipc_port_destroy_dead_def ipc_port_timestamp_def Let_def ipc_port_dnnotify_def
        ipc_mqueue_deinit_def split: option.splits)
  ultimately show ?thesis
    using p1 p2 k3 p4 only_at_trans by metis
qed

text \<open>Without a receive right in the table a port may change its receiver, or die.\<close>

lemma cap_inv_no_receiver:
  assumes inv: "cap_inv sp k H X" and p: "port_at k a = Some p" and k': "only_at a k k'"
    and p': "port_at k' a = Some p'" and nr: "\<not> recv_in (is_table sp) a"
    and refs: "ip_references p' = ip_references p" and req: "ip_requests p' = ip_requests p"
    and ot: "io_otype_bits (ip_bits p') = io_otype_bits (ip_bits p)"
    and act: "ip_active p' \<Longrightarrow> ip_active p \<and> ip_srights p' = ip_srights p
        \<and> ip_sorights p' = ip_sorights p \<and> (ip_receiver p' = is_self sp \<longrightarrow> a \<in> h_recvs H')"
    and H': "add_recv a H' = add_recv a H"
  shows "cap_inv sp k' H' X"
proof (rule cap_inv_heap [OF inv k'])
  show "k_objects k a \<noteq> None" using p by (simp add: port_at_eq)
  have ns: "pset_at k a = None" using p by (simp add: port_at_eq pset_at_def)
  show "slot_ok (is_self sp) k' i (is_table sp ! i)"
    if i: "i < length (is_table sp)" and o: "ie_object (is_table sp ! i) = a"
      and sl: "slot_ok (is_self sp) k i (is_table sp ! i)" for i
  proof -
    have "ie_bits (is_table sp ! i) AND MACH_PORT_TYPE_RECEIVE = 0"
      using nr i o by (auto simp: recv_in_iff entry_recv_def)
    then show ?thesis
      using sl o p p' ns req by (auto simp: slot_ok_def req_ok_def)
  qed
  have h: "h_refs H' = h_refs H" "h_sends H' = h_sends H" "h_sonces H' = h_sonces H"
    "insert a (h_recvs H') = insert a (h_recvs H)"
    using arg_cong [OF H', of h_refs] arg_cong [OF H', of h_sends] arg_cong [OF H', of h_sonces]
      arg_cong [OF H', of h_recvs] by simp_all
  then show "h_refs H' b = h_refs H b \<and> h_sends H' b = h_sends H b \<and> h_sonces H' b = h_sonces H b
      \<and> (b \<in> h_recvs H \<longrightarrow> b \<in> h_recvs H')" if "b \<noteq> a" for b
    using that by auto
  have "port_ok (is_self sp) (is_table sp) H' a p'"
    using cap_inv_portD(1) [OF inv p] refs req ot act h
    by (auto simp: port_ok_def requests_ok_def)
  then show "addr_ok (is_self sp) (is_table sp) k' H' a"
    using p' by (simp add: addr_ok_def port_at_eq)
qed

lemma add_recv_idem [simp]: "add_recv a (add_recv a H) = add_recv a H"
  by (simp add: add_recv_def)

lemma ipc_port_destroy_inv:
  assumes inv: "cap_inv sp k (add_recv a H) X" and p: "port_at k a = Some p"
    and nr: "\<not> recv_in (is_table sp) a" and h: "0 < h_refs H a"
  shows "\<exists>k'. ipc_port_destroy a k = Some k' \<and> only_at a k k'
    \<and> cap_inv sp k' (if ip_pdrequest p \<noteq> IP_NULL then H else add_ref a (- 1) H) X
    \<and> (ip_pdrequest p = IP_NULL \<longrightarrow> (\<forall>p'. port_at k' a = Some p' \<longrightarrow> \<not> ip_active p'))"
proof (cases "ip_pdrequest p \<noteq> IP_NULL")
  case True
  let ?p = "p\<lparr>ip_pdrequest := IP_NULL, ip_receiver_name := MACH_PORT_NULL, ip_data := IP_NULL\<rparr>"
  have "IO_NULL \<noteq> is_self sp" using cap_invD(2) [OF inv] by (auto simp: heap_ok_def)
  then have "cap_inv sp (put_port a ?p k) H X"
    using nr by (intro cap_inv_no_receiver [OF inv p, of _ ?p]) simp_all
  then show ?thesis
    using p True by (simp add: ipc_port_destroy_def ipc_notify_port_destroyed_def Let_def)
next
  case False
  obtain k1 p1 where k1: "ipc_port_destroy_dead a k = io_release a k1" "only_at a k k1"
      "port_at k1 a = Some p1" "ip_references p1 = ip_references p" "ip_requests p1 = ip_requests p"
      "\<not> ip_active p1" "io_otype_bits (ip_bits p1) = io_otype_bits (ip_bits p)"
    using destroy_dead_eq [OF p] by blast
  have "cap_inv sp k1 H X"
    using k1 nr by (intro cap_inv_no_receiver [OF inv p k1(2,3)]) simp_all
  then obtain k' where k': "io_release a k1 = Some k'" "only_at a k1 k'" "cap_inv sp k' (add_ref a (- 1) H) X"
      "k_objects k' a = (if ip_references p1 = 1 then None
        else Some (Io_Port (p1\<lparr>ip_references := ip_references p1 - 1\<rparr>)))"
    using io_release_inv [OF _ k1(3) h] by blast
  have "\<not> ip_active p'" if "port_at k' a = Some p'" for p'
    using that k'(4) k1(6) by (auto simp: port_at_eq split: if_splits)
  then show ?thesis
    using p False k1(1) k' only_at_trans [OF k1(2)] by (auto simp: ipc_port_destroy_def)
qed

end
