(* ===== verification/Right_Ledger.thy ===== *)
theory Right_Ledger
  imports Ipc_Right_Copy Ipc_Ledger
begin

text \<open>
  The operations of \<open>ipc_right.c\<close> that release rights keep the ledger: each of them
  returns (there is no path to a panic, to a dangling pointer or to an endless loop), the
  space stays well-formed, every other entry is untouched, and the counters of the objects
  are changed by exactly the rights that leave the table.
\<close>

subsection \<open>Entries and their ports\<close>

abbreviation (input) port_type :: "mach_port_type_t \<Rightarrow> bool" where
  "port_type ty \<equiv> ty \<in> {MACH_PORT_TYPE_SEND, MACH_PORT_TYPE_RECEIVE, MACH_PORT_TYPE_SEND_RECEIVE,
                         MACH_PORT_TYPE_SEND_ONCE}"

lemma cap_inv_slot:
  assumes inv: "cap_inv sp k H X" and i: "i < length (is_table sp)" "entry_type (is_table sp ! i) \<noteq> 0"
  shows "used_entry (is_table sp ! i)" "live_slot sp X i" "0 < i" "i \<notin> X" "X - {i} = X"
proof -
  obtain L where "space_wf sp L X" using cap_invD(1) [OF inv] by blast
  then have "table_base (is_table sp) L X" by (simp add: space_wf_def table_wf_def)
  from table_base_used [OF this i]
  show "used_entry (is_table sp ! i)" "0 < i" "i \<notin> X" "X - {i} = X" by auto
  show "live_slot sp X i" using i by (simp add: live_slot_def)
qed

lemma used_entry_at:
  "entry_type e = MACH_PORT_TYPE_SEND \<Longrightarrow> used_entry e \<longleftrightarrow>
     IO_VALID (ie_object e) \<and> entry_urefs e \<noteq> 0 \<and> entry_urefs e \<noteq> MACH_PORT_UREFS_MAX"
  "entry_type e = MACH_PORT_TYPE_SEND_RECEIVE \<Longrightarrow> used_entry e \<longleftrightarrow>
     IO_VALID (ie_object e) \<and> entry_urefs e \<noteq> 0 \<and> entry_urefs e \<noteq> MACH_PORT_UREFS_MAX"
  "entry_type e = MACH_PORT_TYPE_RECEIVE \<Longrightarrow> used_entry e \<longleftrightarrow> IO_VALID (ie_object e) \<and> entry_urefs e = 0"
  "entry_type e = MACH_PORT_TYPE_SEND_ONCE \<Longrightarrow> used_entry e \<longleftrightarrow> IO_VALID (ie_object e) \<and> entry_urefs e = 1"
  "entry_type e = MACH_PORT_TYPE_PORT_SET \<Longrightarrow> used_entry e \<longleftrightarrow>
     IO_VALID (ie_object e) \<and> entry_urefs e = 0 \<and> ie_request e = IE_REQ_NONE"
  "entry_type e = MACH_PORT_TYPE_DEAD_NAME \<Longrightarrow> used_entry e \<longleftrightarrow>
     ie_object e = IO_NULL \<and> entry_urefs e \<noteq> 0 \<and> ie_request e = IE_REQ_NONE"
  by (simp_all add: used_entry_def)

lemma used_entry_no_request:
  assumes "used_entry e"
  shows "used_entry (e\<lparr>ie_request := IE_REQ_NONE\<rparr>)"
  using assms by (cases rule: used_entry_cases) (simp_all add: used_entry_at)

lemma entry_rights_type:
  assumes "ie_object e' = ie_object e" "entry_type e' = entry_type e"
  shows "entry_refs e' = entry_refs e" "entry_sends e' = entry_sends e" "entry_sonces e' = entry_sonces e"
    "entry_recv e' = entry_recv e"
  using assms type_bit_iff(1-3) [of "ie_bits e"] type_bit_iff(1-3) [of "ie_bits e'"]
  by (auto simp: fun_eq_iff entry_rights)

lemma moved_same:
  "ie_object e' = ie_object e \<Longrightarrow> entry_type e' = entry_type e \<Longrightarrow> moved e e' a H = H"
  using entry_rights_type [of e' e] by (simp add: moved_def)

lemma recv_bit:
  assumes "port_type (IE_BITS_TYPE b)"
  shows "b AND MACH_PORT_TYPE_RECEIVE \<noteq> 0 \<longleftrightarrow>
    IE_BITS_TYPE b = MACH_PORT_TYPE_RECEIVE \<or> IE_BITS_TYPE b = MACH_PORT_TYPE_SEND_RECEIVE"
  using assms by (subst type_bit_iff(2)) auto

lemma slot_okI:
  assumes "port_at k (ie_object e) = Some p" "req_ok p (ie_request e)" "port_type (entry_type e)"
    "entry_type e = MACH_PORT_TYPE_RECEIVE \<or> entry_type e = MACH_PORT_TYPE_SEND_RECEIVE \<Longrightarrow>
     ip_active p \<and> ip_receiver p = self \<and> ip_receiver_name p = MACH_PORT_MAKE i (IE_BITS_GEN (ie_bits e))"
  shows "slot_ok self k i e"
proof -
  have "ip_active p \<and> ip_receiver p = self \<and> ip_receiver_name p = MACH_PORT_MAKE i (IE_BITS_GEN (ie_bits e))"
    if "ie_bits e AND MACH_PORT_TYPE_RECEIVE \<noteq> 0"
    using that recv_bit [OF assms(3)] assms(4) by blast
  moreover have "entry_type e \<noteq> MACH_PORT_TYPE_PORT_SET" using assms(3) by auto
  ultimately show ?thesis unfolding slot_ok_def using assms(1,2) by simp
qed

lemma slot_ok_no_port: "entry_type e = MACH_PORT_TYPE_DEAD_NAME \<Longrightarrow> slot_ok self k i e"
  by (simp add: slot_ok_def)

lemma req_ok_none [simp]: "req_ok p IE_REQ_NONE"
  by (simp add: req_ok_def)

text \<open>\<open>right_at sp k i a p\<close>: slot \<open>i\<close> holds a right to the port \<open>p\<close> at address \<open>a\<close>.\<close>

definition right_at :: "ipc_space \<Rightarrow> kern \<Rightarrow> nat \<Rightarrow> addr \<Rightarrow> ipc_port \<Rightarrow> bool" where
  "right_at sp k i a p \<longleftrightarrow>
     i < length (is_table sp) \<and> port_type (entry_type (is_table sp ! i))
     \<and> ie_object (is_table sp ! i) = a \<and> port_at k a = Some p"

lemma cap_inv_right:
  assumes inv: "cap_inv sp k H X" and i: "i < length (is_table sp)"
    and ty: "port_type (entry_type (is_table sp ! i))"
  shows "\<exists>p. right_at sp k i (ie_object (is_table sp ! i)) p"
  using cap_invD(3) [OF inv i] i ty by (auto simp: right_at_def slot_ok_def split: option.splits)

lemma right_atD:
  assumes inv: "cap_inv sp k H X" and r: "right_at sp k i a p"
  shows "i < length (is_table sp)" "port_type (entry_type (is_table sp ! i))"
    "ie_object (is_table sp ! i) = a" "port_at k a = Some p" "used_entry (is_table sp ! i)"
    "live_slot sp X i" "0 < i" "i \<notin> X" "X - {i} = X" "req_ok p (ie_request (is_table sp ! i))"
    "requests_ok p" "a \<noteq> IO_NULL" "k_objects k a \<noteq> None"
    "entry_type (is_table sp ! i) = MACH_PORT_TYPE_RECEIVE
       \<or> entry_type (is_table sp ! i) = MACH_PORT_TYPE_SEND_RECEIVE \<Longrightarrow>
     ip_active p \<and> ip_receiver p = is_self sp
     \<and> ip_receiver_name p = MACH_PORT_MAKE i (IE_BITS_GEN (ie_bits (is_table sp ! i)))"
proof -
  show r1: "i < length (is_table sp)" "port_type (entry_type (is_table sp ! i))"
    "ie_object (is_table sp ! i) = a" "port_at k a = Some p"
    using r by (simp_all add: right_at_def)
  then have ty: "entry_type (is_table sp ! i) \<noteq> 0" by auto
  note s = cap_inv_slot [OF inv r1(1) ty]
  show "used_entry (is_table sp ! i)" "live_slot sp X i" "0 < i" "i \<notin> X" "X - {i} = X"
    using s by simp_all
  have sl: "req_ok p (ie_request (is_table sp ! i))
      \<and> (ie_bits (is_table sp ! i) AND MACH_PORT_TYPE_RECEIVE \<noteq> 0 \<longrightarrow>
           ip_active p \<and> ip_receiver p = is_self sp
           \<and> ip_receiver_name p = MACH_PORT_MAKE i (IE_BITS_GEN (ie_bits (is_table sp ! i))))"
    using cap_invD(3) [OF inv r1(1)] r1 by (auto simp: slot_ok_def)
  then show "req_ok p (ie_request (is_table sp ! i))" by simp
  show "entry_type (is_table sp ! i) = MACH_PORT_TYPE_RECEIVE
       \<or> entry_type (is_table sp ! i) = MACH_PORT_TYPE_SEND_RECEIVE \<Longrightarrow>
     ip_active p \<and> ip_receiver p = is_self sp
     \<and> ip_receiver_name p = MACH_PORT_MAKE i (IE_BITS_GEN (ie_bits (is_table sp ! i)))"
    using sl type_bit_iff(2) [of "ie_bits (is_table sp ! i)"] by auto
  note pd = cap_inv_portD [OF inv r1(4)]
  show "requests_ok p" "a \<noteq> IO_NULL" using pd by (simp_all add: port_ok_def)
  show "k_objects k a \<noteq> None" using r1(4) by (simp add: port_at_eq)
qed

text \<open>Two slots that name a port are equal; in particular only one holds its receive right.\<close>

lemma cap_inv_naming_unique:
  assumes inv: "cap_inv sp k H X" and i: "i < length (is_table sp)" "naming_type (entry_type (is_table sp ! i))"
    and j: "j < length (is_table sp)" "naming_type (entry_type (is_table sp ! j))"
    and eq: "ie_object (is_table sp ! i) = ie_object (is_table sp ! j)"
  shows "i = j"
proof -
  obtain L where "space_wf sp L X" using cap_invD(1) [OF inv] by blast
  then have "inj_on (ob (is_table sp)) (naming_slots (is_table sp))"
    by (simp add: space_wf_def table_wf_def table_base_def)
  moreover have "i \<in> naming_slots (is_table sp)" "j \<in> naming_slots (is_table sp)"
    using i j by (simp_all add: naming_slots_def)
  ultimately show ?thesis using eq by (simp add: inj_on_def)
qed

text \<open>The send and send-once rights of a dead port are of no consequence.\<close>

lemma cap_inv_inactive:
  assumes inv: "cap_inv sp k H X" and p: "\<And>p. port_at k a = Some p \<Longrightarrow> \<not> ip_active p"
  shows "cap_inv sp k (add_send a m (add_sonce a n H)) X"
proof -
  have "addr_ok (is_self sp) (is_table sp) k (add_send a m (add_sonce a n H)) b" if "b \<noteq> IO_NULL" for b
    using cap_invD(4) [OF inv that] p
    by (cases "b = a") (auto simp: addr_ok_def port_ok_def port_at_eq split: option.splits ipc_object.splits)
  then show ?thesis using inv unfolding cap_inv_def by simp
qed

text \<open>Without its receive right in slot \<open>i\<close>, a port has none in the table.\<close>

lemma no_other_recv:
  assumes inv: "cap_inv sp k H X" and i: "i < length (is_table sp)" "entry_recv (is_table sp ! i) a"
    and fr: "slot_frame i sp sp'" and e: "\<not> entry_recv (is_table sp' ! i) a"
  shows "\<not> recv_in (is_table sp') a"
proof
  assume "recv_in (is_table sp') a"
  then obtain j where j: "j < length (is_table sp)" "entry_recv (is_table sp' ! j) a"
    using slot_frameD(5) [OF fr] by (auto simp: recv_in_iff)
  have ji: "j \<noteq> i" using j(2) e by auto
  then have r: "entry_recv (is_table sp ! j) a"
    using j slot_frameD(6,7) [OF fr j(1)] by (simp add: entry_recv_def)
  have nt: "naming_type (entry_type (is_table sp ! m))"
    if m: "m < length (is_table sp)" "entry_recv (is_table sp ! m) a" for m
  proof -
    have b: "entry_type (is_table sp ! m) AND MACH_PORT_TYPE_RECEIVE \<noteq> 0"
      using m(2) type_bit_iff(2) [of "ie_bits (is_table sp ! m)"] by (simp add: entry_recv_def)
    then have "entry_type (is_table sp ! m) \<noteq> 0" by auto
    from cap_inv_slot(1) [OF inv m(1) this] show ?thesis
      using b by (elim used_entry_cases) auto
  qed
  have "i = j"
    using cap_inv_naming_unique [OF inv i(1) nt [OF i] j(1) nt [OF j(1) r]] i(2) r
    by (simp add: entry_recv_def)
  then show False using ji by simp
qed

subsection \<open>Elementary operations on a right\<close>

lemma request_cancel_eq:
  assumes "req_ok p r" "r \<noteq> IE_REQ_NONE" "requests_ok p"
  shows "\<exists>prev table. ipc_port_request_cancel p r = Some (prev, p\<lparr>ip_requests := Some table\<rparr>)
    \<and> port_like p (p\<lparr>ip_requests := Some table\<rparr>)"
proof -
  obtain table where t: "ip_requests p = Some table" "r < length (ipr_slots table)"
    using assms(1,2) by (auto simp: req_ok_def split: option.splits)
  then have "0 < length (ipr_slots table)" by linarith
  then show ?thesis
    using t by (auto simp: ipc_port_request_cancel_def ipr_at_def Let_def upd_ipr_def intro!: port_likeI)
qed

text \<open>Cancelling the notification request of an entry.\<close>

lemma request_cancel_inv:
  assumes inv: "cap_inv sp k H X" and r: "right_at sp k i a p"
  shows "\<exists>prev sp' k' p'. ipc_right_request_cancel_macro sp a name i k = Some (prev, sp', k')
    \<and> cap_inv sp' k' H X \<and> slot_frame i sp sp' \<and> only_at a k k' \<and> right_at sp' k' i a p'
    \<and> is_table sp' ! i = (is_table sp ! i)\<lparr>ie_request := IE_REQ_NONE\<rparr>
    \<and> port_like p p' \<and> ip_references p' = ip_references p
    \<and> ip_srights p' = ip_srights p \<and> ip_pdrequest p' = ip_pdrequest p"
proof (cases "ie_request (is_table sp ! i) = IE_REQ_NONE")
  case True
  then have "is_table sp ! i = (is_table sp ! i)\<lparr>ie_request := IE_REQ_NONE\<rparr>"
    by (cases "is_table sp ! i") simp
  then show ?thesis
    using True inv r by (auto simp: ipc_right_request_cancel_macro_def port_like_def)
next
  case False
  note d = right_atD [OF inv r]
  obtain prev table where c: "ipc_port_request_cancel p (ie_request (is_table sp ! i))
        = Some (prev, p\<lparr>ip_requests := Some table\<rparr>)" "port_like p (p\<lparr>ip_requests := Some table\<rparr>)"
    using request_cancel_eq [OF d(10) False d(11)] by blast
  let ?p = "p\<lparr>ip_requests := Some table\<rparr>" and ?e = "(is_table sp ! i)\<lparr>ie_request := IE_REQ_NONE\<rparr>"
  let ?k = "put_port a ?p k" and ?sp = "set_request sp i IE_REQ_NONE"
  have ki: "cap_inv sp ?k H X"
    using cap_inv_same_counts [OF inv d(4) c(2)] by simp
  have ok: "slot_ok (is_self sp) ?k i ?e"
    using d(2,3,14) by (intro slot_okI [of _ _ ?p]) simp_all
  have "used_entry ?e" using d(5) by (rule used_entry_no_request)
  then have "cap_inv ?sp ?k (moved (is_table sp ! i) ?e a H) (if entry_type ?e = 0 then insert i X else X - {i})"
    by (intro cap_inv_upd [OF ki d(6)]) (use d(2,3,12) ok in simp_all)
  moreover have "moved (is_table sp ! i) ?e a H = H" by (rule moved_same) simp_all
  ultimately have "cap_inv ?sp ?k H X" using d(2,9) by (simp split: if_splits)
  moreover have "right_at ?sp ?k i a ?p" using r d(1) by (simp add: right_at_def)
  ultimately show ?thesis
    using False c d(1,4) by (auto simp: ipc_right_request_cancel_macro_def ipc_right_request_cancel_def
        right_at_def)
qed

subsection \<open>Moving entries in and out of the reverse table\<close>

text \<open>\<open>unhashed sp i sp1\<close>: \<open>sp1\<close> is the space after slot \<open>i\<close> has left the reverse table, if it was in it.\<close>

definition unhashed :: "ipc_space \<Rightarrow> nat \<Rightarrow> ipc_space \<Rightarrow> bool" where
  "unhashed sp i sp1 \<longleftrightarrow>
     is_table_free sp1 = is_table_free sp \<and> is_self sp1 = is_self sp \<and> is_bits sp1 = is_bits sp
     \<and> is_task sp1 = is_task sp \<and> is_table_next sp1 = is_table_next sp
     \<and> same_payload (is_table sp) (is_table sp1)
     \<and> hash_wf (is_table sp1) (send_slots (is_table sp) - {i})"

lemma unhashedD:
  assumes "unhashed sp i sp1"
  shows "is_table_free sp1 = is_table_free sp" "is_self sp1 = is_self sp" "is_bits sp1 = is_bits sp"
    "is_task sp1 = is_task sp" "is_table_next sp1 = is_table_next sp"
    "same_payload (is_table sp) (is_table sp1)" "length (is_table sp1) = length (is_table sp)"
    "hash_wf (is_table sp1) (send_slots (is_table sp) - {i})" "slot_frame j sp sp1"
proof -
  show "is_table_free sp1 = is_table_free sp" "is_self sp1 = is_self sp" "is_bits sp1 = is_bits sp"
    "is_task sp1 = is_task sp" "is_table_next sp1 = is_table_next sp"
    "hash_wf (is_table sp1) (send_slots (is_table sp) - {i})"
    and pay: "same_payload (is_table sp) (is_table sp1)"
    using assms by (simp_all add: unhashed_def)
  show "length (is_table sp1) = length (is_table sp)" using same_payload_length [OF pay] .
  then show "slot_frame j sp sp1"
    using assms same_payload_fields [OF pay] by (simp add: slot_frame_def unhashed_def)
qed

lemma unhashed_modified [simp]: "unhashed sp i (ipc_entry_modified sp1 name) = unhashed sp i sp1"
  by (simp add: unhashed_def)

lemma unhashed_refl:
  assumes "cap_inv sp k H X" "entry_type (is_table sp ! i) \<noteq> MACH_PORT_TYPE_SEND"
  shows "unhashed sp i sp"
proof -
  obtain L where "space_wf sp L X" using cap_invD(1) [OF assms(1)] by blast
  moreover have "send_slots (is_table sp) - {i} = send_slots (is_table sp)"
    using assms(2) by (auto simp: send_slots_def)
  ultimately show ?thesis by (simp add: unhashed_def space_wf_def table_wf_def)
qed

lemma unhashed_delete:
  assumes "cap_inv sp k H X" "i < length (is_table sp)"
    "entry_type (is_table sp ! i) = MACH_PORT_TYPE_SEND" "ie_object (is_table sp ! i) = a"
    "MACH_PORT_INDEX name = i"
  shows "\<exists>sp1. ipc_hash_delete sp a name = Some sp1 \<and> unhashed sp i sp1"
  using ipc_hash_delete_inv [OF assms] by (auto simp: unhashed_def)

text \<open>Updates that do not touch the field of the reverse table.\<close>

definition index_free :: "(ipc_entry \<Rightarrow> ipc_entry) \<Rightarrow> bool" where
  "index_free f \<longleftrightarrow> (\<forall>e x. f (e\<lparr>ie_index := x\<rparr>) = (f e)\<lparr>ie_index := x\<rparr>)"

lemma index_freeD:
  assumes "index_free f"
  shows "ie_index (f e) = ie_index e" "(f e)\<lparr>ie_index := x\<rparr> = f (e\<lparr>ie_index := x\<rparr>)"
proof -
  have f: "f (e\<lparr>ie_index := x\<rparr>) = (f e)\<lparr>ie_index := x\<rparr>" for e x
    using assms by (simp add: index_free_def)
  have "e\<lparr>ie_index := ie_index e\<rparr> = e" by (cases e) simp
  then have "f e = (f e)\<lparr>ie_index := ie_index e\<rparr>"
    using f [where e = e and x = "ie_index e"] by simp
  then show "ie_index (f e) = ie_index e"
    by (cases "f e") simp
  show "(f e)\<lparr>ie_index := x\<rparr> = f (e\<lparr>ie_index := x\<rparr>)" by (simp add: f)
qed

lemma payload_upd:
  assumes "same_payload t t1" "i < length t" "index_free f"
  shows "same_payload (t[i := f (t ! i)]) (t1[i := f (t1 ! i)])"
proof -
  have "(f (t1 ! i))\<lparr>ie_index := 0\<rparr> = (f (t ! i))\<lparr>ie_index := 0\<rparr>"
    using same_payload_nth [OF assms(1,2)] by (simp only: index_freeD(2) [OF assms(3)])
  then show ?thesis by (intro same_payload_upd assms) simp
qed

lemma upd_entry_twice:
  "i < length (is_table sp) \<Longrightarrow> upd_entry (upd_entry sp i f) i g = upd_entry sp i (\<lambda>e. g (f e))"
  by (simp add: upd_entry_def)

lemma upd_entry_modified:
  "upd_entry (ipc_entry_modified sp name) i f = ipc_entry_modified (upd_entry sp i f) name"
  by (simp add: upd_entry_def ipc_entry_modified_def Let_def)

lemma cap_inv_unhashed_upd:
  assumes inv: "cap_inv sp k H X" and i: "live_slot sp X i" and un: "unhashed sp i sp1"
    and f: "index_free f" "f (is_table sp ! i) = e" "entry_type e \<noteq> MACH_PORT_TYPE_SEND"
    and uniq: "naming_type (entry_type e) \<Longrightarrow>
      naming_type (entry_type (is_table sp ! i)) \<and> ie_object e = ie_object (is_table sp ! i)
      \<or> (\<forall>j \<in> naming_slots (is_table sp). j \<noteq> i \<longrightarrow> ob (is_table sp) j \<noteq> ie_object e)"
    and e: "used_entry e \<or> held_entry e" "slot_ok (is_self sp) k i e" and a: "a \<noteq> IO_NULL"
    and obj: "ie_object (is_table sp ! i) \<in> {a, IO_NULL}" "ie_object e \<in> {a, IO_NULL}"
    and live: "a \<in> {ie_object (is_table sp ! i), ie_object e} \<Longrightarrow> k_objects k a \<noteq> None"
  shows "cap_inv (upd_entry sp1 i f) k (moved (is_table sp ! i) e a H)
           (if entry_type e = 0 then insert i X else X - {i})"
    and "slot_frame i sp (upd_entry sp1 i f)"
proof -
  note u = unhashedD [OF un]
  have il: "i < length (is_table sp)" using i by (simp add: live_slot_def)
  show fr: "slot_frame i sp (upd_entry sp1 i f)" using u(9) by (rule slot_frame_upd_trans)
  have pay: "same_payload ((is_table sp)[i := e]) (is_table (upd_entry sp1 i f))"
    using payload_upd [OF u(6) il f(1)] f(2) by simp
  have "send_slots ((is_table sp)[i := e]) = send_slots (is_table sp) - {i}"
    using f(3) il by (simp add: slots_update(1))
  then have h: "hash_wf (is_table (upd_entry sp1 i f)) (send_slots ((is_table sp)[i := e]))"
    using hash_wf_update [OF u(8), of "f (is_table sp1 ! i)" i] index_freeD(1) [OF f(1)] by simp
  show "cap_inv (upd_entry sp1 i f) k (moved (is_table sp ! i) e a H)
           (if entry_type e = 0 then insert i X else X - {i})"
    by (rule cap_inv_edit [OF inv i pay fr _ h e(1) uniq e(2) a obj live]) (simp_all add: u)
qed

lemma dealloc_unhashed:
  assumes inv: "cap_inv sp k H X" and i: "live_slot sp X i" and un: "unhashed sp i sp1"
    and f: "index_free f" "ie_object (f (is_table sp ! i)) = IO_NULL" "ie_request (f (is_table sp ! i)) = IE_REQ_NONE"
    and n: "MACH_PORT_INDEX name = i" and a: "a \<noteq> IO_NULL"
    and obj: "ie_object (is_table sp ! i) \<in> {a, IO_NULL}"
    and live: "a = ie_object (is_table sp ! i) \<Longrightarrow> k_objects k a \<noteq> None"
  shows "\<exists>sp'. ipc_entry_dealloc (upd_entry sp1 i f) name i = Some sp' \<and> slot_frame i sp sp'
           \<and> cap_inv sp' k (taken (is_table sp ! i) a H) (X - {i})
           \<and> ie_bits (is_table sp' ! i) = IE_BITS_GEN (ie_bits (f (is_table sp ! i)))"
proof -
  note u = unhashedD [OF un]
  have il: "i < length (is_table sp)" using i by (simp add: live_slot_def)
  have fr: "slot_frame i sp (upd_entry sp1 i f)" using u(9) by (rule slot_frame_upd_trans)
  have pay: "same_payload ((is_table sp)[i := f (is_table sp ! i)]) (is_table (upd_entry sp1 i f))"
    using payload_upd [OF u(6) il f(1)] by simp
  have h: "hash_wf (is_table (upd_entry sp1 i f)) (send_slots (is_table sp) - {i})"
    using hash_wf_update [OF u(8), of "f (is_table sp1 ! i)" i] index_freeD(1) [OF f(1)] by simp
  show ?thesis
    using ipc_entry_dealloc_inv [OF inv i pay fr _ h f(2,3) n a obj live] u(1) by simp
qed

lemma cap_inv_hash_upd:
  assumes inv: "cap_inv sp k H X" and i: "live_slot sp X i" "entry_type (is_table sp ! i) \<noteq> MACH_PORT_TYPE_SEND"
    and f: "index_free f" "ie_object (f (is_table sp ! i)) = a" and n: "MACH_PORT_INDEX name = i"
    and g: "index_free g" "g (f (is_table sp ! i)) = e" "ie_object e = a"
    and e: "entry_type e = MACH_PORT_TYPE_SEND" "used_entry e" "slot_ok (is_self sp) k i e"
    and uniq: "naming_type (entry_type (is_table sp ! i)) \<and> ie_object (is_table sp ! i) = a
      \<or> (\<forall>j \<in> naming_slots (is_table sp). j \<noteq> i \<longrightarrow> ob (is_table sp) j \<noteq> a)"
    and obj: "a \<noteq> IO_NULL" "ie_object (is_table sp ! i) \<in> {a, IO_NULL}" "k_objects k a \<noteq> None"
  shows "\<exists>sp1. ipc_hash_insert (upd_entry sp i f) a name = Some sp1
    \<and> cap_inv (upd_entry sp1 i g) k (moved (is_table sp ! i) e a H) (X - {i})
    \<and> slot_frame i sp (upd_entry sp1 i g)
    \<and> ie_bits (is_table (upd_entry sp1 i g) ! i) = ie_bits e
    \<and> ie_object (is_table (upd_entry sp1 i g) ! i) = a
    \<and> ie_request (is_table (upd_entry sp1 i g) ! i) = ie_request e"
proof -
  let ?t = "is_table sp" and ?sp = "upd_entry sp i f"
  obtain L where wf: "space_wf sp L X" using cap_invD(1) [OF inv] by blast
  note l = live_slotD [OF i(1) wf]
  have ni: "i \<notin> send_slots ?t" using i(2) by (simp add: send_slots_def)
  have "hash_wf ?t (send_slots ?t)" using wf by (simp add: space_wf_def table_wf_def)
  then have "hash_wf (is_table ?sp) (send_slots ?t)"
    using hash_wf_update [of ?t "send_slots ?t" "f (?t ! i)" i] index_freeD(1) [OF f(1)] ni by simp
  from ipc_hash_insert_inv [OF this l(1) _ ni _ n, of a]
  obtain t1 where t1: "ipc_hash_insert ?sp a name = Some (?sp\<lparr>is_table := t1\<rparr>)"
      "same_payload (?t[i := f (?t ! i)]) t1" "hash_wf t1 (insert i (send_slots ?t))"
    using l(2) f(2) by auto
  let ?sp2 = "upd_entry (?sp\<lparr>is_table := t1\<rparr>) i g"
  have pay: "same_payload (?t[i := e]) (is_table ?sp2)"
    using payload_upd [OF t1(2) _ g(1), of i] l(2) g(2) by simp
  have fr: "slot_frame i sp ?sp2"
    using slot_frame_upd_trans [OF slot_frame_payload [OF t1(2)], of g]
    by (simp add: upd_entry_def)
  have "ie_object (g (t1 ! i)) = ie_object (t1 ! i)"
  proof -
    have "ie_object (t1 ! i) = a" "ie_object (g (t1 ! i)) = a"
      using same_payload_fields(1) [OF t1(2), of i] same_payload_fields(1) [OF pay, of i]
        same_payload_length [OF t1(2)] l(2) f(2) g(3) by simp_all
    then show ?thesis by simp
  qed
  then have "hash_wf (is_table ?sp2) (send_slots (?t[i := e]))"
    using hash_wf_update [OF t1(3), of "g (t1 ! i)" i] index_freeD(1) [OF g(1)] e(1) l(2)
    by (simp add: slots_update(1))
  from cap_inv_edit [OF inv i(1) pay fr _ this _ _ e(3) obj(1,2)]
  have "cap_inv ?sp2 k (moved (?t ! i) e a H) (if entry_type e = 0 then insert i X else X - {i})"
    using e g(3) uniq obj(3) by auto
  then show ?thesis
    using t1(1) fr e(1) g(3) same_payload_fields [OF pay, of i] l(2) by (auto simp del: upd_entry_fields)
qed

lemma taken_at:
  assumes "ie_object e = a"
  shows "entry_type e = MACH_PORT_TYPE_SEND \<Longrightarrow> taken e a H = add_send a 1 (add_ref a 1 H)"
    "entry_type e = MACH_PORT_TYPE_SEND_ONCE \<Longrightarrow> taken e a H = add_sonce a 1 (add_ref a 1 H)"
    "entry_type e = MACH_PORT_TYPE_RECEIVE \<Longrightarrow> taken e a H = add_recv a (add_ref a 1 H)"
    "entry_type e = MACH_PORT_TYPE_SEND_RECEIVE \<Longrightarrow> taken e a H = add_recv a (add_send a 1 (add_ref a 1 H))"
    "entry_type e = MACH_PORT_TYPE_PORT_SET \<Longrightarrow> taken e a H = add_ref a 1 H"
  using assms type_bit_iff(1-3) [of "ie_bits e"] by (simp_all add: taken_def entry_rights)

lemma taken_other: "ie_object e \<noteq> a \<Longrightarrow> taken e a H = H"
  by (simp add: taken_def entry_rights)

text \<open>The loss of a send right, with the request for a no-senders notification.\<close>

lemma drop_send_inv:
  assumes inv: "cap_inv sp k H X" and p: "port_at k a = Some p" and pos: "ip_active p \<Longrightarrow> ip_srights p \<noteq> 0"
  shows "\<exists>ns ms k' p'. ipc_right_drop_send a k = Some (ns, ms, k') \<and> cap_inv sp k' (add_send a (- 1) H) X
    \<and> only_at a k k' \<and> port_at k' a = Some p' \<and> port_like p p' \<and> ip_references p' = ip_references p
    \<and> ip_pdrequest p' = ip_pdrequest p \<and> ip_requests p' = ip_requests p
    \<and> ns = (if ip_srights p = 1 then ip_nsrequest p else IP_NULL)"
proof -
  define p' where "p' = (if ip_srights p = 1 \<and> ip_nsrequest p \<noteq> IP_NULL
      then p\<lparr>ip_srights := ip_srights p - 1, ip_nsrequest := IP_NULL\<rparr> else p\<lparr>ip_srights := ip_srights p - 1\<rparr>)"
  have l: "port_like p p'" by (rule port_likeI) (simp_all add: p'_def)
  have "cap_inv sp (put_port a p' k) (add_ref a 0 (add_send a (- 1) (add_sonce a 0 H))) X"
    using pos uint_minus1 [of "ip_srights p"] cap_inv_refs_pos [OF inv p]
    by (intro cap_inv_port [OF inv p _ _ l]) (simp_all add: p'_def)
  moreover have "\<exists>ms. ipc_right_drop_send a k =
      Some (if ip_srights p = 1 then ip_nsrequest p else IP_NULL, ms, put_port a p' k)"
    using p by (auto simp: ipc_right_drop_send_def p'_def Let_def)
  ultimately show ?thesis using l by (auto simp: p'_def)
qed

lemma sends_pos:
  assumes inv: "cap_inv sp k H X" and r: "right_at sp k i a p" and h: "0 \<le> h_sends H a"
    and s: "ie_bits (is_table sp ! i) AND MACH_PORT_TYPE_SEND \<noteq> 0" and act: "ip_active p"
  shows "ip_srights p \<noteq> 0"
proof -
  note d = right_atD [OF inv r]
  have "1 \<le> sends_in (is_table sp) a"
    using rights_in_ge(2) [OF d(1), of a] s d(3) by (simp add: entry_sends_def)
  then have "uint (ip_srights p) \<noteq> 0"
    using cap_inv_portD(1) [OF inv d(4)] act h by (simp add: port_ok_def)
  then show ?thesis by auto
qed

text \<open>
  \<open>ipc_right_check\<close>. If the port is dead, the entry becomes a dead name and its reference
  is in the hand of the caller. A pending request adds a user reference.
\<close>

definition dead_entry :: "ipc_entry \<Rightarrow> ipc_entry \<Rightarrow> bool" where
  "dead_entry e e' \<longleftrightarrow>
     entry_type e' = MACH_PORT_TYPE_DEAD_NAME \<and> ie_object e' = IO_NULL \<and> ie_request e' = IE_REQ_NONE
     \<and> IE_BITS_GEN (ie_bits e') = IE_BITS_GEN (ie_bits e)
     \<and> (entry_urefs e' = entry_urefs e
        \<or> ie_request e \<noteq> IE_REQ_NONE \<and> entry_urefs e' = entry_urefs e + 1 \<and> entry_urefs e < MACH_PORT_UREFS_MAX)"

lemma urefs_less_max: "IE_BITS_UREFS b \<noteq> MACH_PORT_UREFS_MAX \<Longrightarrow> unat (IE_BITS_UREFS b + 1) < 65536"
proof -
  assume a: "IE_BITS_UREFS b \<noteq> MACH_PORT_UREFS_MAX"
  have "unat (IE_BITS_UREFS b) < 65536" unfolding IE_BITS_UREFS_def by (rule unat_low16_less)
  moreover have "unat (IE_BITS_UREFS b) \<noteq> 65535" using a by (simp add: word_unat_eq_iff)
  ultimately show ?thesis by (simp add: unat_word_ariths)
qed

lemma urefs_le_max: "IE_BITS_UREFS b \<le> MACH_PORT_UREFS_MAX"
  using unat_low16_less [of b] by (simp add: word_le_nat_alt IE_BITS_UREFS_def)

lemma request_type_Some:
  assumes "req_ok p r" "r \<noteq> IE_REQ_NONE"
  shows "\<exists>ty. ipc_port_request_type p r = Some ty"
  using assms by (auto simp: req_ok_def ipc_port_request_type_def ipr_at_def split: option.splits)

lemma less_plus1: "x < y \<Longrightarrow> x + 1 \<noteq> 0" for x y :: natural_t
  by (metis add.inverse_unique word_order.extremum_strict add.commute)

lemma dead_entry_used:
  assumes d: "dead_entry e e'" and e: "entry_urefs e \<noteq> 0"
  shows "used_entry e'"
  using d e less_plus1 by (auto simp: dead_entry_def used_entry_at)

lemma dead_entry_bits:
  assumes e: "entry_urefs e \<noteq> MACH_PORT_UREFS_MAX" and r: "inc \<Longrightarrow> ie_request e \<noteq> IE_REQ_NONE"
    and b: "b = (ie_bits e AND NOT IE_BITS_TYPE_MASK) OR MACH_PORT_TYPE_DEAD_NAME"
  shows "dead_entry e (e\<lparr>ie_request := IE_REQ_NONE, ie_bits := (if inc then b + 1 else b), ie_object := IO_NULL\<rparr>)"
proof -
  have ub: "IE_BITS_UREFS b = entry_urefs e" "IE_BITS_TYPE b = MACH_PORT_TYPE_DEAD_NAME"
      "IE_BITS_GEN b = IE_BITS_GEN (ie_bits e)"
    unfolding b by (rule ie_to_dead)+
  then have "IE_BITS_UREFS (b + 1) = entry_urefs e + 1" "IE_BITS_TYPE (b + 1) = MACH_PORT_TYPE_DEAD_NAME"
      "IE_BITS_GEN (b + 1) = IE_BITS_GEN (ie_bits e)"
    using IE_BITS_add [of b 1] urefs_less_max [OF e] by simp_all
  moreover have "entry_urefs e < MACH_PORT_UREFS_MAX"
    using e urefs_le_max [of "ie_bits e"] by (simp add: order_less_le)
  ultimately show ?thesis using ub r by (simp add: dead_entry_def)
qed

lemma check_inv:
  assumes inv: "cap_inv sp k H X" and r: "right_at sp k i a p" and n: "MACH_PORT_INDEX name = i"
  shows "\<exists>sp' k'. ipc_right_check sp a name i k = Some (\<not> ip_active p, sp', k')
    \<and> slot_frame i sp sp' \<and> only_at a k k'
    \<and> (if ip_active p then sp' = sp \<and> k' = k
       else cap_inv sp' k' (add_ref a 1 H) X \<and> dead_entry (is_table sp ! i) (is_table sp' ! i)
         \<and> (\<exists>p'. port_at k' a = Some p'))"
proof (cases "ip_active p")
  case True
  then show ?thesis using right_atD(4) [OF inv r] by (simp add: ipc_right_check_def)
next
  case False
  let ?e = "is_table sp ! i"
  note d = right_atD [OF inv r]
  have ty: "entry_type ?e = MACH_PORT_TYPE_SEND \<or> entry_type ?e = MACH_PORT_TYPE_SEND_ONCE"
    using d(2,14) False by auto
  define p1 where "p1 = (if ie_bits ?e AND MACH_PORT_TYPE_SEND \<noteq> 0
                 then p\<lparr>ip_srights := ip_srights p - 1\<rparr> else p\<lparr>ip_sorights := ip_sorights p - 1\<rparr>)"
  have l: "port_like p p1" by (rule port_likeI) (simp_all add: p1_def)
  have ki: "cap_inv sp (put_port a p1 k) H X"
    using cap_inv_port [OF inv d(4), of "put_port a p1 k" p1 0 0 0] l False cap_inv_refs_pos [OF inv d(4)]
    by (simp add: p1_def)
  have snd: "ie_bits ?e AND MACH_PORT_TYPE_SEND \<noteq> 0 \<longleftrightarrow> entry_type ?e = MACH_PORT_TYPE_SEND"
    using ty type_bit_iff(1) [of "ie_bits ?e"] by auto
  obtain sp1 where sp1: "(if ie_bits ?e AND MACH_PORT_TYPE_SEND \<noteq> 0 then ipc_hash_delete sp a name
      else Some sp) = Some sp1" "unhashed sp i sp1"
    unfolding snd using unhashed_delete [OF inv d(1) _ d(3) n] unhashed_refl [OF inv]
    by (cases "entry_type ?e = MACH_PORT_TYPE_SEND") auto
  note u = unhashedD [OF sp1(2)]
  have rq: "ie_request (is_table sp1 ! i) = ie_request ?e"
    using same_payload_fields(3) [OF u(6) d(1)] .
  define inc where "inc \<longleftrightarrow> ie_request ?e \<noteq> IE_REQ_NONE \<and> ipc_port_request_type p1 (ie_request ?e) \<noteq> Some 0"
  define b where "b = (ie_bits ?e AND NOT IE_BITS_TYPE_MASK) OR MACH_PORT_TYPE_DEAD_NAME"
  define f where "f = (\<lambda>e :: ipc_entry. (if ie_request ?e \<noteq> IE_REQ_NONE then e\<lparr>ie_request := IE_REQ_NONE\<rparr> else e)
                     \<lparr>ie_bits := (if inc then b + 1 else b), ie_object := IO_NULL\<rparr>)"
  have fe: "f ?e = ?e\<lparr>ie_request := IE_REQ_NONE, ie_bits := (if inc then b + 1 else b), ie_object := IO_NULL\<rparr>"
    by (cases ?e) (simp add: f_def)
  have ur: "entry_urefs ?e \<noteq> 0" "entry_urefs ?e \<noteq> MACH_PORT_UREFS_MAX"
    using d(5) ty by (auto simp: used_entry_at)
  have dead: "dead_entry ?e (f ?e)"
    unfolding fe by (rule dead_entry_bits [OF ur(2)]) (simp_all add: inc_def b_def)
  have chk: "ipc_right_check sp a name i k
      = Some (True, ipc_entry_modified (upd_entry sp1 i f) name, put_port a p1 k)"
  proof (cases "ie_request ?e = IE_REQ_NONE")
    case True
    then show ?thesis
      using d(3,4) False sp1(1) u(7) d(1)
      by (simp add: ipc_right_check_def Let_def rq upd_entry_twice inc_def b_def f_def p1_def [symmetric])
  next
    case rn: False
    obtain t where "ipc_port_request_type p1 (ie_request ?e) = Some t"
      using request_type_Some [OF port_likeD(5) [OF l d(10)] rn] by blast
    then show ?thesis
      using d(3,4) False sp1(1) u(7) d(1) rn
      by (simp add: ipc_right_check_def Let_def rq upd_entry_twice inc_def b_def f_def p1_def [symmetric])
  qed
  have xf: "index_free f" by (simp add: index_free_def f_def)
  have dt: "entry_type (f ?e) = MACH_PORT_TYPE_DEAD_NAME" "ie_object (f ?e) = IO_NULL"
    using dead by (simp_all add: dead_entry_def)
  have "cap_inv (upd_entry sp1 i f) (put_port a p1 k) (moved ?e (f ?e) a H)
      (if entry_type (f ?e) = 0 then insert i X else X - {i})"
    by (rule cap_inv_unhashed_upd(1) [OF ki d(6) sp1(2) xf refl])
      (use dt dead_entry_used [OF dead ur(1)] slot_ok_no_port d(3,12) in simp_all)
  then have res: "cap_inv (upd_entry sp1 i f) (put_port a p1 k) (taken ?e a H) X"
    using dt d(9) moved_null [OF dt(2) d(12)] by simp
  have "cap_inv (upd_entry sp1 i f) (put_port a p1 k) (add_ref a 1 H) X"
  proof -
    have pa: "\<not> ip_active q" if "port_at (put_port a p1 k) a = Some q" for q
      using that port_likeD(1) [OF l] False by simp
    show ?thesis
      using ty pa cap_inv_inactive [OF res, of a "- 1" 0] cap_inv_inactive [OF res, of a 0 "- 1"]
      by (auto simp: taken_at [OF d(3)])
  qed
  moreover have "slot_frame i sp (upd_entry sp1 i f)" using slot_frame_upd_trans [OF u(9)] .
  moreover have "dead_entry ?e (is_table (upd_entry sp1 i f) ! i)"
  proof -
    have "same_payload ((is_table sp)[i := f ?e]) ((is_table sp1)[i := f (is_table sp1 ! i)])"
      by (rule payload_upd [OF u(6) d(1) xf])
    from same_payload_fields [OF this, of i] show ?thesis
      using dead d(1) u(7) by (simp add: dead_entry_def)
  qed
  ultimately show ?thesis using chk False by auto
qed

subsection \<open>Deallocation\<close>

lemma urefs_dec:
  assumes "IE_BITS_UREFS b \<noteq> 0"
  shows "IE_BITS_UREFS (b - 1) = IE_BITS_UREFS b - 1" "IE_BITS_TYPE (b - 1) = IE_BITS_TYPE b"
    "IE_BITS_GEN (b - 1) = IE_BITS_GEN b"
proof -
  have "unat (IE_BITS_UREFS b) < 65536" unfolding IE_BITS_UREFS_def by (rule unat_low16_less)
  moreover have "unat (IE_BITS_UREFS b - 1) = unat (IE_BITS_UREFS b) - 1"
    using assms by (simp add: unat_minus_one)
  ultimately have "unat (IE_BITS_UREFS b + - 1) < 65536" by simp
  from IE_BITS_add [OF this]
  show "IE_BITS_UREFS (b - 1) = IE_BITS_UREFS b - 1" "IE_BITS_TYPE (b - 1) = IE_BITS_TYPE b"
    "IE_BITS_GEN (b - 1) = IE_BITS_GEN b" by simp_all
qed

text \<open>\<open>uref_change e e' d\<close>: the entry is as before, but for its user references.\<close>

definition uref_change :: "ipc_entry \<Rightarrow> ipc_entry \<Rightarrow> natural_t \<Rightarrow> bool" where
  "uref_change e e' d \<longleftrightarrow>
     entry_type e' = entry_type e \<and> ie_object e' = ie_object e \<and> ie_request e' = ie_request e
     \<and> IE_BITS_GEN (ie_bits e') = IE_BITS_GEN (ie_bits e) \<and> entry_urefs e' = entry_urefs e + d"

lemma slot_ok_same_type:
  assumes "slot_ok self k i e" "entry_type e' = entry_type e" "ie_object e' = ie_object e"
    "ie_request e' = ie_request e" "IE_BITS_GEN (ie_bits e') = IE_BITS_GEN (ie_bits e)"
  shows "slot_ok self k i e'"
proof -
  have r: "ie_bits e' AND MACH_PORT_TYPE_RECEIVE = ie_bits e AND MACH_PORT_TYPE_RECEIVE"
    using type_bit_iff(2) [of "ie_bits e"] type_bit_iff(2) [of "ie_bits e'"] assms(2) by simp
  show ?thesis using assms(1) unfolding slot_ok_def assms(2-5) r .
qed

text \<open>A change of the user references of an entry.\<close>

lemma cap_inv_urefs:
  assumes inv: "cap_inv sp k H X" and i: "i < length (is_table sp)" "entry_type (is_table sp ! i) \<noteq> 0"
    and b: "IE_BITS_TYPE b = entry_type (is_table sp ! i)"
      "IE_BITS_GEN b = IE_BITS_GEN (ie_bits (is_table sp ! i))"
      "IE_BITS_UREFS b = entry_urefs (is_table sp ! i) + d"
    and u: "entry_type (is_table sp ! i) \<in> {MACH_PORT_TYPE_SEND, MACH_PORT_TYPE_SEND_RECEIVE, MACH_PORT_TYPE_DEAD_NAME}"
      "entry_urefs (is_table sp ! i) + d \<noteq> 0"
      "entry_type (is_table sp ! i) \<noteq> MACH_PORT_TYPE_DEAD_NAME \<Longrightarrow> entry_urefs (is_table sp ! i) + d \<noteq> MACH_PORT_UREFS_MAX"
  shows "cap_inv (set_bits sp i b) k H X" "slot_frame i sp (set_bits sp i b)"
    "uref_change (is_table sp ! i) (is_table (set_bits sp i b) ! i) d"
proof -
  let ?e = "is_table sp ! i" and ?e' = "(is_table sp ! i)\<lparr>ie_bits := b\<rparr>"
  note s = cap_inv_slot [OF inv i]
  show "slot_frame i sp (set_bits sp i b)" by simp
  show "uref_change ?e (is_table (set_bits sp i b) ! i) d"
    using i b by (simp add: uref_change_def)
  have use: "used_entry ?e'"
    using s(1) u b(1,3) by (elim used_entry_cases) (auto simp: used_entry_at)
  have ok: "slot_ok (is_self sp) k i ?e'"
    by (rule slot_ok_same_type [OF cap_invD(3) [OF inv i(1)]]) (simp_all add: b)
  define a where "a = (if ie_object ?e = IO_NULL then IO_DEAD else ie_object ?e)"
  have a: "a \<noteq> IO_NULL" by (simp add: a_def IO_DEAD_def IO_NULL_def)
  have live: "k_objects k a \<noteq> None" if "a = ie_object ?e"
  proof -
    have "port_type (entry_type ?e)" using s(1) that a u(1) by (elim used_entry_cases) auto
    then show ?thesis
      using cap_inv_right [OF inv i(1)] that by (auto simp: right_at_def port_at_eq)
  qed
  have "cap_inv (set_bits sp i b) k (moved ?e ?e' a H) (if entry_type ?e' = 0 then insert i X else X - {i})"
    by (rule cap_inv_upd [OF inv s(2)]) (use use ok b(1) a live in \<open>auto simp: a_def\<close>)
  then show "cap_inv (set_bits sp i b) k H X"
    using b(1) i(2) s(5) moved_same [of ?e' ?e a H] by simp
qed

text \<open>Releasing an entry that denotes nothing.\<close>

lemma dealloc_dead_slot:
  assumes inv: "cap_inv sp k H X" and i: "i < length (is_table sp)"
    "entry_type (is_table sp ! i) = MACH_PORT_TYPE_DEAD_NAME" and n: "MACH_PORT_INDEX name = i"
  shows "\<exists>sp'. ipc_entry_dealloc sp name i = Some sp' \<and> slot_frame i sp sp' \<and> cap_inv sp' k H X
    \<and> ie_bits (is_table sp' ! i) = IE_BITS_GEN (ie_bits (is_table sp ! i))"
proof -
  have ty: "entry_type (is_table sp ! i) \<noteq> 0" using i(2) by simp
  note s = cap_inv_slot [OF inv i(1) ty]
  have o: "ie_object (is_table sp ! i) = IO_NULL" "ie_request (is_table sp ! i) = IE_REQ_NONE"
    using s(1) i(2) by (simp_all add: used_entry_at)
  have a: "IO_DEAD \<noteq> IO_NULL" by (simp add: IO_DEAD_def IO_NULL_def)
  have un: "unhashed sp i sp" using i(2) by (intro unhashed_refl [OF inv]) simp
  have "upd_entry sp i (\<lambda>e. e) = sp" by (simp add: upd_entry_def)
  then show ?thesis
    using dealloc_unhashed [OF inv s(2) un, of "\<lambda>e. e" name IO_DEAD] o n a s(5)
      taken_other [of "is_table sp ! i" IO_DEAD H] by (auto simp: index_free_def)
qed

lemma release_if_inv:
  assumes inv: "cap_inv sp k H X" and p: "port \<noteq> IP_NULL \<Longrightarrow> port_at k port \<noteq> None \<and> 0 < h_refs H port"
  shows "\<exists>k'. (if port \<noteq> IP_NULL then ip_release port k else Some k) = Some k' \<and> only_at port k k'
    \<and> cap_inv sp k' (if port = IP_NULL then H else add_ref port (- 1) H) X"
  using io_release_inv [OF inv] p inv by (cases "port = IP_NULL") auto

definition gone :: "ipc_entry \<Rightarrow> ipc_entry \<Rightarrow> bool" where
  "gone e e' \<longleftrightarrow> ie_bits e' = IE_BITS_GEN (ie_bits e)"

lemma goneD: "gone e e' \<Longrightarrow> entry_type e' = 0"
  using type_none_iff [of "IE_BITS_GEN (ie_bits e)"] by (simp add: gone_def)

lemma dealloc_dead_name_inv:
  assumes inv: "cap_inv sp k H X" and i: "i < length (is_table sp)"
    "entry_type (is_table sp ! i) = MACH_PORT_TYPE_DEAD_NAME" and n: "MACH_PORT_INDEX name = i"
    and p: "port \<noteq> IP_NULL \<Longrightarrow> port_at k port \<noteq> None \<and> 0 < h_refs H port"
  shows "\<exists>sp' k'. ipc_right_dealloc_dead_name sp name i port k = Some (KERN_SUCCESS, sp', k')
    \<and> slot_frame i sp sp' \<and> only_at port k k'
    \<and> cap_inv sp' k' (if port = IP_NULL then H else add_ref port (- 1) H) X
    \<and> (if entry_urefs (is_table sp ! i) = 1 then gone (is_table sp ! i) (is_table sp' ! i)
       else uref_change (is_table sp ! i) (is_table sp' ! i) (- 1))"
proof -
  let ?e = "is_table sp ! i"
  have ty: "entry_type ?e \<noteq> 0" using i(2) by simp
  have u: "entry_urefs ?e \<noteq> 0" using cap_inv_slot(1) [OF inv i(1) ty] i(2) by (simp add: used_entry_at)
  have "\<exists>sp'. (if entry_urefs ?e = 1 then ipc_entry_dealloc sp name i
        else Some (ipc_entry_modified (set_bits sp i (ie_bits ?e - 1)) name)) = Some sp'
      \<and> slot_frame i sp sp' \<and> cap_inv sp' k H X
      \<and> (if entry_urefs ?e = 1 then gone ?e (is_table sp' ! i) else uref_change ?e (is_table sp' ! i) (- 1))"
  proof (cases "entry_urefs ?e = 1")
    case True
    then show ?thesis using dealloc_dead_slot [OF inv i n] by (auto simp: gone_def)
  next
    case False
    have "entry_urefs ?e + - 1 \<noteq> 0" using False by simp
    then show ?thesis
      using cap_inv_urefs [OF inv i(1) ty, of "ie_bits ?e - 1" "- 1"] urefs_dec [OF u] i(2) False by simp
  qed
  then obtain sp' where sp': "(if entry_urefs ?e = 1 then ipc_entry_dealloc sp name i
        else Some (ipc_entry_modified (set_bits sp i (ie_bits ?e - 1)) name)) = Some sp'"
      "slot_frame i sp sp'" "cap_inv sp' k H X"
      "if entry_urefs ?e = 1 then gone ?e (is_table sp' ! i) else uref_change ?e (is_table sp' ! i) (- 1)"
    by blast
  obtain k' where "(if port \<noteq> IP_NULL then ip_release port k else Some k) = Some k'" "only_at port k k'"
      "cap_inv sp' k' (if port = IP_NULL then H else add_ref port (- 1) H) X"
    using release_if_inv [OF sp'(3) p] by blast
  then show ?thesis
    using sp' by (auto simp: ipc_right_dealloc_dead_name_def Let_def simp del: upd_entry_fields)
qed

text \<open>Releasing the entry of a right, after its request has been cancelled.\<close>

lemma remove_right:
  assumes inv: "cap_inv sp k H X" and r: "right_at sp k i a p" and q: "ie_request (is_table sp ! i) = IE_REQ_NONE"
    and un: "unhashed sp i sp1" and n: "MACH_PORT_INDEX name = i"
  shows "\<exists>sp'. ipc_entry_dealloc (set_object sp1 i IO_NULL) name i = Some sp' \<and> slot_frame i sp sp'
    \<and> cap_inv sp' k (taken (is_table sp ! i) a H) X \<and> gone (is_table sp ! i) (is_table sp' ! i)"
proof -
  note d = right_atD [OF inv r]
  show ?thesis
    using dealloc_unhashed [OF inv d(6) un, of "ie_object_update (\<lambda>_. IO_NULL)" name a] q n d(3,9,12,13)
    by (auto simp: index_free_def gone_def)
qed

lemma notify_if_inv [simp]:
  "cap_inv sp (notify_no_senders_if ns ms k) H X = cap_inv sp k H X"
  "cap_inv sp (notify_port_deleted_if rq name k) H X = cap_inv sp k H X"
  "cap_inv sp (ipc_notify_send_once a k) H X = cap_inv sp k H X"
  "only_at a k0 (notify_no_senders_if ns ms k) = only_at a k0 k"
  "only_at a k0 (notify_port_deleted_if rq name k) = only_at a k0 k"
  "only_at a k0 (ipc_notify_send_once b k) = only_at a k0 k"
  "port_at (notify_no_senders_if ns ms k) b = port_at k b"
  "port_at (notify_port_deleted_if rq name k) b = port_at k b"
  by (simp_all add: notify_no_senders_if_def notify_port_deleted_if_def ipc_notify_no_senders_def
      ipc_notify_port_deleted_def ipc_notify_send_once_def)

text \<open>Giving up a send-once right on an active port: the right goes into the notification.\<close>

lemma give_send_once:
  assumes inv: "cap_inv sp k H X" and r: "right_at sp k i a p" and n: "MACH_PORT_INDEX name = i"
    and ty: "entry_type (is_table sp ! i) = MACH_PORT_TYPE_SEND_ONCE"
  shows "\<exists>prev sp1 k' sp'. ipc_right_request_cancel_macro sp a name i k = Some (prev, sp1, k')
    \<and> ipc_entry_dealloc (set_object sp1 i IO_NULL) name i = Some sp' \<and> slot_frame i sp sp' \<and> only_at a k k'
    \<and> cap_inv sp' k' (add_sonce a 1 (add_ref a 1 H)) X \<and> gone (is_table sp ! i) (is_table sp' ! i)"
proof -
  obtain prev sp1 k1 p1 where c: "ipc_right_request_cancel_macro sp a name i k = Some (prev, sp1, k1)"
      "cap_inv sp1 k1 H X" "slot_frame i sp sp1" "only_at a k k1" "right_at sp1 k1 i a p1"
      "is_table sp1 ! i = (is_table sp ! i)\<lparr>ie_request := IE_REQ_NONE\<rparr>"
    using request_cancel_inv [OF inv r] by blast
  have un: "unhashed sp1 i sp1" using ty c(6) by (intro unhashed_refl [OF c(2)]) simp
  obtain sp' where "ipc_entry_dealloc (set_object sp1 i IO_NULL) name i = Some sp'" "slot_frame i sp1 sp'"
      "cap_inv sp' k1 (taken (is_table sp1 ! i) a H) X" "gone (is_table sp1 ! i) (is_table sp' ! i)"
    using remove_right [OF c(2,5) _ un n] c(6) by auto
  moreover have "taken (is_table sp1 ! i) a H = add_sonce a 1 (add_ref a 1 H)"
    using taken_at(2) [OF right_atD(3) [OF c(2,5)]] ty c(6) by simp
  ultimately show ?thesis
    using c slot_frame_trans [OF c(3)] by (auto simp: gone_def simp del: upd_entry_fields)
qed

text \<open>Giving up the last user reference of a send right on an active port.\<close>

lemma give_last_send:
  assumes inv: "cap_inv sp k H X" and r: "right_at sp k i a p" and n: "MACH_PORT_INDEX name = i"
    and ty: "entry_type (is_table sp ! i) = MACH_PORT_TYPE_SEND"
    and act: "ip_active p" and h: "0 \<le> h_refs H a" "0 \<le> h_sends H a"
  shows "\<exists>ns ms k1 prev sp2 k2 sp3 sp' k'. ipc_right_drop_send a k = Some (ns, ms, k1)
    \<and> ipc_right_request_cancel_macro sp a name i k1 = Some (prev, sp2, k2)
    \<and> ipc_hash_delete sp2 a name = Some sp3
    \<and> ipc_entry_dealloc (set_object sp3 i IO_NULL) name i = Some sp'
    \<and> ip_release a k2 = Some k' \<and> slot_frame i sp sp' \<and> only_at a k k'
    \<and> cap_inv sp' k' H X \<and> gone (is_table sp ! i) (is_table sp' ! i)"
proof -
  note d = right_atD [OF inv r]
  have s: "ie_bits (is_table sp ! i) AND MACH_PORT_TYPE_SEND \<noteq> 0" using ty type_bit_iff(1) [of "ie_bits (is_table sp ! i)"] by simp
  obtain ns ms k1 p1 where c1: "ipc_right_drop_send a k = Some (ns, ms, k1)"
      "cap_inv sp k1 (add_send a (- 1) H) X" "only_at a k k1" "port_at k1 a = Some p1"
    using drop_send_inv [OF inv d(4) sends_pos [OF inv r h(2) s]] by blast
  have r1: "right_at sp k1 i a p1" using r c1(4) by (simp add: right_at_def)
  obtain prev sp2 k2 p2 where c2: "ipc_right_request_cancel_macro sp a name i k1 = Some (prev, sp2, k2)"
      "cap_inv sp2 k2 (add_send a (- 1) H) X" "slot_frame i sp sp2" "only_at a k1 k2" "right_at sp2 k2 i a p2"
      "is_table sp2 ! i = (is_table sp ! i)\<lparr>ie_request := IE_REQ_NONE\<rparr>"
    using request_cancel_inv [OF c1(2) r1] by blast
  note d2 = right_atD [OF c2(2,5)]
  obtain sp3 where c3: "ipc_hash_delete sp2 a name = Some sp3" "unhashed sp2 i sp3"
    using unhashed_delete [OF c2(2) d2(1) _ d2(3) n] ty c2(6) by auto
  obtain sp' where c4: "ipc_entry_dealloc (set_object sp3 i IO_NULL) name i = Some sp'" "slot_frame i sp2 sp'"
      "cap_inv sp' k2 (taken (is_table sp2 ! i) a (add_send a (- 1) H)) X" "gone (is_table sp2 ! i) (is_table sp' ! i)"
    using remove_right [OF c2(2,5) _ c3(2) n] c2(6) by auto
  have "taken (is_table sp2 ! i) a (add_send a (- 1) H) = add_ref a 1 H"
    using taken_at(1) [OF d2(3)] ty c2(6) by simp
  then obtain k' where "ip_release a k2 = Some k'" "only_at a k2 k'" "cap_inv sp' k' (add_ref a (- 1) (add_ref a 1 H)) X"
    using io_release_inv [of sp' k2 "add_ref a 1 H" X a p2] c4(3) d2(4) h(1) by auto
  moreover have "gone (is_table sp ! i) (is_table sp' ! i)" using c4(4) c2(6) by (simp add: gone_def)
  ultimately show ?thesis
    using c1(1) c2(1) c3(1) c4(1) slot_frame_trans [OF c2(3) c4(2)]
      only_at_trans [OF only_at_trans [OF c1(3) c2(4)], of k']
    by (auto simp del: upd_entry_fields)
qed

text \<open>The send right of an entry that also has the receive right.\<close>

lemma moved_between:
  assumes "ie_object e = a" "ie_object e' = a"
  shows "entry_type e = MACH_PORT_TYPE_SEND_RECEIVE \<Longrightarrow> entry_type e' = MACH_PORT_TYPE_RECEIVE \<Longrightarrow>
      moved e e' a H = add_send a 1 H"
    "entry_type e = MACH_PORT_TYPE_SEND_RECEIVE \<Longrightarrow> entry_type e' = MACH_PORT_TYPE_SEND \<Longrightarrow>
      moved e e' a H = add_recv a H"
    "entry_type e = MACH_PORT_TYPE_RECEIVE \<Longrightarrow> entry_type e' = MACH_PORT_TYPE_SEND_RECEIVE \<Longrightarrow>
      moved e e' a H = add_send a (- 1) H"
    "entry_type e = MACH_PORT_TYPE_SEND \<Longrightarrow> entry_type e' = MACH_PORT_TYPE_SEND_RECEIVE \<Longrightarrow>
      moved e e' a H = H"
  using assms type_bit_iff(1-3) [of "ie_bits e"] type_bit_iff(1-3) [of "ie_bits e'"]
  by (auto simp: moved_def entry_rights Let_def)

lemma drop_send_bit:
  assumes inv: "cap_inv sp k H X" and r: "right_at sp k i a p"
    and ty: "entry_type (is_table sp ! i) = MACH_PORT_TYPE_SEND_RECEIVE"
    and b: "b = ie_bits (is_table sp ! i) AND NOT (IE_BITS_UREFS_MASK OR MACH_PORT_TYPE_SEND)"
  shows "cap_inv (set_bits sp i b) k (add_send a 1 H) X"
    "IE_BITS_TYPE b = MACH_PORT_TYPE_RECEIVE" "IE_BITS_UREFS b = 0"
    "IE_BITS_GEN b = IE_BITS_GEN (ie_bits (is_table sp ! i))"
proof -
  let ?e = "is_table sp ! i" and ?e' = "(is_table sp ! i)\<lparr>ie_bits := b\<rparr>"
  note d = right_atD [OF inv r]
  have "IE_BITS_TYPE b = entry_type ?e AND NOT MACH_PORT_TYPE_SEND" unfolding b by (rule ie_no_send)
  then show t: "IE_BITS_TYPE b = MACH_PORT_TYPE_RECEIVE" using ty by simp
  show u: "IE_BITS_UREFS b = 0" and g: "IE_BITS_GEN b = IE_BITS_GEN (ie_bits ?e)"
    unfolding b by (rule ie_no_send)+
  have use: "used_entry ?e'" using d(5) ty t u by (simp add: used_entry_at)
  have ok: "slot_ok (is_self sp) k i ?e'"
    using d(3,4,10,14) ty t g by (intro slot_okI [of _ _ p]) simp_all
  have "cap_inv (set_bits sp i b) k (moved ?e ?e' a H) (if entry_type ?e' = 0 then insert i X else X - {i})"
    by (rule cap_inv_upd [OF inv d(6)]) (use use ok ty t d(3,12,13) in auto)
  then show "cap_inv (set_bits sp i b) k (add_send a 1 H) X"
    using t d(9) moved_between(1) [of ?e a ?e' H] d(3) ty by simp
qed

text \<open>What a deallocation leaves in the hand: a send-once right on a live port goes into a notification.\<close>

definition dealloc_holdings :: "ipc_space \<Rightarrow> kern \<Rightarrow> nat \<Rightarrow> holdings \<Rightarrow> holdings" where
  "dealloc_holdings sp k i H =
     (let e = is_table sp ! i; a = ie_object e in
      if entry_type e = MACH_PORT_TYPE_SEND_ONCE \<and> (case port_at k a of None \<Rightarrow> False | Some p \<Rightarrow> ip_active p)
      then add_sonce a 1 (add_ref a 1 H) else H)"

text \<open>The rest of an operation on a right whose port has been found dead.\<close>

lemma dead_then_dealloc:
  assumes chk: "slot_frame i sp sp1" "only_at a k k1" "cap_inv sp1 k1 (add_ref a 1 H) X"
      "dead_entry (is_table sp ! i) (is_table sp1 ! i)" "\<exists>p'. port_at k1 a = Some p'"
    and i: "i < length (is_table sp)" and a: "a \<noteq> IO_NULL" and n: "MACH_PORT_INDEX name = i"
    and h: "0 \<le> h_refs H a"
  shows "\<exists>sp' k'. ipc_right_dealloc_dead_name sp1 name i a k1 = Some (KERN_SUCCESS, sp', k')
    \<and> slot_frame i sp sp' \<and> only_at a k k' \<and> cap_inv sp' k' H X"
proof -
  have i1: "i < length (is_table sp1)" using i slot_frameD(5) [OF chk(1)] by simp
  have ty: "entry_type (is_table sp1 ! i) = MACH_PORT_TYPE_DEAD_NAME" using chk(4) by (simp add: dead_entry_def)
  have pr: "port_at k1 a \<noteq> None \<and> 0 < h_refs (add_ref a 1 H) a" using chk(5) h by auto
  show ?thesis
    using dealloc_dead_name_inv [OF chk(3) i1 ty n, of a] pr a slot_frame_trans [OF chk(1)]
      only_at_trans [OF chk(2)] by fastforce
qed

lemma dec_uref:
  assumes inv: "cap_inv sp k H X" and i: "i < length (is_table sp)"
    and ty: "entry_type (is_table sp ! i) \<in> {MACH_PORT_TYPE_SEND, MACH_PORT_TYPE_SEND_RECEIVE, MACH_PORT_TYPE_DEAD_NAME}"
    and u: "entry_urefs (is_table sp ! i) \<noteq> 1"
  shows "cap_inv (set_bits sp i (ie_bits (is_table sp ! i) - 1)) k H X"
    "uref_change (is_table sp ! i) (is_table (set_bits sp i (ie_bits (is_table sp ! i) - 1)) ! i) (- 1)"
proof -
  let ?e = "is_table sp ! i"
  have tn: "entry_type ?e \<noteq> 0" using ty by auto
  have nz: "entry_urefs ?e \<noteq> 0"
    using cap_inv_slot(1) [OF inv i tn] ty by (auto simp: used_entry_at)
  have "unat (entry_urefs ?e) < 65536" unfolding IE_BITS_UREFS_def by (rule unat_low16_less)
  then have "unat (entry_urefs ?e - 1) \<noteq> 65535" using nz by (simp add: unat_minus_one)
  then have m: "entry_urefs ?e + - 1 \<noteq> MACH_PORT_UREFS_MAX" by (auto simp: word_unat_eq_iff)
  have z: "entry_urefs ?e + - 1 \<noteq> 0" using u by simp
  note dec = urefs_dec [OF nz]
  show "cap_inv (set_bits sp i (ie_bits ?e - 1)) k H X"
    "uref_change ?e (is_table (set_bits sp i (ie_bits ?e - 1)) ! i) (- 1)"
    using cap_inv_urefs(1,3) [OF inv i tn dec(2,3), of "- 1", OF _ ty z m] dec(1) by simp_all
qed

lemma dealloc_send_inv:
  assumes inv: "cap_inv sp k H X" and r: "right_at sp k i a p" and n: "MACH_PORT_INDEX name = i"
    and ty: "entry_type (is_table sp ! i) = MACH_PORT_TYPE_SEND"
    and h: "0 \<le> h_refs H a" "0 \<le> h_sends H a"
  shows "\<exists>sp' k'. ipc_right_dealloc_send sp name i k = Some (KERN_SUCCESS, sp', k') \<and> slot_frame i sp sp'
    \<and> only_at a k k' \<and> cap_inv sp' k' H X
    \<and> (ip_active p \<longrightarrow> (if entry_urefs (is_table sp ! i) = 1 then gone (is_table sp ! i) (is_table sp' ! i)
         else k' = k \<and> uref_change (is_table sp ! i) (is_table sp' ! i) (- 1)))"
proof -
  let ?e = "is_table sp ! i"
  note d = right_atD [OF inv r]
  obtain sp1 k1 where chk: "ipc_right_check sp a name i k = Some (\<not> ip_active p, sp1, k1)"
      "slot_frame i sp sp1" "only_at a k k1"
      "if ip_active p then sp1 = sp \<and> k1 = k
       else cap_inv sp1 k1 (add_ref a 1 H) X \<and> dead_entry ?e (is_table sp1 ! i) \<and> (\<exists>p'. port_at k1 a = Some p')"
    using check_inv [OF inv r n] by blast
  consider (dead) "\<not> ip_active p" | (last) "ip_active p" "entry_urefs ?e = 1"
    | (more) "ip_active p" "entry_urefs ?e \<noteq> 1" by blast
  then show ?thesis
  proof cases
    case dead
    then show ?thesis
      using dead_then_dealloc [of i sp sp1 a k k1 H X name] chk d(1,3,12) n h(1)
      by (auto simp: ipc_right_dealloc_send_def Let_def)
  next
    case last
    from give_last_send [OF inv r n ty last(1) h]
    show ?thesis
      using chk(1,4) last d(3)
      by (auto simp: ipc_right_dealloc_send_def Let_def ipc_right_dealloc_last_send_def
          simp del: upd_entry_fields)
  next
    case more
    then show ?thesis
      using dec_uref [OF inv d(1)] ty chk(1,4) d(3)
      by (simp add: ipc_right_dealloc_send_def Let_def del: upd_entry_fields)
  qed
qed

lemma dealloc_send_once_inv:
  assumes inv: "cap_inv sp k H X" and r: "right_at sp k i a p" and n: "MACH_PORT_INDEX name = i"
    and ty: "entry_type (is_table sp ! i) = MACH_PORT_TYPE_SEND_ONCE" and h: "0 \<le> h_refs H a"
  shows "\<exists>sp' k'. ipc_right_dealloc_send_once sp name i k = Some (KERN_SUCCESS, sp', k') \<and> slot_frame i sp sp'
    \<and> only_at a k k' \<and> cap_inv sp' k' (if ip_active p then add_sonce a 1 (add_ref a 1 H) else H) X
    \<and> (ip_active p \<longrightarrow> gone (is_table sp ! i) (is_table sp' ! i))"
proof -
  let ?e = "is_table sp ! i"
  note d = right_atD [OF inv r]
  obtain sp1 k1 where chk: "ipc_right_check sp a name i k = Some (\<not> ip_active p, sp1, k1)"
      "slot_frame i sp sp1" "only_at a k k1"
      "if ip_active p then sp1 = sp \<and> k1 = k
       else cap_inv sp1 k1 (add_ref a 1 H) X \<and> dead_entry ?e (is_table sp1 ! i) \<and> (\<exists>p'. port_at k1 a = Some p')"
    using check_inv [OF inv r n] by blast
  show ?thesis
  proof (cases "ip_active p")
    case False
    then show ?thesis
      using dead_then_dealloc [of i sp sp1 a k k1 H X name] chk d(1,3,12) n h
      by (auto simp: ipc_right_dealloc_send_once_def Let_def)
  next
    case True
    from give_send_once [OF inv r n ty] show ?thesis
      using chk(1,4) True d(3)
      by (auto simp: ipc_right_dealloc_send_once_def Let_def simp del: upd_entry_fields)
  qed
qed

lemma dealloc_send_receive_inv:
  assumes inv: "cap_inv sp k H X" and r: "right_at sp k i a p"
    and ty: "entry_type (is_table sp ! i) = MACH_PORT_TYPE_SEND_RECEIVE" and h: "0 \<le> h_sends H a"
  shows "\<exists>sp' k'. ipc_right_dealloc_send_receive sp name i k = Some (KERN_SUCCESS, sp', k') \<and> slot_frame i sp sp'
    \<and> only_at a k k' \<and> cap_inv sp' k' H X
    \<and> (if entry_urefs (is_table sp ! i) = 1
       then entry_type (is_table sp' ! i) = MACH_PORT_TYPE_RECEIVE
         \<and> IE_BITS_GEN (ie_bits (is_table sp' ! i)) = IE_BITS_GEN (ie_bits (is_table sp ! i))
       else uref_change (is_table sp ! i) (is_table sp' ! i) (- 1))"
proof -
  let ?e = "is_table sp ! i"
  note d = right_atD [OF inv r]
  have act: "ip_active p" using d(14) ty by simp
  have s: "ie_bits ?e AND MACH_PORT_TYPE_SEND \<noteq> 0" using ty type_bit_iff(1) [of "ie_bits ?e"] by simp
  show ?thesis
  proof (cases "entry_urefs ?e = 1")
    case True
    let ?b = "ie_bits ?e AND NOT (IE_BITS_UREFS_MASK OR MACH_PORT_TYPE_SEND)"
    obtain ns ms k1 p1 where c1: "ipc_right_drop_send a k = Some (ns, ms, k1)"
        "cap_inv sp k1 (add_send a (- 1) H) X" "only_at a k k1" "port_at k1 a = Some p1"
      using drop_send_inv [OF inv d(4) sends_pos [OF inv r h s]] by blast
    have r1: "right_at sp k1 i a p1" using r c1(4) by (simp add: right_at_def)
    have "ipc_right_dealloc_send_receive sp name i k = Some (KERN_SUCCESS,
        ipc_entry_modified (set_bits sp i ?b) name, notify_no_senders_if ns ms k1)"
      using True d(3) c1(1) by (simp add: ipc_right_dealloc_send_receive_def Let_def)
    moreover note drop_send_bit [OF c1(2) r1 ty refl]
    ultimately show ?thesis using c1(3) True d(1) by simp
  next
    case False
    then show ?thesis
      using dec_uref [OF inv d(1)] ty d(3)
      by (simp add: ipc_right_dealloc_send_receive_def Let_def notify_no_senders_if_def del: upd_entry_fields)
  qed
qed

lemma ipc_right_dealloc_inv:
  assumes inv: "cap_inv sp k H X" and i: "i < length (is_table sp)" "entry_type (is_table sp ! i) \<noteq> 0"
    and n: "MACH_PORT_INDEX name = i" and a: "ie_object (is_table sp ! i) = a"
    and h: "0 \<le> h_refs H a" "0 \<le> h_sends H a"
  shows "\<exists>kr sp' k'. ipc_right_dealloc sp name i k = Some (kr, sp', k') \<and> slot_frame i sp sp' \<and> only_at a k k'
    \<and> cap_inv sp' k' (dealloc_holdings sp k i H) X"
proof -
  note rt = cap_inv_right [OF inv i(1), unfolded a]
  note defs = ipc_right_dealloc_def Let_def dealloc_holdings_def a
  show ?thesis
    using cap_inv_slot(1) [OF inv i]
  proof (cases rule: used_entry_cases)
    case send
    then show ?thesis using rt dealloc_send_inv [OF inv _ n _ h] by (fastforce simp: defs)
  next
    case send_receive
    then show ?thesis using rt dealloc_send_receive_inv [OF inv _ _ h(2)] by (fastforce simp: defs)
  next
    case send_once
    then obtain p where r: "right_at sp k i a p" using rt by auto
    then show ?thesis
      using dealloc_send_once_inv [OF inv r n send_once(1) h(1)] send_once(1) right_atD(4) [OF inv r]
      by (auto simp: defs)
  next
    case dead_name
    then show ?thesis using dealloc_dead_name_inv [OF inv i(1) dead_name(1) n, of IP_NULL] by (auto simp: defs)
  qed (use inv in \<open>simp_all add: defs\<close>)
qed

end
