(* ===== verification/Right_Release.thy ===== *)
theory Right_Release
  imports Right_Ledger
begin

text \<open>
  The ledger under the operations that change user references or destroy rights:
  \<open>ipc_right_delta\<close>, \<open>ipc_right_destruct\<close> and \<open>ipc_right_destroy\<close>.
\<close>

unbundle bit_operations_syntax

subsection \<open>The receive right leaves the table\<close>

text \<open>
  With the receive right gone, the caller holds the receive right, one reference for it, and
  the send right of the entry if that has become a dead name.
\<close>

definition lost_receive :: "ipc_entry \<Rightarrow> ipc_port \<Rightarrow> addr \<Rightarrow> holdings \<Rightarrow> holdings" where
  "lost_receive e p a H =
     add_recv a (add_send a (of_bool (entry_type e = MACH_PORT_TYPE_SEND_RECEIVE \<and> ip_pdrequest p = IP_NULL))
                  (add_ref a 1 H))"

lemma ipc_hash_insert_modified:
  "ipc_hash_insert (ipc_entry_modified sp n) a name
     = map_option (\<lambda>sp. ipc_entry_modified sp n) (ipc_hash_insert sp a name)"
  by (cases "ipc_hash_table_insert (is_table sp) (length (is_table sp)) a (MACH_PORT_INDEX name)")
    (simp_all add: ipc_hash_insert_def is_table_size_def ipc_entry_modified_def Let_def)

lemma used_no_receive:
  assumes "used_entry e" "entry_type e = MACH_PORT_TYPE_SEND_RECEIVE"
    and b: "b = ie_bits e AND NOT MACH_PORT_TYPE_RECEIVE"
  shows "IE_BITS_TYPE b = MACH_PORT_TYPE_SEND" "IE_BITS_GEN b = IE_BITS_GEN (ie_bits e)"
    "used_entry (e\<lparr>ie_bits := b\<rparr>)"
proof -
  have "IE_BITS_TYPE b = entry_type e AND NOT MACH_PORT_TYPE_RECEIVE" unfolding b by (rule ie_no_receive)
  then show t: "IE_BITS_TYPE b = MACH_PORT_TYPE_SEND" using assms(2) by simp
  show "IE_BITS_GEN b = IE_BITS_GEN (ie_bits e)" unfolding b by (rule ie_no_receive)
  have "IE_BITS_UREFS b = entry_urefs e" unfolding b by (rule ie_no_receive)
  then show "used_entry (e\<lparr>ie_bits := b\<rparr>)" using assms(1,2) t by (simp add: used_entry_at)
qed

lemma lose_receive_keep_send:
  assumes inv: "cap_inv sp k H X" and r: "right_at sp k i a p" and n: "MACH_PORT_INDEX name = i"
    and ty: "entry_type (is_table sp ! i) = MACH_PORT_TYPE_SEND_RECEIVE" and pd: "ip_pdrequest p \<noteq> IP_NULL"
    and room: "ip_references p + 1 \<noteq> 0"
  shows "\<exists>sp'. ipc_right_lose_receive sp name i a k
      = Some (IP_NULL, sp', put_port a (p\<lparr>ip_references := ip_references p + 1\<rparr>) k)
    \<and> slot_frame i sp sp' \<and> \<not> entry_recv (is_table sp' ! i) a
    \<and> cap_inv sp' (put_port a (p\<lparr>ip_references := ip_references p + 1\<rparr>) k) (add_recv a (add_ref a 1 H)) X"
proof -
  let ?e = "is_table sp ! i" and ?b = "ie_bits (is_table sp ! i) AND NOT MACH_PORT_TYPE_RECEIVE"
  note d = right_atD [OF inv r]
  note b = used_no_receive [OF d(5) ty refl]
  have s: "ie_bits ?e AND MACH_PORT_TYPE_SEND \<noteq> 0" using ty type_bit_iff(1) [of "ie_bits ?e"] by simp
  have ok: "slot_ok (is_self sp) k i (?e\<lparr>ie_bits := ?b\<rparr>)"
    by (rule slot_okI [of _ _ p]) (use d(3,4,10) b(1) in simp_all)
  obtain sp1 where h: "ipc_hash_insert (set_bits sp i ?b) a name = Some sp1"
      "cap_inv (upd_entry sp1 i (\<lambda>e. e)) k (moved ?e (?e\<lparr>ie_bits := ?b\<rparr>) a H) (X - {i})"
      "slot_frame i sp (upd_entry sp1 i (\<lambda>e. e))" "ie_bits (is_table (upd_entry sp1 i (\<lambda>e. e)) ! i) = ?b"
    using cap_inv_hash_upd [OF inv d(6), of "ie_bits_update (\<lambda>_. ?b)" a name "\<lambda>e. e" "?e\<lparr>ie_bits := ?b\<rparr>"]
      ty d(3,12,13) n b ok by (auto simp: index_free_def)
  have id: "upd_entry sp1 i (\<lambda>e. e) = sp1" by (simp add: upd_entry_def)
  have "moved ?e (?e\<lparr>ie_bits := ?b\<rparr>) a H = add_recv a H"
    using moved_between(2) [of ?e a "?e\<lparr>ie_bits := ?b\<rparr>" H] d(3) ty b(1) by simp
  then have inv1: "cap_inv sp1 k (add_recv a H) X" using h(2) d(9) by (simp add: id)
  have ref: "ip_reference a k = Some (put_port a (p\<lparr>ip_references := ip_references p + 1\<rparr>) k)"
    by (rule io_reference_port [OF d(4)])
  have "ipc_right_lose_receive sp name i a k = Some (IP_NULL, ipc_entry_modified sp1 name, put_port a (p\<lparr>ip_references := ip_references p + 1\<rparr>) k)"
    using d(4) pd s h(1) ref
    by (simp add: ipc_right_lose_receive_def Let_def upd_entry_modified ipc_hash_insert_modified)
  moreover have "\<not> entry_recv (is_table sp1 ! i) a"
    using h(4) recv_bit [of ?b] b(1) by (simp add: id entry_recv_def)
  ultimately show ?thesis
    using ip_reference_inv [OF inv1 d(4) room] h(3) id by auto
qed

lemma lose_receive_to_dead:
  assumes inv: "cap_inv sp k H X" and r: "right_at sp k i a p" and n: "MACH_PORT_INDEX name = i"
    and ty: "entry_type (is_table sp ! i) = MACH_PORT_TYPE_SEND_RECEIVE" and pd: "ip_pdrequest p = IP_NULL"
  shows "\<exists>sp'. ipc_right_lose_receive sp name i a k = Some (IP_NULL, sp', k) \<and> slot_frame i sp sp'
    \<and> dead_entry (is_table sp ! i) (is_table sp' ! i)
    \<and> cap_inv sp' k (add_recv a (add_send a 1 (add_ref a 1 H))) X"
proof -
  let ?e = "is_table sp ! i"
  note d = right_atD [OF inv r]
  have s: "ie_bits ?e AND MACH_PORT_TYPE_SEND \<noteq> 0" using ty type_bit_iff(1) [of "ie_bits ?e"] by simp
  define inc where "inc \<longleftrightarrow> ie_request ?e \<noteq> IE_REQ_NONE"
  define b where "b = (ie_bits ?e AND NOT IE_BITS_TYPE_MASK) OR MACH_PORT_TYPE_DEAD_NAME"
  define f where "f = (\<lambda>e :: ipc_entry. (if ie_request ?e \<noteq> IE_REQ_NONE then e\<lparr>ie_request := IE_REQ_NONE\<rparr> else e)
                     \<lparr>ie_bits := (if inc then b + 1 else b), ie_object := IO_NULL\<rparr>)"
  have fe: "f ?e = ?e\<lparr>ie_request := IE_REQ_NONE, ie_bits := (if inc then b + 1 else b), ie_object := IO_NULL\<rparr>"
    by (cases ?e) (simp add: f_def)
  have ur: "entry_urefs ?e \<noteq> 0" "entry_urefs ?e \<noteq> MACH_PORT_UREFS_MAX"
    using d(5) ty by (auto simp: used_entry_at)
  have dead: "dead_entry ?e (f ?e)"
    unfolding fe by (rule dead_entry_bits [OF ur(2)]) (simp_all add: inc_def b_def)
  have dt: "entry_type (f ?e) = MACH_PORT_TYPE_DEAD_NAME" "ie_object (f ?e) = IO_NULL"
    using dead by (simp_all add: dead_entry_def)
  have un: "unhashed sp i sp" using ty by (intro unhashed_refl [OF inv]) simp
  have xf: "index_free f" by (simp add: index_free_def f_def)
  have "cap_inv (upd_entry sp i f) k (moved ?e (f ?e) a H) (if entry_type (f ?e) = 0 then insert i X else X - {i})"
    by (rule cap_inv_unhashed_upd(1) [OF inv d(6) un xf refl])
      (use dt dead_entry_used [OF dead ur(1)] slot_ok_no_port d(3,12,13) in simp_all)
  then have "cap_inv (upd_entry sp i f) k (add_recv a (add_send a 1 (add_ref a 1 H))) X"
    using dt d(9) moved_null [OF dt(2) d(12)] taken_at(4) [OF d(3) ty] by simp
  moreover have "ipc_right_lose_receive sp name i a k
      = Some (IP_NULL, ipc_entry_modified (upd_entry sp i f) name, k)"
    using d(1,4) pd s
    by (simp add: ipc_right_lose_receive_def Let_def upd_entry_twice inc_def b_def f_def)
  ultimately show ?thesis using dead d(1) by auto
qed

lemma lose_receive_only:
  assumes inv: "cap_inv sp k H X" and r: "right_at sp k i a p" and n: "MACH_PORT_INDEX name = i"
    and ty: "entry_type (is_table sp ! i) = MACH_PORT_TYPE_RECEIVE"
  shows "\<exists>rq sp' k' p'. ipc_right_lose_receive sp name i a k = Some (rq, sp', k') \<and> slot_frame i sp sp'
    \<and> gone (is_table sp ! i) (is_table sp' ! i) \<and> only_at a k k' \<and> port_at k' a = Some p'
    \<and> ip_pdrequest p' = ip_pdrequest p \<and> cap_inv sp' k' (add_recv a (add_ref a 1 H)) X"
proof -
  note d = right_atD [OF inv r]
  have s: "ie_bits (is_table sp ! i) AND MACH_PORT_TYPE_SEND = 0"
    using ty type_bit_iff(1) [of "ie_bits (is_table sp ! i)"] by simp
  obtain rq sp1 k1 p1 where c: "ipc_right_request_cancel_macro sp a name i k = Some (rq, sp1, k1)"
      "cap_inv sp1 k1 H X" "slot_frame i sp sp1" "only_at a k k1" "right_at sp1 k1 i a p1"
      "is_table sp1 ! i = (is_table sp ! i)\<lparr>ie_request := IE_REQ_NONE\<rparr>" "ip_pdrequest p1 = ip_pdrequest p"
    using request_cancel_inv [OF inv r] by blast
  have un: "unhashed sp1 i sp1" using ty c(6) by (intro unhashed_refl [OF c(2)]) simp
  obtain sp' where "ipc_entry_dealloc (set_object sp1 i IO_NULL) name i = Some sp'" "slot_frame i sp1 sp'"
      "cap_inv sp' k1 (taken (is_table sp1 ! i) a H) X" "gone (is_table sp1 ! i) (is_table sp' ! i)"
    using remove_right [OF c(2,5) _ un n] c(6) by auto
  moreover have "taken (is_table sp1 ! i) a H = add_recv a (add_ref a 1 H)"
    using taken_at(3) [OF right_atD(3) [OF c(2,5)]] ty c(6) by simp
  ultimately show ?thesis
    using c slot_frame_trans [OF c(3)] d(4) s right_atD(4) [OF c(2,5)]
    by (auto simp: gone_def ipc_right_lose_receive_def simp del: upd_entry_fields)
qed

lemma lose_receive_inv:
  assumes inv: "cap_inv sp k H X" and r: "right_at sp k i a p" and n: "MACH_PORT_INDEX name = i"
    and ty: "entry_type (is_table sp ! i) = MACH_PORT_TYPE_RECEIVE
      \<or> entry_type (is_table sp ! i) = MACH_PORT_TYPE_SEND_RECEIVE"
    and room: "ip_references p + 1 \<noteq> 0"
  shows "\<exists>rq sp' k' p'. ipc_right_lose_receive sp name i a k = Some (rq, sp', k') \<and> slot_frame i sp sp'
    \<and> only_at a k k' \<and> port_at k' a = Some p' \<and> ip_pdrequest p' = ip_pdrequest p
    \<and> \<not> recv_in (is_table sp') a
    \<and> cap_inv sp' k' (lost_receive (is_table sp ! i) p a H) X"
proof -
  let ?e = "is_table sp ! i"
  note d = right_atD [OF inv r]
  have rc: "entry_recv ?e a" using recv_bit [OF d(2)] ty d(3) by (simp add: entry_recv_def)
  have nr: "\<not> recv_in (is_table sp') a" if "slot_frame i sp sp'" "\<not> entry_recv (is_table sp' ! i) a" for sp'
    by (rule no_other_recv [OF inv d(1) rc that])
  have ng: "\<not> entry_recv e' a" if "dead_entry ?e e' \<or> gone ?e e'" for e'
    using that goneD [of ?e e'] type_bit_iff(2) [of "ie_bits e'"] by (auto simp: entry_recv_def dead_entry_def)
  consider (keep) "entry_type ?e = MACH_PORT_TYPE_SEND_RECEIVE" "ip_pdrequest p \<noteq> IP_NULL"
    | (dead) "entry_type ?e = MACH_PORT_TYPE_SEND_RECEIVE" "ip_pdrequest p = IP_NULL"
    | (recv) "entry_type ?e = MACH_PORT_TYPE_RECEIVE" using ty by blast
  then show ?thesis
  proof cases
    case keep
    then show ?thesis
      using lose_receive_keep_send [OF inv r n keep room] nr by (auto simp: lost_receive_def)
  next
    case dead
    then show ?thesis
      using lose_receive_to_dead [OF inv r n dead] nr ng d(4) by (fastforce simp: lost_receive_def)
  next
    case recv
    then show ?thesis
      using lose_receive_only [OF inv r n recv] nr ng by (fastforce simp: lost_receive_def)
  qed
qed

text \<open>The port after the loss of its receive right.\<close>

lemma clear_destroy_inv:
  assumes inv: "cap_inv sp k (lost_receive e p0 a H) X" and p: "port_at k a = Some p"
    and pd: "ip_pdrequest p = ip_pdrequest p0" and nr: "\<not> recv_in (is_table sp) a" and h: "0 \<le> h_refs H a"
  shows "\<exists>k1 k'. ipc_port_clear_receiver a k = Some k1 \<and> ipc_port_destroy a k1 = Some k' \<and> only_at a k k'
    \<and> cap_inv sp k' (if ip_pdrequest p0 \<noteq> IP_NULL then add_ref a 1 H else H) X"
proof -
  obtain s where s: "lost_receive e p0 a H = add_recv a (add_send a s (add_ref a 1 H))"
      "ip_pdrequest p0 \<noteq> IP_NULL \<Longrightarrow> s = 0"
    by (simp add: lost_receive_def)
  obtain k1 p1 where k1: "ipc_port_clear_receiver a k = Some k1" "only_at a k k1"
      "cap_inv sp k1 (lost_receive e p0 a H) X" "port_at k1 a = Some p1" "ip_pdrequest p1 = ip_pdrequest p"
    using ipc_port_clear_receiver_inv [OF inv p] by blast
  obtain k' where k': "ipc_port_destroy a k1 = Some k'" "only_at a k1 k'"
      "cap_inv sp k' (if ip_pdrequest p1 \<noteq> IP_NULL then add_send a s (add_ref a 1 H)
         else add_ref a (- 1) (add_send a s (add_ref a 1 H))) X"
      "ip_pdrequest p1 = IP_NULL \<longrightarrow> (\<forall>p'. port_at k' a = Some p' \<longrightarrow> \<not> ip_active p')"
    using ipc_port_destroy_inv [OF k1(3) [unfolded s(1)] k1(4) nr] h by auto
  have "cap_inv sp k' (if ip_pdrequest p0 \<noteq> IP_NULL then add_ref a 1 H else H) X"
  proof (cases "ip_pdrequest p0 = IP_NULL")
    case True
    then have "cap_inv sp k' (add_send a s H) X" using k'(3) k1(5) pd by simp
    then show ?thesis
      using cap_inv_inactive [of sp k' "add_send a s H" X a "- s" 0] k'(4) k1(5) pd True by simp
  next
    case False
    then show ?thesis using k'(3) k1(5) pd s(2) by simp
  qed
  then show ?thesis using k1(1) k'(1) only_at_trans [OF k1(2) k'(2)] by blast
qed

lemma kill_receive:
  assumes inv: "cap_inv sp k H X" and r: "right_at sp k i a p" and n: "MACH_PORT_INDEX name = i"
    and ty: "entry_type (is_table sp ! i) = MACH_PORT_TYPE_RECEIVE
      \<or> entry_type (is_table sp ! i) = MACH_PORT_TYPE_SEND_RECEIVE"
    and room: "ip_references p + 1 \<noteq> 0" and h: "0 \<le> h_refs H a"
  shows "\<exists>rq sp' k1 k2 k3. ipc_right_lose_receive sp name i a k = Some (rq, sp', k1)
    \<and> ipc_port_clear_receiver a (notify_no_senders_if ns ms k1) = Some k2 \<and> ipc_port_destroy a k2 = Some k3
    \<and> slot_frame i sp sp' \<and> only_at a k k3 \<and> \<not> recv_in (is_table sp') a
    \<and> cap_inv sp' k3 (if ip_pdrequest p \<noteq> IP_NULL then add_ref a 1 H else H) X"
proof -
  obtain rq sp1 k1 p1 where c: "ipc_right_lose_receive sp name i a k = Some (rq, sp1, k1)" "slot_frame i sp sp1"
      "only_at a k k1" "port_at k1 a = Some p1" "ip_pdrequest p1 = ip_pdrequest p"
      "\<not> recv_in (is_table sp1) a" "cap_inv sp1 k1 (lost_receive (is_table sp ! i) p a H) X"
    using lose_receive_inv [OF inv r n ty room] by blast
  have c': "cap_inv sp1 (notify_no_senders_if ns ms k1) (lost_receive (is_table sp ! i) p a H) X"
      "port_at (notify_no_senders_if ns ms k1) a = Some p1" using c(4,7) by simp_all
  obtain k2 k3 where k: "ipc_port_clear_receiver a (notify_no_senders_if ns ms k1) = Some k2"
      "ipc_port_destroy a k2 = Some k3" "only_at a (notify_no_senders_if ns ms k1) k3"
      "cap_inv sp1 k3 (if ip_pdrequest p \<noteq> IP_NULL then add_ref a 1 H else H) X"
    using clear_destroy_inv [OF c' c(5,6) h] by blast
  have "only_at a k (notify_no_senders_if ns ms k1)" using c(3) by simp
  then show ?thesis using c(1,2,6) k only_at_trans [OF _ k(3)] by blast
qed

subsection \<open>Changing user references\<close>

lemma delta_urefs:
  assumes d: "\<not> MACH_PORT_UREFS_UNDERFLOW (IE_BITS_UREFS b) delta"
      "\<not> MACH_PORT_UREFS_OVERFLOW (IE_BITS_UREFS b) delta"
  shows "IE_BITS_UREFS (b + delta) = IE_BITS_UREFS b + delta" "IE_BITS_TYPE (b + delta) = IE_BITS_TYPE b"
    "IE_BITS_GEN (b + delta) = IE_BITS_GEN b"
    "uint (IE_BITS_UREFS b + delta) = uint (IE_BITS_UREFS b) + sint delta"
proof -
  note r = urefs_delta_range [OF urefs_le_max d]
  show "IE_BITS_UREFS (b + delta) = IE_BITS_UREFS b + delta" "IE_BITS_TYPE (b + delta) = IE_BITS_TYPE b"
    "IE_BITS_GEN (b + delta) = IE_BITS_GEN b"
    using IE_BITS_add [OF r(2)] by simp_all
  show "uint (IE_BITS_UREFS b + delta) = uint (IE_BITS_UREFS b) + sint delta" by (rule r(1))
qed

lemma send_overflow:
  assumes u: "IE_BITS_UREFS b \<noteq> MACH_PORT_UREFS_MAX"
  shows "MACH_PORT_UREFS_OVERFLOW (IE_BITS_UREFS b + 1) delta \<longleftrightarrow> uint (IE_BITS_UREFS b) + sint delta > 65534"
proof -
  have "unat (IE_BITS_UREFS b + 1) < 65536" by (rule urefs_less_max [OF u])
  then have m: "IE_BITS_UREFS b + 1 \<le> MACH_PORT_UREFS_MAX" by (simp add: word_le_nat_alt)
  have "IE_BITS_UREFS b + 1 \<noteq> 0"
    using u urefs_le_max [of b] by (intro less_plus1) (simp add: order_less_le)
  from uint_plus1 [OF this] show ?thesis using urefs_overflow_iff [OF m] by auto
qed

text \<open>A change of the user references by \<open>delta\<close> that leaves some.\<close>

lemma add_urefs:
  assumes inv: "cap_inv sp k H X" and i: "i < length (is_table sp)"
    and ty: "entry_type (is_table sp ! i) \<in> {MACH_PORT_TYPE_SEND, MACH_PORT_TYPE_SEND_RECEIVE, MACH_PORT_TYPE_DEAD_NAME}"
    and d: "\<not> MACH_PORT_UREFS_UNDERFLOW (entry_urefs (is_table sp ! i)) delta"
      "if entry_type (is_table sp ! i) = MACH_PORT_TYPE_DEAD_NAME
       then \<not> MACH_PORT_UREFS_OVERFLOW (entry_urefs (is_table sp ! i)) delta
       else uint (entry_urefs (is_table sp ! i)) + sint delta < 65535"
    and z: "entry_urefs (is_table sp ! i) + delta \<noteq> 0"
  shows "cap_inv (set_bits sp i (ie_bits (is_table sp ! i) + delta)) k H X"
    "uref_change (is_table sp ! i) (is_table (set_bits sp i (ie_bits (is_table sp ! i) + delta)) ! i) delta"
proof -
  let ?e = "is_table sp ! i"
  have tn: "entry_type ?e \<noteq> 0" using ty by auto
  have o: "\<not> MACH_PORT_UREFS_OVERFLOW (entry_urefs ?e) delta"
    using d(2) urefs_overflow_iff [OF urefs_le_max, of "ie_bits ?e" delta] by (auto split: if_splits)
  note du = delta_urefs [OF d(1) o]
  have m: "entry_urefs ?e + delta \<noteq> MACH_PORT_UREFS_MAX" if "entry_type ?e \<noteq> MACH_PORT_TYPE_DEAD_NAME"
    using d(2) du(4) that by (auto simp: word_uint_eq_iff)
  show "cap_inv (set_bits sp i (ie_bits ?e + delta)) k H X"
    "uref_change ?e (is_table (set_bits sp i (ie_bits ?e + delta)) ! i) delta"
    using cap_inv_urefs(1,3) [OF inv i tn du(2,3,1) ty z m] by simp_all
qed

lemma port_set_slot:
  assumes inv: "cap_inv sp k H X" and i: "i < length (is_table sp)"
    "entry_type (is_table sp ! i) = MACH_PORT_TYPE_PORT_SET" and n: "MACH_PORT_INDEX name = i"
    and a: "ie_object (is_table sp ! i) = a" and h: "0 \<le> h_refs H a"
  shows "\<exists>sp' k'. ipc_entry_dealloc (set_object sp i IO_NULL) name i = Some sp' \<and> ipc_pset_destroy a k = Some k'
    \<and> slot_frame i sp sp' \<and> only_at a k k' \<and> cap_inv sp' k' H X \<and> gone (is_table sp ! i) (is_table sp' ! i)"
proof -
  have tn: "entry_type (is_table sp ! i) \<noteq> 0" using i(2) by simp
  note s = cap_inv_slot [OF inv i(1) tn]
  obtain ps where ps: "pset_at k a = Some ps"
    using cap_invD(3) [OF inv i(1)] i(2) a by (auto simp: slot_ok_def)
  have an: "a \<noteq> IO_NULL" and rq: "ie_request (is_table sp ! i) = IE_REQ_NONE"
    using s(1) i(2) a by (auto simp: used_entry_at IO_VALID_def)
  have un: "unhashed sp i sp" using i(2) by (intro unhashed_refl [OF inv]) simp
  obtain sp' where sp': "ipc_entry_dealloc (set_object sp i IO_NULL) name i = Some sp'" "slot_frame i sp sp'"
      "cap_inv sp' k (add_ref a 1 H) X" "gone (is_table sp ! i) (is_table sp' ! i)"
    using dealloc_unhashed [OF inv s(2) un, of "ie_object_update (\<lambda>_. IO_NULL)" name a] n an a rq ps s(5)
      taken_at(5) [OF a i(2), of H] by (auto simp: index_free_def gone_def pset_at_eq)
  obtain k' where "ipc_pset_destroy a k = Some k'" "only_at a k k'" "cap_inv sp' k' (add_ref a (- 1) (add_ref a 1 H)) X"
    using ipc_pset_destroy_inv [OF sp'(3) ps] h by auto
  then show ?thesis using sp' by (auto simp del: upd_entry_fields)
qed

text \<open>Which rights an entry has, by its type.\<close>

lemma type_bits_zero:
  assumes "used_entry e"
  shows "ie_bits e AND MACH_PORT_TYPE_SEND = 0 \<longleftrightarrow>
      entry_type e \<notin> {MACH_PORT_TYPE_SEND, MACH_PORT_TYPE_SEND_RECEIVE}"
    "ie_bits e AND MACH_PORT_TYPE_RECEIVE = 0 \<longleftrightarrow>
      entry_type e \<notin> {MACH_PORT_TYPE_RECEIVE, MACH_PORT_TYPE_SEND_RECEIVE}"
    "ie_bits e AND MACH_PORT_TYPE_SEND_ONCE = 0 \<longleftrightarrow> entry_type e \<noteq> MACH_PORT_TYPE_SEND_ONCE"
    "ie_bits e AND MACH_PORT_TYPE_PORT_SET = 0 \<longleftrightarrow> entry_type e \<noteq> MACH_PORT_TYPE_PORT_SET"
    "ie_bits e AND MACH_PORT_TYPE_DEAD_NAME = 0 \<longleftrightarrow> entry_type e \<noteq> MACH_PORT_TYPE_DEAD_NAME"
    "ie_bits e AND MACH_PORT_TYPE_SEND_RIGHTS = 0 \<longleftrightarrow>
      entry_type e \<notin> {MACH_PORT_TYPE_SEND, MACH_PORT_TYPE_SEND_RECEIVE, MACH_PORT_TYPE_SEND_ONCE}"
    "ie_bits e AND MACH_PORT_TYPE_PORT_RIGHTS = 0 \<longleftrightarrow> \<not> port_type (entry_type e)"
  using assms by (cases rule: used_entry_cases; simp add: IE_BITS_TYPE_def; subst type_bit_iff; simp add: IE_BITS_TYPE_def)+

lemma delta_port_set_inv:
  assumes inv: "cap_inv sp k H X" and i: "i < length (is_table sp)" "entry_type (is_table sp ! i) \<noteq> 0"
    and n: "MACH_PORT_INDEX name = i" and a: "ie_object (is_table sp ! i) = a" and h: "0 \<le> h_refs H a"
  shows "\<exists>kr sp' k'. ipc_right_delta_port_set sp name i delta k = Some (kr, sp', k') \<and> slot_frame i sp sp'
    \<and> only_at a k k' \<and> cap_inv sp' k' H X"
proof (cases "entry_type (is_table sp ! i) = MACH_PORT_TYPE_PORT_SET \<and> delta = - 1")
  case True
  then show ?thesis
    using port_set_slot [OF inv i(1) _ n a h] type_bits_zero(4) [OF cap_inv_slot(1) [OF inv i]] a
    by (auto simp: ipc_right_delta_port_set_def Let_def simp del: upd_entry_fields)
next
  case False
  then show ?thesis
    using inv type_bits_zero(4) [OF cap_inv_slot(1) [OF inv i]] by (auto simp: ipc_right_delta_port_set_def)
qed

lemma delta_receive_inv:
  assumes inv: "cap_inv sp k H X" and r: "right_at sp k i a p" and n: "MACH_PORT_INDEX name = i"
    and ty: "entry_type (is_table sp ! i) = MACH_PORT_TYPE_RECEIVE
      \<or> entry_type (is_table sp ! i) = MACH_PORT_TYPE_SEND_RECEIVE"
    and room: "ip_references p + 1 \<noteq> 0" and h: "0 \<le> h_refs H a" and g: "\<not> ip_guarded p"
  shows "\<exists>sp' k'. ipc_right_delta_receive sp name i (- 1) k = Some (KERN_SUCCESS, sp', k') \<and> slot_frame i sp sp'
    \<and> only_at a k k' \<and> cap_inv sp' k' (if ip_pdrequest p \<noteq> IP_NULL then add_ref a 1 H else H) X
    \<and> \<not> recv_in (is_table sp') a"
proof -
  note d = right_atD [OF inv r]
  have rb: "ie_bits (is_table sp ! i) AND MACH_PORT_TYPE_RECEIVE \<noteq> 0"
    using type_bits_zero(2) [OF d(5)] ty by simp
  obtain rq sp1 k1 k2 k3 where c: "ipc_right_lose_receive sp name i a k = Some (rq, sp1, k1)"
      "ipc_port_clear_receiver a (notify_no_senders_if IP_NULL 0 k1) = Some k2" "ipc_port_destroy a k2 = Some k3"
      "slot_frame i sp sp1" "only_at a k k3" "\<not> recv_in (is_table sp1) a"
      "cap_inv sp1 k3 (if ip_pdrequest p \<noteq> IP_NULL then add_ref a 1 H else H) X"
    using kill_receive [OF inv r n ty room h] by blast
  have "ipc_right_delta_receive sp name i (- 1) k = Some (KERN_SUCCESS, sp1, notify_port_deleted_if rq name k3)"
    using rb d(3,4) g c(1-3) by (simp add: ipc_right_delta_receive_def Let_def notify_no_senders_if_def)
  then show ?thesis using c by auto
qed

lemma delta_cases: "delta = - 1 \<or> delta = 0 \<or> sint delta > 0 \<or> sint delta < - 1"
  for delta :: mach_port_delta_t
proof -
  have w: "delta = word_of_int (sint delta)" by simp
  consider "sint delta = - 1" | "sint delta = 0" | "sint delta > 0 \<or> sint delta < - 1" by linarith
  then show ?thesis
  proof cases
    case 1
    with w have "delta = - 1" by (metis of_int_minus of_int_1)
    then show ?thesis ..
  next
    case 2
    with w have "delta = 0" by (metis of_int_0)
    then show ?thesis by simp
  qed simp
qed

lemma check_cases [consumes 3, case_names dead active]:
  assumes inv: "cap_inv sp k H X" and r: "right_at sp k i a p" and n: "MACH_PORT_INDEX name = i"
  obtains (dead) sp1 k1 where "\<not> ip_active p" "ipc_right_check sp a name i k = Some (True, sp1, k1)"
      "slot_frame i sp sp1" "only_at a k k1" "cap_inv sp1 k1 (add_ref a 1 H) X"
      "dead_entry (is_table sp ! i) (is_table sp1 ! i)" "\<exists>p'. port_at k1 a = Some p'"
    | (active) "ip_active p" "ipc_right_check sp a name i k = Some (False, sp, k)"
  using check_inv [OF inv r n] by (cases "ip_active p") auto

text \<open>Releasing the port after a right has been found dead.\<close>

lemma dead_then_release:
  assumes "cap_inv sp1 k1 (add_ref a 1 H) X" "\<exists>p'. port_at k1 a = Some p'" "0 \<le> h_refs H a"
  shows "\<exists>k'. ip_release a k1 = Some k' \<and> only_at a k1 k' \<and> cap_inv sp1 k' H X"
  using io_release_inv [OF assms(1), of a] assms(2,3) by auto

lemma delta_send_once_inv:
  assumes inv: "cap_inv sp k H X" and r: "right_at sp k i a p" and n: "MACH_PORT_INDEX name = i"
    and ty: "entry_type (is_table sp ! i) = MACH_PORT_TYPE_SEND_ONCE" and h: "0 \<le> h_refs H a"
  shows "\<exists>kr sp' k'. ipc_right_delta_send_once sp name i delta k = Some (kr, sp', k') \<and> slot_frame i sp sp'
    \<and> only_at a k k'
    \<and> cap_inv sp' k' (if ip_active p \<and> delta = - 1 then add_sonce a 1 (add_ref a 1 H) else H) X"
proof -
  note d = right_atD [OF inv r]
  have b: "ie_bits (is_table sp ! i) AND MACH_PORT_TYPE_SEND_ONCE \<noteq> 0" using type_bits_zero(3) [OF d(5)] ty by simp
  show ?thesis
    using inv r n
  proof (cases rule: check_cases)
    case (dead sp1 k1)
    from dead_then_release [OF dead(5,7) h] show ?thesis
      using dead(1-4) b d(3) only_at_trans [OF dead(4)]
      by (auto simp: ipc_right_delta_send_once_def Let_def)
  next
    case active
    consider "delta = - 1" | "delta = 0" | "sint delta > 0 \<or> sint delta < - 1" "delta \<noteq> - 1" "delta \<noteq> 0"
      using delta_cases [of delta] by blast
    then show ?thesis
    proof cases
      case 1
      from give_send_once [OF inv r n ty] show ?thesis
        using active 1 b d(3) by (auto simp: ipc_right_delta_send_once_def Let_def simp del: upd_entry_fields)
    qed (use active b d(3) inv in \<open>simp_all add: ipc_right_delta_send_once_def Let_def\<close>)
  qed
qed

lemma delta_dead_name_urefs_inv:
  assumes inv: "cap_inv sp k H X" and i: "i < length (is_table sp)"
    "entry_type (is_table sp ! i) = MACH_PORT_TYPE_DEAD_NAME" and n: "MACH_PORT_INDEX name = i"
    and p: "port \<noteq> IP_NULL \<Longrightarrow> port_at k port \<noteq> None \<and> 0 < h_refs H port"
  shows "\<exists>kr sp' k'. ipc_right_delta_dead_name_urefs sp name i delta port k = Some (kr, sp', k')
    \<and> slot_frame i sp sp' \<and> only_at port k k'
    \<and> cap_inv sp' k' (if port = IP_NULL \<or> kr \<noteq> KERN_SUCCESS then H else add_ref port (- 1) H) X"
proof -
  let ?e = "is_table sp ! i"
  consider (under) "MACH_PORT_UREFS_UNDERFLOW (entry_urefs ?e) delta"
    | (over) "\<not> MACH_PORT_UREFS_UNDERFLOW (entry_urefs ?e) delta" "MACH_PORT_UREFS_OVERFLOW (entry_urefs ?e) delta"
    | (ok) "\<not> MACH_PORT_UREFS_UNDERFLOW (entry_urefs ?e) delta" "\<not> MACH_PORT_UREFS_OVERFLOW (entry_urefs ?e) delta"
    by blast
  then show ?thesis
  proof cases
    case ok
    have "\<exists>sp'. (if entry_urefs ?e + delta = 0 then ipc_entry_dealloc sp name i
          else Some (ipc_entry_modified (set_bits sp i (ie_bits ?e + delta)) name)) = Some sp'
        \<and> slot_frame i sp sp' \<and> cap_inv sp' k H X"
    proof (cases "entry_urefs ?e + delta = 0")
      case True
      then show ?thesis using dealloc_dead_slot [OF inv i n] by auto
    next
      case False
      then show ?thesis using add_urefs(1) [OF inv i(1) _ ok(1), of] i(2) ok(2) by simp
    qed
    then obtain sp' where sp': "(if entry_urefs ?e + delta = 0 then ipc_entry_dealloc sp name i
          else Some (ipc_entry_modified (set_bits sp i (ie_bits ?e + delta)) name)) = Some sp'"
        "slot_frame i sp sp'" "cap_inv sp' k H X" by blast
    obtain k' where "(if port \<noteq> IP_NULL then ip_release port k else Some k) = Some k'" "only_at port k k'"
        "cap_inv sp' k' (if port = IP_NULL then H else add_ref port (- 1) H) X"
      using release_if_inv [OF sp'(3) p] by blast
    then show ?thesis
      using sp' ok by (auto simp: ipc_right_delta_dead_name_urefs_def Let_def simp del: upd_entry_fields)
  qed (use inv in \<open>simp_all add: ipc_right_delta_dead_name_urefs_def Let_def\<close>)
qed

text \<open>
  The exits on a bad count of user references leave the reference of a right that this very
  call has turned into a dead name in nobody's hand.
\<close>

lemma delta_dead_name_inv:
  assumes inv: "cap_inv sp k H X" and i: "i < length (is_table sp)" "entry_type (is_table sp ! i) \<noteq> 0"
    and n: "MACH_PORT_INDEX name = i" and a: "ie_object (is_table sp ! i) = a" and h: "0 \<le> h_refs H a"
  shows "\<exists>kr sp' k'. ipc_right_delta_dead_name sp name i delta k = Some (kr, sp', k') \<and> slot_frame i sp sp'
    \<and> only_at a k k'
    \<and> cap_inv sp' k' (if entry_type (is_table sp ! i) \<noteq> MACH_PORT_TYPE_DEAD_NAME
         \<and> kr \<in> {KERN_INVALID_VALUE, KERN_UREFS_OVERFLOW} then add_ref a 1 H else H) X"
proof -
  let ?e = "is_table sp ! i"
  note z = type_bits_zero [OF cap_inv_slot(1) [OF inv i]]
  consider (right) "entry_type ?e \<in> {MACH_PORT_TYPE_SEND, MACH_PORT_TYPE_SEND_RECEIVE, MACH_PORT_TYPE_SEND_ONCE}"
    | (dead) "entry_type ?e = MACH_PORT_TYPE_DEAD_NAME"
    | (none) "ie_bits ?e AND MACH_PORT_TYPE_SEND_RIGHTS = 0" "ie_bits ?e AND MACH_PORT_TYPE_DEAD_NAME = 0"
    using z(5,6) by blast
  then show ?thesis
  proof cases
    case right
    have sr: "ie_bits ?e AND MACH_PORT_TYPE_SEND_RIGHTS \<noteq> 0" using z(6) right by simp
    obtain p where r: "right_at sp k i a p" using cap_inv_right [OF inv i(1)] right a by auto
    note d = right_atD [OF inv r]
    show ?thesis
      using inv r n
    proof (cases rule: check_cases)
      case (dead sp1 k1)
      have i1: "i < length (is_table sp1)" using i(1) slot_frameD(5) [OF dead(3)] by simp
      have t1: "entry_type (is_table sp1 ! i) = MACH_PORT_TYPE_DEAD_NAME" using dead(6) by (simp add: dead_entry_def)
      obtain kr sp' k' where u: "ipc_right_delta_dead_name_urefs sp1 name i delta a k1 = Some (kr, sp', k')"
          "slot_frame i sp1 sp'" "only_at a k1 k'"
          "cap_inv sp' k' (if a = IP_NULL \<or> kr \<noteq> KERN_SUCCESS then add_ref a 1 H
             else add_ref a (- 1) (add_ref a 1 H)) X"
        using delta_dead_name_urefs_inv [OF dead(5) i1 t1 n, of a delta] dead(7) h by auto
      have "kr \<in> {KERN_SUCCESS, KERN_INVALID_VALUE, KERN_UREFS_OVERFLOW}"
        using u(1) by (auto simp: ipc_right_delta_dead_name_urefs_def Let_def bind_eq_Some_conv split: if_splits)
      then show ?thesis
        using u dead(2) sr a right d(12) slot_frame_trans [OF dead(3) u(2)] only_at_trans [OF dead(4) u(3)]
        by (auto simp: ipc_right_delta_dead_name_def Let_def)
    next
      case active
      then show ?thesis using sr inv a by (simp add: ipc_right_delta_dead_name_def Let_def)
    qed
  next
    case dead
    have "ie_bits ?e AND MACH_PORT_TYPE_SEND_RIGHTS = 0" "ie_bits ?e AND MACH_PORT_TYPE_DEAD_NAME \<noteq> 0"
      using dead z(5,6) by simp_all
    then show ?thesis
      using delta_dead_name_urefs_inv [OF inv i(1) dead n, of IP_NULL delta] dead a
        cap_inv_slot(1) [OF inv i] by (auto simp: ipc_right_delta_dead_name_def Let_def used_entry_at)
  next
    case none
    then show ?thesis using inv by (simp add: ipc_right_delta_dead_name_def Let_def)
  qed
qed

text \<open>The send right of a send-receive entry, with the notification of its loss.\<close>

lemma give_send_bit:
  assumes inv: "cap_inv sp k H X" and r: "right_at sp k i a p"
    and ty: "entry_type (is_table sp ! i) = MACH_PORT_TYPE_SEND_RECEIVE" and h: "0 \<le> h_sends H a"
    and b: "b = ie_bits (is_table sp ! i) AND NOT (IE_BITS_UREFS_MASK OR MACH_PORT_TYPE_SEND)"
  shows "\<exists>ns ms k' p'. ipc_right_drop_send a k = Some (ns, ms, k') \<and> cap_inv (set_bits sp i b) k' H X
    \<and> only_at a k k' \<and> right_at (set_bits sp i b) k' i a p'
    \<and> entry_type (is_table (set_bits sp i b) ! i) = MACH_PORT_TYPE_RECEIVE
    \<and> ip_references p' = ip_references p \<and> ip_pdrequest p' = ip_pdrequest p"
proof -
  note d = right_atD [OF inv r]
  have s: "ie_bits (is_table sp ! i) AND MACH_PORT_TYPE_SEND \<noteq> 0" using type_bits_zero(1) [OF d(5)] ty by simp
  have act: "ip_active p" using d(14) ty by simp
  obtain ns ms k1 p1 where c1: "ipc_right_drop_send a k = Some (ns, ms, k1)"
      "cap_inv sp k1 (add_send a (- 1) H) X" "only_at a k k1" "port_at k1 a = Some p1"
      "ip_references p1 = ip_references p" "ip_pdrequest p1 = ip_pdrequest p"
    using drop_send_inv [OF inv d(4) sends_pos [OF inv r h s]] by blast
  have r1: "right_at sp k1 i a p1" using r c1(4) by (simp add: right_at_def)
  note b' = drop_send_bit [OF c1(2) r1 ty b]
  have "right_at (set_bits sp i b) k1 i a p1" using r1 b'(2) d(1) by (simp add: right_at_def)
  then show ?thesis using c1 b' d(1) by auto
qed

lemma delta_last_send_inv:
  assumes inv: "cap_inv sp k H X" and r: "right_at sp k i a p" and n: "MACH_PORT_INDEX name = i"
    and ty: "entry_type (is_table sp ! i) \<in> {MACH_PORT_TYPE_SEND, MACH_PORT_TYPE_SEND_RECEIVE}"
    and act: "ip_active p" and h: "0 \<le> h_refs H a" "0 \<le> h_sends H a"
  shows "\<exists>sp' k'. ipc_right_delta_last_send sp name i a k = Some (KERN_SUCCESS, sp', k') \<and> slot_frame i sp sp'
    \<and> only_at a k k' \<and> cap_inv sp' k' H X
    \<and> (if entry_type (is_table sp ! i) = MACH_PORT_TYPE_SEND then gone (is_table sp ! i) (is_table sp' ! i)
       else entry_type (is_table sp' ! i) = MACH_PORT_TYPE_RECEIVE)"
proof (cases "entry_type (is_table sp ! i) = MACH_PORT_TYPE_SEND")
  case True
  have "ie_bits (is_table sp ! i) AND MACH_PORT_TYPE_RECEIVE = 0"
    using type_bits_zero(2) [OF right_atD(5) [OF inv r]] True by simp
  with give_last_send [OF inv r n True act h] True show ?thesis
    by (auto simp: ipc_right_delta_last_send_def Let_def simp del: upd_entry_fields)
next
  case False
  then have sr: "entry_type (is_table sp ! i) = MACH_PORT_TYPE_SEND_RECEIVE" using ty by simp
  have "ie_bits (is_table sp ! i) AND MACH_PORT_TYPE_RECEIVE \<noteq> 0"
    using type_bits_zero(2) [OF right_atD(5) [OF inv r]] sr by simp
  with give_send_bit [OF inv r sr h(2) refl] sr show ?thesis
    by (auto simp: ipc_right_delta_last_send_def Let_def notify_port_deleted_if_def simp del: upd_entry_fields)
qed

lemma delta_send_inv:
  assumes inv: "cap_inv sp k H X" and r: "right_at sp k i a p" and n: "MACH_PORT_INDEX name = i"
    and ty: "entry_type (is_table sp ! i) \<in> {MACH_PORT_TYPE_SEND, MACH_PORT_TYPE_SEND_RECEIVE}"
    and h: "0 \<le> h_refs H a" "0 \<le> h_sends H a"
  shows "\<exists>kr sp' k'. ipc_right_delta_send sp name i delta k = Some (kr, sp', k') \<and> slot_frame i sp sp'
    \<and> only_at a k k' \<and> cap_inv sp' k' H X
    \<and> (ip_active p \<longrightarrow>
        (let u = uint (entry_urefs (is_table sp ! i)) + sint delta in
         if u < 0 then kr = KERN_INVALID_VALUE \<and> sp' = sp \<and> k' = k
         else if u > 65534 then kr = KERN_UREFS_OVERFLOW \<and> sp' = sp \<and> k' = k
         else kr = KERN_SUCCESS
           \<and> (if u = 0 then entry_type (is_table sp ! i) = MACH_PORT_TYPE_SEND \<longrightarrow> gone (is_table sp ! i) (is_table sp' ! i)
              else k' = k \<and> uref_change (is_table sp ! i) (is_table sp' ! i) delta
                \<and> uint (entry_urefs (is_table sp' ! i)) = u)))"
proof -
  let ?e = "is_table sp ! i" and ?u = "uint (entry_urefs (is_table sp ! i)) + sint delta"
  note d = right_atD [OF inv r]
  have s: "ie_bits ?e AND MACH_PORT_TYPE_SEND \<noteq> 0" using type_bits_zero(1) [OF d(5)] ty by simp
  have mx: "entry_urefs ?e \<noteq> MACH_PORT_UREFS_MAX" using d(5) ty by (auto simp: used_entry_at)
  show ?thesis
    using inv r n
  proof (cases rule: check_cases)
    case (dead sp1 k1)
    from dead_then_release [OF dead(5,7) h(1)] show ?thesis
      using dead(1-4) s d(3) only_at_trans [OF dead(4)]
      by (auto simp: ipc_right_delta_send_def Let_def)
  next
    case active
    note under = urefs_underflow_iff [of "entry_urefs ?e" delta] and over = send_overflow [OF mx, of delta]
    consider "?u < 0" | "?u > 65534" | "0 \<le> ?u" "?u \<le> 65534" by linarith
    then show ?thesis
    proof cases
      case 3
      have o: "\<not> MACH_PORT_UREFS_OVERFLOW (entry_urefs ?e) delta"
        using 3 urefs_overflow_iff [OF urefs_le_max, of "ie_bits ?e" delta] by simp
      have uf: "\<not> MACH_PORT_UREFS_UNDERFLOW (entry_urefs ?e) delta" using 3 under by simp
      note du = delta_urefs [OF uf o]
      have zero: "entry_urefs ?e + delta = 0 \<longleftrightarrow> ?u = 0" using du(4) by (auto simp: word_uint_eq_iff)
      show ?thesis
      proof (cases "?u = 0")
        case True
        then show ?thesis
          using delta_last_send_inv [OF inv r n ty active(1) h] zero active s d(3) 3 under over
          by (auto simp: ipc_right_delta_send_def Let_def)
      next
        case False
        have t: "entry_type ?e \<in> {MACH_PORT_TYPE_SEND, MACH_PORT_TYPE_SEND_RECEIVE, MACH_PORT_TYPE_DEAD_NAME}"
          "entry_type ?e \<noteq> MACH_PORT_TYPE_DEAD_NAME" using ty by auto
        note add = add_urefs [OF inv d(1) t(1) uf, of]
        show ?thesis
          using add t(2) 3 False zero active s d(3) under over du(4)
          by (auto simp: ipc_right_delta_send_def Let_def uref_change_def simp del: upd_entry_fields)
      qed
    qed (use active s d(3) inv under over in \<open>auto simp: ipc_right_delta_send_def Let_def\<close>)
  qed
qed

text \<open>
  What is in the hand after \<open>ipc_right_delta\<close> has returned \<open>kr\<close>: a send-once right that has gone into
  a notification; a receive right that has gone into a port-destroyed notification; and the
  reference that is lost in the error exits of the dead-name case.
\<close>

definition delta_holdings ::
    "ipc_space \<Rightarrow> kern \<Rightarrow> nat \<Rightarrow> mach_port_right_t \<Rightarrow> mach_port_delta_t \<Rightarrow> kern_return \<Rightarrow> holdings \<Rightarrow> holdings" where
  "delta_holdings sp k i right delta kr H =
     (let e = is_table sp ! i; a = ie_object e in
      case port_at k a of
        None \<Rightarrow> H
      | Some p \<Rightarrow>
          if right = MACH_PORT_RIGHT_SEND_ONCE \<and> entry_type e = MACH_PORT_TYPE_SEND_ONCE \<and> ip_active p \<and> delta = - 1
          then add_sonce a 1 (add_ref a 1 H)
          else if right = MACH_PORT_RIGHT_RECEIVE \<and> entry_type e \<in> {MACH_PORT_TYPE_RECEIVE, MACH_PORT_TYPE_SEND_RECEIVE}
                  \<and> delta = - 1 \<and> \<not> ip_guarded p \<and> ip_pdrequest p \<noteq> IP_NULL
          then add_ref a 1 H
          else if right = MACH_PORT_RIGHT_DEAD_NAME \<and> kr \<in> {KERN_INVALID_VALUE, KERN_UREFS_OVERFLOW}
          then add_ref a 1 H
          else H)"

lemma cap_inv_null_port [simp]: "cap_inv sp k H X \<Longrightarrow> port_at k IO_NULL = None"
  using cap_invD(2) [of sp k H X] by (simp add: heap_ok_def port_at_def)

lemma cap_inv_pset_port:
  assumes "cap_inv sp k H X" "i < length (is_table sp)" "entry_type (is_table sp ! i) = MACH_PORT_TYPE_PORT_SET"
  shows "port_at k (ie_object (is_table sp ! i)) = None"
  using cap_invD(3) [OF assms(1,2)] assms(3) by (auto simp: slot_ok_def pset_at_eq port_at_def)

lemma right_cases:
  assumes "right \<le> MACH_PORT_RIGHT_DEAD_NAME"
  shows "right \<in> {MACH_PORT_RIGHT_SEND, MACH_PORT_RIGHT_RECEIVE, MACH_PORT_RIGHT_SEND_ONCE,
    MACH_PORT_RIGHT_PORT_SET, MACH_PORT_RIGHT_DEAD_NAME}"
proof -
  have "unat right \<le> 4" using assms by (simp add: word_le_nat_alt)
  then have "unat right = 0 \<or> unat right = 1 \<or> unat right = 2 \<or> unat right = 3 \<or> unat right = 4" by linarith
  then show ?thesis by (auto simp: word_unat_eq_iff)
qed

lemma ipc_right_delta_inv:
  assumes inv: "cap_inv sp k H X" and i: "i < length (is_table sp)" "entry_type (is_table sp ! i) \<noteq> 0"
    and n: "MACH_PORT_INDEX name = i" and a: "ie_object (is_table sp ! i) = a"
    and h: "0 \<le> h_refs H a" "0 \<le> h_sends H a" and room: "port_room k a"
    and right: "right \<le> MACH_PORT_RIGHT_DEAD_NAME"
  shows "\<exists>kr sp' k'. ipc_right_delta sp name i right delta k = Some (kr, sp', k') \<and> slot_frame i sp sp'
    \<and> only_at a k k' \<and> cap_inv sp' k' (delta_holdings sp k i right delta kr H) X"
proof -
  let ?e = "is_table sp ! i"
  have use: "used_entry ?e" by (rule cap_inv_slot(1) [OF inv i])
  note z = type_bits_zero [OF use]
  have pt: "\<exists>p. right_at sp k i a p" if "port_type (entry_type ?e)"
    using cap_inv_right [OF inv i(1) that] a by simp
  have np: "port_at k a = None" if "\<not> port_type (entry_type ?e)"
    using use that cap_inv_pset_port [OF inv i(1)] cap_inv_null_port [OF inv] a
    by (elim used_entry_cases) auto
  consider (ps) "right = MACH_PORT_RIGHT_PORT_SET" | (rc) "right = MACH_PORT_RIGHT_RECEIVE"
    | (so) "right = MACH_PORT_RIGHT_SEND_ONCE" | (dn) "right = MACH_PORT_RIGHT_DEAD_NAME"
    | (sn) "right = MACH_PORT_RIGHT_SEND"
    using right_cases [OF right] by blast
  then show ?thesis
  proof cases
    case ps
    then show ?thesis
      using delta_port_set_inv [OF inv i n a h(1), of delta]
      by (auto simp: ipc_right_delta_def delta_holdings_def Let_def split: option.splits)
  next
    case rc
    show ?thesis
    proof (cases "entry_type ?e \<in> {MACH_PORT_TYPE_RECEIVE, MACH_PORT_TYPE_SEND_RECEIVE} \<and> delta = - 1")
      case True
      then obtain p where r: "right_at sp k i a p" using pt by auto
      note d = right_atD [OF inv r]
      have rm: "ip_references p + 1 \<noteq> 0" using room d(4) room_plus1 by (simp add: port_room_def)
      show ?thesis
      proof (cases "ip_guarded p")
        case False
        then show ?thesis
          using delta_receive_inv [OF inv r n _ rm h(1) False] True rc d(4) a
          by (auto simp: ipc_right_delta_def delta_holdings_def Let_def)
      next
        case g: True
        then show ?thesis
          using True rc d(4) a z(2) inv
          by (auto simp: ipc_right_delta_def ipc_right_delta_receive_def delta_holdings_def Let_def)
      qed
    next
      case False
      then show ?thesis
        using rc inv z(2)
        by (auto simp: ipc_right_delta_def ipc_right_delta_receive_def delta_holdings_def Let_def split: option.splits)
    qed
  next
    case so
    show ?thesis
    proof (cases "entry_type ?e = MACH_PORT_TYPE_SEND_ONCE")
      case True
      then obtain p where r: "right_at sp k i a p" using pt by auto
      then show ?thesis
        using delta_send_once_inv [OF inv r n True h(1), of delta] True so right_atD(4) [OF inv r] a
        by (auto simp: ipc_right_delta_def delta_holdings_def Let_def)
    next
      case False
      then show ?thesis
        using so inv z(3)
        by (auto simp: ipc_right_delta_def ipc_right_delta_send_once_def delta_holdings_def Let_def split: option.splits)
    qed
  next
    case dn
    obtain kr sp' k' where c: "ipc_right_delta_dead_name sp name i delta k = Some (kr, sp', k')"
        "slot_frame i sp sp'" "only_at a k k'"
        "cap_inv sp' k' (if entry_type ?e \<noteq> MACH_PORT_TYPE_DEAD_NAME
           \<and> kr \<in> {KERN_INVALID_VALUE, KERN_UREFS_OVERFLOW} then add_ref a 1 H else H) X"
      using delta_dead_name_inv [OF inv i n a h(1), of delta] by blast
    have "kr = KERN_INVALID_RIGHT" if "entry_type ?e = MACH_PORT_TYPE_PORT_SET"
      using c(1) z(5,6) that by (auto simp: ipc_right_delta_dead_name_def Let_def)
    then have "delta_holdings sp k i right delta kr H = (if entry_type ?e \<noteq> MACH_PORT_TYPE_DEAD_NAME
           \<and> kr \<in> {KERN_INVALID_VALUE, KERN_UREFS_OVERFLOW} then add_ref a 1 H else H)"
      using use dn np pt by (elim used_entry_cases) (auto simp: delta_holdings_def a right_at_def)
    then show ?thesis using c dn by (auto simp: ipc_right_delta_def)
  next
    case sn
    show ?thesis
    proof (cases "entry_type ?e \<in> {MACH_PORT_TYPE_SEND, MACH_PORT_TYPE_SEND_RECEIVE}")
      case True
      then obtain p where r: "right_at sp k i a p" using pt by auto
      then show ?thesis
        using delta_send_inv [OF inv r n True h, of delta] sn right_atD(4) [OF inv r] a
        by (auto simp: ipc_right_delta_def delta_holdings_def Let_def)
    next
      case False
      then show ?thesis
        using sn inv z(1)
        by (auto simp: ipc_right_delta_def ipc_right_delta_send_def delta_holdings_def Let_def split: option.splits)
    qed
  qed
qed

subsection \<open>Destructing a receive right\<close>

lemma destruct_srights_inv:
  assumes inv: "cap_inv sp k H X" and r: "right_at sp k i a p"
    and ty: "entry_type (is_table sp ! i) = MACH_PORT_TYPE_RECEIVE
      \<or> entry_type (is_table sp ! i) = MACH_PORT_TYPE_SEND_RECEIVE"
    and dl: "srdelta \<noteq> 0 \<longrightarrow> entry_type (is_table sp ! i) = MACH_PORT_TYPE_SEND_RECEIVE" "sint srdelta \<le> 0"
    and h: "0 \<le> h_sends H a"
  shows "ipc_right_destruct_srights sp i srdelta a k = Some None
    \<or> (\<exists>ns ms sp1 k1 p1. ipc_right_destruct_srights sp i srdelta a k = Some (Some (ns, ms, sp1, k1))
        \<and> cap_inv sp1 k1 H X \<and> slot_frame i sp sp1 \<and> only_at a k k1 \<and> right_at sp1 k1 i a p1
        \<and> (entry_type (is_table sp1 ! i) = MACH_PORT_TYPE_RECEIVE
            \<or> entry_type (is_table sp1 ! i) = MACH_PORT_TYPE_SEND_RECEIVE)
        \<and> ip_references p1 = ip_references p \<and> ip_pdrequest p1 = ip_pdrequest p)"
proof -
  let ?e = "is_table sp ! i"
  note d = right_atD [OF inv r]
  consider (none) "srdelta = 0" | (under) "srdelta \<noteq> 0" "MACH_PORT_UREFS_UNDERFLOW (entry_urefs ?e) srdelta"
    | (last) "srdelta \<noteq> 0" "\<not> MACH_PORT_UREFS_UNDERFLOW (entry_urefs ?e) srdelta" "entry_urefs ?e + srdelta = 0"
    | (some) "srdelta \<noteq> 0" "\<not> MACH_PORT_UREFS_UNDERFLOW (entry_urefs ?e) srdelta" "entry_urefs ?e + srdelta \<noteq> 0"
    by blast
  then show ?thesis
  proof cases
    case none
    then show ?thesis using inv r ty by (auto simp: ipc_right_destruct_srights_def)
  next
    case under
    then show ?thesis by (simp add: ipc_right_destruct_srights_def Let_def)
  next
    case last
    then show ?thesis
      using give_send_bit [OF inv r dl(1) [rule_format, OF last(1)] h refl]
      by (auto simp: ipc_right_destruct_srights_def Let_def simp del: upd_entry_fields)
  next
    case some
    have sr: "entry_type ?e = MACH_PORT_TYPE_SEND_RECEIVE" using dl(1) some(1) by blast
    have "entry_urefs ?e < MACH_PORT_UREFS_MAX"
      using d(5) sr urefs_le_max [of "ie_bits ?e"] by (simp add: used_entry_at order_less_le)
    then have "uint (entry_urefs ?e) + sint srdelta < 65535" using dl(2) by (simp add: word_less_def)
    then have add: "cap_inv (set_bits sp i (ie_bits ?e + srdelta)) k H X"
        "uref_change ?e (is_table (set_bits sp i (ie_bits ?e + srdelta)) ! i) srdelta"
      using add_urefs [OF inv d(1) _ some(2)] sr some(3) by auto
    have "right_at (set_bits sp i (ie_bits ?e + srdelta)) k i a p"
      using add(2) d(1-4) by (simp add: right_at_def uref_change_def)
    then show ?thesis
      using some add sr by (auto simp: ipc_right_destruct_srights_def Let_def uref_change_def simp del: upd_entry_fields)
  qed
qed

lemma ipc_right_destruct_inv:
  assumes inv: "cap_inv sp k H X" and i: "i < length (is_table sp)" "entry_type (is_table sp ! i) \<noteq> 0"
    and n: "MACH_PORT_INDEX name = i" and a: "ie_object (is_table sp ! i) = a"
    and h: "0 \<le> h_refs H a" "0 \<le> h_sends H a" and room: "port_room k a"
  shows "\<exists>kr sp' k'. ipc_right_destruct sp name i srdelta guard k = Some (kr, sp', k') \<and> slot_frame i sp sp'
    \<and> only_at a k k'
    \<and> cap_inv sp' k' (if kr = KERN_SUCCESS \<and> (\<exists>p. port_at k a = Some p \<and> ip_pdrequest p \<noteq> IP_NULL)
         then add_ref a 1 H else H) X"
proof -
  let ?e = "is_table sp ! i"
  note z = type_bits_zero [OF cap_inv_slot(1) [OF inv i]]
  consider (bad) "ie_bits ?e AND MACH_PORT_TYPE_RECEIVE = 0 \<or> srdelta \<noteq> 0 \<and> ie_bits ?e AND MACH_PORT_TYPE_SEND = 0"
    | (pos) "\<not> (ie_bits ?e AND MACH_PORT_TYPE_RECEIVE = 0 \<or> srdelta \<noteq> 0 \<and> ie_bits ?e AND MACH_PORT_TYPE_SEND = 0)"
        "sint srdelta > 0"
    | (ok) "\<not> (ie_bits ?e AND MACH_PORT_TYPE_RECEIVE = 0 \<or> srdelta \<noteq> 0 \<and> ie_bits ?e AND MACH_PORT_TYPE_SEND = 0)"
        "sint srdelta \<le> 0" by linarith
  then show ?thesis
  proof cases
    case ok
    then have ty: "entry_type ?e = MACH_PORT_TYPE_RECEIVE \<or> entry_type ?e = MACH_PORT_TYPE_SEND_RECEIVE"
        "srdelta \<noteq> 0 \<longrightarrow> entry_type ?e = MACH_PORT_TYPE_SEND_RECEIVE"
      using z(1,2) by auto
    obtain p where r: "right_at sp k i a p" using cap_inv_right [OF inv i(1)] ty a by auto
    note d = right_atD [OF inv r]
    show ?thesis
    proof (cases "ip_guarded p \<and> guard \<noteq> ip_context p")
      case True
      then show ?thesis using ok d(3,4) inv by (simp add: ipc_right_destruct_def Let_def)
    next
      case False
      from destruct_srights_inv [OF inv r ty ok(2) h(2)] show ?thesis
      proof
        assume "ipc_right_destruct_srights sp i srdelta a k = Some None"
        then show ?thesis using ok False d(3,4) inv by (simp add: ipc_right_destruct_def Let_def)
      next
        assume "\<exists>ns ms sp1 k1 p1. ipc_right_destruct_srights sp i srdelta a k = Some (Some (ns, ms, sp1, k1))
          \<and> cap_inv sp1 k1 H X \<and> slot_frame i sp sp1 \<and> only_at a k k1 \<and> right_at sp1 k1 i a p1
          \<and> (entry_type (is_table sp1 ! i) = MACH_PORT_TYPE_RECEIVE
              \<or> entry_type (is_table sp1 ! i) = MACH_PORT_TYPE_SEND_RECEIVE)
          \<and> ip_references p1 = ip_references p \<and> ip_pdrequest p1 = ip_pdrequest p"
        then obtain ns ms sp1 k1 p1 where
            s: "ipc_right_destruct_srights sp i srdelta a k = Some (Some (ns, ms, sp1, k1))"
            "cap_inv sp1 k1 H X" "slot_frame i sp sp1" "only_at a k k1" "right_at sp1 k1 i a p1"
            "entry_type (is_table sp1 ! i) = MACH_PORT_TYPE_RECEIVE \<or> entry_type (is_table sp1 ! i) = MACH_PORT_TYPE_SEND_RECEIVE"
            "ip_references p1 = ip_references p" "ip_pdrequest p1 = ip_pdrequest p"
          by blast
        have rm: "ip_references p1 + 1 \<noteq> 0" using room d(4) room_plus1 s(7) by (simp add: port_room_def)
        obtain rq sp2 k2 k3 k4 where c: "ipc_right_lose_receive sp1 name i a k1 = Some (rq, sp2, k2)"
            "ipc_port_clear_receiver a (notify_no_senders_if ns ms k2) = Some k3" "ipc_port_destroy a k3 = Some k4"
            "slot_frame i sp1 sp2" "only_at a k1 k4"
            "cap_inv sp2 k4 (if ip_pdrequest p1 \<noteq> IP_NULL then add_ref a 1 H else H) X"
          using kill_receive [OF s(2,5) n s(6) rm h(1)] by blast
        then show ?thesis
          using s ok False d(3,4) slot_frame_trans [OF s(3) c(4)] only_at_trans [OF s(4) c(5)]
          by (auto simp: ipc_right_destruct_def Let_def)
      qed
    qed
  qed (use inv in \<open>simp_all add: ipc_right_destruct_def Let_def\<close>)
qed

subsection \<open>Destroying an entry\<close>

text \<open>Deleting from the reverse table commutes with updates of the entry that keep its object.\<close>

lemma unhashed_delete_upd:
  assumes inv: "cap_inv sp k H X" and i: "i < length (is_table sp)"
    "entry_type (is_table sp ! i) = MACH_PORT_TYPE_SEND" and n: "MACH_PORT_INDEX name = i"
    and f: "index_free f" "ie_object (f (is_table sp ! i)) = a" "ie_object (is_table sp ! i) = a"
  shows "\<exists>sp1. ipc_hash_delete (upd_entry sp i f) a name = Some (upd_entry sp1 i f) \<and> unhashed sp i sp1"
proof -
  let ?t = "is_table sp" and ?u = "(is_table sp)[i := f (is_table sp ! i)]"
  obtain L where "space_wf sp L X" using cap_invD(1) [OF inv] by blast
  then have "hash_wf ?t (send_slots ?t)" by (simp add: space_wf_def table_wf_def)
  then have h: "hash_wf ?u (send_slots ?t)"
    using hash_wf_update [of ?t "send_slots ?t" "f (?t ! i)" i] index_freeD(1) [OF f(1)] f(2,3) by simp
  have "i \<in> send_slots ?t" "ob ?u i = a" using i f(2) by (simp_all add: send_slots_def)
  then obtain t1 where t1: "ipc_hash_table_delete ?u (length ?t) a i = Some t1"
      "hash_wf t1 (send_slots ?t - {i})" "same_payload ?u t1"
    using ipc_hash_table_delete_correct [OF h] by fastforce
  have len: "length t1 = length ?t" using same_payload_length [OF t1(3)] by simp
  define e where "e = (?t ! i)\<lparr>ie_index := ie_index (t1 ! i)\<rparr>"
  define sp1 where "sp1 = sp\<lparr>is_table := t1[i := e]\<rparr>"
  have fe: "f e = t1 ! i"
  proof -
    have "(t1 ! i)\<lparr>ie_index := 0\<rparr> = (f (?t ! i))\<lparr>ie_index := 0\<rparr>"
      using same_payload_nth [OF t1(3), of i] i(1) by simp
    then have "(t1 ! i)\<lparr>ie_index := 0\<rparr>\<lparr>ie_index := ie_index (t1 ! i)\<rparr>
        = (f (?t ! i))\<lparr>ie_index := 0\<rparr>\<lparr>ie_index := ie_index (t1 ! i)\<rparr>" by (rule arg_cong)
    then have "t1 ! i = (f (?t ! i))\<lparr>ie_index := ie_index (t1 ! i)\<rparr>" by (cases "t1 ! i") simp
    then show ?thesis unfolding e_def index_freeD(2) [OF f(1), symmetric] by simp
  qed
  have "same_payload ?t (t1[i := e])"
  proof (rule same_payloadI)
    fix j assume j: "j < length ?t"
    then show "ie_object (t1[i := e] ! j) = ie_object (?t ! j) \<and> ie_bits (t1[i := e] ! j) = ie_bits (?t ! j)
        \<and> ie_request (t1[i := e] ! j) = ie_request (?t ! j)"
      using same_payload_fields [OF t1(3), of j] len by (cases "j = i") (simp_all add: e_def)
  qed (simp add: len)
  moreover have "hash_wf (t1[i := e]) (send_slots ?t - {i})"
    by (rule hash_wf_update [OF t1(2)]) (simp_all add: e_def)
  ultimately have "unhashed sp i sp1" by (simp add: unhashed_def sp1_def)
  moreover have "upd_entry sp1 i f = sp\<lparr>is_table := t1\<rparr>"
    using i(1) len fe by (simp add: sp1_def upd_entry_def)
  ultimately show ?thesis
    using t1(1) n by (intro exI [of _ sp1]) (simp add: ipc_hash_delete_def is_table_size_def upd_entry_def)
qed

text \<open>Cancelling the request of an entry whose other fields have already been changed.\<close>

lemma cancel_eq:
  assumes inv: "cap_inv sp k H X" and r: "right_at sp k i a p"
    and q: "ie_request (is_table sp1 ! i) = ie_request (is_table sp ! i)"
  shows "\<exists>prev k' p'. ipc_right_request_cancel_macro sp1 a name i k = Some (prev,
      (if ie_request (is_table sp ! i) = IE_REQ_NONE then sp1
       else ipc_entry_modified (set_request sp1 i IE_REQ_NONE) name), k')
    \<and> cap_inv sp k' H X \<and> only_at a k k' \<and> port_at k' a = Some p' \<and> port_like p p'
    \<and> ip_references p' = ip_references p \<and> ip_pdrequest p' = ip_pdrequest p"
proof (cases "ie_request (is_table sp ! i) = IE_REQ_NONE")
  case True
  then show ?thesis
    using q inv right_atD(4) [OF inv r] by (auto simp: ipc_right_request_cancel_macro_def port_like_def)
next
  case False
  note d = right_atD [OF inv r]
  obtain prev table where c: "ipc_port_request_cancel p (ie_request (is_table sp ! i))
        = Some (prev, p\<lparr>ip_requests := Some table\<rparr>)" "port_like p (p\<lparr>ip_requests := Some table\<rparr>)"
    using request_cancel_eq [OF d(10) False d(11)] by blast
  have "cap_inv sp (put_port a (p\<lparr>ip_requests := Some table\<rparr>) k) H X"
    using cap_inv_same_counts [OF inv d(4) c(2)] by simp
  then show ?thesis
    using False q c d(4) by (auto simp: ipc_right_request_cancel_macro_def ipc_right_request_cancel_def)
qed

lemma held_sends_pos:
  assumes inv: "cap_inv sp k H X" and p: "port_at k a = Some p" "ip_active p" and h: "0 < h_sends H a"
  shows "ip_srights p \<noteq> 0"
  using cap_inv_portD(1) [OF inv p(1)] p(2) h rights_in_nonneg(2) [of "is_table sp" a] by (auto simp: port_ok_def)

text \<open>What is in the hand after the rights of an entry have been given up.\<close>

definition destroy_holdings :: "ipc_entry \<Rightarrow> kern \<Rightarrow> holdings \<Rightarrow> holdings" where
  "destroy_holdings e k H =
     (let a = ie_object e in
      case port_at k a of
        None \<Rightarrow> H
      | Some p \<Rightarrow>
          if entry_type e = MACH_PORT_TYPE_SEND_ONCE \<and> ip_active p then add_sonce a 1 (add_ref a 1 H)
          else if entry_type e \<in> {MACH_PORT_TYPE_RECEIVE, MACH_PORT_TYPE_SEND_RECEIVE} \<and> ip_pdrequest p \<noteq> IP_NULL
          then add_ref a 1 H else H)"

lemma drop_taken_send:
  assumes inv: "cap_inv sp k (taken e a H) X" and p: "port_at k a = Some p" "ip_active p"
    and e: "ie_object e = a" and h: "0 \<le> h_sends H a"
  shows "\<exists>ns ms k1 p1. (if entry_type e AND MACH_PORT_TYPE_SEND \<noteq> 0 then ipc_right_drop_send a k
      else Some (IP_NULL, 0, k)) = Some (ns, ms, k1) \<and> only_at a k k1
    \<and> cap_inv sp k1 (add_send a (- entry_sends e a) (taken e a H)) X
    \<and> port_at k1 a = Some p1 \<and> ip_pdrequest p1 = ip_pdrequest p"
proof (cases "entry_type e AND MACH_PORT_TYPE_SEND \<noteq> 0")
  case True
  then have s: "entry_sends e a = 1"
    using e type_bit_iff(1) [of "ie_bits e"] by (simp add: entry_sends_def)
  then have "0 < h_sends (taken e a H) a" using h by (simp add: taken_def Let_def)
  from drop_send_inv [OF inv p(1) held_sends_pos [OF inv p this]] show ?thesis
    using True s by auto
next
  case False
  then have "entry_sends e a = 0" using type_bit_iff(1) [of "ie_bits e"] by (simp add: entry_sends_def)
  then show ?thesis using False inv p(1) by simp
qed

lemma release_port_inv:
  assumes inv: "cap_inv sp k (taken e a H) X" and p: "port_at k a = Some p" "ip_active p"
    and e: "port_type (entry_type e)" "ie_object e = a"
    and nr: "entry_type e \<in> {MACH_PORT_TYPE_RECEIVE, MACH_PORT_TYPE_SEND_RECEIVE} \<Longrightarrow> \<not> recv_in (is_table sp) a"
    and h: "0 \<le> h_refs H a" "0 \<le> h_sends H a"
  shows "\<exists>k'. ipc_right_release_port (entry_type e) a name rq k = Some k' \<and> only_at a k k'
    \<and> cap_inv sp k' (if entry_type e = MACH_PORT_TYPE_SEND_ONCE then add_sonce a 1 (add_ref a 1 H)
        else if entry_type e \<in> {MACH_PORT_TYPE_RECEIVE, MACH_PORT_TYPE_SEND_RECEIVE} \<and> ip_pdrequest p \<noteq> IP_NULL
        then add_ref a 1 H else H) X"
proof -
  obtain ns ms k1 p1 where d: "(if entry_type e AND MACH_PORT_TYPE_SEND \<noteq> 0 then ipc_right_drop_send a k
        else Some (IP_NULL, 0, k)) = Some (ns, ms, k1)" "only_at a k k1"
      "cap_inv sp k1 (add_send a (- entry_sends e a) (taken e a H)) X"
      "port_at k1 a = Some p1" "ip_pdrequest p1 = ip_pdrequest p"
    using drop_taken_send [OF inv p e(2) h(2)] by blast
  have es: "entry_sends e a = of_bool (entry_type e AND MACH_PORT_TYPE_SEND \<noteq> 0)"
    using e(2) type_bit_iff(1) [of "ie_bits e"] by (simp add: entry_sends_def)
  note tk = taken_at [OF e(2), of H]
  consider (recv) "entry_type e \<in> {MACH_PORT_TYPE_RECEIVE, MACH_PORT_TYPE_SEND_RECEIVE}"
    | (send) "entry_type e = MACH_PORT_TYPE_SEND" | (once) "entry_type e = MACH_PORT_TYPE_SEND_ONCE"
    using e(1) by blast
  then show ?thesis
  proof cases
    case recv
    then have "cap_inv sp k1 (lost_receive \<lparr>ie_object = a, ie_bits = 0, ie_index = 0, ie_request = 0\<rparr> p a H) X"
      using d(3) tk(3,4) es by (auto simp: lost_receive_def IE_BITS_TYPE_def)
    from clear_destroy_inv [OF this d(4,5) nr [OF recv] h(1)] show ?thesis
      using recv d(1) only_at_trans [OF d(2)] by (auto simp: ipc_right_release_port_def Let_def)
  next
    case send
    then have "cap_inv sp k1 (add_ref a 1 H) X" using d(3) tk(1) es by simp
    from dead_then_release [OF this _ h(1)] show ?thesis
      using send d(1,4) only_at_trans [OF d(2)] by (auto simp: ipc_right_release_port_def Let_def)
  next
    case once
    then show ?thesis
      using d(1-3) tk(2) es by (auto simp: ipc_right_release_port_def Let_def)
  qed
qed

lemma taken_dead:
  assumes inv: "cap_inv sp k (taken e a H) X" and p: "port_at k a = Some p" "\<not> ip_active p"
    and e: "ie_object e = a" "entry_type e = MACH_PORT_TYPE_SEND \<or> entry_type e = MACH_PORT_TYPE_SEND_ONCE"
  shows "cap_inv sp k (add_ref a 1 H) X"
  using e(2) p cap_inv_inactive [OF inv, of a "- 1" 0] cap_inv_inactive [OF inv, of a 0 "- 1"]
  by (auto simp: taken_at [OF e(1)])

text \<open>Cancelling the request and releasing the slot, when the type bits are already gone.\<close>

lemma cancel_and_release:
  assumes inv: "cap_inv sp k H X" and r: "right_at sp k i a p" and n: "MACH_PORT_INDEX name = i"
    and un: "unhashed sp i sp1"
  shows "\<exists>prev sp2 k1 p1 sp'. ipc_right_request_cancel_macro (set_bits sp1 i b) a name i k = Some (prev, sp2, k1)
    \<and> ipc_entry_dealloc (set_object sp2 i IO_NULL) name i = Some sp' \<and> slot_frame i sp sp' \<and> only_at a k k1
    \<and> port_at k1 a = Some p1 \<and> port_like p p1 \<and> ip_pdrequest p1 = ip_pdrequest p
    \<and> cap_inv sp' k1 (taken (is_table sp ! i) a H) X \<and> ie_bits (is_table sp' ! i) = IE_BITS_GEN b"
proof -
  let ?e = "is_table sp ! i"
  note d = right_atD [OF inv r] and u = unhashedD [OF un]
  have i1: "i < length (is_table sp1)" using d(1) u(7) by simp
  have q: "ie_request (is_table (set_bits sp1 i b) ! i) = ie_request ?e"
    using same_payload_fields(3) [OF u(6) d(1)] i1 by simp
  define sp2 where "sp2 = (if ie_request ?e = IE_REQ_NONE then set_bits sp1 i b
       else ipc_entry_modified (set_request (set_bits sp1 i b) i IE_REQ_NONE) name)"
  obtain prev k1 p1 where c: "ipc_right_request_cancel_macro (set_bits sp1 i b) a name i k = Some (prev, sp2, k1)"
      "cap_inv sp k1 H X" "only_at a k k1" "port_at k1 a = Some p1" "port_like p p1"
      "ip_pdrequest p1 = ip_pdrequest p"
    using cancel_eq [OF inv r q] unfolding sp2_def by blast
  have r1: "right_at sp k1 i a p1" using r c(4) by (simp add: right_at_def)
  note d1 = right_atD [OF c(2) r1]
  have "\<exists>sp'. ipc_entry_dealloc (set_object sp2 i IO_NULL) name i = Some sp' \<and> slot_frame i sp sp'
      \<and> cap_inv sp' k1 (taken ?e a H) X \<and> ie_bits (is_table sp' ! i) = IE_BITS_GEN b"
  proof (cases "ie_request ?e = IE_REQ_NONE")
    case rn: True
    show ?thesis
      using dealloc_unhashed [OF c(2) d1(6) un, of "\<lambda>e. e\<lparr>ie_bits := b, ie_object := IO_NULL\<rparr>" name a]
        n d1(3,9,12,13) rn i1
      by (auto simp: upd_entry_twice index_free_def sp2_def simp del: upd_entry_fields)
  next
    case rn: False
    have un': "unhashed sp i (ipc_entry_modified sp1 name)" using un by simp
    show ?thesis
      using dealloc_unhashed [OF c(2) d1(6) un',
          of "\<lambda>e. e\<lparr>ie_bits := b, ie_request := IE_REQ_NONE, ie_object := IO_NULL\<rparr>" name a] n d1(3,9,12,13) rn i1
      by (auto simp: upd_entry_twice upd_entry_modified index_free_def sp2_def simp del: upd_entry_fields)
  qed
  then show ?thesis using c by (auto simp del: upd_entry_fields)
qed

lemma destroy_port_inv:
  assumes inv: "cap_inv sp k H X" and r: "right_at sp k i a p" and n: "MACH_PORT_INDEX name = i"
    and h: "0 \<le> h_refs H a" "0 \<le> h_sends H a"
    and g: "\<not> (entry_type (is_table sp ! i) AND MACH_PORT_TYPE_RECEIVE \<noteq> 0 \<and> check_guard \<and> ip_guarded p
             \<and> guard \<noteq> ip_context p)"
  shows "\<exists>sp' k'. ipc_right_destroy_port (set_bits sp i b) name i (entry_type (is_table sp ! i)) check_guard guard k
      = Some (KERN_SUCCESS, sp', k') \<and> slot_frame i sp sp' \<and> only_at a k k'
    \<and> cap_inv sp' k' (destroy_holdings (is_table sp ! i) k H) X
    \<and> ie_bits (is_table sp' ! i) = IE_BITS_GEN b"
proof -
  let ?e = "is_table sp ! i"
  note d = right_atD [OF inv r]
  have obj: "ie_object (is_table (set_bits sp i b) ! i) = a" using d(1,3) by simp
  obtain sp1 where sp1: "(if entry_type ?e = MACH_PORT_TYPE_SEND then ipc_hash_delete (set_bits sp i b) a name
      else Some (set_bits sp i b)) = Some (set_bits sp1 i b)" "unhashed sp i sp1"
    using unhashed_delete_upd [OF inv d(1) _ n, of "ie_bits_update (\<lambda>_. b)" a] d(3) unhashed_refl [OF inv, of i]
    by (cases "entry_type ?e = MACH_PORT_TYPE_SEND") (auto simp: index_free_def)
  have i1: "i < length (is_table sp1)" using d(1) unhashedD(7) [OF sp1(2)] by simp
  show ?thesis
  proof (cases "ip_active p")
    case False
    obtain sp' where sp': "ipc_entry_dealloc (upd_entry sp1 i
          (\<lambda>e. e\<lparr>ie_bits := b, ie_request := IE_REQ_NONE, ie_object := IO_NULL\<rparr>)) name i = Some sp'" "slot_frame i sp sp'"
        "cap_inv sp' k (taken ?e a H) X" "ie_bits (is_table sp' ! i) = IE_BITS_GEN b"
      using dealloc_unhashed [OF inv d(6) sp1(2),
          of "\<lambda>e. e\<lparr>ie_bits := b, ie_request := IE_REQ_NONE, ie_object := IO_NULL\<rparr>" name a] n d(3,9,12,13)
      by (auto simp: index_free_def)
    have ty: "entry_type ?e = MACH_PORT_TYPE_SEND \<or> entry_type ?e = MACH_PORT_TYPE_SEND_ONCE"
      using d(2,14) False by auto
    obtain k' where k': "ip_release a k = Some k'" "only_at a k k'" "cap_inv sp' k' H X"
      using dead_then_release [OF taken_dead [OF sp'(3) d(4) False d(3) ty] _ h(1)] d(4) by auto
    have "destroy_holdings ?e k H = H" using ty False d(3,4) by (auto simp: destroy_holdings_def)
    then show ?thesis
      using sp1(1) obj d(4) False sp' k' i1
      by (auto simp: ipc_right_destroy_port_def Let_def upd_entry_twice simp del: upd_entry_fields)
  next
    case True
    obtain prev sp2 k1 p1 sp' where c: "ipc_right_request_cancel_macro (set_bits sp1 i b) a name i k = Some (prev, sp2, k1)"
        "ipc_entry_dealloc (set_object sp2 i IO_NULL) name i = Some sp'" "slot_frame i sp sp'" "only_at a k k1"
        "port_at k1 a = Some p1" "port_like p p1" "ip_pdrequest p1 = ip_pdrequest p"
        "cap_inv sp' k1 (taken ?e a H) X" "ie_bits (is_table sp' ! i) = IE_BITS_GEN b"
      using cancel_and_release [OF inv r n sp1(2)] by blast
    have act: "ip_active p1" using True port_likeD(1) [OF c(6)] by simp
    have nr: "\<not> recv_in (is_table sp') a" if rc: "entry_type ?e \<in> {MACH_PORT_TYPE_RECEIVE, MACH_PORT_TYPE_SEND_RECEIVE}"
    proof (rule no_other_recv [OF inv d(1) _ c(3)])
      show "entry_recv ?e a" using recv_bit [OF d(2)] rc d(3) by (simp add: entry_recv_def)
      show "\<not> entry_recv (is_table sp' ! i) a"
        using goneD [of "?e\<lparr>ie_bits := b\<rparr>" "is_table sp' ! i"] c(9) type_bit_iff(2) [of "ie_bits (is_table sp' ! i)"]
        by (simp add: gone_def entry_recv_def)
    qed
    obtain k' where k': "ipc_right_release_port (entry_type ?e) a name prev k1 = Some k'" "only_at a k1 k'"
        "cap_inv sp' k' (destroy_holdings ?e k H) X"
      using release_port_inv [OF c(8,5) act d(2,3) nr h, of name prev, unfolded c(7)] True d(3,4)
      by (auto simp: destroy_holdings_def)
    have "ipc_right_destroy_port (set_bits sp i b) name i (entry_type ?e) check_guard guard k = Some (KERN_SUCCESS, sp', k')"
      using sp1(1) obj d(4) True c(1,2) k'(1) g
      by (simp add: ipc_right_destroy_port_def Let_def del: upd_entry_fields)
    then show ?thesis using c(3,9) k' only_at_trans [OF c(4) k'(2)] by auto
  qed
qed


lemma IE_BITS_GEN_untyped: "IE_BITS_GEN (b AND NOT IE_BITS_TYPE_MASK) = IE_BITS_GEN b"
  by (simp add: ie_unfold)

lemma destroy_dead_name_inv:
  assumes inv: "cap_inv sp k H X" and i: "i < length (is_table sp)"
    "entry_type (is_table sp ! i) = MACH_PORT_TYPE_DEAD_NAME" and n: "MACH_PORT_INDEX name = i"
  shows "\<exists>sp'. ipc_entry_dealloc (set_bits sp i b) name i = Some sp' \<and> slot_frame i sp sp' \<and> cap_inv sp' k H X
    \<and> ie_bits (is_table sp' ! i) = IE_BITS_GEN b"
proof -
  have ty: "entry_type (is_table sp ! i) \<noteq> 0" using i(2) by simp
  note s = cap_inv_slot [OF inv i(1) ty]
  have o: "ie_object (is_table sp ! i) = IO_NULL" "ie_request (is_table sp ! i) = IE_REQ_NONE"
    using s(1) i(2) by (simp_all add: used_entry_at)
  have a: "IO_DEAD \<noteq> IO_NULL" by (simp add: IO_DEAD_def IO_NULL_def)
  have un: "unhashed sp i sp" using i(2) by (intro unhashed_refl [OF inv]) simp
  show ?thesis
    using dealloc_unhashed [OF inv s(2) un, of "ie_bits_update (\<lambda>_. b)" name IO_DEAD] o n a s(5)
      taken_other [of "is_table sp ! i" IO_DEAD H] by (auto simp: index_free_def)
qed

lemma destroy_port_set_inv:
  assumes inv: "cap_inv sp k H X" and i: "i < length (is_table sp)"
    "entry_type (is_table sp ! i) = MACH_PORT_TYPE_PORT_SET" and n: "MACH_PORT_INDEX name = i"
    and a: "ie_object (is_table sp ! i) = a" and h: "0 \<le> h_refs H a"
  shows "\<exists>sp' k'. ipc_entry_dealloc (set_object (set_bits sp i b) i IO_NULL) name i = Some sp'
    \<and> ipc_pset_destroy a k = Some k'
    \<and> slot_frame i sp sp' \<and> only_at a k k' \<and> cap_inv sp' k' H X \<and> ie_bits (is_table sp' ! i) = IE_BITS_GEN b"
proof -
  have tn: "entry_type (is_table sp ! i) \<noteq> 0" using i(2) by simp
  note s = cap_inv_slot [OF inv i(1) tn]
  obtain ps where ps: "pset_at k a = Some ps"
    using cap_invD(3) [OF inv i(1)] i(2) a by (auto simp: slot_ok_def)
  have an: "a \<noteq> IO_NULL" and rq: "ie_request (is_table sp ! i) = IE_REQ_NONE"
    using s(1) i(2) a by (auto simp: used_entry_at IO_VALID_def)
  have un: "unhashed sp i sp" using i(2) by (intro unhashed_refl [OF inv]) simp
  obtain sp' where sp': "ipc_entry_dealloc (set_object (set_bits sp i b) i IO_NULL) name i = Some sp'"
      "slot_frame i sp sp'" "cap_inv sp' k (add_ref a 1 H) X" "ie_bits (is_table sp' ! i) = IE_BITS_GEN b"
    using dealloc_unhashed [OF inv s(2) un, of "\<lambda>e. e\<lparr>ie_bits := b, ie_object := IO_NULL\<rparr>" name a] n an a rq ps s(5)
      taken_at(5) [OF a i(2), of H] i(1)
    by (auto simp: index_free_def pset_at_eq upd_entry_twice simp del: upd_entry_fields)
  obtain k' where "ipc_pset_destroy a k = Some k'" "only_at a k k'" "cap_inv sp' k' (add_ref a (- 1) (add_ref a 1 H)) X"
    using ipc_pset_destroy_inv [OF sp'(3) ps] h by auto
  then show ?thesis using sp' by (auto simp del: upd_entry_fields)
qed

lemma ipc_right_destroy_inv:
  assumes inv: "cap_inv sp k H X" and i: "i < length (is_table sp)" "entry_type (is_table sp ! i) \<noteq> 0"
    and n: "MACH_PORT_INDEX name = i" and a: "ie_object (is_table sp ! i) = a"
    and h: "0 \<le> h_refs H a" "0 \<le> h_sends H a"
    and g: "\<And>p. port_at k a = Some p \<Longrightarrow> ie_bits (is_table sp ! i) AND MACH_PORT_TYPE_RECEIVE \<noteq> 0 \<Longrightarrow>
              check_guard \<Longrightarrow> ip_guarded p \<Longrightarrow> guard = ip_context p"
  shows "\<exists>sp' k'. ipc_right_destroy sp name i check_guard guard k = Some (KERN_SUCCESS, sp', k')
    \<and> slot_frame i sp sp' \<and> only_at a k k' \<and> cap_inv sp' k' (destroy_holdings (is_table sp ! i) k H) X
    \<and> gone (is_table sp ! i) (is_table sp' ! i)"
proof -
  let ?e = "is_table sp ! i" and ?b = "ie_bits (is_table sp ! i) AND NOT IE_BITS_TYPE_MASK"
  note defs = ipc_right_destroy_def Let_def destroy_holdings_def a gone_def IE_BITS_GEN_untyped [simplified]
  have port: ?thesis if ty: "port_type (entry_type ?e)"
  proof -
    obtain p where r: "right_at sp k i a p" using cap_inv_right [OF inv i(1) ty] a by auto
    have g': "\<not> (entry_type ?e AND MACH_PORT_TYPE_RECEIVE \<noteq> 0 \<and> check_guard \<and> ip_guarded p \<and> guard \<noteq> ip_context p)"
      using g [OF right_atD(4) [OF inv r]] recv_bit [OF ty] ty type_bits_zero(2) [OF cap_inv_slot(1) [OF inv i]] by auto
    show ?thesis
      using destroy_port_inv [OF inv r n h g', of ?b] ty
      by (auto simp: ipc_right_destroy_def Let_def gone_def IE_BITS_GEN_untyped [simplified] simp del: upd_entry_fields)
  qed
  show ?thesis
    using cap_inv_slot(1) [OF inv i]
  proof (cases rule: used_entry_cases)
    case dead_name
    then show ?thesis
      using destroy_dead_name_inv [OF inv i(1) dead_name(1) n, of ?b] cap_inv_null_port [OF inv]
      by (auto simp: defs simp del: upd_entry_fields)
  next
    case port_set
    have "ie_object (is_table (set_bits sp i ?b) ! i) = a" using i(1) a by simp
    then show ?thesis
      using port_set(1) destroy_port_set_inv [OF inv i(1) port_set(1) n a h(1), of ?b]
        cap_inv_pset_port [OF inv i(1) port_set(1)]
      by (auto simp: defs simp del: upd_entry_fields)
  qed (use port in simp_all)
qed

end
