(* ===== verification/Copy_Ledger.thy ===== *)
theory Copy_Ledger
  imports Right_Release
begin

text \<open>
  The ledger under the operations that move rights between a table and a message:
  \<open>ipc_right_copyin\<close>, \<open>ipc_right_copyin_undo\<close> and \<open>ipc_right_copyout\<close>. A copyin hands the
  right to the caller and a copyout takes it from the caller, which is what \<open>right_gain\<close>
  says in the ledger.
\<close>

unbundle bit_operations_syntax

definition right_gain :: "mach_msg_type_name \<Rightarrow> addr \<Rightarrow> holdings \<Rightarrow> holdings" where
  "right_gain msgt_name a H =
     (case msgt_name of
        MACH_MSG_TYPE_MOVE_SEND \<Rightarrow> add_send a 1 (add_ref a 1 H)
      | MACH_MSG_TYPE_COPY_SEND \<Rightarrow> add_send a 1 (add_ref a 1 H)
      | MACH_MSG_TYPE_MAKE_SEND \<Rightarrow> add_send a 1 (add_ref a 1 H)
      | MACH_MSG_TYPE_MOVE_SEND_ONCE \<Rightarrow> add_sonce a 1 (add_ref a 1 H)
      | MACH_MSG_TYPE_MAKE_SEND_ONCE \<Rightarrow> add_sonce a 1 (add_ref a 1 H)
      | MACH_MSG_TYPE_MOVE_RECEIVE \<Rightarrow> add_ref a 1 H
      | _ \<Rightarrow> H)"

text \<open>
  What a copyin gives to its caller: the reference of the port to release, and the right
  unless the object is the dead port or the copyin failed.
\<close>

definition copyin_gain ::
    "mach_msg_type_name \<Rightarrow> (kern_return + addr \<times> addr) \<Rightarrow> addr \<Rightarrow> holdings \<Rightarrow> holdings" where
  "copyin_gain msgt_name r rel H =
     (let H = (if rel = IP_NULL then H else add_ref rel 1 H) in
      case r of Inl _ \<Rightarrow> H | Inr (object, _) \<Rightarrow> if object = IO_DEAD then H else right_gain msgt_name object H)"

text \<open>The slots that are neither free nor in use, when slot \<open>i\<close> may have become one.\<close>

definition held_slots :: "ipc_space \<Rightarrow> nat \<Rightarrow> nat set \<Rightarrow> nat set" where
  "held_slots sp i X = (if entry_type (is_table sp ! i) = 0 then insert i X else X)"

lemma held_slots_modified [simp]: "held_slots (ipc_entry_modified sp name) i X = held_slots sp i X"
  by (simp add: held_slots_def)

text \<open>
  \<open>copied_in\<close>: the copyin returns; it touches one slot and one object; an object it delivers is
  the port of the entry, alive, or the dead port; and the books balance.
\<close>

definition copied_in ::
    "ipc_space \<Rightarrow> kern \<Rightarrow> nat \<Rightarrow> addr \<Rightarrow> mach_msg_type_name \<Rightarrow> holdings \<Rightarrow> nat set \<Rightarrow> copyin_result \<Rightarrow> bool" where
  "copied_in sp k i a msgt_name H X res \<longleftrightarrow>
     (\<exists>r rel sp' k'. res = Some (r, rel, sp', k') \<and> slot_frame i sp sp' \<and> only_at a k k'
        \<and> (rel = IP_NULL \<or> rel = a \<and> port_at k' a \<noteq> None)
        \<and> (\<forall>object so. r = Inr (object, so) \<longrightarrow>
             object = IO_DEAD \<or> object = a \<and> (\<exists>p. port_at k' a = Some p \<and> ip_active p))
        \<and> cap_inv sp' k' (copyin_gain msgt_name r rel H) (held_slots sp' i X))"

lemma copied_inI:
  assumes "slot_frame i sp sp'" "only_at a k k'" "rel = IP_NULL \<or> rel = a \<and> port_at k' a \<noteq> None"
    "\<And>object so. r = Inr (object, so) \<Longrightarrow> object = IO_DEAD \<or> object = a \<and> (\<exists>p. port_at k' a = Some p \<and> ip_active p)"
    "cap_inv sp' k' (copyin_gain msgt_name r rel H) (held_slots sp' i X)"
  shows "copied_in sp k i a msgt_name H X (Some (r, rel, sp', k'))"
  using assms by (auto simp: copied_in_def)

lemma copied_in_modified [simp]:
  "copied_in sp k i a msgt_name H X (Some (r, rel, ipc_entry_modified sp' name, k'))
     = copied_in sp k i a msgt_name H X (Some (r, rel, sp', k'))"
  by (simp add: copied_in_def)

lemma copied_in_error:
  assumes "cap_inv sp k H X" "i < length (is_table sp)" "entry_type (is_table sp ! i) \<noteq> 0"
  shows "copied_in sp k i a msgt_name H X (Some (Inl kr, IP_NULL, sp, k))"
  using assms by (intro copied_inI) (simp_all add: copyin_gain_def held_slots_def)

lemma copied_in_right:
  assumes "slot_frame i sp sp'" "only_at a k k'" "port_at k' a = Some p" "ip_active p" "a \<noteq> IO_DEAD"
    "cap_inv sp' k' (right_gain msgt_name a H) (held_slots sp' i X)"
  shows "copied_in sp k i a msgt_name H X (Some (Inr (a, so), IP_NULL, sp', k'))"
  using assms by (intro copied_inI) (auto simp: copyin_gain_def)

lemma right_not_dead:
  assumes "cap_inv sp k H X" "right_at sp k i a p"
  shows "a \<noteq> IO_DEAD"
  using cap_inv_portD(3) [OF assms(1) right_atD(4) [OF assms]] .

text \<open>A new right and a new reference for it.\<close>

lemma port_gain:
  assumes inv: "cap_inv sp k H X" and p: "port_at k a = Some p" and room: "port_room k a"
  shows "cap_inv sp (put_port a (p\<lparr>ip_mscount := m, ip_srights := ip_srights p + 1,
           ip_references := ip_references p + 1\<rparr>) k) (add_send a 1 (add_ref a 1 H)) X"
    "cap_inv sp (put_port a (p\<lparr>ip_sorights := ip_sorights p + 1,
           ip_references := ip_references p + 1\<rparr>) k) (add_sonce a 1 (add_ref a 1 H)) X"
proof -
  have rm: "ip_references p < 0xfffffff0" "ip_srights p < 0xfffffff0" "ip_sorights p < 0xfffffff0"
    using room p by (simp_all add: port_room_def)
  note u = room_plus1 [OF rm(1)] room_plus1 [OF rm(2)] room_plus1 [OF rm(3)]
  show "cap_inv sp (put_port a (p\<lparr>ip_mscount := m, ip_srights := ip_srights p + 1,
           ip_references := ip_references p + 1\<rparr>) k) (add_send a 1 (add_ref a 1 H)) X"
    using cap_inv_port [OF inv p, of "put_port a (p\<lparr>ip_mscount := m, ip_srights := ip_srights p + 1,
        ip_references := ip_references p + 1\<rparr>) k" _ 1 1 0] u
    by (auto simp: port_like_def req_ok_def requests_ok_def)
  show "cap_inv sp (put_port a (p\<lparr>ip_sorights := ip_sorights p + 1,
           ip_references := ip_references p + 1\<rparr>) k) (add_sonce a 1 (add_ref a 1 H)) X"
    using cap_inv_port [OF inv p, of "put_port a (p\<lparr>ip_sorights := ip_sorights p + 1,
        ip_references := ip_references p + 1\<rparr>) k" _ 1 0 1] u
    by (auto simp: port_like_def req_ok_def requests_ok_def)
qed

lemma copyin_make_inv:
  assumes inv: "cap_inv sp k H X" and i: "i < length (is_table sp)" "entry_type (is_table sp ! i) \<noteq> 0"
    and a: "ie_object (is_table sp ! i) = a" and room: "port_room k a"
  shows "copied_in sp k i a MACH_MSG_TYPE_MAKE_SEND H X (ipc_right_copyin_make_send sp i k)"
    "copied_in sp k i a MACH_MSG_TYPE_MAKE_SEND_ONCE H X (ipc_right_copyin_make_send_once sp i k)"
proof -
  let ?e = "is_table sp ! i"
  note z = type_bits_zero(2) [OF cap_inv_slot(1) [OF inv i]]
  have h: "held_slots sp i X = X" using i by (simp add: held_slots_def)
  show "copied_in sp k i a MACH_MSG_TYPE_MAKE_SEND H X (ipc_right_copyin_make_send sp i k)"
  proof (cases "ie_bits ?e AND MACH_PORT_TYPE_RECEIVE = 0")
    case False
    then obtain p where r: "right_at sp k i a p" "ip_active p"
      using z cap_inv_right [OF inv i(1)] a right_atD(14) [OF inv] by fastforce
    note d = right_atD [OF inv r(1)]
    show ?thesis
      using False d(3,4) port_gain(1) [OF inv d(4) room] r h right_not_dead [OF inv r(1)]
      by (auto simp: ipc_right_copyin_make_send_def upd_port_eq io_reference_port right_gain_def
          intro!: copied_in_right)
  qed (use copied_in_error [OF inv i] in \<open>simp add: ipc_right_copyin_make_send_def\<close>)
  show "copied_in sp k i a MACH_MSG_TYPE_MAKE_SEND_ONCE H X (ipc_right_copyin_make_send_once sp i k)"
  proof (cases "ie_bits ?e AND MACH_PORT_TYPE_RECEIVE = 0")
    case False
    then obtain p where r: "right_at sp k i a p" "ip_active p"
      using z cap_inv_right [OF inv i(1)] a right_atD(14) [OF inv] by fastforce
    note d = right_atD [OF inv r(1)]
    show ?thesis
      using False d(3,4) port_gain(2) [OF inv d(4) room] r h right_not_dead [OF inv r(1)]
      by (auto simp: ipc_right_copyin_make_send_once_def upd_port_eq io_reference_port right_gain_def
          intro!: copied_in_right)
  qed (use copied_in_error [OF inv i] in \<open>simp add: ipc_right_copyin_make_send_once_def\<close>)
qed


subsection \<open>Emptying a slot\<close>

lemma hold_right:
  assumes inv: "cap_inv sp k H X" and r: "right_at sp k i a p" and q: "ie_request (is_table sp ! i) = IE_REQ_NONE"
    and un: "unhashed sp i sp1" and b: "IE_BITS_TYPE b = 0" "IE_BITS_UREFS b = 0"
  shows "cap_inv (set_bits (set_object sp1 i IO_NULL) i b) k (taken (is_table sp ! i) a H)
      (held_slots (set_bits (set_object sp1 i IO_NULL) i b) i X)"
    "slot_frame i sp (set_bits (set_object sp1 i IO_NULL) i b)"
    "entry_type (is_table (set_bits (set_object sp1 i IO_NULL) i b) ! i) = 0"
proof -
  let ?f = "\<lambda>e. e\<lparr>ie_object := IO_NULL, ie_bits := b\<rparr>" and ?e = "is_table sp ! i"
  note d = right_atD [OF inv r]
  have i1: "i < length (is_table sp1)" using d(1) unhashedD(7) [OF un] by simp
  then have eq: "set_bits (set_object sp1 i IO_NULL) i b = upd_entry sp1 i ?f"
    by (simp add: upd_entry_twice del: upd_entry_fields)
  have ty: "entry_type (?f ?e) = 0" using b by simp
  show t: "entry_type (is_table (set_bits (set_object sp1 i IO_NULL) i b) ! i) = 0"
    using i1 b by (simp add: eq)
  have c: "cap_inv (upd_entry sp1 i ?f) k (moved ?e (?f ?e) a H) (if entry_type (?f ?e) = 0 then insert i X else X - {i})"
      "slot_frame i sp (upd_entry sp1 i ?f)"
    by (rule cap_inv_unhashed_upd [OF inv d(6) un _ refl];
        use b q d(3,12,13) in \<open>simp add: index_free_def held_entry_def slot_ok_def\<close>)+
  show "slot_frame i sp (set_bits (set_object sp1 i IO_NULL) i b)" using c(2) by (simp add: eq)
  show "cap_inv (set_bits (set_object sp1 i IO_NULL) i b) k (taken ?e a H)
      (held_slots (set_bits (set_object sp1 i IO_NULL) i b) i X)"
    using c(1) ty t moved_null [of "?f ?e" a ?e H] d(12) by (simp add: eq held_slots_def)
qed

lemma hold_dead_name:
  assumes inv: "cap_inv sp k H X" and i: "i < length (is_table sp)"
    "entry_type (is_table sp ! i) = MACH_PORT_TYPE_DEAD_NAME"
    and b: "IE_BITS_TYPE b = 0" "IE_BITS_UREFS b = 0"
  shows "cap_inv (set_bits sp i b) k H (held_slots (set_bits sp i b) i X)"
proof -
  let ?e = "is_table sp ! i" and ?f = "ie_bits_update (\<lambda>_. b) :: ipc_entry \<Rightarrow> ipc_entry"
  have tn: "entry_type ?e \<noteq> 0" using i(2) by simp
  note s = cap_inv_slot [OF inv i(1) tn]
  have o: "ie_object ?e = IO_NULL" "ie_request ?e = IE_REQ_NONE"
    using s(1) i(2) by (simp_all add: used_entry_at)
  have a: "IO_DEAD \<noteq> IO_NULL" by (simp add: IO_DEAD_def IO_NULL_def)
  have un: "unhashed sp i sp" using i(2) by (intro unhashed_refl [OF inv]) simp
  have "cap_inv (upd_entry sp i ?f) k (moved ?e (?f ?e) IO_DEAD H) (if entry_type (?f ?e) = 0 then insert i X else X - {i})"
    by (rule cap_inv_unhashed_upd(1) [OF inv s(2) un _ refl])
      (use b o a in \<open>simp_all add: index_free_def held_entry_def slot_ok_def\<close>)
  then show ?thesis
    using b i(1) o a moved_null [of "?f ?e" IO_DEAD ?e H] taken_other [of ?e IO_DEAD H]
    by (simp add: held_slots_def)
qed

lemma ie_last_dead:
  assumes "IE_BITS_UREFS b = 1" "IE_BITS_TYPE b = MACH_PORT_TYPE_DEAD_NAME"
  shows "IE_BITS_TYPE ((b AND NOT MACH_PORT_TYPE_DEAD_NAME) - 1) = 0"
    "IE_BITS_UREFS ((b AND NOT MACH_PORT_TYPE_DEAD_NAME) - 1) = 0"
    "IE_BITS_GEN ((b AND NOT MACH_PORT_TYPE_DEAD_NAME) - 1) = IE_BITS_GEN b"
proof -
  have u: "IE_BITS_UREFS (b AND NOT MACH_PORT_TYPE_DEAD_NAME) = IE_BITS_UREFS b"
    and g: "IE_BITS_GEN (b AND NOT MACH_PORT_TYPE_DEAD_NAME) = IE_BITS_GEN b"
    and t: "IE_BITS_TYPE (b AND NOT MACH_PORT_TYPE_DEAD_NAME) = IE_BITS_TYPE b AND NOT MACH_PORT_TYPE_DEAD_NAME"
    by (simp_all add: ie_unfold)
  have "IE_BITS_UREFS (b AND NOT MACH_PORT_TYPE_DEAD_NAME) \<noteq> 0" unfolding u using assms by simp
  note d = urefs_dec [OF this]
  show "IE_BITS_TYPE ((b AND NOT MACH_PORT_TYPE_DEAD_NAME) - 1) = 0" unfolding d(2) t assms(2) by simp
  show "IE_BITS_UREFS ((b AND NOT MACH_PORT_TYPE_DEAD_NAME) - 1) = 0" unfolding d(1) u assms(1) by simp
  show "IE_BITS_GEN ((b AND NOT MACH_PORT_TYPE_DEAD_NAME) - 1) = IE_BITS_GEN b" unfolding d(3) g ..
qed

subsection \<open>Dead names\<close>

lemma copied_in_dead:
  assumes "slot_frame i sp sp'" "only_at a k k'" "rel = IP_NULL \<or> rel = a \<and> port_at k' a \<noteq> None"
    "cap_inv sp' k' (if rel = IP_NULL then H else add_ref rel 1 H) (held_slots sp' i X)"
    "r = Inr (IO_DEAD, so) \<or> r = Inl kr"
  shows "copied_in sp k i a msgt_name H X (Some (r, rel, sp', k'))"
  using assms by (intro copied_inI) (auto simp: copyin_gain_def)

lemma copy_dead_inv:
  assumes fr: "slot_frame i sp sp1" "only_at a k k1" and rel: "rel = IP_NULL \<or> rel = a \<and> port_at k1 a \<noteq> None"
    and inv: "cap_inv sp1 k1 (if rel = IP_NULL then H else add_ref rel 1 H) X"
    and ty: "entry_type (is_table sp1 ! i) \<noteq> 0"
  shows "copied_in sp k i a msgt_name H X (ipc_right_copyin_copy_dead sp1 deadok rel k1)"
  using copied_in_dead [OF fr rel] inv ty by (auto simp: ipc_right_copyin_copy_dead_def held_slots_def)

lemma move_dead_inv:
  assumes fr: "slot_frame i sp sp1" "only_at a k k1" and rel: "rel = IP_NULL \<or> rel = a \<and> port_at k1 a \<noteq> None"
    and inv: "cap_inv sp1 k1 (if rel = IP_NULL then H else add_ref rel 1 H) X"
    and i: "i < length (is_table sp1)" and ty: "entry_type (is_table sp1 ! i) = MACH_PORT_TYPE_DEAD_NAME"
  shows "copied_in sp k i a msgt_name H X (ipc_right_copyin_move_dead sp1 name i deadok rel k1)"
proof (cases deadok)
  case True
  let ?b = "ie_bits (is_table sp1 ! i)"
  define b where "b = (if IE_BITS_UREFS ?b = 1 then ?b AND NOT MACH_PORT_TYPE_DEAD_NAME else ?b) - 1"
  have "cap_inv (set_bits sp1 i b) k1 (if rel = IP_NULL then H else add_ref rel 1 H) (held_slots (set_bits sp1 i b) i X)"
  proof (cases "IE_BITS_UREFS ?b = 1")
    case True
    then show ?thesis
      unfolding b_def using hold_dead_name [OF inv i ty] ie_last_dead [OF True ty] by presburger
  next
    case False
    then have "cap_inv (set_bits sp1 i b) k1 (if rel = IP_NULL then H else add_ref rel 1 H) X"
        "uref_change (is_table sp1 ! i) (is_table (set_bits sp1 i b) ! i) (- 1)"
      using dec_uref [OF inv i] ty by (simp_all add: b_def)
    then show ?thesis using ty by (simp add: held_slots_def uref_change_def del: upd_entry_fields)
  qed
  moreover have "ipc_right_copyin_move_dead sp1 name i deadok rel k1
      = Some (Inr (IO_DEAD, IP_NULL), rel, ipc_entry_modified (set_bits sp1 i b) name, k1)"
    using True by (simp add: ipc_right_copyin_move_dead_def b_def)
  ultimately show ?thesis
    using copied_in_dead [OF slot_frame_upd_trans [OF fr(1)] fr(2) rel] by simp
next
  case False
  then show ?thesis
    using copied_in_dead [OF fr rel] inv ty by (auto simp: ipc_right_copyin_move_dead_def held_slots_def)
qed


subsection \<open>Send rights\<close>

text \<open>The three kinds of entries that the dispositions for send rights distinguish.\<close>

lemma send_cases [consumes 3, case_names dead none right]:
  assumes inv: "cap_inv sp k H X" and i: "i < length (is_table sp)" "entry_type (is_table sp ! i) \<noteq> 0"
  obtains (dead) "entry_type (is_table sp ! i) = MACH_PORT_TYPE_DEAD_NAME"
      "ie_bits (is_table sp ! i) AND MACH_PORT_TYPE_DEAD_NAME \<noteq> 0"
    | (none) "ie_bits (is_table sp ! i) AND MACH_PORT_TYPE_DEAD_NAME = 0"
      "ie_bits (is_table sp ! i) AND MACH_PORT_TYPE_SEND_RIGHTS = 0"
    | (right) p where "ie_bits (is_table sp ! i) AND MACH_PORT_TYPE_DEAD_NAME = 0"
      "ie_bits (is_table sp ! i) AND MACH_PORT_TYPE_SEND_RIGHTS \<noteq> 0"
      "right_at sp k i (ie_object (is_table sp ! i)) p"
proof -
  note z = type_bits_zero [OF cap_inv_slot(1) [OF inv i]]
  show ?thesis
    using z(5,6) cap_inv_right [OF inv i(1)] by (auto intro: that)
qed

lemma dead_entry_type: "dead_entry e e' \<Longrightarrow> entry_type e' = MACH_PORT_TYPE_DEAD_NAME"
  by (simp add: dead_entry_def)

lemma copyin_copy_send_inv:
  assumes inv: "cap_inv sp k H X" and i: "i < length (is_table sp)" "entry_type (is_table sp ! i) \<noteq> 0"
    and n: "MACH_PORT_INDEX name = i" and a: "ie_object (is_table sp ! i) = a" and room: "port_room k a"
  shows "copied_in sp k i a MACH_MSG_TYPE_COPY_SEND H X (ipc_right_copyin_copy_send sp name i deadok k)"
  using inv i
proof (cases rule: send_cases)
  case dead
  then show ?thesis
    using copy_dead_inv [of i sp sp a k k IP_NULL H X] inv i by (simp add: ipc_right_copyin_copy_send_def)
next
  case none
  then show ?thesis
    using copied_in_error [OF inv i] by (simp add: ipc_right_copyin_copy_send_def)
next
  case (right p)
  then have r: "right_at sp k i a p" using a by simp
  note d = right_atD [OF inv r]
  show ?thesis
    using inv r n
  proof (cases rule: check_cases)
    case (dead sp1 k1)
    have "copied_in sp k i a MACH_MSG_TYPE_COPY_SEND H X (ipc_right_copyin_copy_dead sp1 deadok a k1)"
      by (rule copy_dead_inv [OF dead(3,4)]) (use dead d(12) dead_entry_type [OF dead(6)] in auto)
    then show ?thesis using right dead(2) a by (simp add: ipc_right_copyin_copy_send_def)
  next
    case active
    note g = port_gain(1) [OF inv d(4) room, of "ip_mscount p"]
    show ?thesis
      using right active a copied_in_error [OF inv i] d(4) g i right_not_dead [OF inv r]
      by (auto simp: ipc_right_copyin_copy_send_def upd_port_eq io_reference_port right_gain_def held_slots_def
          intro!: copied_in_right)
  qed
qed

lemma move_last_send_inv:
  assumes inv: "cap_inv sp k H X" and r: "right_at sp k i a p" and n: "MACH_PORT_INDEX name = i"
    and ty: "entry_type (is_table sp ! i) = MACH_PORT_TYPE_SEND" and act: "ip_active p"
    and b: "b = ie_bits (is_table sp ! i) AND NOT (IE_BITS_UREFS_MASK OR MACH_PORT_TYPE_SEND)"
  shows "\<exists>rq sp1 k1 sp2. ipc_right_request_cancel_macro sp a name i k = Some (rq, sp1, k1)
    \<and> ipc_hash_delete sp1 a name = Some sp2
    \<and> copied_in sp k i a MACH_MSG_TYPE_MOVE_SEND H X
        (Some (Inr (a, rq), IP_NULL, set_bits (set_object sp2 i IO_NULL) i b, k1))"
proof -
  obtain rq sp1 k1 p1 where c: "ipc_right_request_cancel_macro sp a name i k = Some (rq, sp1, k1)"
      "cap_inv sp1 k1 H X" "slot_frame i sp sp1" "only_at a k k1" "right_at sp1 k1 i a p1"
      "is_table sp1 ! i = (is_table sp ! i)\<lparr>ie_request := IE_REQ_NONE\<rparr>" "port_like p p1"
    using request_cancel_inv [OF inv r] by blast
  note d = right_atD [OF c(2,5)]
  have ty1: "entry_type (is_table sp1 ! i) = MACH_PORT_TYPE_SEND" using ty c(6) by simp
  obtain sp2 where sp2: "ipc_hash_delete sp1 a name = Some sp2" "unhashed sp1 i sp2"
    using unhashed_delete [OF c(2) d(1) ty1 d(3) n] by blast
  have "IE_BITS_TYPE b = entry_type (is_table sp ! i) AND NOT MACH_PORT_TYPE_SEND" "IE_BITS_UREFS b = 0"
    unfolding b by (rule ie_no_send)+
  then have b0: "IE_BITS_TYPE b = 0" "IE_BITS_UREFS b = 0" using ty by simp_all
  have q: "ie_request (is_table sp1 ! i) = IE_REQ_NONE" using c(6) by simp
  note h = hold_right [OF c(2,5) q sp2(2) b0]
  have "taken (is_table sp1 ! i) a H = right_gain MACH_MSG_TYPE_MOVE_SEND a H"
    using taken_at(1) [OF d(3) ty1] by (simp add: right_gain_def)
  then have "copied_in sp k i a MACH_MSG_TYPE_MOVE_SEND H X
      (Some (Inr (a, rq), IP_NULL, set_bits (set_object sp2 i IO_NULL) i b, k1))"
    using h(1) slot_frame_trans [OF c(3) h(2)] c(4) d(4) act port_likeD(1) [OF c(7)] right_not_dead [OF c(2,5)]
    by (intro copied_in_right [of _ _ _ _ _ _ p1]) simp_all
  then show ?thesis using c(1) sp2(1) by blast
qed

lemma copyin_move_send_active_inv:
  assumes inv: "cap_inv sp k H X" and r: "right_at sp k i a p" and n: "MACH_PORT_INDEX name = i"
    and act: "ip_active p" and s: "ie_bits (is_table sp ! i) AND MACH_PORT_TYPE_SEND \<noteq> 0" and room: "port_room k a"
  shows "copied_in sp k i a MACH_MSG_TYPE_MOVE_SEND H X (ipc_right_copyin_move_send_active sp name i a k)"
proof -
  let ?e = "is_table sp ! i"
  note d = right_atD [OF inv r] and nd = right_not_dead [OF inv r]
  note z = type_bits_zero [OF d(5)]
  note ref = upd_port_eq [OF d(4)] io_reference_port
  have rm: "ip_references p + 1 \<noteq> 0" using room d(4) room_plus1 by (simp add: port_room_def)
  consider (more) "entry_urefs ?e \<noteq> 1" | (sr) "entry_urefs ?e = 1" "entry_type ?e = MACH_PORT_TYPE_SEND_RECEIVE"
    | (last) "entry_urefs ?e = 1" "entry_type ?e = MACH_PORT_TYPE_SEND" using s z(1) by blast
  then show ?thesis
  proof cases
    case more
    let ?b = "ie_bits ?e - 1"
    have u: "cap_inv (set_bits sp i ?b) k H X" "uref_change ?e (is_table (set_bits sp i ?b) ! i) (- 1)"
      using dec_uref [OF inv d(1) _ more] s z(1) by auto
    have "held_slots (set_bits sp i ?b) i X = X"
      using u(2) s z(1) by (auto simp: held_slots_def uref_change_def simp del: upd_entry_fields)
    then show ?thesis
      using more port_gain(1) [OF u(1) d(4) room, of "ip_mscount p"] d(4) act nd
      by (auto simp: ipc_right_copyin_move_send_active_def Let_def ref right_gain_def
          intro!: copied_in_right)
  next
    case sr
    define b where "b = ie_bits ?e AND NOT (IE_BITS_UREFS_MASK OR MACH_PORT_TYPE_SEND)"
    note dr = drop_send_bit [OF inv r sr(2) b_def]
    have "copied_in sp k i a MACH_MSG_TYPE_MOVE_SEND H X (Some (Inr (a, IP_NULL), IP_NULL, set_bits sp i b,
        put_port a (p\<lparr>ip_references := ip_references p + 1\<rparr>) k))"
      using ip_reference_inv [OF dr(1) d(4) rm] dr(2) d(1) act nd
      by (auto simp: right_gain_def held_slots_def intro!: copied_in_right)
    then show ?thesis
      using sr z(2) d(4) by (simp add: ipc_right_copyin_move_send_active_def Let_def io_reference_port b_def)
  next
    case last
    define b where "b = ie_bits ?e AND NOT (IE_BITS_UREFS_MASK OR MACH_PORT_TYPE_SEND)"
    show ?thesis
      using move_last_send_inv [OF inv r n last(2) act b_def] last z(2)
      by (auto simp: ipc_right_copyin_move_send_active_def Let_def b_def simp del: upd_entry_fields)
  qed
qed


lemma copyin_move_send_inv:
  assumes inv: "cap_inv sp k H X" and i: "i < length (is_table sp)" "entry_type (is_table sp ! i) \<noteq> 0"
    and n: "MACH_PORT_INDEX name = i" and a: "ie_object (is_table sp ! i) = a" and room: "port_room k a"
  shows "copied_in sp k i a MACH_MSG_TYPE_MOVE_SEND H X (ipc_right_copyin_move_send sp name i deadok k)"
  using inv i
proof (cases rule: send_cases)
  case dead
  then show ?thesis
    using move_dead_inv [of i sp sp a k k IP_NULL H X] inv i by (simp add: ipc_right_copyin_move_send_def)
next
  case none
  then show ?thesis
    using copied_in_error [OF inv i] by (simp add: ipc_right_copyin_move_send_def)
next
  case (right p)
  then have r: "right_at sp k i a p" using a by simp
  note d = right_atD [OF inv r]
  show ?thesis
    using inv r n
  proof (cases rule: check_cases)
    case (dead sp1 k1)
    have "copied_in sp k i a MACH_MSG_TYPE_MOVE_SEND H X (ipc_right_copyin_move_dead sp1 name i deadok a k1)"
      by (rule move_dead_inv [OF dead(3,4)])
        (use dead d(1,12) dead_entry_type [OF dead(6)] slot_frameD(5) [OF dead(3)] in auto)
    then show ?thesis using right dead(2) a by (simp add: ipc_right_copyin_move_send_def)
  next
    case active
    show ?thesis
      using right active a copied_in_error [OF inv i] copyin_move_send_active_inv [OF inv r n active(1) _ room]
      by (auto simp: ipc_right_copyin_move_send_def)
  qed
qed

lemma move_send_once_active_inv:
  assumes inv: "cap_inv sp k H X" and r: "right_at sp k i a p"
    and ty: "entry_type (is_table sp ! i) = MACH_PORT_TYPE_SEND_ONCE" and act: "ip_active p"
    and b: "b = ie_bits (is_table sp ! i) AND NOT (IE_BITS_UREFS_MASK OR MACH_PORT_TYPE_SEND_ONCE)"
  shows "\<exists>rq sp1 k1. ipc_right_request_cancel_macro sp a name i k = Some (rq, sp1, k1)
    \<and> copied_in sp k i a MACH_MSG_TYPE_MOVE_SEND_ONCE H X
        (Some (Inr (a, rq), IP_NULL, set_bits (set_object sp1 i IO_NULL) i b, k1))"
proof -
  obtain rq sp1 k1 p1 where c: "ipc_right_request_cancel_macro sp a name i k = Some (rq, sp1, k1)"
      "cap_inv sp1 k1 H X" "slot_frame i sp sp1" "only_at a k k1" "right_at sp1 k1 i a p1"
      "is_table sp1 ! i = (is_table sp ! i)\<lparr>ie_request := IE_REQ_NONE\<rparr>" "port_like p p1"
    using request_cancel_inv [OF inv r] by blast
  note d = right_atD [OF c(2,5)]
  have ty1: "entry_type (is_table sp1 ! i) = MACH_PORT_TYPE_SEND_ONCE" using ty c(6) by simp
  have un: "unhashed sp1 i sp1" using ty1 by (intro unhashed_refl [OF c(2)]) simp
  have "IE_BITS_TYPE b = entry_type (is_table sp ! i) AND NOT MACH_PORT_TYPE_SEND_ONCE" "IE_BITS_UREFS b = 0"
    unfolding b by (rule ie_no_send_once)+
  then have b0: "IE_BITS_TYPE b = 0" "IE_BITS_UREFS b = 0" using ty by simp_all
  have q: "ie_request (is_table sp1 ! i) = IE_REQ_NONE" using c(6) by simp
  note h = hold_right [OF c(2,5) q un b0]
  have "taken (is_table sp1 ! i) a H = right_gain MACH_MSG_TYPE_MOVE_SEND_ONCE a H"
    using taken_at(2) [OF d(3) ty1] by (simp add: right_gain_def)
  then have "copied_in sp k i a MACH_MSG_TYPE_MOVE_SEND_ONCE H X
      (Some (Inr (a, rq), IP_NULL, set_bits (set_object sp1 i IO_NULL) i b, k1))"
    using h(1) slot_frame_trans [OF c(3) h(2)] c(4) d(4) act port_likeD(1) [OF c(7)] right_not_dead [OF c(2,5)]
    by (intro copied_in_right [of _ _ _ _ _ _ p1]) simp_all
  then show ?thesis using c(1) by blast
qed

lemma copyin_move_send_once_inv:
  assumes inv: "cap_inv sp k H X" and i: "i < length (is_table sp)" "entry_type (is_table sp ! i) \<noteq> 0"
    and n: "MACH_PORT_INDEX name = i" and a: "ie_object (is_table sp ! i) = a"
  shows "copied_in sp k i a MACH_MSG_TYPE_MOVE_SEND_ONCE H X (ipc_right_copyin_move_send_once sp name i deadok k)"
  using inv i
proof (cases rule: send_cases)
  case dead
  then show ?thesis
    using move_dead_inv [of i sp sp a k k IP_NULL H X] inv i by (simp add: ipc_right_copyin_move_send_once_def)
next
  case none
  then show ?thesis
    using copied_in_error [OF inv i] by (simp add: ipc_right_copyin_move_send_once_def)
next
  case (right p)
  then have r: "right_at sp k i a p" using a by simp
  note d = right_atD [OF inv r]
  show ?thesis
    using inv r n
  proof (cases rule: check_cases)
    case (dead sp1 k1)
    have "copied_in sp k i a MACH_MSG_TYPE_MOVE_SEND_ONCE H X (ipc_right_copyin_move_dead sp1 name i deadok a k1)"
      by (rule move_dead_inv [OF dead(3,4)])
        (use dead d(1,12) dead_entry_type [OF dead(6)] slot_frameD(5) [OF dead(3)] in auto)
    then show ?thesis using right dead(2) a by (simp add: ipc_right_copyin_move_send_once_def)
  next
    case active
    define b where "b = ie_bits (is_table sp ! i) AND NOT (IE_BITS_UREFS_MASK OR MACH_PORT_TYPE_SEND_ONCE)"
    show ?thesis
    proof (cases "entry_type (is_table sp ! i) = MACH_PORT_TYPE_SEND_ONCE")
      case True
      from move_send_once_active_inv [OF inv r True active(1) b_def, of name] show ?thesis
        using right active a True type_bits_zero(3) [OF d(5)]
        by (auto simp: ipc_right_copyin_move_send_once_def Let_def b_def simp del: upd_entry_fields)
    next
      case False
      then show ?thesis
        using right active a copied_in_error [OF inv i] type_bits_zero(3) [OF d(5)]
        by (auto simp: ipc_right_copyin_move_send_once_def)
    qed
  qed
qed

subsection \<open>The receive right\<close>

lemma leave_space:
  assumes inv: "cap_inv sp k (add_recv a H) X" and p: "port_at k a = Some p" "ip_active p"
    and nr: "\<not> recv_in (is_table sp) a"
  shows "\<exists>k1 k2 p2. ipc_port_clear_receiver a k = Some k1
    \<and> upd_port a (\<lambda>p. p\<lparr>ip_receiver_name := MACH_PORT_NULL, ip_data := IP_NULL\<rparr>) k1 = Some k2
    \<and> only_at a k k2 \<and> cap_inv sp k2 H X \<and> port_at k2 a = Some p2 \<and> ip_active p2"
proof -
  obtain k1 p1 where k1: "ipc_port_clear_receiver a k = Some k1" "only_at a k k1"
      "cap_inv sp k1 (add_recv a H) X" "port_at k1 a = Some p1" "port_like p p1"
    using ipc_port_clear_receiver_inv [OF inv p(1)] by blast
  let ?p2 = "p1\<lparr>ip_receiver_name := MACH_PORT_NULL, ip_data := IP_NULL\<rparr>"
  have "cap_inv sp (put_port a ?p2 k1) H X"
    by (rule cap_inv_no_receiver [OF k1(3,4) _ _ nr, of _ ?p2])
      (use k1(3) cap_invD(2) [OF k1(3)] in \<open>auto simp: heap_ok_def\<close>)
  then show ?thesis
    using k1 p(2) port_likeD(1) [OF k1(5)] by (auto simp: upd_port_eq)
qed

lemma move_receive_keep_send:
  assumes inv: "cap_inv sp k H X" and r: "right_at sp k i a p" and n: "MACH_PORT_INDEX name = i"
    and ty: "entry_type (is_table sp ! i) = MACH_PORT_TYPE_SEND_RECEIVE"
    and b: "b = ie_bits (is_table sp ! i) AND NOT MACH_PORT_TYPE_RECEIVE" and room: "ip_references p + 1 \<noteq> 0"
  shows "\<exists>sp1 k1. ipc_hash_insert sp a name = Some sp1 \<and> ip_reference a k = Some k1
    \<and> slot_frame i sp (set_bits sp1 i b) \<and> only_at a k k1
    \<and> cap_inv (set_bits sp1 i b) k1 (add_recv a (add_ref a 1 H)) X
    \<and> entry_type (is_table (set_bits sp1 i b) ! i) = MACH_PORT_TYPE_SEND
    \<and> (\<exists>p1. port_at k1 a = Some p1 \<and> ip_active p1 = ip_active p)"
proof -
  let ?e = "is_table sp ! i" and ?g = "ie_bits_update (\<lambda>_. b) :: ipc_entry \<Rightarrow> ipc_entry"
  note d = right_atD [OF inv r]
  note u = used_no_receive [OF d(5) ty b]
  have ok: "slot_ok (is_self sp) k i (?e\<lparr>ie_bits := b\<rparr>)"
    by (rule slot_okI [of _ _ p]) (use d(3,4,10) u(1) in simp_all)
  have id: "upd_entry sp i (\<lambda>e. e) = sp" by (simp add: upd_entry_def)
  obtain sp1 where h: "ipc_hash_insert sp a name = Some sp1"
      "cap_inv (upd_entry sp1 i ?g) k (moved ?e (?e\<lparr>ie_bits := b\<rparr>) a H) (X - {i})"
      "slot_frame i sp (upd_entry sp1 i ?g)" "ie_bits (is_table (upd_entry sp1 i ?g) ! i) = b"
    using cap_inv_hash_upd [OF inv d(6), of "\<lambda>e. e" a name ?g "?e\<lparr>ie_bits := b\<rparr>"]
      ty d(3,12,13) n u ok by (auto simp: index_free_def id)
  have "moved ?e (?e\<lparr>ie_bits := b\<rparr>) a H = add_recv a H"
    using moved_between(2) [of ?e a "?e\<lparr>ie_bits := b\<rparr>" H] d(3) ty u(1) by simp
  then have "cap_inv (set_bits sp1 i b) k (add_recv a H) X" using h(2) d(9) by simp
  from ip_reference_inv [OF this d(4) room] show ?thesis
    using h io_reference_port [OF d(4)] u(1) by auto
qed

lemma move_receive_only:
  assumes inv: "cap_inv sp k H X" and r: "right_at sp k i a p"
    and ty: "entry_type (is_table sp ! i) = MACH_PORT_TYPE_RECEIVE"
    and b: "b = ie_bits (is_table sp ! i) AND NOT MACH_PORT_TYPE_RECEIVE"
  shows "\<exists>rq sp1 k1 p1. ipc_right_request_cancel_macro sp a name i k = Some (rq, sp1, k1)
    \<and> slot_frame i sp (set_bits (set_object sp1 i IO_NULL) i b) \<and> only_at a k k1
    \<and> cap_inv (set_bits (set_object sp1 i IO_NULL) i b) k1 (add_recv a (add_ref a 1 H))
        (held_slots (set_bits (set_object sp1 i IO_NULL) i b) i X)
    \<and> entry_type (is_table (set_bits (set_object sp1 i IO_NULL) i b) ! i) = 0
    \<and> port_at k1 a = Some p1 \<and> ip_active p1 = ip_active p"
proof -
  obtain rq sp1 k1 p1 where c: "ipc_right_request_cancel_macro sp a name i k = Some (rq, sp1, k1)"
      "cap_inv sp1 k1 H X" "slot_frame i sp sp1" "only_at a k k1" "right_at sp1 k1 i a p1"
      "is_table sp1 ! i = (is_table sp ! i)\<lparr>ie_request := IE_REQ_NONE\<rparr>" "port_like p p1"
    using request_cancel_inv [OF inv r] by blast
  note d = right_atD [OF c(2,5)]
  have ty1: "entry_type (is_table sp1 ! i) = MACH_PORT_TYPE_RECEIVE" using ty c(6) by simp
  have un: "unhashed sp1 i sp1" using ty1 by (intro unhashed_refl [OF c(2)]) simp
  have "IE_BITS_TYPE b = entry_type (is_table sp ! i) AND NOT MACH_PORT_TYPE_RECEIVE"
      "IE_BITS_UREFS b = entry_urefs (is_table sp ! i)"
    unfolding b by (rule ie_no_receive)+
  then have b0: "IE_BITS_TYPE b = 0" "IE_BITS_UREFS b = 0"
    using ty right_atD(5) [OF inv r] by (simp_all add: used_entry_at)
  have q: "ie_request (is_table sp1 ! i) = IE_REQ_NONE" using c(6) by simp
  note h = hold_right [OF c(2,5) q un b0]
  have "taken (is_table sp1 ! i) a H = add_recv a (add_ref a 1 H)"
    using taken_at(3) [OF d(3) ty1] by simp
  then show ?thesis
    using c(1,4) slot_frame_trans [OF c(3) h(2)] h(1,3) d(4) port_likeD(1) [OF c(7)]
    by (intro exI [of _ rq] exI [of _ sp1] exI [of _ k1] exI [of _ p1]) (simp del: upd_entry_fields)
qed


lemma copyin_move_receive_inv:
  assumes inv: "cap_inv sp k H X" and i: "i < length (is_table sp)" "entry_type (is_table sp ! i) \<noteq> 0"
    and n: "MACH_PORT_INDEX name = i" and a: "ie_object (is_table sp ! i) = a" and room: "port_room k a"
  shows "copied_in sp k i a MACH_MSG_TYPE_MOVE_RECEIVE H X (ipc_right_copyin_move_receive sp name i k)"
proof -
  let ?e = "is_table sp ! i"
  define b where "b = ie_bits ?e AND NOT MACH_PORT_TYPE_RECEIVE"
  note z = type_bits_zero [OF cap_inv_slot(1) [OF inv i]]
  have fin: "copied_in sp k i a MACH_MSG_TYPE_MOVE_RECEIVE H X (do {
        k \<leftarrow> ipc_port_clear_receiver a k1;
        k \<leftarrow> upd_port a (\<lambda>p. p\<lparr>ip_receiver_name := MACH_PORT_NULL, ip_data := IP_NULL\<rparr>) k;
        Some (Inr (a, rq), IP_NULL, ipc_entry_modified sp1 name, k) })"
    if f: "slot_frame i sp sp1" "only_at a k k1" "cap_inv sp1 k1 (add_recv a (add_ref a 1 H)) (held_slots sp1 i X)"
      and p1: "port_at k1 a = Some p1" "ip_active p1" and rc: "entry_recv ?e a" "\<not> entry_recv (is_table sp1 ! i) a"
    for sp1 k1 rq p1
    using leave_space [OF f(3) p1 no_other_recv [OF inv i(1) rc(1) f(1) rc(2)]] f only_at_trans [OF f(2)]
      cap_inv_portD(3) [OF f(3) p1(1)] by (auto simp: right_gain_def intro!: copied_in_right)
  consider (no) "ie_bits ?e AND MACH_PORT_TYPE_RECEIVE = 0"
    | (sr) p where "right_at sp k i a p" "entry_type ?e = MACH_PORT_TYPE_SEND_RECEIVE"
    | (rc) p where "right_at sp k i a p" "entry_type ?e = MACH_PORT_TYPE_RECEIVE"
    using z(2) cap_inv_right [OF inv i(1)] a by auto
  then show ?thesis
  proof cases
    case no
    then show ?thesis using copied_in_error [OF inv i] by (simp add: ipc_right_copyin_move_receive_def)
  next
    case sr
    note d = right_atD [OF inv sr(1)]
    have rm: "ip_references p + 1 \<noteq> 0" using room d(4) room_plus1 by (simp add: port_room_def)
    have er: "entry_recv ?e a" using recv_bit [OF d(2)] sr(2) d(3) by (simp add: entry_recv_def)
    obtain sp1 k1 p1 where m: "ipc_hash_insert sp a name = Some sp1" "ip_reference a k = Some k1"
        "slot_frame i sp (set_bits sp1 i b)" "only_at a k k1" "cap_inv (set_bits sp1 i b) k1 (add_recv a (add_ref a 1 H)) X"
        "entry_type (is_table (set_bits sp1 i b) ! i) = MACH_PORT_TYPE_SEND"
        "port_at k1 a = Some p1" "ip_active p1 = ip_active p"
      using move_receive_keep_send [OF inv sr(1) n sr(2) b_def rm] by blast
    have "held_slots (set_bits sp1 i b) i X = X" using m(6) by (simp add: held_slots_def del: upd_entry_fields)
    moreover have "\<not> entry_recv (is_table (set_bits sp1 i b) ! i) a"
      using m(6) type_bit_iff(2) [of "ie_bits (is_table (set_bits sp1 i b) ! i)"]
      by (simp add: entry_recv_def del: upd_entry_fields)
    ultimately show ?thesis
      using fin [OF m(3,4) _ m(7) _ er, of IP_NULL] m d(3,14) z(1,2) sr(2)
      by (simp add: ipc_right_copyin_move_receive_def Let_def b_def del: upd_entry_fields)
  next
    case rc
    note d = right_atD [OF inv rc(1)]
    have er: "entry_recv ?e a" using recv_bit [OF d(2)] rc(2) d(3) by (simp add: entry_recv_def)
    obtain rq sp1 k1 p1 where m: "ipc_right_request_cancel_macro sp a name i k = Some (rq, sp1, k1)"
        "slot_frame i sp (set_bits (set_object sp1 i IO_NULL) i b)" "only_at a k k1"
        "cap_inv (set_bits (set_object sp1 i IO_NULL) i b) k1 (add_recv a (add_ref a 1 H))
          (held_slots (set_bits (set_object sp1 i IO_NULL) i b) i X)"
        "entry_type (is_table (set_bits (set_object sp1 i IO_NULL) i b) ! i) = 0"
        "port_at k1 a = Some p1" "ip_active p1 = ip_active p"
      using move_receive_only [OF inv rc(1,2) b_def, of name] by blast
    have "\<not> entry_recv (is_table (set_bits (set_object sp1 i IO_NULL) i b) ! i) a"
      using m(5) type_bit_iff(2) [of "ie_bits (is_table (set_bits (set_object sp1 i IO_NULL) i b) ! i)"]
      by (simp add: entry_recv_def del: upd_entry_fields)
    then show ?thesis
      using fin [OF m(2,3,4,6) _ er, of rq] m(1,7) d(3,14) z(1,2) rc(2)
      by (simp add: ipc_right_copyin_move_receive_def Let_def b_def del: upd_entry_fields)
  qed
qed

text \<open>\<open>ipc_right_copyin\<close> returns for every entry in use and every disposition, and the books balance.\<close>

lemma ipc_right_copyin_inv:
  assumes inv: "cap_inv sp k H X" and i: "i < length (is_table sp)" "entry_type (is_table sp ! i) \<noteq> 0"
    and n: "MACH_PORT_INDEX name = i" and a: "ie_object (is_table sp ! i) = a" and room: "port_room k a"
  shows "copied_in sp k i a msgt_name H X (ipc_right_copyin sp name i msgt_name deadok k)"
  using copyin_make_inv [OF inv i a room] copyin_move_receive_inv [OF assms] copyin_copy_send_inv [OF assms]
    copyin_move_send_inv [OF assms] copyin_move_send_once_inv [OF inv i n a] copied_in_error [OF inv i]
  by (cases msgt_name) (simp_all add: ipc_right_copyin_def)

end
