(* ===== verification/Copyout_Ledger.thy ===== *)
theory Copyout_Ledger
  imports Copy_Ledger
begin

text \<open>
  The ledger under \<open>ipc_right_copyout\<close> and \<open>ipc_right_copyin_undo\<close>: a right in the hand goes
  into a claimed slot or joins the rights that an entry has already.
\<close>

unbundle bit_operations_syntax

subsection \<open>Filling a claimed slot\<close>

lemma cap_inv_held:
  assumes inv: "cap_inv sp k H X" and i: "i \<in> X"
  shows "i < length (is_table sp)" "0 < i" "ie_object (is_table sp ! i) = IO_NULL"
    "entry_type (is_table sp ! i) = 0" "entry_urefs (is_table sp ! i) = 0"
    "ie_request (is_table sp ! i) = IE_REQ_NONE" "live_slot sp X i"
proof -
  obtain L where "space_wf sp L X" using cap_invD(1) [OF inv] by blast
  then have tb: "table_base (is_table sp) L X" and sl: "slots_wf (is_table sp) L X"
    by (auto simp: space_wf_def table_wf_def table_base_def)
  show l: "i < length (is_table sp)" using sl i by (auto simp: slots_wf_def)
  then show "0 < i" "ie_object (is_table sp ! i) = IO_NULL" "entry_type (is_table sp ! i) = 0"
      "entry_urefs (is_table sp ! i) = 0" "ie_request (is_table sp ! i) = IE_REQ_NONE" "live_slot sp X i"
    using table_base_held [OF tb l i] i by (simp_all add: held_entry_def live_slot_def)
qed

lemma ie_or [ie_bits]:
  "IE_BITS_TYPE (b OR MACH_PORT_TYPE_SEND) = IE_BITS_TYPE b OR MACH_PORT_TYPE_SEND"
  "IE_BITS_UREFS (b OR MACH_PORT_TYPE_SEND) = IE_BITS_UREFS b"
  "IE_BITS_GEN (b OR MACH_PORT_TYPE_SEND) = IE_BITS_GEN b"
  "IE_BITS_TYPE (b OR MACH_PORT_TYPE_RECEIVE) = IE_BITS_TYPE b OR MACH_PORT_TYPE_RECEIVE"
  "IE_BITS_UREFS (b OR MACH_PORT_TYPE_RECEIVE) = IE_BITS_UREFS b"
  "IE_BITS_GEN (b OR MACH_PORT_TYPE_RECEIVE) = IE_BITS_GEN b"
  "IE_BITS_TYPE (b OR (MACH_PORT_TYPE_SEND_ONCE OR 1)) = IE_BITS_TYPE b OR MACH_PORT_TYPE_SEND_ONCE"
  "IE_BITS_UREFS (b OR (MACH_PORT_TYPE_SEND_ONCE OR 1)) = IE_BITS_UREFS b OR 1"
  "IE_BITS_GEN (b OR (MACH_PORT_TYPE_SEND_ONCE OR 1)) = IE_BITS_GEN b"
  by (simp_all add: ie_unfold)

text \<open>The ledger when a slot receives the right \<open>e'\<close> for the object \<open>a\<close>.\<close>

lemma moved_in:
  assumes "ie_object e = IO_NULL" "a \<noteq> IO_NULL" "ie_object e' = a"
  shows "entry_type e' = MACH_PORT_TYPE_SEND \<Longrightarrow> moved e e' a H = add_send a (- 1) (add_ref a (- 1) H)"
    "entry_type e' = MACH_PORT_TYPE_SEND_ONCE \<Longrightarrow> moved e e' a H = add_sonce a (- 1) (add_ref a (- 1) H)"
    "entry_type e' = MACH_PORT_TYPE_RECEIVE \<Longrightarrow> moved e e' a H = add_ref a (- 1) H"
  using assms type_bit_iff(1-3) [of "ie_bits e'"]
  by (auto simp: moved_def entry_refs_def entry_sends_def entry_sonces_def entry_recv_def)

definition names_right :: "ipc_space \<Rightarrow> nat \<Rightarrow> mach_port_name_t \<Rightarrow> mach_port_type_t \<Rightarrow> addr \<Rightarrow> bool" where
  "names_right sp i name ty a \<longleftrightarrow>
     i < length (is_table sp) \<and> entry_type (is_table sp ! i) = ty \<and> ie_object (is_table sp ! i) = a
     \<and> name = MACH_PORT_MAKE i (IE_BITS_GEN (ie_bits (is_table sp ! i)))"

lemma names_right_modified [simp]: "names_right (ipc_entry_modified sp n) i name ty a = names_right sp i name ty a"
  by (simp add: names_right_def)

lemma copyout_send_once_inv:
  assumes inv: "cap_inv sp k (add_sonce a 1 (add_ref a 1 H)) X" and i: "i \<in> X"
    and p: "port_at k a = Some p"
    and n: "name = MACH_PORT_MAKE i (IE_BITS_GEN (ie_bits (is_table sp ! i)))"
  shows "\<exists>sp'. ipc_right_copyout_send_once (set_object sp i a) name i k = Some (KERN_SUCCESS, sp', k)
    \<and> slot_frame i sp sp' \<and> cap_inv sp' k H (X - {i}) \<and> names_right sp' i name MACH_PORT_TYPE_SEND_ONCE a"
proof -
  let ?e = "is_table sp ! i"
  define b where "b = ie_bits ?e OR (MACH_PORT_TYPE_SEND_ONCE OR 1)"
  define e' where "e' = ?e\<lparr>ie_object := a, ie_bits := b\<rparr>"
  note h = cap_inv_held [OF inv i] and pd = cap_inv_portD [OF inv p]
  have bt: "IE_BITS_TYPE b = entry_type ?e OR MACH_PORT_TYPE_SEND_ONCE" "IE_BITS_UREFS b = entry_urefs ?e OR 1"
    "IE_BITS_GEN b = IE_BITS_GEN (ie_bits ?e)"
    unfolding b_def by (rule ie_or)+
  then have b: "IE_BITS_TYPE b = MACH_PORT_TYPE_SEND_ONCE" "IE_BITS_UREFS b = 1" using h by simp_all
  have "used_entry e'" using b pd(5) by (simp add: used_entry_at e'_def)
  moreover have "slot_ok (is_self sp) k i e'"
    by (rule slot_okI [of _ _ p]) (use p b h in \<open>simp_all add: e'_def\<close>)
  ultimately have "cap_inv (upd_entry sp i (\<lambda>e. e\<lparr>ie_object := a, ie_bits := b\<rparr>)) k
      (moved ?e e' a (add_sonce a 1 (add_ref a 1 H))) (if entry_type e' = 0 then insert i X else X - {i})"
    by (intro cap_inv_upd [OF inv h(7)]) (use b h pd p in \<open>simp_all add: e'_def port_at_eq\<close>)
  then have "cap_inv (upd_entry sp i (\<lambda>e. e\<lparr>ie_object := a, ie_bits := b\<rparr>)) k H (X - {i})"
    using moved_in(2) [OF h(3) pd(2), of e'] b by (simp add: e'_def)
  moreover have "ipc_right_copyout_send_once (set_object sp i a) name i k
      = Some (KERN_SUCCESS, ipc_entry_modified (upd_entry sp i (\<lambda>e. e\<lparr>ie_object := a, ie_bits := b\<rparr>)) name, k)"
    using h(1) by (simp add: ipc_right_copyout_send_once_def Let_def upd_entry_twice b_def)
  ultimately show ?thesis using n b bt(3) h(1) by (simp add: names_right_def)
qed


subsection \<open>Send rights\<close>

lemma drop_held_send:
  assumes inv: "cap_inv sp k (add_send a 1 (add_ref a 1 H)) X" and p: "port_at k a = Some p"
    and h: "0 \<le> h_refs H a" "0 \<le> h_sends H a"
  shows "\<exists>k1 k2. upd_port a (\<lambda>p. p\<lparr>ip_srights := ip_srights p - 1\<rparr>) k = Some k1 \<and> ip_release a k1 = Some k2
    \<and> only_at a k k2 \<and> cap_inv sp k2 H X"
proof -
  have "ip_active p \<Longrightarrow> uint (ip_srights p) \<noteq> 0"
    using cap_inv_portD(1) [OF inv p] h(2) rights_in_nonneg(2) [of "is_table sp" a] by (auto simp: port_ok_def)
  then have "uint (ip_srights p - 1) = uint (ip_srights p) + - 1" if "ip_active p"
    using uint_minus1 [of "ip_srights p"] that by (auto simp: word_uint_eq_iff)
  from cap_inv_srights [OF inv p this]
  have inv1: "cap_inv sp (put_port a (p\<lparr>ip_srights := ip_srights p - 1\<rparr>) k) (add_ref a 1 H) X" by simp
  obtain k2 where "ip_release a (put_port a (p\<lparr>ip_srights := ip_srights p - 1\<rparr>) k) = Some k2"
      "only_at a (put_port a (p\<lparr>ip_srights := ip_srights p - 1\<rparr>) k) k2" "cap_inv sp k2 H X"
    using dead_then_release [OF inv1 _ h(1)] by auto
  then show ?thesis
    using p only_at_trans [of a k "put_port a (p\<lparr>ip_srights := ip_srights p - 1\<rparr>) k" k2] by (simp add: upd_port_eq)
qed

lemma copyout_bits:
  assumes u: "IE_BITS_UREFS b \<noteq> MACH_PORT_UREFS_MAX"
  shows "IE_BITS_TYPE ((b OR MACH_PORT_TYPE_SEND) + 1) = IE_BITS_TYPE b OR MACH_PORT_TYPE_SEND"
    "IE_BITS_UREFS ((b OR MACH_PORT_TYPE_SEND) + 1) = IE_BITS_UREFS b + 1"
    "IE_BITS_GEN ((b OR MACH_PORT_TYPE_SEND) + 1) = IE_BITS_GEN b"
proof -
  have "unat (IE_BITS_UREFS (b OR MACH_PORT_TYPE_SEND) + 1) < 65536"
    unfolding ie_or by (rule urefs_less_max [OF u])
  note * = IE_BITS_add [OF this]
  show "IE_BITS_TYPE ((b OR MACH_PORT_TYPE_SEND) + 1) = IE_BITS_TYPE b OR MACH_PORT_TYPE_SEND"
    "IE_BITS_UREFS ((b OR MACH_PORT_TYPE_SEND) + 1) = IE_BITS_UREFS b + 1"
    "IE_BITS_GEN ((b OR MACH_PORT_TYPE_SEND) + 1) = IE_BITS_GEN b"
    unfolding * ie_or by (rule refl)+
qed

lemma copyout_send_new:
  assumes inv: "cap_inv sp k (add_send a 1 (add_ref a 1 H)) X" and i: "i \<in> X"
    and p: "port_at k a = Some p"
    and n: "name = MACH_PORT_MAKE i (IE_BITS_GEN (ie_bits (is_table sp ! i)))" "MACH_PORT_INDEX name = i"
    and uniq: "\<forall>j \<in> naming_slots (is_table sp). ob (is_table sp) j \<noteq> a"
  shows "\<exists>sp'. ipc_right_copyout_send (set_object sp i a) name i overflow a k = Some (KERN_SUCCESS, sp', k)
    \<and> slot_frame i sp sp' \<and> cap_inv sp' k H (X - {i}) \<and> names_right sp' i name MACH_PORT_TYPE_SEND a"
proof -
  let ?e = "is_table sp ! i" and ?f = "ie_object_update (\<lambda>_. a) :: ipc_entry \<Rightarrow> ipc_entry"
  define b where "b = (ie_bits ?e OR MACH_PORT_TYPE_SEND) + 1"
  define e' where "e' = ?e\<lparr>ie_object := a, ie_bits := b\<rparr>"
  note h = cap_inv_held [OF inv i] and pd = cap_inv_portD [OF inv p]
  have um: "entry_urefs ?e \<noteq> MACH_PORT_UREFS_MAX" using h(5) by simp
  note bt = copyout_bits [OF um, folded b_def]
  have b: "IE_BITS_TYPE b = MACH_PORT_TYPE_SEND" "IE_BITS_UREFS b = 1" using bt h by simp_all
  have u: "used_entry e'" using b pd(5) by (simp add: used_entry_at e'_def)
  have ok: "slot_ok (is_self sp) k i e'"
    by (rule slot_okI [of _ _ p]) (use p b h in \<open>simp_all add: e'_def\<close>)
  obtain sp1 where s: "ipc_hash_insert (set_object sp i a) a name = Some sp1"
      "cap_inv (set_bits sp1 i b) k (moved ?e e' a (add_send a 1 (add_ref a 1 H))) (X - {i})"
      "slot_frame i sp (set_bits sp1 i b)" "ie_bits (is_table (set_bits sp1 i b) ! i) = b"
      "ie_object (is_table (set_bits sp1 i b) ! i) = a"
    using cap_inv_hash_upd [OF inv h(7), of ?f a name "ie_bits_update (\<lambda>_. b)" e'] b u ok uniq h pd(2) p n(2)
    by (auto simp: index_free_def e'_def port_at_eq)
  have eb: "ie_bits (is_table (set_object sp i a) ! i) = ie_bits ?e" using h(1) by simp
  have z: "ie_bits ?e AND MACH_PORT_TYPE_SEND = 0" "ie_bits ?e AND MACH_PORT_TYPE_RECEIVE = 0"
    using h(4) type_bit_iff(1,2) [of "ie_bits ?e"] by simp_all
  have "ipc_right_copyout_send (set_object sp i a) name i overflow a k
      = Some (KERN_SUCCESS, ipc_entry_modified (set_bits sp1 i b) name, k)"
    unfolding ipc_right_copyout_send_def eb using z s(1) by (simp add: Let_def b_def)
  moreover have "cap_inv (set_bits sp1 i b) k H (X - {i})"
    using s(2) moved_in(1) [OF h(3) pd(2), of e'] b by (simp add: e'_def)
  ultimately show ?thesis
    using s(3-5) n(1) bt(3) b(1) h(1) slot_frameD(5) [OF s(3)] by (simp add: names_right_def)
qed

text \<open>
  An entry with a send right takes the new one by counting it: the port has one send right and
  one reference less in the hand. At the last user reference but one, the right is dropped or
  refused, as the caller wants.
\<close>

lemma copyout_send_join:
  assumes inv: "cap_inv sp k (add_send a 1 (add_ref a 1 H)) X" and r: "right_at sp k i a p"
    and ty: "entry_type (is_table sp ! i) \<in> {MACH_PORT_TYPE_SEND, MACH_PORT_TYPE_SEND_RECEIVE}"
    and h: "0 \<le> h_refs H a" "0 \<le> h_sends H a"
  shows "\<exists>kr sp' k'. ipc_right_copyout_send sp name i overflow a k = Some (kr, sp', k') \<and> only_at a k k'
    \<and> (if entry_urefs (is_table sp ! i) + 1 = MACH_PORT_UREFS_MAX
       then sp' = sp \<and> (if overflow then kr = KERN_SUCCESS \<and> cap_inv sp k' H X
                        else kr = KERN_UREFS_OVERFLOW \<and> k' = k)
       else kr = KERN_SUCCESS \<and> slot_frame i sp sp' \<and> cap_inv sp' k' H X
         \<and> uref_change (is_table sp ! i) (is_table sp' ! i) 1)"
proof -
  let ?e = "is_table sp ! i"
  note d = right_atD [OF inv r]
  have s: "ie_bits ?e AND MACH_PORT_TYPE_SEND \<noteq> 0" using ty type_bits_zero(1) [OF d(5)] by simp
  obtain k1 k2 where k2: "upd_port a (\<lambda>p. p\<lparr>ip_srights := ip_srights p - 1\<rparr>) k = Some k1" "ip_release a k1 = Some k2"
      "only_at a k k2" "cap_inv sp k2 H X"
    using drop_held_send [OF inv d(4) h] by blast
  show ?thesis
  proof (cases "entry_urefs ?e + 1 = MACH_PORT_UREFS_MAX")
    case True
    then show ?thesis using s k2 by (simp add: ipc_right_copyout_send_def Let_def)
  next
    case False
    define b where "b = (ie_bits ?e OR MACH_PORT_TYPE_SEND) + 1"
    have um: "entry_urefs ?e \<noteq> MACH_PORT_UREFS_MAX" using d(5) ty by (auto simp: used_entry_at)
    note bt = copyout_bits [OF um, folded b_def]
    have tb: "IE_BITS_TYPE b = entry_type ?e" using bt(1) ty by auto
    have nz: "entry_urefs ?e + 1 \<noteq> 0"
      using um urefs_le_max [of "ie_bits ?e"] by (intro less_plus1) (simp add: order_less_le)
    have tn: "entry_type ?e \<noteq> 0" using ty by auto
    have "cap_inv (set_bits sp i b) k2 H X" "slot_frame i sp (set_bits sp i b)"
        "uref_change ?e (is_table (set_bits sp i b) ! i) 1"
      using cap_inv_urefs [OF k2(4) d(1) tn tb bt(3,2) _ nz] ty False by auto
    then show ?thesis
      using False s k2 by (simp add: ipc_right_copyout_send_def Let_def b_def del: upd_entry_fields)
  qed
qed


lemma copyout_send_receiver:
  assumes inv: "cap_inv sp k (add_send a 1 (add_ref a 1 H)) X" and r: "right_at sp k i a p"
    and ty: "entry_type (is_table sp ! i) = MACH_PORT_TYPE_RECEIVE" and h: "0 \<le> h_refs H a"
  shows "\<exists>sp' k'. ipc_right_copyout_send sp name i overflow a k = Some (KERN_SUCCESS, sp', k')
    \<and> slot_frame i sp sp' \<and> only_at a k k' \<and> cap_inv sp' k' H X
    \<and> entry_type (is_table sp' ! i) = MACH_PORT_TYPE_SEND_RECEIVE \<and> entry_urefs (is_table sp' ! i) = 1
    \<and> ie_object (is_table sp' ! i) = a \<and> IE_BITS_GEN (ie_bits (is_table sp' ! i)) = IE_BITS_GEN (ie_bits (is_table sp ! i))"
proof -
  let ?e = "is_table sp ! i" and ?H = "add_send a 1 (add_ref a 1 H)"
  note d = right_atD [OF inv r]
  define b where "b = (ie_bits ?e OR MACH_PORT_TYPE_SEND) + 1"
  have u0: "entry_urefs ?e = 0" "IO_VALID a" using d(3,5) ty by (auto simp: used_entry_at)
  have um: "entry_urefs ?e \<noteq> MACH_PORT_UREFS_MAX" using u0 by simp
  note bt = copyout_bits [OF um, folded b_def]
  have b: "IE_BITS_TYPE b = MACH_PORT_TYPE_SEND_RECEIVE" "IE_BITS_UREFS b = 1" using bt ty u0 by simp_all
  have z: "ie_bits ?e AND MACH_PORT_TYPE_SEND = 0" "ie_bits ?e AND MACH_PORT_TYPE_RECEIVE \<noteq> 0"
    using ty type_bits_zero(1,2) [OF d(5)] by simp_all
  have "slot_ok (is_self sp) k i (?e\<lparr>ie_bits := b\<rparr>)"
    by (rule slot_okI [of _ _ p]) (use d(3,4,10,14) ty b bt(3) in simp_all)
  moreover have "used_entry (?e\<lparr>ie_bits := b\<rparr>)" using b u0 d(3) by (simp add: used_entry_at)
  ultimately have "cap_inv (set_bits sp i b) k (moved ?e (?e\<lparr>ie_bits := b\<rparr>) a ?H)
      (if entry_type (?e\<lparr>ie_bits := b\<rparr>) = 0 then insert i X else X - {i})"
    by (intro cap_inv_upd [OF inv d(6)]) (use ty b d(3,12,13) in simp_all)
  then have inv1: "cap_inv (set_bits sp i b) k (add_ref a 1 H) X"
    using moved_between(3) [of ?e a "?e\<lparr>ie_bits := b\<rparr>" ?H] d(3,9) ty b by simp
  obtain k' where "ip_release a k = Some k'" "only_at a k k'" "cap_inv (set_bits sp i b) k' H X"
    using dead_then_release [OF inv1 _ h] d(4) by auto
  then show ?thesis
    using z b bt(3) d(1,3) by (simp add: ipc_right_copyout_send_def Let_def b_def)
qed

subsection \<open>Receive rights\<close>

lemma cap_inv_set_receiver:
  assumes inv: "cap_inv sp k H X" and p: "port_at k a = Some p" and nr: "\<not> recv_in (is_table sp) a"
  shows "cap_inv sp (put_port a (p\<lparr>ip_receiver_name := n, ip_data := d\<rparr>) k) (add_recv a H) X"
  by (rule cap_inv_no_receiver [OF inv p _ _ nr, of _ "p\<lparr>ip_receiver_name := n, ip_data := d\<rparr>"]) simp_all

lemma cap_inv_recv_drop:
  assumes inv: "cap_inv sp k (add_recv a H) X" and r: "recv_in (is_table sp) a"
  shows "cap_inv sp k H X"
proof -
  note d = cap_invD [OF inv]
  have "addr_ok (is_self sp) (is_table sp) k H b" if "b \<noteq> IO_NULL" for b
    using d(4) [OF that] r by (auto simp: addr_ok_def port_ok_def split: option.splits ipc_object.splits)
  then show ?thesis using d(1-3) by (simp add: cap_inv_def)
qed

lemma recv_in_slot:
  assumes "i < length (is_table sp)" "ie_object (is_table sp ! i) = a"
    "entry_type (is_table sp ! i) = MACH_PORT_TYPE_RECEIVE \<or> entry_type (is_table sp ! i) = MACH_PORT_TYPE_SEND_RECEIVE"
  shows "recv_in (is_table sp) a"
  using assms type_bit_iff(2) [of "ie_bits (is_table sp ! i)"] by (auto simp: recv_in_iff entry_recv_def)

text \<open>The reference that a port in transit has on the port it travels to.\<close>

definition dest_ref :: "addr \<Rightarrow> holdings \<Rightarrow> holdings" where
  "dest_ref dest H = (if dest = IP_NULL then H else add_ref dest 1 H)"

lemma release_dest:
  assumes inv: "cap_inv sp k (dest_ref dest H) X" and d: "dest \<noteq> IP_NULL \<Longrightarrow> port_at k dest \<noteq> None \<and> 0 \<le> h_refs H dest"
  shows "\<exists>k'. (if dest \<noteq> IP_NULL then ip_release dest k else Some k) = Some k' \<and> only_at dest k k' \<and> cap_inv sp k' H X"
  using dead_then_release [of sp k dest H X] inv d by (cases "dest = IP_NULL") (auto simp: dest_ref_def)

lemma copyout_receive_new:
  assumes inv: "cap_inv sp k (add_ref a 1 H) X" and i: "i \<in> X"
    and p: "port_at k a = Some p" "ip_active p"
    and n: "name = MACH_PORT_MAKE i (IE_BITS_GEN (ie_bits (is_table sp ! i)))"
    and uniq: "\<forall>j \<in> naming_slots (is_table sp). ob (is_table sp) j \<noteq> a"
  shows "\<exists>sp'. cap_inv sp' (put_port a (p\<lparr>ip_receiver_name := name, ip_data := is_self sp\<rparr>) k) H (X - {i})
    \<and> slot_frame i sp sp' \<and> names_right sp' i name MACH_PORT_TYPE_RECEIVE a
    \<and> sp' = set_bits (set_object sp i a) i (ie_bits (is_table sp ! i) OR MACH_PORT_TYPE_RECEIVE)"
proof -
  let ?e = "is_table sp ! i" and ?p = "p\<lparr>ip_receiver_name := name, ip_data := is_self sp\<rparr>"
  define b where "b = ie_bits ?e OR MACH_PORT_TYPE_RECEIVE"
  define e' where "e' = ?e\<lparr>ie_object := a, ie_bits := b\<rparr>"
  have nr: "\<not> recv_in (is_table sp) a"
  proof
    assume "recv_in (is_table sp) a"
    then obtain j where j: "j < length (is_table sp)" "entry_recv (is_table sp ! j) a" by (auto simp: recv_in_iff)
    then have "ie_bits (is_table sp ! j) AND MACH_PORT_TYPE_RECEIVE \<noteq> 0" by (simp add: entry_recv_def)
    then have t: "entry_type (is_table sp ! j) \<noteq> 0" using type_bit_iff(2) [of "ie_bits (is_table sp ! j)"] by auto
    then have "j \<in> naming_slots (is_table sp)"
      using type_bits_zero(2) [OF cap_inv_slot(1) [OF inv j(1) t]] j by (auto simp: naming_slots_def entry_recv_def)
    then show False using uniq j(2) by (auto simp: entry_recv_def)
  qed
  note inv1 = cap_inv_set_receiver [OF inv p(1) nr, where n = name and d = "is_self sp"]
  note h = cap_inv_held [OF inv i] and pd = cap_inv_portD [OF inv p(1)]
  have bt: "IE_BITS_TYPE b = entry_type ?e OR MACH_PORT_TYPE_RECEIVE" "IE_BITS_UREFS b = entry_urefs ?e"
    "IE_BITS_GEN b = IE_BITS_GEN (ie_bits ?e)" unfolding b_def by (rule ie_or)+
  then have b: "IE_BITS_TYPE b = MACH_PORT_TYPE_RECEIVE" "IE_BITS_UREFS b = 0" using h by simp_all
  have eq: "set_bits (set_object sp i a) i b = upd_entry sp i (\<lambda>e. e\<lparr>ie_object := a, ie_bits := b\<rparr>)" (is "?s = _")
    using h(1) by (simp add: upd_entry_twice del: upd_entry_fields)
  have "used_entry e'" using b pd(5) by (simp add: used_entry_at e'_def)
  moreover have "slot_ok (is_self sp) (put_port a ?p k) i e'"
    by (rule slot_okI [of _ _ ?p]) (use p b bt(3) h n in \<open>simp_all add: e'_def\<close>)
  ultimately have "cap_inv ?s (put_port a ?p k) (moved ?e e' a (add_recv a (add_ref a 1 H)))
      (if entry_type e' = 0 then insert i X else X - {i})"
    unfolding eq by (intro cap_inv_upd [OF inv1 h(7)]) (use b h pd p uniq in \<open>simp_all add: e'_def\<close>)
  then have "cap_inv ?s (put_port a ?p k) (add_recv a H) (X - {i})"
    using moved_in(3) [OF h(3) pd(2), of e'] b by (simp add: e'_def)
  then have "cap_inv ?s (put_port a ?p k) H (X - {i})"
    by (rule cap_inv_recv_drop) (rule recv_in_slot [of i], use h(1) b in simp_all)
  moreover have "slot_frame i sp ?s" "names_right ?s i name MACH_PORT_TYPE_RECEIVE a"
    unfolding eq using b bt(3) h(1) n by (simp_all add: names_right_def)
  ultimately show ?thesis unfolding b_def by blast
qed


lemma naming_slot_iff:
  assumes inv: "cap_inv sp k H X" and i: "i < length (is_table sp)"
  shows "i \<in> naming_slots (is_table sp) \<longleftrightarrow> naming_type (entry_type (is_table sp ! i))"
  using i by (auto simp: naming_slots_def)

lemma send_slot_no_recv:
  assumes inv: "cap_inv sp k H X" and i: "i < length (is_table sp)"
    "entry_type (is_table sp ! i) = MACH_PORT_TYPE_SEND" "ie_object (is_table sp ! i) = a"
  shows "\<not> recv_in (is_table sp) a"
proof
  assume "recv_in (is_table sp) a"
  then obtain j where j: "j < length (is_table sp)" "entry_recv (is_table sp ! j) a" by (auto simp: recv_in_iff)
  then have jr: "ie_bits (is_table sp ! j) AND MACH_PORT_TYPE_RECEIVE \<noteq> 0" "ie_object (is_table sp ! j) = a"
    by (simp_all add: entry_recv_def)
  then have t: "entry_type (is_table sp ! j) \<noteq> 0" using type_bit_iff(2) [of "ie_bits (is_table sp ! j)"] by auto
  then have n: "entry_type (is_table sp ! j) \<in> {MACH_PORT_TYPE_RECEIVE, MACH_PORT_TYPE_SEND_RECEIVE}"
    using type_bits_zero(2) [OF cap_inv_slot(1) [OF inv j(1) t]] jr(1) by auto
  have "j = i"
    by (rule cap_inv_naming_unique [OF inv j(1) _ i(1)]) (use n i jr(2) in auto)
  then show False using n i(2) by auto
qed

lemma copyout_receive_join:
  assumes inv: "cap_inv sp k (add_ref a 1 H) X" and r: "right_at sp k i a p" and act: "ip_active p"
    and ty: "entry_type (is_table sp ! i) = MACH_PORT_TYPE_SEND" and h: "0 \<le> h_refs H a"
    and n: "name = MACH_PORT_MAKE i (IE_BITS_GEN (ie_bits (is_table sp ! i)))" "MACH_PORT_INDEX name = i"
  shows "\<exists>k1 sp1 sp'. ip_release a (put_port a (p\<lparr>ip_receiver_name := name, ip_data := is_self sp\<rparr>) k) = Some k1
    \<and> ipc_hash_delete sp a name = Some sp1
    \<and> sp' = set_bits sp1 i (ie_bits (is_table sp ! i) OR MACH_PORT_TYPE_RECEIVE)
    \<and> only_at a k k1 \<and> slot_frame i sp sp' \<and> cap_inv sp' k1 H X
    \<and> names_right sp' i name MACH_PORT_TYPE_SEND_RECEIVE a"
proof -
  let ?e = "is_table sp ! i" and ?p = "p\<lparr>ip_receiver_name := name, ip_data := is_self sp\<rparr>"
  note d = right_atD [OF inv r]
  define b where "b = ie_bits ?e OR MACH_PORT_TYPE_RECEIVE"
  have bt: "IE_BITS_TYPE b = entry_type ?e OR MACH_PORT_TYPE_RECEIVE" "IE_BITS_UREFS b = entry_urefs ?e"
    "IE_BITS_GEN b = IE_BITS_GEN (ie_bits ?e)" unfolding b_def by (rule ie_or)+
  then have b: "IE_BITS_TYPE b = MACH_PORT_TYPE_SEND_RECEIVE" using ty by simp
  note nr = send_slot_no_recv [OF inv d(1) ty d(3)]
  have inv1: "cap_inv sp (put_port a ?p k) (add_recv a (add_ref a 1 H)) X"
    by (rule cap_inv_set_receiver [OF inv d(4) nr])
  have pa: "port_at (put_port a ?p k) a = Some ?p" by simp
  have "0 < h_refs (add_recv a (add_ref a 1 H)) a" using h by simp
  note rel = io_release_inv [OF inv1 pa this]
  have more: "ip_references p \<noteq> 1"
  proof
    assume "ip_references p = 1"
    then have "refs_in (is_table sp) a + h_refs H a = 0"
      using cap_inv_portD(1) [OF inv d(4)] by (simp add: port_ok_def)
    then show False using rights_in_ge(1) [OF d(1), of a] d(3) h by (simp add: entry_refs_def)
  qed
  obtain k1 where k1: "ip_release a (put_port a ?p k) = Some k1" "only_at a k k1"
      "cap_inv sp k1 (add_recv a H) X" "port_at k1 a = Some (?p\<lparr>ip_references := ip_references p - 1\<rparr>)"
    using rel more only_at_trans [of a k "put_port a ?p k"] by (auto simp: port_at_eq)
  obtain sp1 where sp1: "ipc_hash_delete sp a name = Some sp1" "unhashed sp i sp1"
    using unhashed_delete [OF inv d(1) ty d(3) n(2)] by blast
  let ?f = "ie_bits_update (\<lambda>_. b) :: ipc_entry \<Rightarrow> ipc_entry"
  have "slot_ok (is_self sp) k1 i (?f ?e)"
    by (rule slot_okI [of _ _ "?p\<lparr>ip_references := ip_references p - 1\<rparr>"])
      (use d(3,10) b bt(3) n(1) act k1(4) in \<open>simp_all add: req_ok_def\<close>)
  moreover have "used_entry (?f ?e)" using d(5) ty b bt(2) by (auto simp: used_entry_at)
  moreover have "k_objects k1 a \<noteq> None" using k1(4) by (simp add: port_at_eq)
  ultimately have c: "cap_inv (set_bits sp1 i b) k1 (moved ?e (?f ?e) a (add_recv a H))
        (if entry_type (?f ?e) = 0 then insert i X else X - {i})" "slot_frame i sp (set_bits sp1 i b)"
    using cap_inv_unhashed_upd [OF k1(3) d(6) sp1(2), of ?f "?f ?e" a] b ty d(3,12) by (auto simp: index_free_def)
  have i1: "i < length (is_table (set_bits sp1 i b))" using slot_frameD(5) [OF c(2)] d(1) by simp
  have o1: "ie_object (is_table (set_bits sp1 i b) ! i) = a"
    using i1 same_payload_fields(1) [OF unhashedD(6) [OF sp1(2)] d(1)] d(3) by simp
  have "cap_inv (set_bits sp1 i b) k1 (add_recv a H) X"
    using c(1) moved_between(4) [of ?e a "?f ?e"] d(3,9) ty b by simp
  then have "cap_inv (set_bits sp1 i b) k1 H X"
    by (rule cap_inv_recv_drop) (rule recv_in_slot [OF i1 o1], use i1 b in simp)
  moreover have "names_right (set_bits sp1 i b) i name MACH_PORT_TYPE_SEND_RECEIVE a"
    using i1 o1 b bt(3) n(1) by (simp add: names_right_def)
  ultimately show ?thesis using k1(1,2) sp1(1) c(2) unfolding b_def by blast
qed


subsection \<open>Copyout of a receive right\<close>

definition only_in :: "addr set \<Rightarrow> kern \<Rightarrow> kern \<Rightarrow> bool" where
  "only_in A k k' \<longleftrightarrow> (\<forall>b. b \<notin> A \<longrightarrow> k_objects k' b = k_objects k b)"

lemma only_in_at: "only_at a k k' \<Longrightarrow> a \<in> A \<Longrightarrow> only_in A k k'"
  by (auto simp: only_in_def only_at_def)

lemma only_in_trans: "only_in A k k' \<Longrightarrow> only_in A k' k'' \<Longrightarrow> only_in A k k''"
  by (simp add: only_in_def)

text \<open>The port that the receive right of \<open>p\<close> is travelling to, if any, is another one and alive.\<close>

definition dest_ok :: "kern \<Rightarrow> holdings \<Rightarrow> addr \<Rightarrow> ipc_port \<Rightarrow> bool" where
  "dest_ok k H a p \<longleftrightarrow>
     ip_destination p = IP_NULL \<or> ip_destination p \<noteq> a \<and> port_at k (ip_destination p) \<noteq> None
       \<and> 0 \<le> h_refs H (ip_destination p)"

lemma copyout_receive_new_inv:
  assumes inv: "cap_inv sp k (add_ref a 1 (dest_ref (ip_destination p) H)) X" and i: "i \<in> X"
    and p: "port_at k a = Some p" "ip_active p" and dst: "dest_ok k H a p"
    and n: "name = MACH_PORT_MAKE i (IE_BITS_GEN (ie_bits (is_table sp ! i)))"
    and uniq: "\<forall>j \<in> naming_slots (is_table sp). ob (is_table sp) j \<noteq> a"
  shows "\<exists>sp' k'. ipc_right_copyout_receive (set_object sp i a) name i a k = Some (KERN_SUCCESS, sp', k')
    \<and> slot_frame i sp sp' \<and> only_in {a, ip_destination p} k k' \<and> cap_inv sp' k' H (X - {i})
    \<and> names_right sp' i name MACH_PORT_TYPE_RECEIVE a"
proof -
  let ?e = "is_table sp ! i" and ?p = "p\<lparr>ip_receiver_name := name, ip_data := is_self sp\<rparr>"
  let ?s = "set_bits (set_object sp i a) i (ie_bits ?e OR MACH_PORT_TYPE_RECEIVE)"
  note h = cap_inv_held [OF inv i]
  have c: "cap_inv ?s (put_port a ?p k) (dest_ref (ip_destination p) H) (X - {i})" "slot_frame i sp ?s"
      "names_right ?s i name MACH_PORT_TYPE_RECEIVE a"
    using copyout_receive_new [OF inv i p n uniq] by blast+
  have "ip_destination p \<noteq> IP_NULL \<Longrightarrow> port_at (put_port a ?p k) (ip_destination p) \<noteq> None \<and> 0 \<le> h_refs H (ip_destination p)"
    using dst by (auto simp: dest_ok_def port_at_put)
  from release_dest [OF c(1) this] obtain k' where
    k': "(if ip_destination p \<noteq> IP_NULL then ip_release (ip_destination p) (put_port a ?p k) else Some (put_port a ?p k)) = Some k'"
      "only_at (ip_destination p) (put_port a ?p k) k'" "cap_inv ?s k' H (X - {i})" by blast
  have z: "ie_bits ?e AND MACH_PORT_TYPE_SEND = 0" using h(4) type_bit_iff(1) [of "ie_bits ?e"] by simp
  have eb: "ie_bits (is_table (set_object sp i a) ! i) = ie_bits ?e" "is_self (set_object sp i a) = is_self sp"
    using h(1) by simp_all
  have "ipc_right_copyout_receive (set_object sp i a) name i a k = Some (KERN_SUCCESS, ipc_entry_modified ?s name, k')"
    unfolding ipc_right_copyout_receive_def eb using p(1) z k'(1) by (simp add: Let_def del: upd_entry_fields)
  moreover have "only_in {a, ip_destination p} k k'"
    by (rule only_in_trans [OF only_in_at [of a] only_in_at [OF k'(2)]]) simp_all
  ultimately show ?thesis using c(2,3) k'(3) by auto
qed

lemma copyout_receive_join_inv:
  assumes inv: "cap_inv sp k (add_ref a 1 (dest_ref (ip_destination p) H)) X"
    and r: "right_at sp k i a p" and act: "ip_active p" and dst: "dest_ok k H a p"
    and ty: "entry_type (is_table sp ! i) = MACH_PORT_TYPE_SEND" and h: "0 \<le> h_refs H a"
    and n: "name = MACH_PORT_MAKE i (IE_BITS_GEN (ie_bits (is_table sp ! i)))" "MACH_PORT_INDEX name = i"
  shows "\<exists>sp' k'. ipc_right_copyout_receive sp name i a k = Some (KERN_SUCCESS, sp', k')
    \<and> slot_frame i sp sp' \<and> only_in {a, ip_destination p} k k' \<and> cap_inv sp' k' H X
    \<and> names_right sp' i name MACH_PORT_TYPE_SEND_RECEIVE a"
proof -
  let ?p = "p\<lparr>ip_receiver_name := name, ip_data := is_self sp\<rparr>"
  note d = right_atD [OF inv r]
  have h': "0 \<le> h_refs (dest_ref (ip_destination p) H) a" using h by (auto simp: dest_ref_def)
  obtain k1 sp1 sp' where c: "ip_release a (put_port a ?p k) = Some k1" "ipc_hash_delete sp a name = Some sp1"
      "sp' = set_bits sp1 i (ie_bits (is_table sp ! i) OR MACH_PORT_TYPE_RECEIVE)" "only_at a k k1" "slot_frame i sp sp'"
      "cap_inv sp' k1 (dest_ref (ip_destination p) H) X" "names_right sp' i name MACH_PORT_TYPE_SEND_RECEIVE a"
    using copyout_receive_join [OF inv r act ty h' n] by blast
  have "ip_destination p \<noteq> IP_NULL \<Longrightarrow> port_at k1 (ip_destination p) \<noteq> None \<and> 0 \<le> h_refs H (ip_destination p)"
    using dst c(4) by (auto simp: dest_ok_def port_at_def only_at_def)
  from release_dest [OF c(6) this] obtain k' where
    k': "(if ip_destination p \<noteq> IP_NULL then ip_release (ip_destination p) k1 else Some k1) = Some k'"
      "only_at (ip_destination p) k1 k'" "cap_inv sp' k' H X" by blast
  have s: "ie_bits (is_table sp ! i) AND MACH_PORT_TYPE_SEND \<noteq> 0" using ty type_bits_zero(1) [OF d(5)] by simp
  have "ipc_right_copyout_receive sp name i a k = Some (KERN_SUCCESS, ipc_entry_modified sp' name, k')"
    using d(4) s c(1-3) k'(1) by (simp add: ipc_right_copyout_receive_def Let_def del: upd_entry_fields)
  moreover have "only_in {a, ip_destination p} k k'"
    by (rule only_in_trans [OF only_in_at [OF c(4)] only_in_at [OF k'(2)]]) simp_all
  ultimately show ?thesis using c(5,7) k'(3) by auto
qed

subsection \<open>The name that a space has for a port\<close>

lemma cap_inv_table_length: "cap_inv sp k H X \<Longrightarrow> 0 < length (is_table sp) \<and> length (is_table sp) < 2 ^ 24"
  by (auto simp: cap_inv_def space_wf_def table_wf_def table_base_def freelist_def)

lemma receiver_slot:
  assumes inv: "cap_inv sp k H X" and p: "port_at k a = Some p" "ip_active p" "ip_receiver p = is_self sp"
    and nh: "a \<notin> h_recvs H"
  shows "\<exists>i. right_at sp k i a p \<and> naming_type (entry_type (is_table sp ! i))
    \<and> ip_receiver_name p = MACH_PORT_MAKE i (IE_BITS_GEN (ie_bits (is_table sp ! i)))"
proof -
  have "recv_in (is_table sp) a" using cap_inv_portD(1) [OF inv p(1)] p(2,3) nh by (simp add: port_ok_def)
  then obtain i where i: "i < length (is_table sp)" "entry_recv (is_table sp ! i) a" by (auto simp: recv_in_iff)
  then have ir: "ie_bits (is_table sp ! i) AND MACH_PORT_TYPE_RECEIVE \<noteq> 0" "ie_object (is_table sp ! i) = a"
    by (simp_all add: entry_recv_def)
  then have t: "entry_type (is_table sp ! i) \<noteq> 0" using type_bit_iff(2) [of "ie_bits (is_table sp ! i)"] by auto
  then have n: "entry_type (is_table sp ! i) \<in> {MACH_PORT_TYPE_RECEIVE, MACH_PORT_TYPE_SEND_RECEIVE}"
    using type_bits_zero(2) [OF cap_inv_slot(1) [OF inv i(1) t]] ir(1) by auto
  then have r: "right_at sp k i a p" using i ir(2) p(1) by (auto simp: right_at_def)
  then show ?thesis using right_atD(14) [OF inv r] n by auto
qed

lemma ipc_right_reverse_inv:
  assumes inv: "cap_inv sp k H X" and p: "port_at k a = Some p" "ip_active p" and nh: "a \<notin> h_recvs H"
  shows "ipc_right_reverse sp a k = Some None \<and> (\<forall>j \<in> naming_slots (is_table sp). ob (is_table sp) j \<noteq> a)
    \<or> (\<exists>i name. ipc_right_reverse sp a k = Some (Some (name, i)) \<and> right_at sp k i a p
         \<and> naming_type (entry_type (is_table sp ! i))
         \<and> name = MACH_PORT_MAKE i (IE_BITS_GEN (ie_bits (is_table sp ! i))) \<and> MACH_PORT_INDEX name = i)"
proof (cases "ip_receiver p = is_self sp")
  case True
  obtain i where i: "right_at sp k i a p" "naming_type (entry_type (is_table sp ! i))"
      "ip_receiver_name p = MACH_PORT_MAKE i (IE_BITS_GEN (ie_bits (is_table sp ! i)))"
    using receiver_slot [OF inv p True nh] by blast
  note d = right_atD [OF inv i(1)]
  have "i < 2 ^ 24" using d(1) cap_inv_table_length [OF inv] by linarith
  then have "ipc_entry_lookup sp (ip_receiver_name p) = Some i"
    using d(1) i(2) by (auto simp: ipc_entry_lookup_iff i(3))
  then show ?thesis
    using True p i \<open>i < 2 ^ 24\<close> by (simp add: ipc_right_reverse_def)
next
  case False
  have rev: "ipc_right_reverse sp a k = ipc_hash_lookup sp a" using p False by (simp add: ipc_right_reverse_def)
  obtain L where "space_wf sp L X" using cap_invD(1) [OF inv] by blast
  then have hw: "hash_wf (is_table sp) (send_slots (is_table sp))" by (simp add: space_wf_def table_wf_def)
  have len: "0 < length (is_table sp)" using cap_inv_table_length [OF inv] by simp
  note lk = ipc_hash_table_lookup_correct [OF hw len cap_inv_portD(2) [OF inv p(1)]]
  show ?thesis
  proof (cases "\<exists>i \<in> send_slots (is_table sp). ob (is_table sp) i = a")
    case True
    then obtain i where i: "i \<in> send_slots (is_table sp)" "ob (is_table sp) i = a"
        "ipc_hash_lookup sp a = Some (Some (MACH_PORT_MAKE i (IE_BITS_GEN (ie_bits (is_table sp ! i))), i))"
      using lk by (auto simp: ipc_hash_lookup_def is_table_size_def)
    then have "i < length (is_table sp)" "entry_type (is_table sp ! i) = MACH_PORT_TYPE_SEND"
      by (auto simp: send_slots_def)
    moreover from this have "i < 2 ^ 24" using cap_inv_table_length [OF inv] by linarith
    ultimately show ?thesis using i p rev by (auto simp: right_at_def)
  next
    case none: False
    then have "ipc_right_reverse sp a k = Some None" using lk rev by (simp add: ipc_hash_lookup_def is_table_size_def)
    moreover have "ob (is_table sp) j \<noteq> a" if j: "j \<in> naming_slots (is_table sp)" for j
    proof
      assume o: "ob (is_table sp) j = a"
      have jl: "j < length (is_table sp)" and jt: "naming_type (entry_type (is_table sp ! j))"
        using j by (auto simp: naming_slots_def)
      have "right_at sp k j a p" using jl jt o p(1) by (auto simp: right_at_def)
      from right_atD(14) [OF inv this] show False
        using none jl jt o False by (auto simp: send_slots_def)
    qed
    ultimately show ?thesis by blast
  qed
qed

end
