(* ===== verification/Object_Ledger.thy ===== *)
theory Object_Ledger
  imports Ipc_Object Copyout_Ledger
begin

text \<open>
  The ledger under the routines of \<open>osfmk/ipc/ipc_object.c\<close>: copyin, copyout, allocation and
  renaming, which combine entries, rights and objects.
\<close>

unbundle bit_operations_syntax

subsection \<open>Growing the table\<close>

lemma sum_list_extend:
  assumes "length t \<le> length t'" "\<And>j. j < length t \<Longrightarrow> f (t' ! j) = f (t ! j)"
    "\<And>j. length t \<le> j \<Longrightarrow> j < length t' \<Longrightarrow> f (t' ! j) = 0"
  shows "(\<Sum>e \<leftarrow> t'. f e) = (\<Sum>e \<leftarrow> t. (f e :: int))"
proof -
  let ?n = "length t"
  have "map f (take ?n t') = map f t"
    using assms(1,2) by (intro nth_equalityI) auto
  moreover have "map f (drop ?n t') = replicate (length t' - ?n) 0"
    using assms(3) by (intro nth_equalityI) auto
  ultimately have "map f t' = map f t @ replicate (length t' - ?n) 0"
    by (metis append_take_drop_id map_append)
  then show ?thesis by (simp add: sum_list_replicate)
qed

lemma slot_ok_cong:
  assumes "ie_object e' = ie_object e" "ie_bits e' = ie_bits e" "ie_request e' = ie_request e"
  shows "slot_ok self k i e' = slot_ok self k i e"
  by (simp only: slot_ok_def assms)

lemma cap_inv_extends:
  assumes inv: "cap_inv sp k H X" and ext: "space_extends sp sp'" and wf: "space_wf sp' L' X'"
  shows "cap_inv sp' k H X'"
proof -
  note d = cap_invD [OF inv] and e = space_extendsD [OF ext]
  let ?t = "is_table sp" and ?t' = "is_table sp'"
  have old: "ie_object (?t' ! j) = ie_object (?t ! j)
      \<and> (entry_type (?t ! j) \<noteq> 0 \<longrightarrow> ie_bits (?t' ! j) = ie_bits (?t ! j))
      \<and> entry_type (?t' ! j) = entry_type (?t ! j)" if "j < length ?t" for j
    using e(6-8) [OF that] by simp
  have bits: "ie_bits (?t' ! j) AND m = ie_bits (?t ! j) AND m"
    if "j < length ?t" "m \<in> {MACH_PORT_TYPE_SEND, MACH_PORT_TYPE_SEND_ONCE, MACH_PORT_TYPE_RECEIVE}" for j m
    using old [OF that(1)] that(2) type_bit_iff(1-3) [of "ie_bits (?t' ! j)"] type_bit_iff(1-3) [of "ie_bits (?t ! j)"]
    by auto
  have ok: "slot_ok (is_self sp) k j (?t' ! j)" if "j < length ?t'" for j
  proof (cases "j < length ?t \<and> entry_type (?t ! j) \<noteq> 0")
    case True
    then show ?thesis using d(3) [of j] slot_ok_cong [of "?t' ! j" "?t ! j"] e(6,8) [of j] by blast
  next
    case False
    then have "entry_type (?t' ! j) = 0" using old [of j] e(9) [of j] that by (cases "j < length ?t") auto
    then show ?thesis by (simp add: slot_ok_def)
  qed
  have cnt: "refs_in ?t' a = refs_in ?t a" "sends_in ?t' a = sends_in ?t a" "sonces_in ?t' a = sonces_in ?t a"
    if "a \<noteq> IO_NULL" for a
    unfolding refs_in_def sends_in_def sonces_in_def
    by (rule sum_list_extend [OF e(5)]; use old bits e(9) that in \<open>simp add: entry_rights\<close>)+
  have er: "entry_recv (?t' ! j) a = entry_recv (?t ! j) a" if "j < length ?t" for j a
    using old [OF that] bits [OF that, of MACH_PORT_TYPE_RECEIVE] by (simp add: entry_recv_def)
  have er0: "\<not> entry_recv (?t' ! j) a" if "j < length ?t'" "length ?t \<le> j" "a \<noteq> IO_NULL" for j a
    using e(9) [of j] that by (simp add: entry_recv_def)
  have rv: "recv_in ?t' a = recv_in ?t a" if "a \<noteq> IO_NULL" for a
    using er er0 [OF _ _ that] e(5) unfolding recv_in_iff by (meson leI order_less_le_trans)
  have "addr_ok (is_self sp) ?t' k H a = addr_ok (is_self sp) ?t k H a" if "a \<noteq> IO_NULL" for a
    by (simp only: addr_ok_def port_ok_def cnt [OF that] rv [OF that])
  then have "addr_ok (is_self sp) ?t' k H a" if "a \<noteq> IO_NULL" for a using d(4) that by blast
  then show ?thesis using wf ok d(2) e(1) by (auto simp: cap_inv_def)
qed

subsection \<open>Releasing a held slot\<close>

lemma untyped_null:
  assumes inv: "cap_inv sp k H X" and i: "i < length (is_table sp)" "entry_type (is_table sp ! i) = 0"
  shows "ie_object (is_table sp ! i) = IO_NULL"
proof -
  obtain L where L: "space_wf sp L X" using cap_invD(1) [OF inv] by blast
  then have tb: "table_base (is_table sp) L X" by (simp add: space_wf_def table_wf_def)
  have "\<not> used_entry (is_table sp ! i)" using i(2) by (auto simp: used_entry_def)
  then show ?thesis
    using tb i(1) table_base_free [OF tb, of i]
    by (cases "i = 0 \<or> i \<in> set L") (auto simp: table_base_def slots_wf_def free_entry_def held_entry_def split: if_splits)
qed

lemma slot_frame_extends:
  assumes f: "slot_frame i sp sp'" and ty: "entry_type (is_table sp ! i) = 0" "entry_type (is_table sp' ! i) = 0"
    and ob: "ie_object (is_table sp' ! i) = ie_object (is_table sp ! i)"
  shows "space_extends sp sp'"
proof -
  note d = slot_frameD [OF f]
  have "ie_object (is_table sp' ! j) = ie_object (is_table sp ! j)
      \<and> entry_type (is_table sp' ! j) = entry_type (is_table sp ! j)
      \<and> (entry_type (is_table sp ! j) \<noteq> 0 \<longrightarrow> ie_bits (is_table sp' ! j) = ie_bits (is_table sp ! j)
           \<and> ie_request (is_table sp' ! j) = ie_request (is_table sp ! j))"
    if "j < length (is_table sp)" for j
    using d(6-8) [OF that] ty ob by (cases "j = i") simp_all
  then show ?thesis using d(1-5) by (simp add: space_extends_def is_active_def is_growing_def)
qed

lemma dealloc_held:
  assumes inv: "cap_inv sp k H X" and i: "i \<in> X" and n: "MACH_PORT_INDEX name = i"
  shows "\<exists>sp'. ipc_entry_dealloc sp name i = Some sp' \<and> slot_frame i sp sp' \<and> cap_inv sp' k H (X - {i})
    \<and> space_extends sp sp'"
proof -
  note h = cap_inv_held [OF inv i]
  have a: "IO_DEAD \<noteq> IO_NULL" by (simp add: IO_DEAD_def IO_NULL_def)
  have un: "unhashed sp i sp" using h(4) by (intro unhashed_refl [OF inv]) simp
  have "upd_entry sp i (\<lambda>e. e) = sp" by (simp add: upd_entry_def)
  then obtain sp' where d: "ipc_entry_dealloc sp name i = Some sp'" "slot_frame i sp sp'" "cap_inv sp' k H (X - {i})"
      "ie_bits (is_table sp' ! i) = IE_BITS_GEN (ie_bits (is_table sp ! i))"
    using dealloc_unhashed [OF inv h(7) un, of "\<lambda>e. e" name IO_DEAD] h n a
      taken_other [of "is_table sp ! i" IO_DEAD H] by (auto simp: index_free_def)
  have ty: "entry_type (is_table sp' ! i) = 0" using d(4) type_none_iff by (metis gen_idem)
  then have "ie_object (is_table sp' ! i) = IO_NULL"
    using untyped_null [OF d(3)] slot_frameD(5) [OF d(2)] h(1) by simp
  then show ?thesis using d slot_frame_extends [OF d(2) h(4) ty] h(3) by auto
qed

subsection \<open>Copyin\<close>

lemma right_gain_release:
  "add_ref a (- 1) (right_gain msgt_name a (add_ref a 1 H)) = right_gain msgt_name a H"
  by (cases msgt_name) (simp_all add: right_gain_def)

lemma right_gain_refs: "h_refs H a \<le> h_refs (right_gain msgt_name b H) a"
  by (cases msgt_name) (simp_all add: right_gain_def)

text \<open>What the caller holds more after a copyin of an object.\<close>

definition object_gain :: "mach_msg_type_name \<Rightarrow> kern_return + addr \<Rightarrow> holdings \<Rightarrow> holdings" where
  "object_gain msgt_name r H =
     (case r of Inl _ \<Rightarrow> H | Inr object \<Rightarrow> if object = IO_DEAD then H else right_gain msgt_name object H)"

lemma copyin_settle:
  assumes c: "copied_in sp k i a msgt_name H X res" and inv: "cap_inv sp k H X"
    and i: "i < length (is_table sp)" "i \<notin> X"
    and n: "MACH_PORT_INDEX name = i" and h: "0 \<le> h_refs H a" and a: "a \<noteq> IO_DEAD \<or> port_at k a = None"
  shows "\<exists>r rel sp1 k1 sp' k'. res = Some (r, rel, sp1, k1)
    \<and> (if entry_type (is_table sp1 ! i) = 0 then ipc_entry_dealloc sp1 name i else Some sp1) = Some sp'
    \<and> (if rel \<noteq> IP_NULL then ip_release rel k1 else Some k1) = Some k'
    \<and> slot_frame i sp sp' \<and> only_at a k k'
    \<and> cap_inv sp' k' (object_gain msgt_name (map_sum id fst r) H) X
    \<and> (\<forall>object so. r = Inr (object, so) \<longrightarrow> object = IO_DEAD \<or> object = a)"
proof -
  obtain r rel sp1 k1 where res: "res = Some (r, rel, sp1, k1)" "slot_frame i sp sp1" "only_at a k k1"
      "rel = IP_NULL \<or> rel = a \<and> port_at k1 a \<noteq> None"
      "\<forall>object so. r = Inr (object, so) \<longrightarrow> object = IO_DEAD \<or> object = a \<and> (\<exists>p. port_at k1 a = Some p \<and> ip_active p)"
      "cap_inv sp1 k1 (copyin_gain msgt_name r rel H) (held_slots sp1 i X)"
    using c unfolding copied_in_def by blast
  let ?G = "copyin_gain msgt_name r rel H"
  obtain sp' where sp': "(if entry_type (is_table sp1 ! i) = 0 then ipc_entry_dealloc sp1 name i else Some sp1) = Some sp'"
      "slot_frame i sp sp'" "cap_inv sp' k1 ?G X"
    using res(2,6) dealloc_held [OF res(6) _ n] i(2) slot_frame_trans [OF res(2)]
    by (cases "entry_type (is_table sp1 ! i) = 0") (auto simp: held_slots_def)
  have ob: "\<forall>object so. r = Inr (object, so) \<longrightarrow> object = IO_DEAD \<or> object = a" using res(5) by blast
  show ?thesis
  proof (cases "rel = IP_NULL")
    case True
    then have "?G = object_gain msgt_name (map_sum id fst r) H"
      by (cases r) (auto simp: copyin_gain_def object_gain_def split: prod.splits)
    then show ?thesis using res sp' True ob by auto
  next
    case False
    then have rel: "rel = a" "port_at k1 a \<noteq> None" using res(4) by auto
    have "h_refs H a + 1 \<le> h_refs ?G a"
      using False rel(1) ob right_gain_refs [of "add_ref a 1 H" a msgt_name a]
      by (cases r) (auto simp: copyin_gain_def Let_def)
    then have pos: "0 < h_refs ?G a" using h by linarith
    have "add_ref a (- 1) ?G = object_gain msgt_name (map_sum id fst r) H"
      using False rel(1) ob right_gain_release [of a msgt_name H]
      by (cases r) (auto simp: copyin_gain_def object_gain_def Let_def)
    then obtain k' where "ip_release a k1 = Some k'" "only_at a k1 k'"
        "cap_inv sp' k' (object_gain msgt_name (map_sum id fst r) H) X"
      using io_release_inv [OF sp'(3) _ pos] rel(2) by auto
    then show ?thesis using res sp' rel(1) False ob only_at_trans [OF res(3)] by auto
  qed
qed

lemma ipc_object_copyin_inv:
  assumes inv: "cap_inv sp k H X" and l: "ipc_entry_lookup sp name = Some i" and act: "is_active sp"
    and a: "ie_object (is_table sp ! i) = a" and h: "0 \<le> h_refs H a" and room: "port_room k a"
  shows "\<exists>r sp' k'. ipc_object_copyin sp name msgt_name k = Some (r, sp', k')
    \<and> slot_frame i sp sp' \<and> only_at a k k' \<and> cap_inv sp' k' (object_gain msgt_name r H) X
    \<and> (\<forall>object. r = Inr object \<longrightarrow> object = IO_DEAD \<or> object = a)"
proof -
  have i: "i < length (is_table sp)" "entry_type (is_table sp ! i) \<noteq> 0" "MACH_PORT_INDEX name = i"
    using l unfolding ipc_entry_lookup_iff by auto
  note s = cap_inv_slot [OF inv i(1,2)]
  have ad: "a \<noteq> IO_DEAD \<or> port_at k a = None"
    using cap_invD(2) [OF inv] by (auto simp: heap_ok_def port_at_def)
  note c = ipc_right_copyin_inv [OF inv i a room, of msgt_name True]
  obtain r rel sp1 k1 sp' k' where
    *: "ipc_right_copyin sp name i msgt_name True k = Some (r, rel, sp1, k1)"
      "(if entry_type (is_table sp1 ! i) = 0 then ipc_entry_dealloc sp1 name i else Some sp1) = Some sp'"
      "(if rel \<noteq> IP_NULL then ip_release rel k1 else Some k1) = Some k'"
      "slot_frame i sp sp'" "only_at a k k'" "cap_inv sp' k' (object_gain msgt_name (map_sum id fst r) H) X"
      "\<forall>object so. r = Inr (object, so) \<longrightarrow> object = IO_DEAD \<or> object = a"
    using copyin_settle [OF c inv i(1) s(4) i(3) h ad] by blast
  have "ipc_right_lookup_write sp name = Inr i" using act l by (simp add: ipc_right_lookup_write_def)
  then show ?thesis
    using * by (cases r) (auto simp: ipc_object_copyin_def notify_port_deleted_if_def ipc_notify_port_deleted_def)
qed

subsection \<open>The entry for a copyout\<close>

text \<open>
  The entry that the loop of \<open>ipc_object_copyout\<close> settles on: one that names the port
  already, or a fresh one with the port stored in it.
\<close>

definition copyout_target ::
    "nat list \<Rightarrow> ipc_space \<Rightarrow> kern \<Rightarrow> holdings \<Rightarrow> nat set \<Rightarrow> addr \<Rightarrow> ipc_port \<Rightarrow> bool
       \<Rightarrow> mach_port_name_t \<Rightarrow> nat \<Rightarrow> ipc_space \<Rightarrow> bool" where
  "copyout_target sizes sp k H X a p so name i sp' \<longleftrightarrow>
     (\<exists>sp1. space_extends sp sp1 \<and> sizes_ok sizes sp1 \<and> ip_active p \<and> MACH_PORT_INDEX name = i
        \<and> name = MACH_PORT_MAKE i (IE_BITS_GEN (ie_bits (is_table sp1 ! i)))
        \<and> (\<not> so \<and> sp' = sp1 \<and> cap_inv sp1 k H X \<and> right_at sp1 k i a p
              \<and> naming_type (entry_type (is_table sp1 ! i))
           \<or> sp' = set_object sp1 i a \<and> cap_inv sp1 k H (insert i X) \<and> i \<notin> X
              \<and> ipc_entry_lookup sp name = None
              \<and> (\<not> so \<longrightarrow> (\<forall>j \<in> naming_slots (is_table sp1). ob (is_table sp1) j \<noteq> a))))"

lemma copyout_target_extends:
  assumes "space_extends sp sp1" "copyout_target sizes sp1 k H X a p so name i sp'"
  shows "copyout_target sizes sp k H X a p so name i sp'"
  using assms(2) space_extends_trans [OF assms(1)]
  unfolding copyout_target_def space_extends_lookup [OF assms(1)] by blast

lemma naming_slots_extends:
  assumes "space_extends sp sp'"
  shows "naming_slots (is_table sp') = naming_slots (is_table sp)"
    "j \<in> naming_slots (is_table sp) \<Longrightarrow> ob (is_table sp') j = ob (is_table sp) j"
proof -
  note e = space_extendsD [OF assms]
  show "naming_slots (is_table sp') = naming_slots (is_table sp)"
  proof (intro set_eqI iffI)
    fix j assume "j \<in> naming_slots (is_table sp')"
    then show "j \<in> naming_slots (is_table sp)"
      using e(7,9) [of j] by (cases "j < length (is_table sp)") (auto simp: naming_slots_def)
  next
    fix j assume "j \<in> naming_slots (is_table sp)"
    then show "j \<in> naming_slots (is_table sp')" using e(5) e(7) [of j] by (auto simp: naming_slots_def)
  qed
  show "ob (is_table sp') j = ob (is_table sp) j" if "j \<in> naming_slots (is_table sp)"
    using e(6) [of j] that by (simp add: naming_slots_def)
qed

definition entry_refused :: "nat list \<Rightarrow> (nat \<Rightarrow> bool) \<Rightarrow> ipc_space \<Rightarrow> kern_return \<Rightarrow> bool" where
  "entry_refused sizes kalloc_ok sp kr \<longleftrightarrow>
     is_table_free sp = 0 \<and>
     (if is_table_next sp = length sizes - 1 then kr = KERN_NO_SPACE
      else kr = KERN_RESOURCE_SHORTAGE \<and> \<not> kalloc_ok (sizes ! is_table_next sp))"

lemma copyout_entry_claim:
  assumes inv: "cap_inv sp k H X" and wf: "space_wf sp L X" and sz: "sizes_ok sizes sp" and L: "L \<noteq> []"
    and act: "is_active sp" and p: "port_at k a = Some p"
    and rv: "(if so then Some None else ipc_right_reverse sp a k) = Some None"
    and uniq: "\<not> so \<Longrightarrow> ip_active p \<Longrightarrow> \<forall>j \<in> naming_slots (is_table sp). ob (is_table sp) j \<noteq> a"
    and so: "so = (msgt_name = MACH_MSG_TYPE_PORT_SEND_ONCE)"
  shows "\<exists>r sp'. ipc_object_copyout_entry sizes kalloc_ok sp a msgt_name k = Some (r, sp')
    \<and> (case r of Inl kr \<Rightarrow> kr = KERN_INVALID_CAPABILITY \<and> \<not> ip_active p \<and> space_extends sp sp'
                   \<and> sizes_ok sizes sp' \<and> cap_inv sp' k H X
       | Inr (name, i) \<Rightarrow> copyout_target sizes sp k H X a p so name i sp')"
proof -
  obtain sp1 name i where g: "ipc_entry_get sp = Some (Inr (sp1, name, i))" "entry_claimed sizes sp X name i sp1"
    using ipc_entry_get_claimed [OF wf sz L] by metis
  then obtain L' where c: "MACH_PORT_INDEX name = i" "ie_bits (is_table sp1 ! i) = MACH_PORT_GEN name"
      "space_wf sp1 L' (insert i X)" "space_extends sp sp1" "i \<notin> X" "ipc_entry_lookup sp name = None"
      "sizes_ok sizes sp1"
    by (auto simp: entry_claimed_def)
  have nm: "name = MACH_PORT_MAKE i (IE_BITS_GEN (ie_bits (is_table sp1 ! i)))"
    using c(1,2) by (metis MACH_PORT_GEN_idem MACH_PORT_MAKE_INDEX_GEN)
  have inv1: "cap_inv sp1 k H (insert i X)" by (rule cap_inv_extends [OF inv c(4,3)])
  have b: "io_bits_at k a = Some (ip_bits p)"
    using p by (auto simp: io_bits_at_def port_at_def split: option.splits ipc_object.splits)
  note run = ipc_object_copyout_entry.simps [of sizes kalloc_ok sp a msgt_name k]
  show ?thesis
  proof (cases "ip_active p")
    case True
    have un: "\<forall>j \<in> naming_slots (is_table sp1). ob (is_table sp1) j \<noteq> a" if "\<not> so"
      using uniq [OF that True] naming_slots_extends [OF c(4)] by auto
    have "copyout_target sizes sp k H X a p so name i (set_object sp1 i a)"
      unfolding copyout_target_def using c inv1 nm True un by blast
    then show ?thesis using act rv so g(1) b True by (subst run) (auto split: if_splits)
  next
    case False
    obtain sp2 where d: "ipc_entry_dealloc sp1 name i = Some sp2" "slot_frame i sp1 sp2" "cap_inv sp2 k H X"
        "space_extends sp1 sp2"
      using dealloc_held [OF inv1 _ c(1)] c(5) by auto
    have "space_extends sp sp2" "sizes_ok sizes sp2"
      using space_extends_trans [OF c(4) d(4)] sizes_ok_cong [of sp2 sp1] slot_frameD(4,5) [OF d(2)] c(7) by auto
    then show ?thesis using act rv so g(1) b False d(1,3) by (subst run) (auto split: if_splits)
  qed
qed


text \<open>The loop ends after at most one growth of the table.\<close>

definition copyout_found ::
    "nat list \<Rightarrow> (kern_return \<Rightarrow> bool) \<Rightarrow> ipc_space \<Rightarrow> kern \<Rightarrow> holdings \<Rightarrow> nat set \<Rightarrow> addr \<Rightarrow> ipc_port \<Rightarrow> bool
       \<Rightarrow> ((kern_return + mach_port_name_t \<times> nat) \<times> ipc_space) option \<Rightarrow> bool" where
  "copyout_found sizes refused sp k H X a p so res \<longleftrightarrow>
     (\<exists>r sp'. res = Some (r, sp')
       \<and> (case r of
            Inl kr \<Rightarrow> space_extends sp sp' \<and> sizes_ok sizes sp' \<and> cap_inv sp' k H X
              \<and> (kr = KERN_INVALID_TASK \<and> \<not> is_active sp \<or> kr = KERN_INVALID_CAPABILITY \<and> \<not> ip_active p
                 \<or> refused kr)
          | Inr (name, i) \<Rightarrow> copyout_target sizes sp k H X a p so name i sp'))"

lemma copyout_found_extends:
  assumes e: "space_extends sp sp1" and f: "copyout_found sizes (\<lambda>_. False) sp1 k H X a p so res"
  shows "copyout_found sizes refused sp k H X a p so res"
proof -
  obtain r sp' where r: "res = Some (r, sp')" and
      c: "case r of
            Inl kr \<Rightarrow> space_extends sp1 sp' \<and> sizes_ok sizes sp' \<and> cap_inv sp' k H X
              \<and> (kr = KERN_INVALID_TASK \<and> \<not> is_active sp1 \<or> kr = KERN_INVALID_CAPABILITY \<and> \<not> ip_active p \<or> False)
          | Inr (name, i) \<Rightarrow> copyout_target sizes sp1 k H X a p so name i sp'"
    using f unfolding copyout_found_def by blast
  then show ?thesis
    using space_extends_trans [OF e] copyout_target_extends [OF e] space_extendsD(3) [OF e]
    by (cases r) (auto simp: copyout_found_def)
qed

lemma copyout_found_now:
  assumes inv: "cap_inv sp k H X" and wf: "space_wf sp L X" and sz: "sizes_ok sizes sp"
    and act: "is_active sp" and p: "port_at k a = Some p" and nh: "a \<notin> h_recvs H"
    and so: "so = (msgt_name = MACH_MSG_TYPE_PORT_SEND_ONCE)"
    and L: "(if so then Some None else ipc_right_reverse sp a k) = Some None \<Longrightarrow> L \<noteq> []"
  shows "copyout_found sizes (\<lambda>_. False) sp k H X a p so (ipc_object_copyout_entry sizes kalloc_ok sp a msgt_name k)"
proof (cases "(if so then Some None else ipc_right_reverse sp a k) = Some None")
  case True
  have "\<forall>j \<in> naming_slots (is_table sp). ob (is_table sp) j \<noteq> a" if "\<not> so" "ip_active p"
    using ipc_right_reverse_inv [OF inv p that(2) nh] True that(1) by auto
  then show ?thesis
    using copyout_entry_claim [OF inv wf sz L [OF True] act p True _ so, of kalloc_ok]
    unfolding copyout_found_def by (auto split: sum.splits)
next
  case False
  then have ap: "\<not> so" "ip_active p"
    using p by (auto simp: ipc_right_reverse_def split: if_splits)
  then obtain i name where f: "ipc_right_reverse sp a k = Some (Some (name, i))" "right_at sp k i a p"
      "naming_type (entry_type (is_table sp ! i))"
      "name = MACH_PORT_MAKE i (IE_BITS_GEN (ie_bits (is_table sp ! i)))" "MACH_PORT_INDEX name = i"
    using ipc_right_reverse_inv [OF inv p ap(2) nh] False by auto
  then have "copyout_target sizes sp k H X a p so name i sp"
    unfolding copyout_target_def using space_extends_refl sz inv ap by blast
  moreover have "ipc_object_copyout_entry sizes kalloc_ok sp a msgt_name k = Some (Inr (name, i), sp)"
    using act ap(1) so f(1) by (subst ipc_object_copyout_entry.simps) simp
  ultimately show ?thesis by (simp add: copyout_found_def)
qed

lemma copyout_entry_inv:
  assumes inv: "cap_inv sp k H X" and sz: "sizes_ok sizes sp" and ng: "\<not> is_growing sp"
    and p: "port_at k a = Some p" and nh: "a \<notin> h_recvs H"
    and so: "so = (msgt_name = MACH_MSG_TYPE_PORT_SEND_ONCE)"
  shows "copyout_found sizes (entry_refused sizes kalloc_ok sp) sp k H X a p so
    (ipc_object_copyout_entry sizes kalloc_ok sp a msgt_name k)"
proof -
  obtain L where wf: "space_wf sp L X" using cap_invD(1) [OF inv] by blast
  note run = ipc_object_copyout_entry.simps [of sizes kalloc_ok sp a msgt_name k]
  show ?thesis
  proof (cases "is_active sp \<and> L = [] \<and> (if so then Some None else ipc_right_reverse sp a k) = Some None")
    case True
    then have free: "ipc_entry_get sp = Some (Inl KERN_NO_SPACE)" "is_table_free sp = 0"
      using ipc_entry_get_spec [OF wf] wf by (simp_all add: space_wf_def)
    obtain kr sp1 where g: "ipc_entry_grow_table sizes kalloc_ok sp None = Some (kr, sp1)"
      "kr = (if is_table_next sp = length sizes - 1 then KERN_NO_SPACE
              else if kalloc_ok (sizes ! is_table_next sp) then KERN_SUCCESS
              else KERN_RESOURCE_SHORTAGE)" "space_extends sp sp1" "\<not> is_growing sp1" "sizes_ok sizes sp1"
      "if kr = KERN_SUCCESS then space_wf sp1 (L @ [is_table_size sp..<sizes ! is_table_next sp]) X
           \<and> is_table_size sp < sizes ! is_table_next sp
         else space_wf sp1 L X \<and> is_table sp1 = is_table sp"
      using ipc_entry_grow_table_next [OF wf sz ng, of kalloc_ok] by blast
    have *: "ipc_object_copyout_entry sizes kalloc_ok sp a msgt_name k
        = (if kr \<noteq> KERN_SUCCESS then Some (Inl kr, sp1) else ipc_object_copyout_entry sizes kalloc_ok sp1 a msgt_name k)"
      using True so free g(1) by (subst run) (auto split: if_splits)
    obtain L1 where wf1: "space_wf sp1 L1 X" "kr = KERN_SUCCESS \<longrightarrow> L1 \<noteq> []"
      using g(6) by (cases "kr = KERN_SUCCESS") auto
    have inv1: "cap_inv sp1 k H X" by (rule cap_inv_extends [OF inv g(3) wf1(1)])
    show ?thesis
    proof (cases "kr = KERN_SUCCESS")
      case False
      then have "entry_refused sizes kalloc_ok sp kr"
        using g(2) free(2) by (auto simp: entry_refused_def split: if_splits)
      then show ?thesis using * False g(3,5) inv1 by (simp add: copyout_found_def)
    next
      case ok: True
      have "is_active sp1" using True space_extendsD(3) [OF g(3)] by simp
      then have "copyout_found sizes (\<lambda>_. False) sp1 k H X a p so (ipc_object_copyout_entry sizes kalloc_ok sp1 a msgt_name k)"
        using copyout_found_now [OF inv1 wf1(1) g(5) _ p nh so] wf1(2) ok by blast
      then show ?thesis
        using * ok copyout_found_extends [OF g(3)] by simp
    qed
  next
    case False
    show ?thesis
    proof (cases "is_active sp")
      case True
      then show ?thesis using copyout_found_extends [OF space_extends_refl copyout_found_now [OF inv wf sz True p nh so]] False
        by blast
    next
      case False
      then show ?thesis
        using inv sz space_extends_refl by (subst run) (simp add: copyout_found_def)
    qed
  qed
qed


subsection \<open>Copyout\<close>

text \<open>What the caller of a copyout holds: the right, and for a receive right the reference on its destination.\<close>

definition carried :: "mach_msg_type_name \<Rightarrow> ipc_port \<Rightarrow> addr \<Rightarrow> holdings \<Rightarrow> holdings" where
  "carried msgt_name p a H =
     (if msgt_name = MACH_MSG_TYPE_PORT_SEND_ONCE then add_sonce a 1 (add_ref a 1 H)
      else if msgt_name = MACH_MSG_TYPE_PORT_SEND then add_send a 1 (add_ref a 1 H)
      else add_ref a 1 (dest_ref (ip_destination p) H))"

definition copied_types :: "mach_msg_type_name \<Rightarrow> mach_port_type_t set" where
  "copied_types msgt_name =
     (if msgt_name = MACH_MSG_TYPE_PORT_SEND_ONCE then {MACH_PORT_TYPE_SEND_ONCE}
      else if msgt_name = MACH_MSG_TYPE_PORT_SEND then {MACH_PORT_TYPE_SEND, MACH_PORT_TYPE_SEND_RECEIVE}
      else {MACH_PORT_TYPE_RECEIVE, MACH_PORT_TYPE_SEND_RECEIVE})"

text \<open>The table may have grown; otherwise only slot \<open>i\<close> is different.\<close>

definition grown_frame :: "nat \<Rightarrow> ipc_space \<Rightarrow> ipc_space \<Rightarrow> bool" where
  "grown_frame i sp sp' \<longleftrightarrow> (\<exists>sp1. space_extends sp sp1 \<and> slot_frame i sp1 sp')"

lemma grown_frame_lookup:
  assumes "grown_frame i sp sp'" "MACH_PORT_INDEX n \<noteq> i"
  shows "ipc_entry_lookup sp' n = ipc_entry_lookup sp n"
proof -
  obtain sp1 where s: "space_extends sp sp1" "slot_frame i sp1 sp'" using assms by (auto simp: grown_frame_def)
  have "ipc_entry_lookup sp' n = ipc_entry_lookup sp1 n"
    using slot_frameD(5,7) [OF s(2)] assms(2)
    by (auto simp: ipc_entry_lookup_def is_table_size_def Let_def)
  then show ?thesis using space_extends_lookup [OF s(1)] by simp
qed

text \<open>A right in transit: its holder's books, and for a receive right the marks of the transit.\<close>

definition transit_ok :: "mach_msg_type_name \<Rightarrow> kern \<Rightarrow> holdings \<Rightarrow> addr \<Rightarrow> ipc_port \<Rightarrow> bool" where
  "transit_ok msgt_name k H a p \<longleftrightarrow>
     msgt_name \<in> {MACH_MSG_TYPE_PORT_SEND_ONCE, MACH_MSG_TYPE_PORT_SEND, MACH_MSG_TYPE_PORT_RECEIVE}
     \<and> port_at k a = Some p \<and> a \<notin> h_recvs H \<and> 0 \<le> h_refs H a \<and> 0 \<le> h_sends H a
     \<and> (msgt_name = MACH_MSG_TYPE_PORT_RECEIVE \<longrightarrow> ip_receiver_name p = MACH_PORT_NULL \<and> dest_ok k H a p)"

definition right_copied_out ::
    "nat list \<Rightarrow> ipc_space \<Rightarrow> kern \<Rightarrow> holdings \<Rightarrow> nat set \<Rightarrow> addr \<Rightarrow> ipc_port \<Rightarrow> mach_msg_type_name \<Rightarrow> bool
       \<Rightarrow> mach_port_name_t \<Rightarrow> nat \<Rightarrow> right_result \<Rightarrow> bool" where
  "right_copied_out sizes sp k H X a p msgt_name overflow name i res \<longleftrightarrow>
     (\<exists>kr sp' k'. res = Some (kr, sp', k')
       \<and> (if kr = KERN_SUCCESS
          then grown_frame i sp sp' \<and> sizes_ok sizes sp' \<and> only_in {a, ip_destination p} k k' \<and> cap_inv sp' k' H X
            \<and> (\<exists>ty \<in> copied_types msgt_name. names_right sp' i name ty a)
          else kr = KERN_UREFS_OVERFLOW \<and> \<not> overflow \<and> msgt_name = MACH_MSG_TYPE_PORT_SEND
            \<and> k' = k \<and> space_extends sp sp' \<and> sizes_ok sizes sp' \<and> cap_inv sp' k (carried msgt_name p a H) X))"

lemma sizes_ok_frame: "slot_frame i sp sp' \<Longrightarrow> sizes_ok sizes sp \<Longrightarrow> sizes_ok sizes sp'"
  using sizes_ok_cong [of sp' sp] slot_frameD(4,5) by simp

lemma right_copied_outI:
  assumes "res = Some (KERN_SUCCESS, sp', k')" "space_extends sp sp1" "sizes_ok sizes sp1" "slot_frame i sp1 sp'"
    "only_in {a, ip_destination p} k k'" "cap_inv sp' k' H X" "ty \<in> copied_types msgt_name" "names_right sp' i name ty a"
  shows "right_copied_out sizes sp k H X a p msgt_name overflow name i res"
  using assms sizes_ok_frame [OF assms(4,3)] unfolding right_copied_out_def grown_frame_def by auto

lemma null_index: "MACH_PORT_INDEX MACH_PORT_NULL = 0"
  by (simp add: MACH_PORT_INDEX_def MACH_PORT_NULL_def)

lemma copied_types [simp]:
  "MACH_PORT_TYPE_SEND_ONCE \<in> copied_types MACH_MSG_TYPE_PORT_SEND_ONCE"
  "MACH_PORT_TYPE_SEND \<in> copied_types MACH_MSG_TYPE_PORT_SEND"
  "MACH_PORT_TYPE_SEND_RECEIVE \<in> copied_types MACH_MSG_TYPE_PORT_SEND"
  "MACH_PORT_TYPE_RECEIVE \<in> copied_types MACH_MSG_TYPE_PORT_RECEIVE"
  "MACH_PORT_TYPE_SEND_RECEIVE \<in> copied_types MACH_MSG_TYPE_PORT_RECEIVE"
  by (simp_all add: copied_types_def)

lemma copyout_fresh:
  assumes inv: "cap_inv sp1 k (carried msgt_name p a H) (insert i X)" and i: "i \<notin> X"
    and e: "space_extends sp sp1" "sizes_ok sizes sp1" and act: "ip_active p" and t: "transit_ok msgt_name k H a p"
    and n: "name = MACH_PORT_MAKE i (IE_BITS_GEN (ie_bits (is_table sp1 ! i)))" "MACH_PORT_INDEX name = i"
    and uniq: "msgt_name \<noteq> MACH_MSG_TYPE_PORT_SEND_ONCE \<Longrightarrow> \<forall>j \<in> naming_slots (is_table sp1). ob (is_table sp1) j \<noteq> a"
  shows "right_copied_out sizes sp k H X a p msgt_name overflow name i
    (ipc_right_copyout (set_object sp1 i a) name i msgt_name overflow a k)"
proof -
  have p: "port_at k a = Some p" and X: "insert i X - {i} = X" and ii: "i \<in> insert i X"
    using t i by (auto simp: transit_ok_def)
  have k0: "only_in {a, ip_destination p} k k" by (simp add: only_in_def)
  consider "msgt_name = MACH_MSG_TYPE_PORT_SEND_ONCE" | "msgt_name = MACH_MSG_TYPE_PORT_SEND"
    | "msgt_name = MACH_MSG_TYPE_PORT_RECEIVE" using t by (auto simp: transit_ok_def)
  then show ?thesis
  proof cases
    case 1
    note inv' = inv [unfolded carried_def 1, simplified]
    obtain sp' where "ipc_right_copyout_send_once (set_object sp1 i a) name i k = Some (KERN_SUCCESS, sp', k)"
        "slot_frame i sp1 sp'" "cap_inv sp' k H X" "names_right sp' i name MACH_PORT_TYPE_SEND_ONCE a"
      using copyout_send_once_inv [OF inv' ii p n(1)] X by auto
    then show ?thesis
      using 1 by (intro right_copied_outI [OF _ e _ k0]) (simp_all add: ipc_right_copyout_def)
  next
    case 2
    note inv' = inv [unfolded carried_def 2, simplified]
    have un: "\<forall>j \<in> naming_slots (is_table sp1). ob (is_table sp1) j \<noteq> a" using uniq 2 by simp
    obtain sp' where "ipc_right_copyout_send (set_object sp1 i a) name i overflow a k = Some (KERN_SUCCESS, sp', k)"
        "slot_frame i sp1 sp'" "cap_inv sp' k H X" "names_right sp' i name MACH_PORT_TYPE_SEND a"
      using copyout_send_new [OF inv' ii p n un, of overflow] X by auto
    then show ?thesis
      using 2 by (intro right_copied_outI [OF _ e _ k0]) (simp_all add: ipc_right_copyout_def)
  next
    case 3
    note inv' = inv [unfolded carried_def 3, simplified]
    have un: "\<forall>j \<in> naming_slots (is_table sp1). ob (is_table sp1) j \<noteq> a" "dest_ok k H a p"
      using uniq t 3 by (simp_all add: transit_ok_def)
    obtain sp' k' where "ipc_right_copyout_receive (set_object sp1 i a) name i a k = Some (KERN_SUCCESS, sp', k')"
        "slot_frame i sp1 sp'" "only_in {a, ip_destination p} k k'" "cap_inv sp' k' H X"
        "names_right sp' i name MACH_PORT_TYPE_RECEIVE a"
      using copyout_receive_new_inv [OF inv' ii p act un(2) n(1) un(1)] X by auto
    then show ?thesis
      using 3 by (intro right_copied_outI [OF _ e]) (simp_all add: ipc_right_copyout_def)
  qed
qed

lemma copyout_joined:
  assumes inv: "cap_inv sp1 k (carried msgt_name p a H) X" and r: "right_at sp1 k i a p"
    and ty: "naming_type (entry_type (is_table sp1 ! i))" and so: "msgt_name \<noteq> MACH_MSG_TYPE_PORT_SEND_ONCE"
    and e: "space_extends sp sp1" "sizes_ok sizes sp1" and act: "ip_active p" and t: "transit_ok msgt_name k H a p"
    and n: "name = MACH_PORT_MAKE i (IE_BITS_GEN (ie_bits (is_table sp1 ! i)))" "MACH_PORT_INDEX name = i"
  shows "right_copied_out sizes sp k H X a p msgt_name overflow name i
    (ipc_right_copyout sp1 name i msgt_name overflow a k)"
proof -
  have p: "port_at k a = Some p" and h: "0 \<le> h_refs H a" "0 \<le> h_sends H a"
    using t by (auto simp: transit_ok_def)
  note d = right_atD [OF inv r]
  have k1: "only_in {a, ip_destination p} k k'" if "only_at a k k'" for k' using only_in_at [OF that] by simp
  consider (send) "msgt_name = MACH_MSG_TYPE_PORT_SEND" "entry_type (is_table sp1 ! i) \<in> {MACH_PORT_TYPE_SEND, MACH_PORT_TYPE_SEND_RECEIVE}"
    | (rcv) "msgt_name = MACH_MSG_TYPE_PORT_SEND" "entry_type (is_table sp1 ! i) = MACH_PORT_TYPE_RECEIVE"
    | (receive) "msgt_name = MACH_MSG_TYPE_PORT_RECEIVE" using t so ty by (auto simp: transit_ok_def)
  then show ?thesis
  proof cases
    case send
    note inv' = inv [unfolded carried_def send(1), simplified]
    obtain kr sp' k' where c: "ipc_right_copyout_send sp1 name i overflow a k = Some (kr, sp', k')" "only_at a k k'"
        "if entry_urefs (is_table sp1 ! i) + 1 = MACH_PORT_UREFS_MAX
         then sp' = sp1 \<and> (if overflow then kr = KERN_SUCCESS \<and> cap_inv sp1 k' H X
                          else kr = KERN_UREFS_OVERFLOW \<and> k' = k)
         else kr = KERN_SUCCESS \<and> slot_frame i sp1 sp' \<and> cap_inv sp' k' H X
           \<and> uref_change (is_table sp1 ! i) (is_table sp' ! i) 1"
      using copyout_send_join [OF inv' r send(2) h, of name overflow] by blast
    have out: "ipc_right_copyout sp1 name i msgt_name overflow a k = Some (kr, sp', k')"
      using c(1) send(1) by (simp add: ipc_right_copyout_def)
    have nr: "\<exists>ty \<in> copied_types msgt_name. names_right sp1 i name ty a"
      using send d(1,3) n by (simp add: names_right_def copied_types_def)
    show ?thesis
    proof (cases "entry_urefs (is_table sp1 ! i) + 1 = MACH_PORT_UREFS_MAX")
      case True
      then show ?thesis
        using c(2,3) out nr k1 [OF c(2)] slot_frame_refl e inv send(1)
        by (auto simp: right_copied_out_def grown_frame_def split: if_splits)
    next
      case False
      then have f: "kr = KERN_SUCCESS" "slot_frame i sp1 sp'" "cap_inv sp' k' H X"
          "uref_change (is_table sp1 ! i) (is_table sp' ! i) 1" using c(3) by auto
      have "\<exists>ty \<in> copied_types msgt_name. names_right sp' i name ty a"
        using nr f(4) slot_frameD(5) [OF f(2)] by (auto simp: names_right_def uref_change_def)
      then show ?thesis using right_copied_outI [OF out [unfolded f(1)] e f(2) k1 [OF c(2)] f(3)] by blast
    qed
  next
    case rcv
    note inv' = inv [unfolded carried_def rcv(1), simplified]
    obtain sp' k' where f: "ipc_right_copyout_send sp1 name i overflow a k = Some (KERN_SUCCESS, sp', k')"
        "slot_frame i sp1 sp'" "only_at a k k'" "cap_inv sp' k' H X"
        "entry_type (is_table sp' ! i) = MACH_PORT_TYPE_SEND_RECEIVE" "ie_object (is_table sp' ! i) = a"
        "IE_BITS_GEN (ie_bits (is_table sp' ! i)) = IE_BITS_GEN (ie_bits (is_table sp1 ! i))"
      using copyout_send_receiver [OF inv' r rcv(2) h(1), of name overflow] by blast
    have "names_right sp' i name MACH_PORT_TYPE_SEND_RECEIVE a"
      using f(5-7) slot_frameD(5) [OF f(2)] d(1) n by (simp add: names_right_def)
    then show ?thesis
      using f(1) rcv(1) by (intro right_copied_outI [OF _ e f(2) k1 [OF f(3)] f(4)]) (simp_all add: ipc_right_copyout_def)
  next
    case receive
    note inv' = inv [unfolded carried_def receive(1), simplified]
    have dst: "ip_receiver_name p = MACH_PORT_NULL" "dest_ok k H a p" using t receive by (simp_all add: transit_ok_def)
    have ts: "entry_type (is_table sp1 ! i) = MACH_PORT_TYPE_SEND"
      using d(14) dst(1) ty n d(7) null_index by auto
    obtain sp' k' where "ipc_right_copyout_receive sp1 name i a k = Some (KERN_SUCCESS, sp', k')"
        "slot_frame i sp1 sp'" "only_in {a, ip_destination p} k k'" "cap_inv sp' k' H X"
        "names_right sp' i name MACH_PORT_TYPE_SEND_RECEIVE a"
      using copyout_receive_join_inv [OF inv' r act dst(2) ts h(1) n] by blast
    then show ?thesis
      using receive by (intro right_copied_outI [OF _ e]) (simp_all add: ipc_right_copyout_def)
  qed
qed


text \<open>
  \<open>ipc_object_copyout\<close> returns. If it fails, the caller still holds the right; if it
  succeeds, the right belongs to the space, under the name it returns.
\<close>

lemma names_right_lookup:
  assumes "names_right sp i name ty a" "ty \<noteq> 0" "MACH_PORT_INDEX name = i"
  shows "ipc_entry_lookup sp name = Some i"
  using assms by (auto simp: names_right_def ipc_entry_lookup_iff)

definition copied_out ::
    "nat list \<Rightarrow> (nat \<Rightarrow> bool) \<Rightarrow> ipc_space \<Rightarrow> kern \<Rightarrow> holdings \<Rightarrow> nat set \<Rightarrow> addr \<Rightarrow> ipc_port \<Rightarrow> mach_msg_type_name
       \<Rightarrow> bool \<Rightarrow> ((kern_return + mach_port_name_t) \<times> ipc_space \<times> kern) option \<Rightarrow> bool" where
  "copied_out sizes kalloc_ok sp k H X a p msgt_name overflow res \<longleftrightarrow>
     (\<exists>r sp' k'. res = Some (r, sp', k')
       \<and> (case r of
            Inl kr \<Rightarrow> k' = k \<and> space_extends sp sp' \<and> sizes_ok sizes sp' \<and> cap_inv sp' k (carried msgt_name p a H) X
              \<and> (kr = KERN_INVALID_TASK \<and> \<not> is_active sp \<or> kr = KERN_INVALID_CAPABILITY \<and> \<not> ip_active p
                 \<or> entry_refused sizes kalloc_ok sp kr
                 \<or> kr = KERN_UREFS_OVERFLOW \<and> \<not> overflow \<and> msgt_name = MACH_MSG_TYPE_PORT_SEND)
          | Inr name \<Rightarrow> \<exists>i ty. ipc_entry_lookup sp' name = Some i \<and> ty \<in> copied_types msgt_name \<and> sizes_ok sizes sp'
              \<and> names_right sp' i name ty a \<and> grown_frame i sp sp'
              \<and> only_in {a, ip_destination p} k k' \<and> cap_inv sp' k' H X))"

lemma ipc_object_copyout_inv:
  assumes inv: "cap_inv sp k (carried msgt_name p a H) X" and t: "transit_ok msgt_name k H a p"
    and sz: "sizes_ok sizes sp" and ng: "\<not> is_growing sp"
  shows "copied_out sizes kalloc_ok sp k H X a p msgt_name overflow
    (ipc_object_copyout sizes kalloc_ok sp a msgt_name overflow k)"
proof -
  define so where "so = (msgt_name = MACH_MSG_TYPE_PORT_SEND_ONCE)"
  have p: "port_at k a = Some p" and nh: "a \<notin> h_recvs (carried msgt_name p a H)"
    using t by (auto simp: transit_ok_def carried_def dest_ref_def)
  obtain r sp0 where f: "ipc_object_copyout_entry sizes kalloc_ok sp a msgt_name k = Some (r, sp0)"
    and c: "case r of
            Inl kr \<Rightarrow> space_extends sp sp0 \<and> sizes_ok sizes sp0 \<and> cap_inv sp0 k (carried msgt_name p a H) X
              \<and> (kr = KERN_INVALID_TASK \<and> \<not> is_active sp \<or> kr = KERN_INVALID_CAPABILITY \<and> \<not> ip_active p
                 \<or> entry_refused sizes kalloc_ok sp kr)
          | Inr (name, i) \<Rightarrow> copyout_target sizes sp k (carried msgt_name p a H) X a p so name i sp0"
    using copyout_entry_inv [OF inv sz ng p nh so_def, of kalloc_ok] unfolding copyout_found_def by blast
  show ?thesis
  proof (cases r)
    case (Inl kr)
    then show ?thesis using f c by (auto simp: ipc_object_copyout_def copied_out_def)
  next
    case (Inr ni)
    obtain name i where ni: "ni = (name, i)" by (cases ni)
    have tg: "copyout_target sizes sp k (carried msgt_name p a H) X a p so name i sp0" using c Inr ni by simp
    then have ix: "MACH_PORT_INDEX name = i" by (auto simp: copyout_target_def)
    have "right_copied_out sizes sp k H X a p msgt_name overflow name i
        (ipc_right_copyout sp0 name i msgt_name overflow a k)"
      using tg copyout_joined [OF _ _ _ _ _ _ _ t] copyout_fresh [OF _ _ _ _ _ t]
      unfolding copyout_target_def so_def by blast
    then obtain kr sp' k' where o: "ipc_right_copyout sp0 name i msgt_name overflow a k = Some (kr, sp', k')"
      "if kr = KERN_SUCCESS
          then grown_frame i sp sp' \<and> sizes_ok sizes sp' \<and> only_in {a, ip_destination p} k k' \<and> cap_inv sp' k' H X
            \<and> (\<exists>ty \<in> copied_types msgt_name. names_right sp' i name ty a)
          else kr = KERN_UREFS_OVERFLOW \<and> \<not> overflow \<and> msgt_name = MACH_MSG_TYPE_PORT_SEND
            \<and> k' = k \<and> space_extends sp sp' \<and> sizes_ok sizes sp' \<and> cap_inv sp' k (carried msgt_name p a H) X"
      unfolding right_copied_out_def by blast
    have run: "ipc_object_copyout sizes kalloc_ok sp a msgt_name overflow k
        = Some (if kr = KERN_SUCCESS then Inr name else Inl kr, sp', k')"
      using f o(1) Inr ni by (simp add: ipc_object_copyout_def)
    have "ipc_entry_lookup sp' name = Some i" if "ty \<in> copied_types msgt_name" "names_right sp' i name ty a" for ty
      using names_right_lookup [OF that(2) _ ix] that(1) by (auto simp: copied_types_def split: if_splits)
    then show ?thesis
      using o(2) unfolding run copied_out_def by (cases "kr = KERN_SUCCESS") auto
  qed
qed

end
