(* ===== verification/Alloc_Ledger.thy ===== *)
theory Alloc_Ledger
  imports Object_Ledger
begin

text \<open>
  The ledger under the allocation of ports, port sets and dead names
  (\<open>ipc_port_alloc\<close>, \<open>ipc_pset_alloc\<close>, \<open>ipc_object_alloc_dead\<close>).
\<close>

unbundle bit_operations_syntax

subsection \<open>New objects\<close>

text \<open>An address that \<open>io_alloc\<close> may return: no object is there and nobody holds rights for it.\<close>

definition fresh_addr :: "ipc_space \<Rightarrow> kern \<Rightarrow> holdings \<Rightarrow> addr \<Rightarrow> bool" where
  "fresh_addr sp k H a \<longleftrightarrow>
     a \<noteq> IO_NULL \<and> a \<noteq> IO_DEAD \<and> a \<noteq> is_self sp \<and> k_objects k a = None
     \<and> h_sends H a = 0 \<and> h_sonces H a = 0"

definition new_object :: "addr \<Rightarrow> ipc_object \<Rightarrow> bool" where
  "new_object self x \<longleftrightarrow>
     (case x of
        Io_Port p \<Rightarrow> ip_references p = 1 \<and> io_otype_bits (ip_bits p) = IOT_PORT \<and> ip_requests p = None
          \<and> ip_srights p = 0 \<and> ip_sorights p = 0 \<and> ip_receiver p \<noteq> self
      | Io_Pset s \<Rightarrow> ips_references s = 1 \<and> io_otype_bits (ips_bits s) = IOT_PORT_SET)"

lemma fresh_addr_unused:
  assumes inv: "cap_inv sp k H X" and f: "fresh_addr sp k H a"
  shows "refs_in (is_table sp) a = 0" "sends_in (is_table sp) a = 0" "sonces_in (is_table sp) a = 0"
    "h_refs H a = 0" "j < length (is_table sp) \<Longrightarrow> ie_object (is_table sp ! j) \<noteq> a"
proof -
  have "addr_ok (is_self sp) (is_table sp) k H a" using cap_invD(4) [OF inv] f by (simp add: fresh_addr_def)
  then show *: "refs_in (is_table sp) a = 0" "h_refs H a = 0" using f by (simp_all add: addr_ok_def fresh_addr_def)
  then show "sends_in (is_table sp) a = 0" "sonces_in (is_table sp) a = 0"
    using sends_le_refs [of "is_table sp" a] rights_in_nonneg [of "is_table sp" a] by simp_all
  show "ie_object (is_table sp ! j) \<noteq> a" if "j < length (is_table sp)"
    using *(1) that by (simp add: refs_in_zero)
qed

lemma cap_inv_born:
  assumes inv: "cap_inv sp k H X" and f: "fresh_addr sp k H a" and x: "new_object (is_self sp) x"
    and k': "k_objects k' = (k_objects k)(a \<mapsto> x)"
  shows "cap_inv sp k' (add_ref a 1 H) X"
proof -
  note d = cap_invD [OF inv] and u = fresh_addr_unused [OF inv f]
  have other: "port_at k' b = port_at k b" "pset_at k' b = pset_at k b" if "b \<noteq> a" for b
    using that k' by (simp_all add: port_at_def pset_at_def)
  have "slot_ok (is_self sp) k' i (is_table sp ! i)" if "i < length (is_table sp)" for i
    using d(3) [OF that] other [OF u(5) [OF that]] by (simp only: slot_ok_def)
  moreover have "addr_ok (is_self sp) (is_table sp) k' (add_ref a 1 H) b" if "b \<noteq> IO_NULL" for b
  proof (cases "b = a")
    case True
    then show ?thesis
      using x u f k' by (auto simp: addr_ok_def port_ok_def new_object_def requests_ok_def fresh_addr_def split: ipc_object.splits)
  next
    case False
    then show ?thesis
      using d(4) [OF that] k' by (auto simp: addr_ok_def port_ok_def split: option.splits ipc_object.splits)
  qed
  moreover have "heap_ok (is_self sp) k'" using d(2) f k' by (auto simp: heap_ok_def fresh_addr_def)
  ultimately show ?thesis using d(1) by (simp add: cap_inv_def)
qed

lemma new_bits:
  "io_active_bits (io_makebits True IOT_PORT 0)" "io_otype_bits (io_makebits True IOT_PORT 0) = IOT_PORT"
  "io_otype_bits (io_makebits True IOT_PORT_SET 0) = IOT_PORT_SET"
  by (simp_all add: io_active_bits_def io_otype_bits_def io_makebits_def)

subsection \<open>Filling a claimed entry\<close>

lemma ie_or_new:
  "IE_BITS_TYPE (b OR (MACH_PORT_TYPE_PORT_SET OR 0)) = IE_BITS_TYPE b OR MACH_PORT_TYPE_PORT_SET"
  "IE_BITS_UREFS (b OR (MACH_PORT_TYPE_PORT_SET OR 0)) = IE_BITS_UREFS b"
  "IE_BITS_GEN (b OR (MACH_PORT_TYPE_PORT_SET OR 0)) = IE_BITS_GEN b"
  "IE_BITS_TYPE (b OR (MACH_PORT_TYPE_DEAD_NAME OR 1)) = IE_BITS_TYPE b OR MACH_PORT_TYPE_DEAD_NAME"
  "IE_BITS_UREFS (b OR (MACH_PORT_TYPE_DEAD_NAME OR 1)) = IE_BITS_UREFS b OR 1"
  "IE_BITS_GEN (b OR (MACH_PORT_TYPE_DEAD_NAME OR 1)) = IE_BITS_GEN b"
  by (simp_all add: ie_unfold)

lemma upd_object_bits:
  "i < length (is_table sp) \<Longrightarrow>
     set_object (set_bits sp i b) i a = upd_entry sp i (\<lambda>e. e\<lparr>ie_object := a, ie_bits := b\<rparr>)"
  by (cases "is_table sp ! i") (simp add: upd_entry_def)

lemma install_port:
  assumes inv: "cap_inv sp k H (insert i X)" and i: "i \<notin> X" and f: "fresh_addr sp k H a"
    and n: "name = MACH_PORT_MAKE i (IE_BITS_GEN (ie_bits (is_table sp ! i)))"
    and q: "q = ipc_port_init (is_self sp) name (blank_port\<lparr>ip_references := 1, ip_bits := io_makebits True IOT_PORT 0\<rparr>)"
    and s: "s = set_object (set_bits sp i (ie_bits (is_table sp ! i) OR (MACH_PORT_TYPE_RECEIVE OR 0))) i a"
  shows "cap_inv s (put_port a q k) H X \<and> slot_frame i sp s \<and> names_right s i name MACH_PORT_TYPE_RECEIVE a"
proof -
  let ?q0 = "q\<lparr>ip_data := IP_NULL\<rparr>"
  have self: "is_self sp \<noteq> IO_NULL" using cap_invD(2) [OF inv] by (simp add: heap_ok_def)
  have "new_object (is_self sp) (Io_Port ?q0)"
    using self new_bits by (simp add: new_object_def q ipc_port_init_def ipc_mqueue_init_port_def)
  then have inv1: "cap_inv sp (put_port a ?q0 k) (add_ref a 1 H) (insert i X)"
    by (rule cap_inv_born [OF inv f]) (simp add: put_port_def)
  have un: "\<forall>j \<in> naming_slots (is_table sp). ob (is_table sp) j \<noteq> a"
    using fresh_addr_unused(5) [OF inv f] by (auto simp: naming_slots_def)
  have act: "port_at (put_port a ?q0 k) a = Some ?q0" "ip_active ?q0"
    using new_bits by (simp_all add: q ipc_port_init_def ipc_mqueue_init_port_def blank_port_def)
  have "put_port a (?q0\<lparr>ip_receiver_name := name, ip_data := is_self sp\<rparr>) (put_port a ?q0 k) = put_port a q k"
    by (simp add: put_port_def q ipc_port_init_def ipc_mqueue_init_port_def blank_port_def)
  moreover have "set_bits (set_object sp i a) i (ie_bits (is_table sp ! i) OR MACH_PORT_TYPE_RECEIVE) = s"
    unfolding s using cap_inv_held(1) [OF inv, of i]
    by (subst upd_object_bits) (simp_all add: upd_entry_twice del: upd_entry_fields)
  ultimately show ?thesis
    using copyout_receive_new [OF inv1 _ act n un] i by auto
qed

lemma install_pset:
  assumes inv: "cap_inv sp k H (insert i X)" and i: "i \<notin> X" and f: "fresh_addr sp k H a"
    and n: "name = MACH_PORT_MAKE i (IE_BITS_GEN (ie_bits (is_table sp ! i)))"
    and s: "s = set_object (set_bits sp i (ie_bits (is_table sp ! i) OR (MACH_PORT_TYPE_PORT_SET OR 0))) i a"
    and q: "ips_references q = 1" "ips_bits q = io_makebits True IOT_PORT_SET 0"
  shows "cap_inv s (put_pset a q k) H X \<and> slot_frame i sp s \<and> names_right s i name MACH_PORT_TYPE_PORT_SET a"
proof -
  let ?e = "is_table sp ! i" and ?k = "put_pset a q k"
  define b where "b = ie_bits ?e OR (MACH_PORT_TYPE_PORT_SET OR 0)"
  define e' where "e' = ?e\<lparr>ie_object := a, ie_bits := b\<rparr>"
  have inv1: "cap_inv sp ?k (add_ref a 1 H) (insert i X)"
    by (rule cap_inv_born [OF inv f, of "Io_Pset q"]) (use q new_bits in \<open>simp_all add: new_object_def put_pset_def\<close>)
  note h = cap_inv_held [OF inv1, of i, simplified]
  have bt: "IE_BITS_TYPE b = entry_type ?e OR MACH_PORT_TYPE_PORT_SET" "IE_BITS_UREFS b = entry_urefs ?e"
    "IE_BITS_GEN b = IE_BITS_GEN (ie_bits ?e)" unfolding b_def by (rule ie_or_new)+
  then have b: "IE_BITS_TYPE b = MACH_PORT_TYPE_PORT_SET" "IE_BITS_UREFS b = 0" using h by simp_all
  have a: "a \<noteq> IO_NULL" "a \<noteq> IO_DEAD" using f by (simp_all add: fresh_addr_def)
  have ko: "k_objects ?k a = Some (Io_Pset q)" "pset_at ?k a = Some q" by (simp_all add: put_pset_def pset_at_def)
  have eq: "s = upd_entry sp i (\<lambda>e. e\<lparr>ie_object := a, ie_bits := b\<rparr>)"
    unfolding s b_def [symmetric] by (rule upd_object_bits [OF h(1)])
  have "used_entry e'" using b a h by (simp add: used_entry_def e'_def IO_VALID_def)
  moreover have "slot_ok (is_self sp) ?k i e'" using b ko by (simp add: slot_ok_def e'_def)
  ultimately have "cap_inv s ?k (moved ?e e' a (add_ref a 1 H)) (if entry_type e' = 0 then insert i (insert i X) else insert i X - {i})"
    unfolding eq by (intro cap_inv_upd [OF inv1 h(7)]) (use b h a ko in \<open>simp_all add: e'_def\<close>)
  moreover have "moved ?e e' a (add_ref a 1 H) = H"
    using type_bit_iff(1-3) [of "ie_bits e'"] h(3) a b by (auto simp: e'_def moved_def entry_rights)
  ultimately have "cap_inv s ?k H X" using b i by (simp add: e'_def)
  moreover have "slot_frame i sp s" "names_right s i name MACH_PORT_TYPE_PORT_SET a"
    unfolding eq using b bt(3) h(1) n by (simp_all add: names_right_def)
  ultimately show ?thesis by blast
qed


subsection \<open>The allocation routines\<close>

text \<open>
  What the allocation routines promise. A failure leaves the objects and the entries in use
  as they were; a success gives a fresh name, whose entry denotes the new object with the
  type \<open>ty\<close>.
\<close>

definition allocated ::
    "mach_port_type_t \<Rightarrow> (nat list) \<Rightarrow> (nat \<Rightarrow> bool) \<Rightarrow> addr \<Rightarrow> ipc_space \<Rightarrow> kern \<Rightarrow> holdings \<Rightarrow> nat set
       \<Rightarrow> ((kern_return + mach_port_name_t \<times> addr) \<times> ipc_space \<times> kern) option \<Rightarrow> bool" where
  "allocated ty sizes kalloc_ok fresh sp k H X res \<longleftrightarrow>
     (\<exists>r sp' k'. res = Some (r, sp', k') \<and> cap_inv sp' k' H X \<and> sizes_ok sizes sp'
       \<and> (case r of
            Inl kr \<Rightarrow> k_objects k' = k_objects k \<and> space_extends sp sp'
              \<and> (kr = KERN_RESOURCE_SHORTAGE \<and> fresh = IO_NULL \<or> kr = KERN_INVALID_TASK \<and> \<not> is_active sp
                 \<or> entry_refused sizes kalloc_ok sp kr)
          | Inr (name, a) \<Rightarrow> a = fresh \<and> only_at a k k' \<and> MACH_PORT_VALID name \<and> ipc_entry_lookup sp name = None
              \<and> (\<exists>i. ipc_entry_lookup sp' name = Some i \<and> names_right sp' i name ty a \<and> grown_frame i sp sp')))"

lemma io_free_new:
  assumes "k_objects k a = None" "otype \<in> {IOT_PORT, IOT_PORT_SET}"
  shows "\<exists>k'. io_free otype a (io_alloc_bzero otype a k) = Some k' \<and> k_objects k' = k_objects k"
  using assms by (auto simp: io_free_def io_alloc_bzero_def ipc_port_finalize_def put_port_def put_pset_def port_at_def
      blank_port_def fun_upd_idem)

lemma entry_alloc_cases:
  assumes inv: "cap_inv sp k H X" and sz: "sizes_ok sizes sp" and ng: "\<not> is_growing sp"
  obtains (err) kr sp' where "ipc_entry_alloc sizes kalloc_ok sp = Some (Inl kr, sp')" "space_extends sp sp'" "sizes_ok sizes sp'"
      "cap_inv sp' k H X" "kr = KERN_INVALID_TASK \<and> \<not> is_active sp \<or> entry_refused sizes kalloc_ok sp kr"
    | (ok) name i sp' where "ipc_entry_alloc sizes kalloc_ok sp = Some (Inr (name, i), sp')" "space_extends sp sp'" "sizes_ok sizes sp'"
      "cap_inv sp' k H (insert i X)" "i \<notin> X" "MACH_PORT_VALID name" "ipc_entry_lookup sp name = None"
      "MACH_PORT_INDEX name = i" "name = MACH_PORT_MAKE i (IE_BITS_GEN (ie_bits (is_table sp' ! i)))"
proof -
  obtain L where wf: "space_wf sp L X" using cap_invD(1) [OF inv] by blast
  obtain r sp' where a: "ipc_entry_alloc sizes kalloc_ok sp = Some (r, sp')" and
    c: "case r of
         Inl kr \<Rightarrow> kr = (if \<not> is_active sp then KERN_INVALID_TASK
                         else if is_table_next sp = length sizes - 1 then KERN_NO_SPACE
                         else KERN_RESOURCE_SHORTAGE)
           \<and> (is_active sp \<longrightarrow> L = [] \<and> (is_table_next sp = length sizes - 1
                \<or> \<not> kalloc_ok (sizes ! is_table_next sp)))
           \<and> space_wf sp' L X \<and> is_table sp' = is_table sp \<and> space_extends sp sp' \<and> sizes_ok sizes sp'
       | Inr (name, i) \<Rightarrow> is_active sp \<and> MACH_PORT_VALID name \<and> entry_claimed sizes sp X name i sp'"
    using ipc_entry_alloc_spec [OF wf sz ng] by blast
  show ?thesis
  proof (cases r)
    case (Inl kr)
    then have "kr = KERN_INVALID_TASK \<and> \<not> is_active sp \<or> entry_refused sizes kalloc_ok sp kr"
      using c wf by (auto simp: entry_refused_def space_wf_def split: if_splits)
    moreover have "space_extends sp sp'" "space_wf sp' L X" "sizes_ok sizes sp'" using c Inl by simp_all
    ultimately show ?thesis using err [of kr sp'] a Inl cap_inv_extends [OF inv] by blast
  next
    case (Inr ni)
    obtain name i where ni: "ni = (name, i)" by (cases ni)
    then have e: "MACH_PORT_VALID name" "MACH_PORT_INDEX name = i" "ie_bits (is_table sp' ! i) = MACH_PORT_GEN name"
        "\<exists>L'. space_wf sp' L' (insert i X)" "space_extends sp sp'" "i \<notin> X" "ipc_entry_lookup sp name = None"
        "sizes_ok sizes sp'"
      using c Inr by (auto simp: entry_claimed_def)
    then have "name = MACH_PORT_MAKE i (IE_BITS_GEN (ie_bits (is_table sp' ! i)))"
      by (metis MACH_PORT_GEN_idem MACH_PORT_MAKE_INDEX_GEN)
    moreover have "cap_inv sp' k H (insert i X)" using e(4) cap_inv_extends [OF inv e(5)] by blast
    ultimately show ?thesis using ok [of name i sp', OF _ e(5,8) _ e(6,1,7,2)] a Inr ni by blast
  qed
qed

lemma fresh_addr_extends: "fresh_addr sp k H a \<Longrightarrow> space_extends sp sp' \<Longrightarrow> fresh_addr sp' k H a"
  using space_extendsD(1) by (simp add: fresh_addr_def)

lemma allocatedI:
  assumes "res = Some (Inr (name, fresh), ipc_entry_modified s name, k')" "cap_inv s k' H X" "slot_frame i sp1 s"
    "names_right s i name ty fresh" "space_extends sp sp1" "MACH_PORT_VALID name" "ipc_entry_lookup sp name = None"
    "MACH_PORT_INDEX name = i" "only_at fresh k k'" "ty \<noteq> 0" "sizes_ok sizes sp1"
  shows "allocated ty sizes kalloc_ok fresh sp k H X res"
proof -
  have "slot_frame i sp1 (ipc_entry_modified s name)" using assms(3) by (simp add: slot_frame_def)
  then show ?thesis
    using assms sizes_ok_frame [of i sp1 "ipc_entry_modified s name" sizes] names_right_lookup [of "ipc_entry_modified s name" i name ty fresh]
    by (auto simp: allocated_def grown_frame_def)
qed

lemma ipc_port_alloc_inv:
  assumes inv: "cap_inv sp k H X" and sz: "sizes_ok sizes sp" and ng: "\<not> is_growing sp"
    and f: "fresh = IO_NULL \<or> fresh_addr sp k H fresh"
  shows "allocated MACH_PORT_TYPE_RECEIVE sizes kalloc_ok fresh sp k H X (ipc_port_alloc sizes kalloc_ok fresh sp k)"
proof (cases "fresh = IO_NULL")
  case True
  then show ?thesis
    using inv sz space_extends_refl by (simp add: allocated_def ipc_port_alloc_def ipc_object_alloc_def)
next
  case False
  then have fr: "fresh_addr sp k H fresh" using f by simp
  then have new: "k_objects k fresh = None" by (simp add: fresh_addr_def)
  from inv sz ng show ?thesis
  proof (cases rule: entry_alloc_cases [where kalloc_ok = kalloc_ok])
    case (err kr sp')
    obtain k' where k': "io_free IOT_PORT fresh (io_alloc_bzero IOT_PORT fresh k) = Some k'" "k_objects k' = k_objects k"
      using io_free_new [OF new, of IOT_PORT] by auto
    then have "cap_inv sp' k' H X" using err(4) cap_inv_cong by blast
    then show ?thesis
      using err k' False by (auto simp: allocated_def ipc_port_alloc_def ipc_object_alloc_def)
  next
    case (ok name i sp')
    define q where "q = ipc_port_init (is_self sp') name (blank_port\<lparr>ip_references := 1, ip_bits := io_makebits True IOT_PORT 0\<rparr>)"
    define s where "s = set_object (set_bits sp' i (ie_bits (is_table sp' ! i) OR (MACH_PORT_TYPE_RECEIVE OR 0))) i fresh"
    note ins = install_port [OF ok(4,5) fresh_addr_extends [OF fr ok(2)] ok(9) q_def s_def]
    have "ipc_port_alloc sizes kalloc_ok fresh sp k = Some (Inr (name, fresh), ipc_entry_modified s name, put_port fresh q k)"
      using ok(1) False
      by (simp add: ipc_port_alloc_def ipc_object_alloc_def io_alloc_bzero_def io_set_header_def put_port_def upd_port_def
          port_at_def q_def s_def Let_def)
    then show ?thesis
      using ins ok by (intro allocatedI [of _ name fresh s "put_port fresh q k"]) auto
  qed
qed


lemma ipc_pset_alloc_inv:
  assumes inv: "cap_inv sp k H X" and sz: "sizes_ok sizes sp" and ng: "\<not> is_growing sp"
    and f: "fresh = IO_NULL \<or> fresh_addr sp k H fresh"
  shows "allocated MACH_PORT_TYPE_PORT_SET sizes kalloc_ok fresh sp k H X (ipc_pset_alloc sizes kalloc_ok fresh sp k)"
proof (cases "fresh = IO_NULL")
  case True
  then show ?thesis
    using inv sz space_extends_refl by (simp add: allocated_def ipc_pset_alloc_def ipc_object_alloc_def)
next
  case False
  then have fr: "fresh_addr sp k H fresh" using f by simp
  then have new: "k_objects k fresh = None" by (simp add: fresh_addr_def)
  from inv sz ng show ?thesis
  proof (cases rule: entry_alloc_cases [where kalloc_ok = kalloc_ok])
    case (err kr sp')
    obtain k' where k': "io_free IOT_PORT_SET fresh (io_alloc_bzero IOT_PORT_SET fresh k) = Some k'"
        "k_objects k' = k_objects k"
      using io_free_new [OF new, of IOT_PORT_SET] by auto
    then have "cap_inv sp' k' H X" using err(4) cap_inv_cong by blast
    then show ?thesis
      using err k' False by (auto simp: allocated_def ipc_pset_alloc_def ipc_object_alloc_def)
  next
    case (ok name i sp')
    define q where "q = \<lparr>ips_references = 1, ips_bits = io_makebits True IOT_PORT_SET 0, ips_local_name = name\<rparr>"
    define s where "s = set_object (set_bits sp' i (ie_bits (is_table sp' ! i) OR (MACH_PORT_TYPE_PORT_SET OR 0))) i fresh"
    note ins = install_pset [OF ok(4,5) fresh_addr_extends [OF fr ok(2)] ok(9) s_def, of q]
    have "ipc_pset_alloc sizes kalloc_ok fresh sp k = Some (Inr (name, fresh), ipc_entry_modified s name, put_pset fresh q k)"
      using ok(1) False
      by (simp add: ipc_pset_alloc_def ipc_object_alloc_def io_alloc_bzero_def io_set_header_def put_pset_def
          pset_at_def q_def s_def Let_def)
    then show ?thesis
      using ins ok
      by (intro allocatedI [of _ name fresh s "put_pset fresh q k"]) (auto simp: q_def put_pset_def only_at_def)
  qed
qed

text \<open>A new dead name needs no object; it starts with one user reference.\<close>

lemma install_dead_name:
  assumes inv: "cap_inv sp k H (insert i X)" and i: "i \<notin> X"
    and s: "s = set_bits sp i (ie_bits (is_table sp ! i) OR (MACH_PORT_TYPE_DEAD_NAME OR 1))"
    and n: "name = MACH_PORT_MAKE i (IE_BITS_GEN (ie_bits (is_table sp ! i)))"
  shows "cap_inv s k H X \<and> slot_frame i sp s \<and> names_right s i name MACH_PORT_TYPE_DEAD_NAME IO_NULL
    \<and> entry_urefs (is_table s ! i) = 1"
proof -
  let ?e = "is_table sp ! i"
  define b where "b = ie_bits ?e OR (MACH_PORT_TYPE_DEAD_NAME OR 1)"
  define e' where "e' = ?e\<lparr>ie_bits := b\<rparr>"
  note h = cap_inv_held [OF inv, of i, simplified]
  have bt: "IE_BITS_TYPE b = entry_type ?e OR MACH_PORT_TYPE_DEAD_NAME" "IE_BITS_UREFS b = entry_urefs ?e OR 1"
    "IE_BITS_GEN b = IE_BITS_GEN (ie_bits ?e)" unfolding b_def by (rule ie_or_new)+
  then have b: "IE_BITS_TYPE b = MACH_PORT_TYPE_DEAD_NAME" "IE_BITS_UREFS b = 1" using h by simp_all
  have a: "IO_DEAD \<noteq> IO_NULL" by (simp add: IO_DEAD_def IO_NULL_def)
  have eq: "s = upd_entry sp i (\<lambda>e. e\<lparr>ie_bits := b\<rparr>)" unfolding s b_def by simp
  have "used_entry e'" using b h by (simp add: used_entry_def e'_def)
  moreover have "slot_ok (is_self sp) k i e'" using b by (simp add: slot_ok_def e'_def)
  ultimately have "cap_inv s k (moved ?e e' IO_DEAD H) (if entry_type e' = 0 then insert i (insert i X) else insert i X - {i})"
    unfolding eq by (intro cap_inv_upd [OF inv h(7)]) (use b h a in \<open>simp_all add: e'_def\<close>)
  moreover have "moved ?e e' IO_DEAD H = H"
    using h(3) a by (auto simp: e'_def moved_def entry_rights)
  ultimately have "cap_inv s k H X" using b i by (simp add: e'_def)
  moreover have "slot_frame i sp s" unfolding eq by simp
  ultimately show ?thesis unfolding eq using b bt(3) h(1,3) n by (simp add: names_right_def)
qed

lemma ipc_object_alloc_dead_inv:
  assumes inv: "cap_inv sp k H X" and sz: "sizes_ok sizes sp" and ng: "\<not> is_growing sp"
  shows "\<exists>r sp'. ipc_object_alloc_dead sizes kalloc_ok sp = Some (r, sp') \<and> cap_inv sp' k H X \<and> sizes_ok sizes sp'
    \<and> (case r of
         Inl kr \<Rightarrow> space_extends sp sp' \<and> (kr = KERN_INVALID_TASK \<and> \<not> is_active sp \<or> entry_refused sizes kalloc_ok sp kr)
       | Inr name \<Rightarrow> MACH_PORT_VALID name \<and> ipc_entry_lookup sp name = None
           \<and> (\<exists>i. ipc_entry_lookup sp' name = Some i \<and> grown_frame i sp sp'
                \<and> names_right sp' i name MACH_PORT_TYPE_DEAD_NAME IO_NULL \<and> entry_urefs (is_table sp' ! i) = 1))"
  using inv sz ng
proof (cases rule: entry_alloc_cases [where kalloc_ok = kalloc_ok])
  case (err kr sp')
  then show ?thesis by (auto simp: ipc_object_alloc_dead_def)
next
  case (ok name i sp')
  define s where "s = set_bits sp' i (ie_bits (is_table sp' ! i) OR (MACH_PORT_TYPE_DEAD_NAME OR 1))"
  note d = install_dead_name [OF ok(4,5) s_def ok(9)]
  have sf: "slot_frame i sp' (ipc_entry_modified s name)" using d by (simp add: slot_frame_def)
  have "ipc_entry_lookup (ipc_entry_modified s name) name = Some i"
    using d names_right_lookup [of "ipc_entry_modified s name" i name MACH_PORT_TYPE_DEAD_NAME IO_NULL] ok(8) by simp
  moreover have "ipc_object_alloc_dead sizes kalloc_ok sp = Some (Inr name, ipc_entry_modified s name)"
    using ok(1) by (simp add: ipc_object_alloc_dead_def s_def)
  moreover have "grown_frame i sp (ipc_entry_modified s name)" using ok(2) sf by (auto simp: grown_frame_def)
  ultimately show ?thesis using ok(6,7) d sizes_ok_frame [OF sf ok(3)] by auto
qed

end
