(* ===== verification/Kmsg_Queue.thy ===== *)
theory Kmsg_Queue
  imports Port_Names
begin

text \<open>
  Kernel messages and the queues they wait in (\<open>osfmk/ipc/ipc_kmsg.h\<close>, \<open>osfmk/ipc/ipc_kmsg.c\<close>).

  A queue is a pointer to its first message. The messages are linked into a ring through
  \<open>ikm_next\<close> and \<open>ikm_prev\<close>, which live in the messages themselves, so the operations write
  to a store of messages. \<open>kmsg_queue base h xs\<close> says that in the store \<open>h\<close> the pointer
  \<open>base\<close> is a queue of the messages \<open>xs\<close>. The locale \<open>fifo\<close> is what the users of queues rely
  on; the ring of messages is shown to be one.
\<close>

unbundle bit_operations_syntax

subsection \<open>Messages\<close>

text \<open>The results of the message routines, \<open>mach_msg_return_t\<close>, without the bits that refine some errors.\<close>

datatype mach_msg_return =
    MACH_MSG_SUCCESS
  | MACH_SEND_IN_PROGRESS
  | MACH_SEND_INVALID_DATA
  | MACH_SEND_INVALID_DEST
  | MACH_SEND_TIMED_OUT
  | MACH_SEND_INVALID_VOUCHER
  | MACH_SEND_INTERRUPTED
  | MACH_SEND_MSG_TOO_SMALL
  | MACH_SEND_INVALID_REPLY
  | MACH_SEND_INVALID_RIGHT
  | MACH_SEND_INVALID_NOTIFY
  | MACH_SEND_INVALID_MEMORY
  | MACH_SEND_NO_BUFFER
  | MACH_SEND_TOO_LARGE
  | MACH_SEND_INVALID_TYPE
  | MACH_SEND_INVALID_HEADER
  | MACH_SEND_INVALID_TRAILER
  | MACH_SEND_INVALID_RT_OOL_SIZE
  | MACH_RCV_IN_PROGRESS
  | MACH_RCV_INVALID_NAME
  | MACH_RCV_TIMED_OUT
  | MACH_RCV_TOO_LARGE
  | MACH_RCV_INTERRUPTED
  | MACH_RCV_PORT_CHANGED
  | MACH_RCV_INVALID_NOTIFY
  | MACH_RCV_INVALID_DATA
  | MACH_RCV_PORT_DIED
  | MACH_RCV_IN_SET
  | MACH_RCV_HEADER_ERROR
  | MACH_RCV_BODY_ERROR
  | MACH_RCV_INVALID_TYPE
  | MACH_RCV_SCATTER_SMALL
  | MACH_RCV_INVALID_TRAILER
  | MACH_RCV_IN_PROGRESS_TIMED

text \<open>In a kernel message the port fields of the header hold addresses of ports.\<close>

record mach_msg_header =
  msgh_bits :: natural_t
  msgh_size :: natural_t
  msgh_remote_port :: addr
  msgh_local_port :: addr
  msgh_voucher_port :: mach_port_name_t
  msgh_id :: integer_t

record ipc_kmsg =
  ikm_size :: natural_t
  ikm_next :: addr
  ikm_prev :: addr
  ikm_header :: mach_msg_header
  ikm_prealloc :: addr
  ikm_voucher :: addr

type_synonym kmsgs = "addr \<Rightarrow> ipc_kmsg option"

abbreviation (input) IKM_NULL :: addr where
  "IKM_NULL \<equiv> 0"

text \<open>A store through a pointer to a message.\<close>

definition upd_kmsg :: "addr \<Rightarrow> (ipc_kmsg \<Rightarrow> ipc_kmsg) \<Rightarrow> kmsgs \<Rightarrow> kmsgs option" where
  "upd_kmsg kmsg f h = do { m \<leftarrow> h kmsg; Some (h(kmsg \<mapsto> f m)) }"

subsection \<open>Queues\<close>

definition ipc_kmsg_queue_init :: addr where
  "ipc_kmsg_queue_init = IKM_NULL"

definition ipc_kmsg_queue_empty :: "addr \<Rightarrow> bool" where
  "ipc_kmsg_queue_empty queue \<longleftrightarrow> queue = IKM_NULL"

definition ipc_kmsg_queue_first :: "addr \<Rightarrow> addr" where
  "ipc_kmsg_queue_first queue = queue"

definition ipc_kmsg_enqueue_macro :: "addr \<Rightarrow> addr \<Rightarrow> kmsgs \<Rightarrow> (addr \<times> kmsgs) option" where
  "ipc_kmsg_enqueue_macro queue kmsg h =
     (let first = queue in
      if first = IKM_NULL then do {
        h \<leftarrow> upd_kmsg kmsg (\<lambda>m. m\<lparr>ikm_next := kmsg\<rparr>) h;
        h \<leftarrow> upd_kmsg kmsg (\<lambda>m. m\<lparr>ikm_prev := kmsg\<rparr>) h;
        Some (kmsg, h) }
      else do {
        last \<leftarrow> map_option ikm_prev (h first);
        h \<leftarrow> upd_kmsg kmsg (\<lambda>m. m\<lparr>ikm_next := first\<rparr>) h;
        h \<leftarrow> upd_kmsg kmsg (\<lambda>m. m\<lparr>ikm_prev := last\<rparr>) h;
        h \<leftarrow> upd_kmsg first (\<lambda>m. m\<lparr>ikm_prev := kmsg\<rparr>) h;
        h \<leftarrow> upd_kmsg last (\<lambda>m. m\<lparr>ikm_next := kmsg\<rparr>) h;
        Some (queue, h) })"

definition ipc_kmsg_enqueue :: "addr \<Rightarrow> addr \<Rightarrow> kmsgs \<Rightarrow> (addr \<times> kmsgs) option" where
  "ipc_kmsg_enqueue queue kmsg h = ipc_kmsg_enqueue_macro queue kmsg h"

definition ipc_kmsg_rmqueue_first_macro :: "addr \<Rightarrow> addr \<Rightarrow> kmsgs \<Rightarrow> (addr \<times> kmsgs) option" where
  "ipc_kmsg_rmqueue_first_macro queue kmsg h = do {
     next \<leftarrow> map_option ikm_next (h kmsg);
     (if next = kmsg then Some (IKM_NULL, h)
      else do {
        prev \<leftarrow> map_option ikm_prev (h kmsg);
        h \<leftarrow> upd_kmsg next (\<lambda>m. m\<lparr>ikm_prev := prev\<rparr>) h;
        h \<leftarrow> upd_kmsg prev (\<lambda>m. m\<lparr>ikm_next := next\<rparr>) h;
        Some (next, h) }) }"

definition ipc_kmsg_dequeue :: "addr \<Rightarrow> kmsgs \<Rightarrow> (addr \<times> addr \<times> kmsgs) option" where
  "ipc_kmsg_dequeue queue h =
     (let first = ipc_kmsg_queue_first queue in
      if first \<noteq> IKM_NULL then do {
        (queue, h) \<leftarrow> ipc_kmsg_rmqueue_first_macro queue first h;
        Some (first, queue, h) }
      else Some (first, queue, h))"

definition ipc_kmsg_rmqueue :: "addr \<Rightarrow> addr \<Rightarrow> kmsgs \<Rightarrow> (addr \<times> kmsgs) option" where
  "ipc_kmsg_rmqueue queue kmsg h = do {
     next \<leftarrow> map_option ikm_next (h kmsg);
     prev \<leftarrow> map_option ikm_prev (h kmsg);
     (if next = kmsg then Some (IKM_NULL, h)
      else do {
        let queue = (if queue = kmsg then next else queue);
        h \<leftarrow> upd_kmsg next (\<lambda>m. m\<lparr>ikm_prev := prev\<rparr>) h;
        h \<leftarrow> upd_kmsg prev (\<lambda>m. m\<lparr>ikm_next := next\<rparr>) h;
        Some (queue, h) }) }"

definition ipc_kmsg_queue_next :: "addr \<Rightarrow> addr \<Rightarrow> kmsgs \<Rightarrow> addr option" where
  "ipc_kmsg_queue_next queue kmsg h = do {
     next \<leftarrow> map_option ikm_next (h kmsg);
     Some (if queue = next then IKM_NULL else next) }"

subsection \<open>Rings\<close>

definition ikm_nx :: "kmsgs \<Rightarrow> addr \<Rightarrow> addr option" where
  "ikm_nx h x = map_option ikm_next (h x)"

definition ikm_pv :: "kmsgs \<Rightarrow> addr \<Rightarrow> addr option" where
  "ikm_pv h x = map_option ikm_prev (h x)"

definition linked :: "kmsgs \<Rightarrow> addr \<Rightarrow> addr \<Rightarrow> bool" where
  "linked h x y \<longleftrightarrow> ikm_nx h x = Some y \<and> ikm_pv h y = Some x"

fun chain :: "kmsgs \<Rightarrow> addr list \<Rightarrow> bool" where
  "chain h (x # y # zs) \<longleftrightarrow> linked h x y \<and> chain h (y # zs)"
| "chain h xs \<longleftrightarrow> True"

definition kmsg_queue :: "addr \<Rightarrow> kmsgs \<Rightarrow> addr list \<Rightarrow> bool" where
  "kmsg_queue base h xs \<longleftrightarrow>
     distinct xs \<and> IKM_NULL \<notin> set xs
     \<and> (if xs = [] then base = IKM_NULL else base = hd xs \<and> chain h xs \<and> linked h (last xs) (hd xs))"

lemma kmsg_queueD:
  assumes "kmsg_queue base h xs"
  shows "distinct xs" "IKM_NULL \<notin> set xs" "xs = [] \<Longrightarrow> base = IKM_NULL" "xs \<noteq> [] \<Longrightarrow> base = hd xs"
    "xs \<noteq> [] \<Longrightarrow> chain h xs" "xs \<noteq> [] \<Longrightarrow> linked h (last xs) (hd xs)"
  using assms by (simp_all add: kmsg_queue_def split: if_splits)

lemma chain_Cons: "chain h (x # ys) \<longleftrightarrow> (ys \<noteq> [] \<longrightarrow> linked h x (hd ys) \<and> chain h ys)"
  by (cases ys) simp_all

lemma chain_append:
  "chain h (xs @ ys) \<longleftrightarrow> chain h xs \<and> chain h ys \<and> (xs \<noteq> [] \<longrightarrow> ys \<noteq> [] \<longrightarrow> linked h (last xs) (hd ys))"
  by (induction xs) (auto simp: chain_Cons)

text \<open>
  A chain depends on the next pointers of all its messages but the last, and on the previous
  pointers of all but the first.
\<close>

lemma chain_cong:
  assumes "\<And>x. x \<in> set (butlast xs) \<Longrightarrow> ikm_nx h' x = ikm_nx h x"
    and "\<And>x. x \<in> set (tl xs) \<Longrightarrow> ikm_pv h' x = ikm_pv h x"
  shows "chain h' xs = chain h xs"
  using assms
proof (induction h xs rule: chain.induct)
  case (1 h x y zs)
  then show ?case by (simp add: linked_def)
qed simp_all

lemma in_set_tlD: "x \<in> set (tl xs) \<Longrightarrow> x \<in> set xs"
  by (cases xs) auto

lemma distinct_ends:
  assumes "distinct xs" "xs \<noteq> []"
  shows "last xs \<notin> set (butlast xs)" "hd xs \<notin> set (tl xs)" "set (butlast xs) \<subseteq> set xs" "set (tl xs) \<subseteq> set xs"
  using assms by (induction xs) (auto dest: in_set_butlastD)

lemma joint_ends:
  assumes "distinct (xs @ ys)" "xs @ ys \<noteq> []"
  shows "last (xs @ ys) \<notin> set (butlast xs)" "last (xs @ ys) \<notin> set (butlast ys)"
    "hd (xs @ ys) \<notin> set (tl xs)" "hd (xs @ ys) \<notin> set (tl ys)"
proof -
  have m: "last ys \<in> set ys" if "ys \<noteq> []" using that by simp
  have h: "hd xs \<in> set xs" if "xs \<noteq> []" using that by simp
  show "last (xs @ ys) \<notin> set (butlast xs)"
    using assms m distinct_ends(1) [of xs] by (cases "ys = []") (auto dest: in_set_butlastD)
  show "last (xs @ ys) \<notin> set (butlast ys)"
    using assms distinct_ends(1) [of ys] by (cases "ys = []") auto
  show "hd (xs @ ys) \<notin> set (tl xs)"
    using assms distinct_ends(2) [of xs] by (cases "xs = []") auto
  show "hd (xs @ ys) \<notin> set (tl ys)"
    using assms h distinct_ends(2) [of ys] in_set_tlD [of "hd xs" ys]
    by (cases "xs = []") (simp, metis disjoint_iff distinct_append hd_append2)
qed

text \<open>What the operations write: pointers of the messages in a set, and nothing else.\<close>

definition unlinked :: "ipc_kmsg \<Rightarrow> ipc_kmsg" where
  "unlinked m = m\<lparr>ikm_next := IKM_NULL, ikm_prev := IKM_NULL\<rparr>"

definition links_only :: "addr set \<Rightarrow> kmsgs \<Rightarrow> kmsgs \<Rightarrow> bool" where
  "links_only A h h' \<longleftrightarrow>
     (\<forall>x. x \<notin> A \<longrightarrow> h' x = h x) \<and> (\<forall>x. map_option unlinked (h' x) = map_option unlinked (h x))"

lemma links_only_refl [simp]: "links_only A h h"
  by (simp add: links_only_def)

lemma links_only_trans: "links_only A h h' \<Longrightarrow> links_only B h' h'' \<Longrightarrow> links_only (A \<union> B) h h''"
  by (simp add: links_only_def)

lemma links_only_mono: "links_only A h h' \<Longrightarrow> A \<subseteq> B \<Longrightarrow> links_only B h h'"
  by (auto simp: links_only_def)

lemma links_only_dom: "links_only A h h' \<Longrightarrow> h' x = None \<longleftrightarrow> h x = None"
  unfolding links_only_def by (metis option.map_disc_iff)

lemma kmsg_queue_same:
  assumes q: "kmsg_queue base h xs" and same: "\<And>x. x \<in> set xs \<Longrightarrow> h' x = h x"
  shows "kmsg_queue base h' xs"
proof -
  have n: "ikm_nx h' x = ikm_nx h x" "ikm_pv h' x = ikm_pv h x" if "x \<in> set xs" for x
    using same that by (simp_all add: ikm_nx_def ikm_pv_def)
  have "chain h' xs = chain h xs"
    using n by (intro chain_cong) (auto dest: in_set_butlastD in_set_tlD)
  then show ?thesis using kmsg_queueD [OF q] n [of "last xs"] n [of "hd xs"] by (simp add: kmsg_queue_def linked_def)
qed

lemma kmsg_queue_cong: "kmsg_queue base h xs \<Longrightarrow> links_only A h h' \<Longrightarrow> A \<inter> set xs = {} \<Longrightarrow> kmsg_queue base h' xs"
  by (erule kmsg_queue_same) (auto simp: links_only_def)

text \<open>
  Stores to the pointers of messages: the operations write the pointers of one message, or the
  previous pointer of one and the next pointer of another.
\<close>

lemma upd_next:
  assumes "h x = Some m"
  shows "\<exists>h'. upd_kmsg x (\<lambda>m. m\<lparr>ikm_next := y\<rparr>) h = Some h' \<and> ikm_nx h' = (ikm_nx h)(x \<mapsto> y)
    \<and> ikm_pv h' = ikm_pv h \<and> links_only {x} h h'"
  using assms
  by (intro exI [of _ "h(x \<mapsto> m\<lparr>ikm_next := y\<rparr>)"])
    (auto simp: upd_kmsg_def ikm_nx_def ikm_pv_def links_only_def unlinked_def)

lemma upd_prev:
  assumes "h x = Some m"
  shows "\<exists>h'. upd_kmsg x (\<lambda>m. m\<lparr>ikm_prev := y\<rparr>) h = Some h' \<and> ikm_pv h' = (ikm_pv h)(x \<mapsto> y)
    \<and> ikm_nx h' = ikm_nx h \<and> links_only {x} h h'"
  using assms
  by (intro exI [of _ "h(x \<mapsto> m\<lparr>ikm_prev := y\<rparr>)"])
    (auto simp: upd_kmsg_def ikm_nx_def ikm_pv_def links_only_def unlinked_def)

lemma relink:
  assumes "h n \<noteq> None" "h p \<noteq> None"
  obtains h1 h2 where "upd_kmsg n (\<lambda>m. m\<lparr>ikm_prev := a\<rparr>) h = Some h1" "upd_kmsg p (\<lambda>m. m\<lparr>ikm_next := b\<rparr>) h1 = Some h2"
    "ikm_nx h2 = (ikm_nx h)(p \<mapsto> b)" "ikm_pv h2 = (ikm_pv h)(n \<mapsto> a)" "links_only {n, p} h h2"
proof -
  obtain h1 where 1: "upd_kmsg n (\<lambda>m. m\<lparr>ikm_prev := a\<rparr>) h = Some h1" "ikm_pv h1 = (ikm_pv h)(n \<mapsto> a)"
      "ikm_nx h1 = ikm_nx h" "links_only {n} h h1"
    using assms(1) upd_prev [of h n _ a] by blast
  have "h1 p \<noteq> None" using assms(2) links_only_dom [OF 1(4)] by simp
  then obtain h2 where 2: "upd_kmsg p (\<lambda>m. m\<lparr>ikm_next := b\<rparr>) h1 = Some h2" "ikm_nx h2 = (ikm_nx h1)(p \<mapsto> b)"
      "ikm_pv h2 = ikm_pv h1" "links_only {p} h1 h2"
    using upd_next [of h1 p _ b] by blast
  show ?thesis
    by (rule that [OF 1(1) 2(1)]) (use 1 2 links_only_trans [OF 1(4) 2(4)] in \<open>simp_all add: insert_commute\<close>)
qed

lemma set_links:
  assumes "h x \<noteq> None"
  obtains h1 h2 where "upd_kmsg x (\<lambda>m. m\<lparr>ikm_next := b\<rparr>) h = Some h1" "upd_kmsg x (\<lambda>m. m\<lparr>ikm_prev := a\<rparr>) h1 = Some h2"
    "ikm_nx h2 = (ikm_nx h)(x \<mapsto> b)" "ikm_pv h2 = (ikm_pv h)(x \<mapsto> a)" "links_only {x} h h2"
proof -
  obtain h1 where 1: "upd_kmsg x (\<lambda>m. m\<lparr>ikm_next := b\<rparr>) h = Some h1" "ikm_nx h1 = (ikm_nx h)(x \<mapsto> b)"
      "ikm_pv h1 = ikm_pv h" "links_only {x} h h1"
    using assms upd_next [of h x _ b] by blast
  have "h1 x \<noteq> None" using assms links_only_dom [OF 1(4)] by simp
  then obtain h2 where 2: "upd_kmsg x (\<lambda>m. m\<lparr>ikm_prev := a\<rparr>) h1 = Some h2" "ikm_pv h2 = (ikm_pv h1)(x \<mapsto> a)"
      "ikm_nx h2 = ikm_nx h1" "links_only {x} h1 h2"
    using upd_prev [of h1 x _ a] by blast
  show ?thesis by (rule that [OF 1(1) 2(1)]) (use 1 2 links_only_trans [OF 1(4) 2(4)] in simp_all)
qed

text \<open>In a ring every message is there, and its neighbours are known.\<close>

lemma linked_some: "linked h x y \<Longrightarrow> h x \<noteq> None \<and> h y \<noteq> None"
  by (auto simp: linked_def ikm_nx_def ikm_pv_def)

lemma chain_some: "chain h xs \<Longrightarrow> length xs > 1 \<Longrightarrow> x \<in> set xs \<Longrightarrow> h x \<noteq> None"
proof (induction h xs rule: chain.induct)
  case (1 h x y zs)
  then show ?case using linked_some by (cases zs) auto
qed simp_all

lemma kmsg_queue_some:
  assumes "kmsg_queue base h xs" "x \<in> set xs"
  shows "h x \<noteq> None" "x \<noteq> IKM_NULL"
proof -
  have "xs \<noteq> []" using assms(2) by auto
  then have c: "chain h xs" "linked h (last xs) (hd xs)" using kmsg_queueD(5,6) [OF assms(1)] by simp_all
  show "h x \<noteq> None"
  proof (cases "length xs > 1")
    case True
    then show ?thesis by (rule chain_some [OF c(1) _ assms(2)])
  next
    case False
    then have "xs = [x]" using assms(2) by (cases xs) auto
    then show ?thesis using linked_some [OF c(2)] by simp
  qed
  show "x \<noteq> IKM_NULL" using assms by (auto simp: kmsg_queue_def)
qed

lemma kmsg_queue_around:
  assumes "kmsg_queue base h (xs @ x # ys)"
  shows "ikm_nx h x = Some (hd (ys @ xs @ [x]))" "ikm_pv h x = Some (last (x # ys @ xs))"
proof -
  have c: "chain h (xs @ x # ys)" "linked h (last (xs @ x # ys)) (hd (xs @ x # ys))"
    using kmsg_queueD(5,6) [OF assms] by simp_all
  then have n: "ys \<noteq> [] \<Longrightarrow> linked h x (hd ys)" "xs \<noteq> [] \<Longrightarrow> linked h (last xs) x"
    by (simp_all add: chain_append chain_Cons)
  show "ikm_nx h x = Some (hd (ys @ xs @ [x]))"
    using n(1) c(2) by (cases "ys = []") (simp_all add: linked_def hd_append)
  show "ikm_pv h x = Some (last (x # ys @ xs))"
    using n(2) c(2) by (cases "xs = []") (simp_all add: linked_def)
qed

subsection \<open>The operations on a ring\<close>

lemma enqueue_queue:
  assumes q: "kmsg_queue base h xs" and k: "k \<notin> set xs" "k \<noteq> IKM_NULL" "h k \<noteq> None"
  shows "\<exists>base' h'. ipc_kmsg_enqueue base k h = Some (base', h') \<and> kmsg_queue base' h' (xs @ [k])
    \<and> links_only (insert k (set xs)) h h'"
proof (cases "xs = []")
  case True
  obtain h1 h2 where 2: "upd_kmsg k (\<lambda>m. m\<lparr>ikm_next := k\<rparr>) h = Some h1" "upd_kmsg k (\<lambda>m. m\<lparr>ikm_prev := k\<rparr>) h1 = Some h2"
      "ikm_nx h2 = (ikm_nx h)(k \<mapsto> k)" "ikm_pv h2 = (ikm_pv h)(k \<mapsto> k)" "links_only {k} h h2"
    using set_links [of h k k k] k(3) by blast
  have "kmsg_queue k h2 [k]" using 2 k by (simp add: kmsg_queue_def linked_def)
  then show ?thesis
    using True kmsg_queueD(3) [OF q] 2 by (simp add: ipc_kmsg_enqueue_def ipc_kmsg_enqueue_macro_def)
next
  case False
  note d = kmsg_queueD [OF q]
  define f l where fl: "f = hd xs" "l = last xs"
  have in_xs: "f \<in> set xs" "l \<in> set xs" using False by (simp_all add: fl)
  have ne: "f \<noteq> k" "l \<noteq> k" "f \<noteq> IKM_NULL" using in_xs k(1) kmsg_queue_some [OF q] by auto
  have last: "map_option ikm_prev (h f) = Some l" using d(6) [OF False] by (simp add: linked_def ikm_pv_def fl)
  obtain h1 h2 where 2: "upd_kmsg k (\<lambda>m. m\<lparr>ikm_next := f\<rparr>) h = Some h1" "upd_kmsg k (\<lambda>m. m\<lparr>ikm_prev := l\<rparr>) h1 = Some h2"
      "ikm_nx h2 = (ikm_nx h)(k \<mapsto> f)" "ikm_pv h2 = (ikm_pv h)(k \<mapsto> l)" "links_only {k} h h2"
    using set_links [of h k f l] k(3) by blast
  have "h2 f \<noteq> None" "h2 l \<noteq> None" using kmsg_queue_some(1) [OF q] in_xs links_only_dom [OF 2(5)] by simp_all
  then obtain h3 h4 where 4: "upd_kmsg f (\<lambda>m. m\<lparr>ikm_prev := k\<rparr>) h2 = Some h3" "upd_kmsg l (\<lambda>m. m\<lparr>ikm_next := k\<rparr>) h3 = Some h4"
      "ikm_nx h4 = (ikm_nx h2)(l \<mapsto> k)" "ikm_pv h4 = (ikm_pv h2)(f \<mapsto> k)" "links_only {f, l} h2 h4"
    by (rule relink [of h2 f l k k])
  have lo: "links_only (insert k (set xs)) h h4"
    by (rule links_only_mono [OF links_only_trans [OF 2(5) 4(5)]]) (use in_xs in auto)
  have "chain h4 xs = chain h xs"
    using distinct_ends [OF d(1) False] k(1) by (intro chain_cong) (auto simp: 2 4 fl)
  then have "chain h4 (xs @ [k])" "linked h4 k (hd (xs @ [k]))"
    using d(5) [OF False] False ne 2 4 by (simp_all add: chain_append linked_def fl)
  then have "kmsg_queue f h4 (xs @ [k])"
    using d(1,2) k(1,2) False by (simp add: kmsg_queue_def fl)
  then show ?thesis
    using lo False d(4) ne(3) last 2(1,2) 4(1,2)
    by (auto simp: ipc_kmsg_enqueue_def ipc_kmsg_enqueue_macro_def fl [symmetric])
qed

text \<open>Taking a message out, wherever it is.\<close>

lemma rmqueue_queue:
  assumes q: "kmsg_queue base h (xs @ k # ys)"
  shows "\<exists>base' h'. ipc_kmsg_rmqueue base k h = Some (base', h') \<and> kmsg_queue base' h' (xs @ ys)
    \<and> links_only (set (xs @ ys)) h h'"
proof (cases "xs @ ys = []")
  case True
  then show ?thesis
    using kmsg_queue_around [OF q] by (auto simp: ipc_kmsg_rmqueue_def kmsg_queue_def ikm_nx_def ikm_pv_def)
next
  case False
  note d = kmsg_queueD [OF q]
  define n p where np: "n = hd (ys @ xs)" "p = last (ys @ xs)"
  have inn: "n \<in> set (xs @ ys)" "p \<in> set (xs @ ys)" using False hd_in_set [of "ys @ xs"] last_in_set [of "ys @ xs"] by (auto simp: np)
  have ne: "n \<noteq> k" "p \<noteq> k" using inn d(1) by auto
  have around: "map_option ikm_next (h k) = Some n" "map_option ikm_prev (h k) = Some p"
    using kmsg_queue_around [OF q] False by (auto simp: np ikm_nx_def ikm_pv_def hd_append)
  have "h n \<noteq> None" "h p \<noteq> None" using kmsg_queue_some(1) [OF q] inn by auto
  then obtain h1 h2 where 2: "upd_kmsg n (\<lambda>m. m\<lparr>ikm_prev := p\<rparr>) h = Some h1" "upd_kmsg p (\<lambda>m. m\<lparr>ikm_next := n\<rparr>) h1 = Some h2"
      "ikm_nx h2 = (ikm_nx h)(p \<mapsto> n)" "ikm_pv h2 = (ikm_pv h)(n \<mapsto> p)" "links_only {n, p} h h2"
    by (rule relink [of h n p p n])
  have lo: "links_only (set (xs @ ys)) h h2" by (rule links_only_mono [OF 2(5)]) (use inn in auto)
  have c: "chain h xs" "chain h ys" "ys \<noteq> [] \<Longrightarrow> xs \<noteq> [] \<Longrightarrow> linked h (last ys) (hd xs)"
    using d(5,6) by (simp_all add: chain_append chain_Cons) (cases ys, simp_all)
  have dj: "distinct (ys @ xs)" "ys @ xs \<noteq> []" using d(1) False by auto
  have "p \<notin> set (butlast ys)" "p \<notin> set (butlast xs)" "n \<notin> set (tl ys)" "n \<notin> set (tl xs)"
    unfolding np using joint_ends [OF dj] by blast+
  then have "chain h2 xs = chain h xs" "chain h2 ys = chain h ys" by (auto intro!: chain_cong simp: 2)
  moreover have "linked h2 (last xs) (hd ys) \<and> linked h2 (last ys) (hd xs)" if "xs \<noteq> []" "ys \<noteq> []"
  proof -
    have "set xs \<inter> set ys = {}" using d(1) by auto
    then have "last xs \<noteq> last ys" "hd xs \<noteq> hd ys"
      using last_in_set [OF that(1)] last_in_set [OF that(2)] hd_in_set [OF that(1)] hd_in_set [OF that(2)]
      by (metis IntI empty_iff)+
    then show ?thesis using c(3) that 2(3,4) by (simp add: linked_def np)
  qed
  moreover have "linked h2 (last ys) (hd ys)" if "xs = []" using that 2(3,4) False by (simp add: linked_def np)
  moreover have "linked h2 (last xs) (hd xs)" if "ys = []" using that 2(3,4) False by (simp add: linked_def np)
  ultimately have "kmsg_queue (if xs = [] then hd ys else hd xs) h2 (xs @ ys)"
    using d(1,2) False c(1,2) by (cases "xs = []"; cases "ys = []"; simp add: kmsg_queue_def chain_append)
  moreover have "(if base = k then n else base) = (if xs = [] then hd ys else hd xs)"
    using d(1,4) False by (auto simp: np)
  ultimately show ?thesis
    using lo around ne 2(1,2) by (auto simp: ipc_kmsg_rmqueue_def)
qed

lemma rmqueue_first_eq: "ipc_kmsg_rmqueue_first_macro k k h = ipc_kmsg_rmqueue k k h"
  by (cases "h k") (simp_all add: ipc_kmsg_rmqueue_first_macro_def ipc_kmsg_rmqueue_def)

lemma dequeue_queue:
  assumes "kmsg_queue base h (k # xs)"
  shows "\<exists>base' h'. ipc_kmsg_dequeue base h = Some (k, base', h') \<and> kmsg_queue base' h' xs \<and> links_only (set xs) h h'"
  using rmqueue_queue [of base h "[]" k xs] kmsg_queueD(2,4) [OF assms] assms
  by (auto simp: ipc_kmsg_dequeue_def ipc_kmsg_queue_first_def rmqueue_first_eq)

lemma queue_next_queue:
  assumes "kmsg_queue base h (xs @ k # ys)"
  shows "ipc_kmsg_queue_next base k h = Some (if ys = [] then IKM_NULL else hd ys)"
proof -
  note d = kmsg_queueD [OF assms]
  have "map_option ikm_next (h k) = Some (hd (ys @ xs @ [k]))"
    using kmsg_queue_around(1) [OF assms] by (simp add: ikm_nx_def)
  moreover have "base = hd (ys @ xs @ [k]) \<longleftrightarrow> ys = []"
    using d(1,4) by (cases ys; cases xs) auto
  ultimately show ?thesis by (auto simp: ipc_kmsg_queue_next_def)
qed

subsection \<open>Loops over queues\<close>

text \<open>
  Two loops of the message code, for any queue: emptying one queue into another
  (\<open>ipc_mqueue_destroy\<close>), with the flag that tells whether the other was empty; and walking a
  number of messages down a queue (\<open>ipc_mqueue_peek\<close>).
\<close>

partial_function (option) drain ::
    "('q \<Rightarrow> 's \<Rightarrow> ('m \<times> 'q \<times> 's) option) \<Rightarrow> ('q \<Rightarrow> 'm \<Rightarrow> 's \<Rightarrow> ('q \<times> 's) option) \<Rightarrow> ('q \<Rightarrow> bool) \<Rightarrow> 'm
       \<Rightarrow> 'q \<Rightarrow> 'q \<Rightarrow> bool \<Rightarrow> 's \<Rightarrow> ('q \<times> 'q \<times> bool \<times> 's) option" where
  "drain deq enq is_empty null queue other reap s = do {
     (kmsg, queue, s) \<leftarrow> deq queue s;
     (if kmsg = null then Some (queue, other, reap, s)
      else do {
        let first = is_empty other;
        (other, s) \<leftarrow> enq other kmsg s;
        drain deq enq is_empty null queue other (if first then first else reap) s }) }"

fun seek :: "('m \<Rightarrow> 'm option) \<Rightarrow> 'm \<Rightarrow> nat \<Rightarrow> 'm \<Rightarrow> 'm option" where
  "seek following null 0 kmsg = Some kmsg"
| "seek following null (Suc n) kmsg =
     (if kmsg = null then Some kmsg else do { kmsg \<leftarrow> following kmsg; seek following null n kmsg })"

subsection \<open>The interface\<close>

locale fifo =
  fixes rep :: "'q \<Rightarrow> 's \<Rightarrow> 'm list \<Rightarrow> bool" and node :: "'s \<Rightarrow> 'm \<Rightarrow> bool" and frame :: "'m set \<Rightarrow> 's \<Rightarrow> 's \<Rightarrow> bool"
    and null :: 'm and is_empty :: "'q \<Rightarrow> bool" and first :: "'q \<Rightarrow> 'm"
    and enq :: "'q \<Rightarrow> 'm \<Rightarrow> 's \<Rightarrow> ('q \<times> 's) option" and deq :: "'q \<Rightarrow> 's \<Rightarrow> ('m \<times> 'q \<times> 's) option"
    and rem :: "'q \<Rightarrow> 'm \<Rightarrow> 's \<Rightarrow> ('q \<times> 's) option" and following :: "'q \<Rightarrow> 'm \<Rightarrow> 's \<Rightarrow> 'm option"
  assumes rep_ok: "rep q s xs \<Longrightarrow> distinct xs \<and> null \<notin> set xs \<and> (\<forall>m \<in> set xs. node s m)"
    and is_empty_iff: "rep q s xs \<Longrightarrow> is_empty q \<longleftrightarrow> xs = []"
    and first_eq: "rep q s xs \<Longrightarrow> first q = (if xs = [] then null else hd xs)"
    and enq_ok: "rep q s xs \<Longrightarrow> node s m \<Longrightarrow> m \<noteq> null \<Longrightarrow> m \<notin> set xs \<Longrightarrow>
      \<exists>q' s'. enq q m s = Some (q', s') \<and> rep q' s' (xs @ [m]) \<and> frame (insert m (set xs)) s s'"
    and deq_empty: "rep q s [] \<Longrightarrow> deq q s = Some (null, q, s)"
    and deq_ok: "rep q s (x # xs) \<Longrightarrow> \<exists>q' s'. deq q s = Some (x, q', s') \<and> rep q' s' xs \<and> frame (set xs) s s'"
    and rem_ok: "rep q s (xs @ m # ys) \<Longrightarrow>
      \<exists>q' s'. rem q m s = Some (q', s') \<and> rep q' s' (xs @ ys) \<and> frame (set (xs @ ys)) s s'"
    and following_ok: "rep q s (xs @ m # ys) \<Longrightarrow> following q m s = Some (if ys = [] then null else hd ys)"
    and frame_rep: "rep q s xs \<Longrightarrow> frame A s s' \<Longrightarrow> A \<inter> set xs = {} \<Longrightarrow> rep q s' xs"
    and frame_node: "frame A s s' \<Longrightarrow> node s' m = node s m"
begin

lemma deq_some: "rep q s xs \<Longrightarrow> \<exists>x q' s'. deq q s = Some (x, q', s') \<and> x = (if xs = [] then null else hd xs) \<and> rep q' s' (tl xs)"
  using deq_empty [of q s] deq_ok [of q s] by (cases xs) force+

text \<open>Emptying a queue into another one ends, keeps the order, and tells whether the other was empty.\<close>

lemma drain_ok:
  assumes "rep q s xs" "rep d s ys" "set xs \<inter> set ys = {}"
  shows "\<exists>q' d' s'. drain deq enq is_empty null q d reap s = Some (q', d', reap \<or> xs \<noteq> [] \<and> ys = [], s')
    \<and> rep q' s' [] \<and> rep d' s' (ys @ xs)"
  using assms
proof (induction xs arbitrary: q d ys s reap)
  case Nil
  then show ?case by (subst drain.simps) (auto simp: deq_empty)
next
  case (Cons x xs)
  obtain q1 s1 where 1: "deq q s = Some (x, q1, s1)" "rep q1 s1 xs" "frame (set xs) s s1"
    using deq_ok [OF Cons.prems(1)] by blast
  have x: "x \<noteq> null" "x \<notin> set xs" "x \<notin> set ys" "node s1 x"
    using rep_ok [OF Cons.prems(1)] Cons.prems(3) frame_node [OF 1(3)] by auto
  have d1: "rep d s1 ys" by (rule frame_rep [OF Cons.prems(2) 1(3)]) (use Cons.prems(3) in auto)
  obtain d2 s2 where 2: "enq d x s1 = Some (d2, s2)" "rep d2 s2 (ys @ [x])" "frame (insert x (set ys)) s1 s2"
    using enq_ok [OF d1 x(4,1,3)] by blast
  have q2: "rep q1 s2 xs" by (rule frame_rep [OF 1(2) 2(3)]) (use Cons.prems(3) x in auto)
  have "set xs \<inter> set (ys @ [x]) = {}" using Cons.prems(3) x by auto
  from Cons.IH [OF q2 2(2) this, of "if ys = [] then True else reap"] show ?case
    using 1(1) 2(1) x(1) is_empty_iff [OF d1] by (cases "ys = []"; subst drain.simps) simp_all
qed

lemma seek_ok:
  assumes "rep q s (xs @ ys)"
  shows "seek (\<lambda>m. following q m s) null n (if ys = [] then null else hd ys) = Some (if n < length ys then ys ! n else null)"
  using assms
proof (induction n arbitrary: xs ys)
  case 0
  then show ?case by (simp add: hd_conv_nth)
next
  case (Suc n)
  show ?case
  proof (cases ys)
    case (Cons y zs)
    then have r: "rep q s ((xs @ [y]) @ zs)" using Suc.prems by simp
    have "y \<noteq> null" using rep_ok [OF Suc.prems] Cons by auto
    then show ?thesis using Suc.IH [OF r] following_ok [of q s xs y zs] Suc.prems Cons by simp
  qed simp
qed

end

interpretation kmsg_ring: fifo kmsg_queue "\<lambda>h k. h k \<noteq> None" links_only IKM_NULL ipc_kmsg_queue_empty ipc_kmsg_queue_first
    ipc_kmsg_enqueue ipc_kmsg_dequeue ipc_kmsg_rmqueue ipc_kmsg_queue_next
proof unfold_locales
  fix q s xs assume "kmsg_queue q s xs"
  then show "distinct xs \<and> IKM_NULL \<notin> set xs \<and> (\<forall>m \<in> set xs. s m \<noteq> None)"
    using kmsg_queueD(1,2) kmsg_queue_some(1) by blast
next
  fix q s xs assume q: "kmsg_queue q s xs"
  then show "ipc_kmsg_queue_empty q = (xs = [])" "ipc_kmsg_queue_first q = (if xs = [] then IKM_NULL else hd xs)"
    using kmsg_queueD(2,3,4) [OF q] by (cases xs; auto simp: ipc_kmsg_queue_empty_def ipc_kmsg_queue_first_def)+
next
  fix q s assume "kmsg_queue q s []"
  then show "ipc_kmsg_dequeue q s = Some (IKM_NULL, q, s)"
    using kmsg_queueD(3) by (auto simp: ipc_kmsg_dequeue_def ipc_kmsg_queue_first_def)
next
  fix A s s' m assume "links_only A s s'"
  then show "(s' m \<noteq> None) = (s m \<noteq> None)" by (simp add: links_only_dom)
qed (erule enqueue_queue dequeue_queue rmqueue_queue queue_next_queue kmsg_queue_cong; assumption)+

end
