(* ===== verification/Mach_Port.thy ===== *)
theory Mach_Port
  imports Ipc_Object Kmsg_Queue
begin

text \<open>
  The port system calls of \<open>osfmk/ipc/mach_port.c\<close>. Each checks its arguments, looks the
  name up and calls the routines of the capability system.

  The space argument is an \<open>ipc_space option\<close>, with \<open>None\<close> for the null pointer. The results
  are those of the C functions; out-parameters are part of the result of a successful call.
  Parameters stand for what other subsystems decide: \<open>sizes\<close> and \<open>kalloc_ok\<close> are the table
  sizes and the outcome of allocations, \<open>fresh\<close> is the address that \<open>io_alloc\<close> returns,
  \<open>kmsg\<close> the buffer that \<open>ipc_kmsg_prealloc\<close> returns (\<open>IKM_NULL\<close> if it fails), \<open>waiters\<close> the
  number of threads that wait for room in a message queue.

  Not modelled: the calls that move ports between port sets, whose membership is kept by
  the wait queues, and \<open>mach_port_peek\<close>, which reads messages.
\<close>

type_synonym 'r syscall = "('r \<times> ipc_space option \<times> kern) option"

abbreviation (input) IS_NULL :: "ipc_space option" where
  "IS_NULL \<equiv> None"

text \<open>The test against the null space that opens every call, and the call on a space.\<close>

definition with_space ::
    "'r \<Rightarrow> ipc_space option \<Rightarrow> kern \<Rightarrow> (ipc_space \<Rightarrow> ('r \<times> ipc_space \<times> kern) option) \<Rightarrow> 'r syscall" where
  "with_space null space k call =
     (case space of
        None \<Rightarrow> Some (null, IS_NULL, k)
      | Some space \<Rightarrow> do {
          (r, space, k) \<leftarrow> call space;
          Some (r, Some space, k) })"

definition ipc_port_translate_receive :: "ipc_space \<Rightarrow> mach_port_name_t \<Rightarrow> kern_return + addr" where
  "ipc_port_translate_receive space name = ipc_object_translate space name MACH_PORT_RIGHT_RECEIVE"

subsection \<open>Names and types\<close>

definition mach_port_names_helper ::
    "natural_t \<Rightarrow> ipc_entry \<Rightarrow> mach_port_name_t \<Rightarrow> kern \<Rightarrow> (mach_port_name_t \<times> mach_port_type_t) option" where
  "mach_port_names_helper timestamp entry name k = do {
     let bits = ie_bits entry;
     let request = ie_request entry;
     let port = ie_object entry;
     (type, bits) \<leftarrow>
       (if bits AND MACH_PORT_TYPE_RECEIVE \<noteq> 0 then
          (if request \<noteq> IE_REQ_NONE then do {
             p \<leftarrow> port_at k port;
             reqtype \<leftarrow> ipc_port_request_type p request;
             Some (reqtype, bits) }
           else Some (0, bits))
        else if bits AND MACH_PORT_TYPE_SEND_RIGHTS \<noteq> 0 then do {
          p \<leftarrow> port_at k port;
          reqtype \<leftarrow> (if request \<noteq> IE_REQ_NONE then ipc_port_request_type p request else Some 0);
          (if ip_active p \<or> IP_TIMESTAMP_ORDER timestamp (ucast (ip_data p)) then Some (reqtype, bits)
           else
             let bits = (bits AND NOT IE_BITS_TYPE_MASK) OR MACH_PORT_TYPE_DEAD_NAME
             in Some (0, if reqtype \<noteq> 0 then bits + 1 else bits)) }
        else Some (0, bits));
     Some (name, type OR IE_BITS_TYPE bits) }"

fun mach_port_names_loop ::
    "natural_t \<Rightarrow> ipc_space \<Rightarrow> kern \<Rightarrow> nat list \<Rightarrow> (mach_port_name_t \<times> mach_port_type_t) list option" where
  "mach_port_names_loop timestamp space k [] = Some []"
| "mach_port_names_loop timestamp space k (index # is) =
     (let bits = ie_bits (ent space index) in
      if IE_BITS_TYPE bits \<noteq> MACH_PORT_TYPE_NONE then do {
        found \<leftarrow> mach_port_names_helper timestamp (ent space index) (MACH_PORT_MAKE index (IE_BITS_GEN bits)) k;
        rest \<leftarrow> mach_port_names_loop timestamp space k is;
        Some (found # rest) }
      else mach_port_names_loop timestamp space k is)"

text \<open>\<open>vm_ok\<close> says whether the kernel memory for a table of that size can be had.\<close>

definition mach_port_names ::
    "(nat \<Rightarrow> bool) \<Rightarrow> ipc_space option \<Rightarrow> kern \<Rightarrow> (kern_return + (mach_port_name_t \<times> mach_port_type_t) list) syscall" where
  "mach_port_names vm_ok space k = with_space (Inl KERN_INVALID_TASK) space k (\<lambda>space.
     if \<not> is_active space then Some (Inl KERN_INVALID_TASK, space, k)
     else if \<not> vm_ok (is_table_size space) then Some (Inl KERN_RESOURCE_SHORTAGE, space, k)
     else do {
       let (timestamp, k) = ipc_port_timestamp k;
       names \<leftarrow> mach_port_names_loop timestamp space k [0..<is_table_size space];
       Some (Inr names, space, k) })"

definition mach_port_type ::
    "ipc_space option \<Rightarrow> mach_port_name_t \<Rightarrow> kern \<Rightarrow> (kern_return + mach_port_type_t) syscall" where
  "mach_port_type space name k = with_space (Inl KERN_INVALID_TASK) space k (\<lambda>space.
     if name = MACH_PORT_NULL then Some (Inl KERN_INVALID_NAME, space, k)
     else if name = MACH_PORT_DEAD then Some (Inr MACH_PORT_TYPE_DEAD_NAME, space, k)
     else case ipc_right_lookup_write space name of
            Inl kr \<Rightarrow> Some (Inl kr, space, k)
          | Inr entry \<Rightarrow> do {
              (type, urefs, space, k) \<leftarrow> ipc_right_info space name entry k;
              Some (Inr (type AND NOT (MACH_PORT_TYPE_SPREQUEST OR MACH_PORT_TYPE_SPREQUEST_DELAYED)),
                    space, k) })"

definition mach_port_rename :: "ipc_space option \<Rightarrow> mach_port_name_t \<Rightarrow> mach_port_name_t \<Rightarrow> kern \<Rightarrow> kern_return syscall" where
  "mach_port_rename space oname nname k = Some (KERN_NOT_SUPPORTED, space, k)"

subsection \<open>Allocation\<close>

record mach_port_qos =
  qos_name :: bool
  qos_prealloc :: bool
  qos_len :: natural_t

definition qos_template :: mach_port_qos where
  "qos_template = \<lparr>qos_name = False, qos_prealloc = False, qos_len = 0\<rparr>"

abbreviation (input) MACH_MSG_SIZE_MAX :: natural_t where
  "MACH_MSG_SIZE_MAX \<equiv> 0xffffffff"

abbreviation (input) MAX_TRAILER_SIZE :: natural_t where
  "MAX_TRAILER_SIZE \<equiv> 68"

definition IP_SET_PREALLOC :: "addr \<Rightarrow> ipc_port \<Rightarrow> ipc_port" where
  "IP_SET_PREALLOC kmsg port =
     port\<lparr>ip_bits := ip_bits port OR IP_BIT_PREALLOC, ip_premsg := kmsg\<rparr>"

definition ipc_kmsg_set_prealloc :: "addr \<Rightarrow> addr \<Rightarrow> kern \<Rightarrow> kern option" where
  "ipc_kmsg_set_prealloc kmsg port k = upd_port port (IP_SET_PREALLOC kmsg) k"

text \<open>The case of a receive right. \<open>kmsg\<close> is the preallocated message, if one was asked for.\<close>

definition mach_port_allocate_receive ::
    "nat list \<Rightarrow> (nat \<Rightarrow> bool) \<Rightarrow> addr \<Rightarrow> ipc_space \<Rightarrow> mach_port_qos \<Rightarrow> mach_port_name_t \<Rightarrow> addr \<Rightarrow> kern
       \<Rightarrow> ((kern_return + mach_port_name_t) \<times> ipc_space \<times> kern) option" where
  "mach_port_allocate_receive sizes kalloc_ok fresh space qos name kmsg k = do {
     (r, space, k) \<leftarrow>
       (if qos_name qos then do {
          (r, space, k) \<leftarrow> ipc_port_alloc_name sizes kalloc_ok fresh space name k;
          Some (map_sum id (\<lambda>port. (name, port)) r, space, k) }
        else ipc_port_alloc sizes kalloc_ok fresh space k);
     (case r of
        Inr (name, port) \<Rightarrow> do {
          k \<leftarrow> (if kmsg \<noteq> IKM_NULL then ipc_kmsg_set_prealloc kmsg port k else Some k);
          Some (Inr name, space, k) }
      | Inl kr \<Rightarrow> Some (Inl kr, space, if kmsg \<noteq> IKM_NULL then emit (Kmsg_free kmsg) k else k)) }"

definition mach_port_allocate_port_set ::
    "nat list \<Rightarrow> (nat \<Rightarrow> bool) \<Rightarrow> addr \<Rightarrow> ipc_space \<Rightarrow> mach_port_qos \<Rightarrow> mach_port_name_t \<Rightarrow> kern
       \<Rightarrow> ((kern_return + mach_port_name_t) \<times> ipc_space \<times> kern) option" where
  "mach_port_allocate_port_set sizes kalloc_ok fresh space qos name k =
     (if qos_name qos then do {
        (r, space, k) \<leftarrow> ipc_pset_alloc_name sizes kalloc_ok fresh space name k;
        Some (map_sum id (\<lambda>_. name) r, space, k) }
      else do {
        (r, space, k) \<leftarrow> ipc_pset_alloc sizes kalloc_ok fresh space k;
        Some (map_sum id fst r, space, k) })"

definition mach_port_allocate_right ::
    "nat list \<Rightarrow> (nat \<Rightarrow> bool) \<Rightarrow> addr \<Rightarrow> ipc_space \<Rightarrow> mach_port_right_t \<Rightarrow> mach_port_qos \<Rightarrow> mach_port_name_t \<Rightarrow> addr
       \<Rightarrow> kern \<Rightarrow> ((kern_return + mach_port_name_t) \<times> ipc_space \<times> kern) option" where
  "mach_port_allocate_right sizes kalloc_ok fresh space right qos name kmsg k =
     (if right = MACH_PORT_RIGHT_RECEIVE
      then mach_port_allocate_receive sizes kalloc_ok fresh space qos name kmsg k
      else if right = MACH_PORT_RIGHT_PORT_SET
      then mach_port_allocate_port_set sizes kalloc_ok fresh space qos name k
      else if right = MACH_PORT_RIGHT_DEAD_NAME then do {
        (r, space) \<leftarrow> ipc_object_alloc_dead sizes kalloc_ok space;
        Some (r, space, k) }
      else Some (Inl KERN_INVALID_VALUE, space, k))"

definition mach_port_allocate_full ::
    "nat list \<Rightarrow> (nat \<Rightarrow> bool) \<Rightarrow> addr \<Rightarrow> (natural_t \<Rightarrow> addr) \<Rightarrow> ipc_space option \<Rightarrow> mach_port_right_t \<Rightarrow> addr
       \<Rightarrow> mach_port_qos \<Rightarrow> mach_port_name_t \<Rightarrow> kern \<Rightarrow> (kern_return + mach_port_name_t) syscall" where
  "mach_port_allocate_full sizes kalloc_ok fresh ipc_kmsg_prealloc space right proto qos name k =
     with_space (Inl KERN_INVALID_TASK) space k (\<lambda>space.
       if proto \<noteq> 0 then Some (Inl KERN_INVALID_VALUE, space, k)
       else if qos_name qos \<and> \<not> MACH_PORT_VALID name then Some (Inl KERN_INVALID_VALUE, space, k)
       else if qos_prealloc qos then
         (if qos_len qos > MACH_MSG_SIZE_MAX - MAX_TRAILER_SIZE
          then Some (Inl KERN_RESOURCE_SHORTAGE, space, k)
          else
            let size = qos_len qos + MAX_TRAILER_SIZE in
            if right \<noteq> MACH_PORT_RIGHT_RECEIVE then Some (Inl KERN_INVALID_VALUE, space, k)
            else
              let kmsg = ipc_kmsg_prealloc size in
              if kmsg = IKM_NULL then Some (Inl KERN_RESOURCE_SHORTAGE, space, k)
              else mach_port_allocate_right sizes kalloc_ok fresh space right qos name kmsg k)
       else mach_port_allocate_right sizes kalloc_ok fresh space right qos name IKM_NULL k)"

definition mach_port_allocate_name ::
    "nat list \<Rightarrow> (nat \<Rightarrow> bool) \<Rightarrow> addr \<Rightarrow> (natural_t \<Rightarrow> addr) \<Rightarrow> ipc_space option \<Rightarrow> mach_port_right_t
       \<Rightarrow> mach_port_name_t \<Rightarrow> kern \<Rightarrow> kern_return syscall" where
  "mach_port_allocate_name sizes kalloc_ok fresh ipc_kmsg_prealloc space right name k =
     (let qos = qos_template\<lparr>qos_name := True\<rparr> in
      if \<not> MACH_PORT_VALID name then Some (KERN_INVALID_VALUE, space, k)
      else do {
        (r, space, k) \<leftarrow> mach_port_allocate_full sizes kalloc_ok fresh ipc_kmsg_prealloc space right 0 qos name k;
        Some (case r of Inl kr \<Rightarrow> kr | Inr _ \<Rightarrow> KERN_SUCCESS, space, k) })"

definition mach_port_allocate ::
    "nat list \<Rightarrow> (nat \<Rightarrow> bool) \<Rightarrow> addr \<Rightarrow> (natural_t \<Rightarrow> addr) \<Rightarrow> ipc_space option \<Rightarrow> mach_port_right_t
       \<Rightarrow> mach_port_name_t \<Rightarrow> kern \<Rightarrow> (kern_return + mach_port_name_t) syscall" where
  "mach_port_allocate sizes kalloc_ok fresh ipc_kmsg_prealloc space right name k =
     mach_port_allocate_full sizes kalloc_ok fresh ipc_kmsg_prealloc space right 0 qos_template name k"

definition mach_port_allocate_qos ::
    "nat list \<Rightarrow> (nat \<Rightarrow> bool) \<Rightarrow> addr \<Rightarrow> (natural_t \<Rightarrow> addr) \<Rightarrow> ipc_space option \<Rightarrow> mach_port_right_t
       \<Rightarrow> mach_port_qos \<Rightarrow> mach_port_name_t \<Rightarrow> kern \<Rightarrow> (kern_return + mach_port_name_t) syscall" where
  "mach_port_allocate_qos sizes kalloc_ok fresh ipc_kmsg_prealloc space right qos name k =
     (if qos_name qos then Some (Inl KERN_INVALID_ARGUMENT, space, k)
      else mach_port_allocate_full sizes kalloc_ok fresh ipc_kmsg_prealloc space right 0 qos name k)"


subsection \<open>References\<close>

abbreviation (input) MACH_PORT_RIGHT_LABELH :: mach_port_right_t where
  "MACH_PORT_RIGHT_LABELH \<equiv> 5"

definition mach_port_destroy :: "ipc_space option \<Rightarrow> mach_port_name_t \<Rightarrow> kern \<Rightarrow> kern_return syscall" where
  "mach_port_destroy space name k = with_space KERN_INVALID_TASK space k (\<lambda>space.
     if \<not> MACH_PORT_VALID name then Some (KERN_SUCCESS, space, k)
     else case ipc_right_lookup_write space name of
            Inl kr \<Rightarrow> Some (kr, space, k)
          | Inr entry \<Rightarrow> ipc_right_destroy space name entry True 0 k)"

definition mach_port_deallocate :: "ipc_space option \<Rightarrow> mach_port_name_t \<Rightarrow> kern \<Rightarrow> kern_return syscall" where
  "mach_port_deallocate space name k = with_space KERN_INVALID_TASK space k (\<lambda>space.
     if \<not> MACH_PORT_VALID name then Some (KERN_SUCCESS, space, k)
     else case ipc_right_lookup_write space name of
            Inl kr \<Rightarrow> Some (kr, space, k)
          | Inr entry \<Rightarrow> ipc_right_dealloc space name entry k)"

definition mach_port_get_refs ::
    "ipc_space option \<Rightarrow> mach_port_name_t \<Rightarrow> mach_port_right_t \<Rightarrow> kern \<Rightarrow> (kern_return + natural_t) syscall" where
  "mach_port_get_refs space name right k = with_space (Inl KERN_INVALID_TASK) space k (\<lambda>space.
     if right \<ge> MACH_PORT_RIGHT_NUMBER then Some (Inl KERN_INVALID_VALUE, space, k)
     else if \<not> MACH_PORT_VALID name then
       Some (if right = MACH_PORT_RIGHT_SEND \<or> right = MACH_PORT_RIGHT_SEND_ONCE
             then Inr 1 else Inl KERN_INVALID_NAME, space, k)
     else case ipc_right_lookup_write space name of
            Inl kr \<Rightarrow> Some (Inl kr, space, k)
          | Inr entry \<Rightarrow> do {
              (type, urefs, space, k) \<leftarrow> ipc_right_info space name entry k;
              (if type AND MACH_PORT_TYPE right \<noteq> 0 then
                 (if right \<in> {MACH_PORT_RIGHT_SEND_ONCE, MACH_PORT_RIGHT_PORT_SET, MACH_PORT_RIGHT_RECEIVE}
                  then Some (Inr 1, space, k)
                  else if right \<in> {MACH_PORT_RIGHT_DEAD_NAME, MACH_PORT_RIGHT_SEND}
                  then Some (Inr urefs, space, k)
                  else None)
               else Some (Inr 0, space, k)) })"

definition mach_port_mod_refs ::
    "ipc_space option \<Rightarrow> mach_port_name_t \<Rightarrow> mach_port_right_t \<Rightarrow> mach_port_delta_t \<Rightarrow> kern \<Rightarrow> kern_return syscall" where
  "mach_port_mod_refs space name right delta k = with_space KERN_INVALID_TASK space k (\<lambda>space.
     if right \<ge> MACH_PORT_RIGHT_NUMBER then Some (KERN_INVALID_VALUE, space, k)
     else if \<not> MACH_PORT_VALID name then
       Some (if right = MACH_PORT_RIGHT_SEND \<or> right = MACH_PORT_RIGHT_SEND_ONCE
             then KERN_SUCCESS else KERN_INVALID_NAME, space, k)
     else case ipc_right_lookup_write space name of
            Inl kr \<Rightarrow> Some (kr, space, k)
          | Inr entry \<Rightarrow> ipc_right_delta space name entry right delta k)"

subsection \<open>Fields of a port\<close>

definition ipc_port_set_mscount :: "natural_t \<Rightarrow> ipc_port \<Rightarrow> ipc_port" where
  "ipc_port_set_mscount mscount port = port\<lparr>ip_mscount := mscount\<rparr>"

definition mach_port_set_mscount ::
    "ipc_space option \<Rightarrow> mach_port_name_t \<Rightarrow> natural_t \<Rightarrow> kern \<Rightarrow> kern_return syscall" where
  "mach_port_set_mscount space name mscount k = with_space KERN_INVALID_TASK space k (\<lambda>space.
     if \<not> MACH_PORT_VALID name then Some (KERN_INVALID_RIGHT, space, k)
     else case ipc_port_translate_receive space name of
            Inl kr \<Rightarrow> Some (kr, space, k)
          | Inr port \<Rightarrow> do {
              k \<leftarrow> upd_port port (ipc_port_set_mscount mscount) k;
              Some (KERN_SUCCESS, space, k) })"

definition ipc_mqueue_set_seqno :: "natural_t \<Rightarrow> ipc_port \<Rightarrow> ipc_port" where
  "ipc_mqueue_set_seqno seqno mqueue = mqueue\<lparr>imq_seqno := seqno\<rparr>"

definition mach_port_set_seqno ::
    "ipc_space option \<Rightarrow> mach_port_name_t \<Rightarrow> natural_t \<Rightarrow> kern \<Rightarrow> kern_return syscall" where
  "mach_port_set_seqno space name seqno k = with_space KERN_INVALID_TASK space k (\<lambda>space.
     if \<not> MACH_PORT_VALID name then Some (KERN_INVALID_RIGHT, space, k)
     else case ipc_port_translate_receive space name of
            Inl kr \<Rightarrow> Some (kr, space, k)
          | Inr port \<Rightarrow> do {
              k \<leftarrow> upd_port port (ipc_mqueue_set_seqno seqno) k;
              Some (KERN_SUCCESS, space, k) })"

definition mach_port_get_context ::
    "ipc_space option \<Rightarrow> mach_port_name_t \<Rightarrow> kern \<Rightarrow> (kern_return + addr) syscall" where
  "mach_port_get_context space name k = with_space (Inl KERN_INVALID_TASK) space k (\<lambda>space.
     if \<not> MACH_PORT_VALID name then Some (Inl KERN_INVALID_RIGHT, space, k)
     else case ipc_port_translate_receive space name of
            Inl kr \<Rightarrow> Some (Inl kr, space, k)
          | Inr port \<Rightarrow> do {
              p \<leftarrow> port_at k port;
              Some (Inr (if ip_strict_guard p then 0 else ip_context p), space, k) })"

definition mach_port_set_context ::
    "ipc_space option \<Rightarrow> mach_port_name_t \<Rightarrow> addr \<Rightarrow> kern \<Rightarrow> kern_return syscall" where
  "mach_port_set_context space name context k = with_space KERN_INVALID_TASK space k (\<lambda>space.
     if \<not> MACH_PORT_VALID name then Some (KERN_INVALID_RIGHT, space, k)
     else case ipc_port_translate_receive space name of
            Inl kr \<Rightarrow> Some (kr, space, k)
          | Inr port \<Rightarrow> do {
              p \<leftarrow> port_at k port;
              (if ip_strict_guard p then
                 Some (KERN_INVALID_ARGUMENT, space,
                       mach_port_guard_exception name context (ip_context p) kGUARD_EXC_SET_CONTEXT k)
               else Some (KERN_SUCCESS, space, put_port port (p\<lparr>ip_context := context\<rparr>) k)) })"

subsection \<open>Notification requests\<close>

abbreviation (input) MACH_NOTIFY_SEND_POSSIBLE :: natural_t where
  "MACH_NOTIFY_SEND_POSSIBLE \<equiv> 66"

abbreviation (input) MACH_NOTIFY_PORT_DESTROYED :: natural_t where
  "MACH_NOTIFY_PORT_DESTROYED \<equiv> 69"

abbreviation (input) MACH_NOTIFY_NO_SENDERS :: natural_t where
  "MACH_NOTIFY_NO_SENDERS \<equiv> 70"

abbreviation (input) MACH_NOTIFY_DEAD_NAME :: natural_t where
  "MACH_NOTIFY_DEAD_NAME \<equiv> 72"

definition mach_port_request_notification ::
    "nat list \<Rightarrow> (nat \<Rightarrow> bool) \<Rightarrow> ipc_space option \<Rightarrow> mach_port_name_t \<Rightarrow> natural_t \<Rightarrow> natural_t \<Rightarrow> addr \<Rightarrow> kern
       \<Rightarrow> (kern_return + addr) syscall" where
  "mach_port_request_notification rsizes kalloc_ok space name msg_id sync notify k =
     with_space (Inl KERN_INVALID_TASK) space k (\<lambda>space.
       if notify = IP_DEAD then Some (Inl KERN_INVALID_CAPABILITY, space, k)
       else if msg_id = MACH_NOTIFY_PORT_DESTROYED then
         (if sync \<noteq> 0 then Some (Inl KERN_INVALID_VALUE, space, k)
          else if \<not> MACH_PORT_VALID name then Some (Inl KERN_INVALID_RIGHT, space, k)
          else case ipc_port_translate_receive space name of
                 Inl kr \<Rightarrow> Some (Inl kr, space, k)
               | Inr port \<Rightarrow> do {
                   (previous, k) \<leftarrow> ipc_port_pdrequest port notify k;
                   Some (Inr previous, space, k) })
       else if msg_id = MACH_NOTIFY_NO_SENDERS then
         (if \<not> MACH_PORT_VALID name then Some (Inl KERN_INVALID_RIGHT, space, k)
          else case ipc_port_translate_receive space name of
                 Inl kr \<Rightarrow> Some (Inl kr, space, k)
               | Inr port \<Rightarrow> do {
                   (previous, k) \<leftarrow> ipc_port_nsrequest port sync notify k;
                   Some (Inr previous, space, k) })
       else if msg_id = MACH_NOTIFY_SEND_POSSIBLE then
         (if \<not> MACH_PORT_VALID name then Some (Inl KERN_INVALID_ARGUMENT, space, k)
          else ipc_right_request_alloc rsizes kalloc_ok space name (sync \<noteq> 0) True notify k)
       else if msg_id = MACH_NOTIFY_DEAD_NAME then
         (if \<not> MACH_PORT_VALID name then Some (Inl KERN_INVALID_ARGUMENT, space, k)
          else ipc_right_request_alloc rsizes kalloc_ok space name (sync \<noteq> 0) False notify k)
       else Some (Inl KERN_INVALID_VALUE, space, k))"

subsection \<open>Moving rights in and out\<close>

definition MACH_MSG_TYPE_PORT_ANY :: "mach_msg_type_name \<Rightarrow> bool" where
  "MACH_MSG_TYPE_PORT_ANY x \<longleftrightarrow>
     x \<in> {MACH_MSG_TYPE_MOVE_RECEIVE, MACH_MSG_TYPE_MOVE_SEND, MACH_MSG_TYPE_MOVE_SEND_ONCE,
           MACH_MSG_TYPE_COPY_SEND, MACH_MSG_TYPE_MAKE_SEND, MACH_MSG_TYPE_MAKE_SEND_ONCE}"

definition MACH_MSG_TYPE_PORT_ANY_RIGHT :: "mach_msg_type_name \<Rightarrow> bool" where
  "MACH_MSG_TYPE_PORT_ANY_RIGHT x \<longleftrightarrow>
     x \<in> {MACH_MSG_TYPE_MOVE_RECEIVE, MACH_MSG_TYPE_MOVE_SEND, MACH_MSG_TYPE_MOVE_SEND_ONCE}"

definition mach_port_insert_right ::
    "nat list \<Rightarrow> (nat \<Rightarrow> bool) \<Rightarrow> ipc_space option \<Rightarrow> mach_port_name_t \<Rightarrow> addr \<Rightarrow> mach_msg_type_name \<Rightarrow> kern
       \<Rightarrow> kern_return syscall" where
  "mach_port_insert_right sizes kalloc_ok space name poly polyPoly k =
     with_space KERN_INVALID_TASK space k (\<lambda>space.
       if \<not> MACH_PORT_VALID name \<or> \<not> MACH_MSG_TYPE_PORT_ANY_RIGHT polyPoly
       then Some (KERN_INVALID_VALUE, space, k)
       else if \<not> IO_VALID poly then Some (KERN_INVALID_CAPABILITY, space, k)
       else ipc_object_copyout_name sizes kalloc_ok space poly polyPoly False name k)"

definition mach_port_extract_right ::
    "ipc_space option \<Rightarrow> mach_port_name_t \<Rightarrow> mach_msg_type_name \<Rightarrow> kern
       \<Rightarrow> (kern_return + addr \<times> mach_msg_type_name) syscall" where
  "mach_port_extract_right space name msgt_name k = with_space (Inl KERN_INVALID_TASK) space k (\<lambda>space.
     if \<not> MACH_MSG_TYPE_PORT_ANY msgt_name then Some (Inl KERN_INVALID_VALUE, space, k)
     else if \<not> MACH_PORT_VALID name then Some (Inl KERN_INVALID_RIGHT, space, k)
     else do {
       (r, space, k) \<leftarrow> ipc_object_copyin space name msgt_name k;
       Some (map_sum id (\<lambda>poly. (poly, ipc_object_copyin_type msgt_name)) r, space, k) })"


subsection \<open>Attributes\<close>

record mach_port_status =
  mps_pset :: natural_t
  mps_seqno :: natural_t
  mps_mscount :: natural_t
  mps_qlimit :: natural_t
  mps_msgcount :: natural_t
  mps_sorights :: natural_t
  mps_srights :: bool
  mps_pdrequest :: bool
  mps_nsrequest :: bool
  mps_flags :: natural_t

abbreviation (input) MACH_PORT_STATUS_FLAG_TEMPOWNER :: natural_t where
  "MACH_PORT_STATUS_FLAG_TEMPOWNER \<equiv> 0x01"

abbreviation (input) MACH_PORT_STATUS_FLAG_GUARDED :: natural_t where
  "MACH_PORT_STATUS_FLAG_GUARDED \<equiv> 0x02"

abbreviation (input) MACH_PORT_STATUS_FLAG_STRICT_GUARD :: natural_t where
  "MACH_PORT_STATUS_FLAG_STRICT_GUARD \<equiv> 0x04"

abbreviation (input) MACH_PORT_STATUS_FLAG_IMP_DONATION :: natural_t where
  "MACH_PORT_STATUS_FLAG_IMP_DONATION \<equiv> 0x08"

abbreviation (input) MACH_PORT_STATUS_FLAG_TASKPTR :: natural_t where
  "MACH_PORT_STATUS_FLAG_TASKPTR \<equiv> 0x20"

text \<open>The task pointer \<open>ip_imp_task\<close> shares its union with \<open>ip_kobject\<close>.\<close>

definition mach_port_get_status_helper :: "ipc_port \<Rightarrow> mach_port_status" where
  "mach_port_get_status_helper port =
     \<lparr>mps_pset = (if ip_in_pset port \<noteq> 0 then 1 else 0),
      mps_seqno = imq_seqno port,
      mps_mscount = ip_mscount port,
      mps_qlimit = ucast (imq_qlimit port),
      mps_msgcount = ucast (imq_msgcount port),
      mps_sorights = ip_sorights port,
      mps_srights = (ip_srights port > 0),
      mps_pdrequest = (ip_pdrequest port \<noteq> IP_NULL),
      mps_nsrequest = (ip_nsrequest port \<noteq> IP_NULL),
      mps_flags =
        (if ip_impdonation port then
           MACH_PORT_STATUS_FLAG_IMP_DONATION OR
           (if ip_tempowner port then
              MACH_PORT_STATUS_FLAG_TEMPOWNER OR
              (if ip_kobject port \<noteq> 0 then MACH_PORT_STATUS_FLAG_TASKPTR else 0)
            else 0)
         else 0) OR
        (if ip_guarded port then
           MACH_PORT_STATUS_FLAG_GUARDED OR
           (if ip_strict_guard port then MACH_PORT_STATUS_FLAG_STRICT_GUARD else 0)
         else 0)\<rparr>"

abbreviation (input) MACH_PORT_LIMITS_INFO :: natural_t where
  "MACH_PORT_LIMITS_INFO \<equiv> 1"

abbreviation (input) MACH_PORT_RECEIVE_STATUS :: natural_t where
  "MACH_PORT_RECEIVE_STATUS \<equiv> 2"

abbreviation (input) MACH_PORT_DNREQUESTS_SIZE :: natural_t where
  "MACH_PORT_DNREQUESTS_SIZE \<equiv> 3"

abbreviation (input) MACH_PORT_TEMPOWNER :: natural_t where
  "MACH_PORT_TEMPOWNER \<equiv> 4"

abbreviation (input) MACH_PORT_IMPORTANCE_RECEIVER :: natural_t where
  "MACH_PORT_IMPORTANCE_RECEIVER \<equiv> 5"

abbreviation (input) MACH_PORT_DENAP_RECEIVER :: natural_t where
  "MACH_PORT_DENAP_RECEIVER \<equiv> 6"

abbreviation (input) MACH_PORT_INFO_EXT :: natural_t where
  "MACH_PORT_INFO_EXT \<equiv> 7"

text \<open>What a call writes to the array \<open>info\<close>, by flavor; \<open>No_info\<close> if it writes nothing.\<close>

datatype mach_port_info =
    No_info
  | Limits_info natural_t
  | Receive_status mach_port_status
  | Dnrequests_size nat
  | Info_ext mach_port_status natural_t

text \<open>The sizes \<open>*_COUNT\<close> of the flavors, in words.\<close>

definition mach_port_get_attributes ::
    "nat list \<Rightarrow> ipc_space option \<Rightarrow> mach_port_name_t \<Rightarrow> natural_t \<Rightarrow> nat \<Rightarrow> kern
       \<Rightarrow> (kern_return + mach_port_info \<times> nat) syscall" where
  "mach_port_get_attributes rsizes space name flavor count k =
     with_space (Inl KERN_INVALID_TASK) space k (\<lambda>space.
       let receive = (\<lambda>get. case ipc_port_translate_receive space name of
                              Inl kr \<Rightarrow> Some (Inl kr, space, k)
                            | Inr port \<Rightarrow> do {
                                p \<leftarrow> port_at k port;
                                info \<leftarrow> get p;
                                Some (Inr info, space, k) })
       in if flavor = MACH_PORT_LIMITS_INFO then
            (if count < 1 then Some (Inl KERN_FAILURE, space, k)
             else if \<not> MACH_PORT_VALID name then Some (Inr (No_info, 0), space, k)
             else receive (\<lambda>p. Some (Limits_info (ucast (imq_qlimit p)), 1)))
          else if flavor = MACH_PORT_RECEIVE_STATUS then
            (if count < 10 then Some (Inl KERN_FAILURE, space, k)
             else if \<not> MACH_PORT_VALID name then Some (Inl KERN_INVALID_RIGHT, space, k)
             else receive (\<lambda>p. Some (Receive_status (mach_port_get_status_helper p), 10)))
          else if flavor = MACH_PORT_DNREQUESTS_SIZE then
            (if count < 1 then Some (Inl KERN_FAILURE, space, k)
             else if \<not> MACH_PORT_VALID name then Some (Inr (Dnrequests_size 0, count), space, k)
             else receive (\<lambda>p. case ip_requests p of
                                 None \<Rightarrow> Some (Dnrequests_size 0, 1)
                               | Some table \<Rightarrow> do {
                                   size \<leftarrow> its_at rsizes (ipr_size table);
                                   Some (Dnrequests_size size, 1) }))
          else if flavor = MACH_PORT_INFO_EXT then
            (if count < 17 then Some (Inl KERN_FAILURE, space, k)
             else if \<not> MACH_PORT_VALID name then Some (Inl KERN_INVALID_RIGHT, space, k)
             else receive (\<lambda>p. Some (Info_ext (mach_port_get_status_helper p) (ucast (ip_impcount p)), 17)))
          else Some (Inl KERN_INVALID_ARGUMENT, space, k))"

abbreviation (input) ITS_SIZE_NONE :: natural_t where
  "ITS_SIZE_NONE \<equiv> 0xffffffff"

abbreviation (input) MACH_PORT_QLIMIT_MAX :: natural_t where
  "MACH_PORT_QLIMIT_MAX \<equiv> 1024"

text \<open>
  \<open>ipc_mqueue_set_qlimit\<close>: each round of the loop wakes one thread and gives it a slot of
  the queue, until the new slots or the waiting threads run out.
\<close>

fun ipc_mqueue_set_qlimit_loop :: "nat \<Rightarrow> nat \<Rightarrow> addr \<Rightarrow> ipc_port \<Rightarrow> kern \<Rightarrow> ipc_port \<times> kern" where
  "ipc_mqueue_set_qlimit_loop 0 waiters port p k = (p, k)"
| "ipc_mqueue_set_qlimit_loop (Suc n) 0 port p k = (p\<lparr>imq_fullwaiters := False\<rparr>, k)"
| "ipc_mqueue_set_qlimit_loop (Suc n) (Suc waiters) port p k =
     ipc_mqueue_set_qlimit_loop n waiters port (p\<lparr>imq_msgcount := imq_msgcount p + 1\<rparr>) (emit (Sender_awakened port) k)"

definition ipc_mqueue_set_qlimit :: "nat \<Rightarrow> addr \<Rightarrow> natural_t \<Rightarrow> kern \<Rightarrow> kern option" where
  "ipc_mqueue_set_qlimit waiters port qlimit k = do {
     p \<leftarrow> port_at k port;
     let (p, k) = (if qlimit > ucast (imq_qlimit p)
                   then ipc_mqueue_set_qlimit_loop (unat (qlimit - ucast (imq_qlimit p))) waiters port p k
                   else (p, k));
     Some (put_port port (p\<lparr>imq_qlimit := ucast qlimit\<rparr>) k) }"

definition ip_kotype :: "ipc_port \<Rightarrow> natural_t" where
  "ip_kotype port = ip_bits port AND 0x00000fff"

definition is_ipc_kobject :: "natural_t \<Rightarrow> bool" where
  "is_ipc_kobject ikot \<longleftrightarrow> ikot \<noteq> 0"

text \<open>The case \<open>MACH_PORT_TEMPOWNER\<close>, in the configuration without importance inheritance.\<close>

definition mach_port_set_tempowner :: "addr \<Rightarrow> kern \<Rightarrow> (kern_return \<times> kern) option" where
  "mach_port_set_tempowner port k = do {
     p \<leftarrow> port_at k port;
     (if is_ipc_kobject (ip_kotype p) then Some (KERN_INVALID_ARGUMENT, k)
      else
        let release_imp_task = (if ip_tempowner p then ip_kobject p else 0);
            p = (if ip_tempowner p then p\<lparr>ip_kobject := 0\<rparr> else p);
            k = put_port port (p\<lparr>ip_impdonation := True, ip_tempowner := True\<rparr>) k
        in Some (KERN_SUCCESS,
                 if release_imp_task \<noteq> 0 then emit (Importance_task_release release_imp_task) k else k)) }"

text \<open>\<open>info\<close> is the array of \<open>count\<close> words that the caller passes.\<close>

definition mach_port_set_attributes ::
    "nat list \<Rightarrow> (nat \<Rightarrow> bool) \<Rightarrow> nat \<Rightarrow> ipc_space option \<Rightarrow> mach_port_name_t \<Rightarrow> natural_t \<Rightarrow> natural_t list \<Rightarrow> kern
       \<Rightarrow> kern_return syscall" where
  "mach_port_set_attributes rsizes kalloc_ok waiters space name flavor info k =
     with_space KERN_INVALID_TASK space k (\<lambda>space.
       let count = length info;
           receive = (\<lambda>change. if \<not> MACH_PORT_VALID name then Some (KERN_INVALID_RIGHT, space, k)
                       else case ipc_port_translate_receive space name of
                              Inl kr \<Rightarrow> Some (kr, space, k)
                            | Inr port \<Rightarrow> do {
                                (kr, k) \<leftarrow> change port;
                                Some (kr, space, k) })
       in if flavor = MACH_PORT_LIMITS_INFO then
            (if count < 1 then Some (KERN_FAILURE, space, k)
             else if info ! 0 > MACH_PORT_QLIMIT_MAX then Some (KERN_INVALID_VALUE, space, k)
             else receive (\<lambda>port. do {
               k \<leftarrow> ipc_mqueue_set_qlimit waiters port (info ! 0) k;
               Some (KERN_SUCCESS, k) }))
          else if flavor = MACH_PORT_DNREQUESTS_SIZE then
            (if count < 1 then Some (KERN_FAILURE, space, k)
             else receive (\<lambda>port. ipc_port_request_grow rsizes kalloc_ok port
                             (if info ! 0 = ITS_SIZE_NONE then None else Some (unat (info ! 0))) k))
          else if flavor = MACH_PORT_TEMPOWNER then
            receive (\<lambda>port. mach_port_set_tempowner port k)
          else Some (KERN_INVALID_ARGUMENT, space, k))"


text \<open>\<open>task_set_port_space\<close>: \<open>table_entries\<close> is converted to the unsigned type of table sizes.\<close>

definition task_set_port_space ::
    "nat list \<Rightarrow> (nat \<Rightarrow> bool) \<Rightarrow> ipc_space \<Rightarrow> integer_t \<Rightarrow> (kern_return \<times> ipc_space) option" where
  "task_set_port_space sizes kalloc_ok space table_entries =
     (if \<not> is_active space then Some (KERN_INVALID_TASK, space)
      else ipc_entry_grow_table sizes kalloc_ok space
             (if table_entries = ITS_SIZE_NONE then None else Some (unat table_entries)))"

subsection \<open>Guards\<close>

definition mach_port_guard_locked :: "ipc_port \<Rightarrow> addr \<Rightarrow> bool \<Rightarrow> kern_return \<times> ipc_port" where
  "mach_port_guard_locked port guard strict =
     (if ip_context port \<noteq> 0 then (KERN_INVALID_ARGUMENT, port)
      else (KERN_SUCCESS, port\<lparr>ip_context := guard, ip_guarded := True, ip_strict_guard := strict\<rparr>))"

definition mach_port_unguard_locked ::
    "addr \<Rightarrow> mach_port_name_t \<Rightarrow> addr \<Rightarrow> kern \<Rightarrow> (kern_return \<times> kern) option" where
  "mach_port_unguard_locked port name guard k = do {
     p \<leftarrow> port_at k port;
     (if \<not> ip_guarded p then
        Some (KERN_INVALID_ARGUMENT, mach_port_guard_exception name guard 0 kGUARD_EXC_UNGUARDED k)
      else if ip_context p \<noteq> guard then
        Some (KERN_INVALID_ARGUMENT,
              mach_port_guard_exception name guard (ip_context p) kGUARD_EXC_INCORRECT_GUARD k)
      else Some (KERN_SUCCESS,
             put_port port (p\<lparr>ip_context := 0, ip_guarded := False, ip_strict_guard := False\<rparr>) k)) }"

definition mach_port_guard ::
    "ipc_space option \<Rightarrow> mach_port_name_t \<Rightarrow> addr \<Rightarrow> bool \<Rightarrow> kern \<Rightarrow> kern_return syscall" where
  "mach_port_guard space name guard strict k = with_space KERN_INVALID_TASK space k (\<lambda>space.
     if \<not> MACH_PORT_VALID name then Some (KERN_INVALID_NAME, space, k)
     else case ipc_port_translate_receive space name of
            Inl kr \<Rightarrow> Some (kr, space, k)
          | Inr port \<Rightarrow> do {
              p \<leftarrow> port_at k port;
              let (kr, p) = mach_port_guard_locked p guard strict;
              Some (kr, space, put_port port p k) })"

definition mach_port_unguard ::
    "ipc_space option \<Rightarrow> mach_port_name_t \<Rightarrow> addr \<Rightarrow> kern \<Rightarrow> kern_return syscall" where
  "mach_port_unguard space name guard k = with_space KERN_INVALID_TASK space k (\<lambda>space.
     if \<not> MACH_PORT_VALID name then Some (KERN_INVALID_NAME, space, k)
     else case ipc_port_translate_receive space name of
            Inl kr \<Rightarrow> Some (kr, space, k)
          | Inr port \<Rightarrow> do {
              (kr, k) \<leftarrow> mach_port_unguard_locked port name guard k;
              Some (kr, space, k) })"

subsection \<open>Construction and destruction\<close>

definition mach_port_destruct ::
    "ipc_space option \<Rightarrow> mach_port_name_t \<Rightarrow> mach_port_delta_t \<Rightarrow> addr \<Rightarrow> kern \<Rightarrow> kern_return syscall" where
  "mach_port_destruct space name srdelta guard k = with_space KERN_INVALID_TASK space k (\<lambda>space.
     if \<not> MACH_PORT_VALID name then Some (KERN_INVALID_NAME, space, k)
     else case ipc_right_lookup_write space name of
            Inl kr \<Rightarrow> Some (kr, space, k)
          | Inr entry \<Rightarrow> ipc_right_destruct space name entry srdelta guard k)"

record mach_port_options =
  mpo_flags :: natural_t
  mpl_qlimit :: natural_t

abbreviation (input) MPO_CONTEXT_AS_GUARD :: natural_t where
  "MPO_CONTEXT_AS_GUARD \<equiv> 0x01"

abbreviation (input) MPO_QLIMIT :: natural_t where
  "MPO_QLIMIT \<equiv> 0x02"

abbreviation (input) MPO_TEMPOWNER :: natural_t where
  "MPO_TEMPOWNER \<equiv> 0x04"

abbreviation (input) MPO_IMPORTANCE_RECEIVER :: natural_t where
  "MPO_IMPORTANCE_RECEIVER \<equiv> 0x08"

abbreviation (input) MPO_INSERT_SEND_RIGHT :: natural_t where
  "MPO_INSERT_SEND_RIGHT \<equiv> 0x10"

abbreviation (input) MPO_STRICT :: natural_t where
  "MPO_STRICT \<equiv> 0x20"

abbreviation (input) MPO_DENAP_RECEIVER :: natural_t where
  "MPO_DENAP_RECEIVER \<equiv> 0x40"

text \<open>
  One step of \<open>mach_port_construct\<close>: if the flag is set, the call is made; a failure goes to
  the label \<open>cleanup\<close>, which ends the sequence.
\<close>

definition construct_step ::
    "bool \<Rightarrow> (ipc_space option \<Rightarrow> kern \<Rightarrow> kern_return syscall) \<Rightarrow> kern_return syscall \<Rightarrow> kern_return syscall" where
  "construct_step flag call state = do {
     (kr, space, k) \<leftarrow> state;
     (if kr = KERN_SUCCESS \<and> flag then call space k else Some (kr, space, k)) }"

definition construct_insert_send ::
    "nat list \<Rightarrow> (nat \<Rightarrow> bool) \<Rightarrow> mach_port_name_t \<Rightarrow> ipc_space option \<Rightarrow> kern \<Rightarrow> kern_return syscall" where
  "construct_insert_send sizes kalloc_ok name space k = do {
     (r, space, k) \<leftarrow> with_space (Inl KERN_INVALID_TASK) space k
                       (\<lambda>space. ipc_object_copyin space name MACH_MSG_TYPE_MAKE_SEND k);
     (case r of
        Inl kr \<Rightarrow> Some (kr, space, k)
      | Inr port \<Rightarrow> mach_port_insert_right sizes kalloc_ok space name port MACH_MSG_TYPE_PORT_SEND k) }"

definition mach_port_construct_options ::
    "nat list \<Rightarrow> (nat \<Rightarrow> bool) \<Rightarrow> nat list \<Rightarrow> (nat \<Rightarrow> bool) \<Rightarrow> mach_port_options \<Rightarrow> mach_port_name_t
       \<Rightarrow> ipc_space option \<Rightarrow> kern \<Rightarrow> kern_return syscall" where
  "mach_port_construct_options sizes kalloc_ok rsizes ralloc_ok options name space k =
     (let set_attributes = (\<lambda>flavor info space k.
            mach_port_set_attributes rsizes ralloc_ok 0 space name flavor info k);
          flags = mpo_flags options
      in construct_step (flags AND MPO_INSERT_SEND_RIGHT \<noteq> 0) (construct_insert_send sizes kalloc_ok name)
          (construct_step (flags AND MPO_DENAP_RECEIVER \<noteq> 0) (set_attributes MACH_PORT_DENAP_RECEIVER [])
            (construct_step (flags AND MPO_IMPORTANCE_RECEIVER \<noteq> 0) (set_attributes MACH_PORT_IMPORTANCE_RECEIVER [])
              (construct_step (flags AND MPO_TEMPOWNER \<noteq> 0) (set_attributes MACH_PORT_TEMPOWNER [])
                (construct_step (flags AND MPO_QLIMIT \<noteq> 0) (set_attributes MACH_PORT_LIMITS_INFO [mpl_qlimit options])
                  (Some (KERN_SUCCESS, space, k)))))))"

definition mach_port_construct ::
    "nat list \<Rightarrow> (nat \<Rightarrow> bool) \<Rightarrow> nat list \<Rightarrow> (nat \<Rightarrow> bool) \<Rightarrow> addr \<Rightarrow> ipc_space option \<Rightarrow> mach_port_options \<Rightarrow> addr \<Rightarrow> kern
       \<Rightarrow> (kern_return + mach_port_name_t) syscall" where
  "mach_port_construct sizes kalloc_ok rsizes ralloc_ok fresh space options context k = do {
     (r, space, k) \<leftarrow> with_space (Inl KERN_INVALID_TASK) space k
                       (\<lambda>space. ipc_port_alloc sizes kalloc_ok fresh space k);
     (case r of
        Inl kr \<Rightarrow> Some (Inl kr, space, k)
      | Inr (name, port) \<Rightarrow> do {
          p \<leftarrow> port_at k port;
          let p = (if mpo_flags options AND MPO_CONTEXT_AS_GUARD \<noteq> 0
                   then snd (mach_port_guard_locked p context (mpo_flags options AND MPO_STRICT \<noteq> 0))
                   else p\<lparr>ip_context := context\<rparr>);
          let k = put_port port p k;
          (kr, space, k) \<leftarrow> mach_port_construct_options sizes kalloc_ok rsizes ralloc_ok options name space k;
          (if kr = KERN_SUCCESS then Some (Inr name, space, k)
           else do {
             (_, space, k) \<leftarrow> mach_port_destruct space name 0 context k;
             Some (Inl kr, space, k) }) }) }"

end
