(* ===== verification/Ipc_Example.thy ===== *)
theory Ipc_Example
  imports Ipc_Ledger
begin

text \<open>
  A concrete space with one right of every kind, its objects and its ledger, on which the
  theorems of the other theories are applied.

  Slot 1 has a send and the receive right of the port at \<open>0x2000\<close>, slot 2 a send right and slot
  3 a send-once right of the port at \<open>0x3000\<close> whose receiver is another space, slot 4 a dead
  name, slot 5 the port set at \<open>0x4000\<close>, slot 7 a send right of the dead port at \<open>0x5000\<close>, and
  slot 8 the receive right of the guarded port at \<open>0x6000\<close>; slot 6 is free. Outside the table
  there are a send right of the first port, and a send right and the receive right of the second.
\<close>

unbundle bit_operations_syntax

definition ex_entry :: "addr \<Rightarrow> ipc_entry_bits_t \<Rightarrow> nat \<Rightarrow> nat \<Rightarrow> ipc_entry" where
  "ex_entry obj bits index request =
     \<lparr>ie_object = obj, ie_bits = bits, ie_index = index, ie_request = request\<rparr>"

definition ex_table :: ipc_table where
  "ex_table =
    [ex_entry 0 0xff000000 0 6, ex_entry 0x2000 0x04030002 0 0, ex_entry 0x3000 0x04010001 0 0,
     ex_entry 0x3000 0x04040001 2 0, ex_entry 0 0x04100003 0 0, ex_entry 0x4000 0x04080000 7 0,
     ex_entry 0 0x04000000 0 0, ex_entry 0x5000 0x04010001 0 0, ex_entry 0x6000 0x04020000 0 0]"

definition ex_space :: ipc_space where
  "ex_space = (ipc_space_initial 0x1000 9 1)\<lparr>is_table := ex_table, is_table_free := 1\<rparr>"

definition ex_port :: "natural_t \<Rightarrow> natural_t \<Rightarrow> addr \<Rightarrow> mach_port_name_t \<Rightarrow> natural_t \<Rightarrow> natural_t \<Rightarrow> ipc_port" where
  "ex_port refs bits receiver name srights sorights =
     blank_port\<lparr>ip_references := refs, ip_bits := bits, ip_data := receiver, ip_receiver_name := name,
       ip_srights := srights, ip_sorights := sorights\<rparr>"

definition ex_kern :: kern where
  "ex_kern = \<lparr>k_objects = Map.empty(
       0x2000 \<mapsto> Io_Port (ex_port 2 0x80000000 0x1000 0x104 2 0),
       0x3000 \<mapsto> Io_Port (ex_port 4 0x80000000 0x9000 0x77 2 1),
       0x4000 \<mapsto> Io_Pset \<lparr>ips_references = 1, ips_bits = 0x80010000, ips_local_name = 0x504\<rparr>,
       0x5000 \<mapsto> Io_Port (ex_port 1 0 0 0 0 0),
       0x6000 \<mapsto> Io_Port ((ex_port 1 0x80000000 0x1000 0x804 0 0)\<lparr>ip_guarded := True, ip_context := 0x77\<rparr>)),
     k_timestamp = 0, k_events = [], k_delayed = [], k_space_kernel = 0xf000, k_prealloc_inuse = \<lambda>_. 0\<rparr>"

definition ex_hold :: holdings where
  "ex_hold = \<lparr>h_refs = (\<lambda>_. 0)(0x2000 := 1, 0x3000 := 2), h_sends = (\<lambda>_. 0)(0x2000 := 1, 0x3000 := 1),
     h_sonces = \<lambda>_. 0, h_recvs = {}\<rparr>"

lemmas ex_defs = ex_space_def ex_table_def ex_entry_def ipc_space_initial_def

lemma less9: "(i :: nat) < 9 \<longleftrightarrow> i \<in> {0, 1, 2, 3, 4, 5, 6, 7, 8}"
  by auto

lemma ex_type:
  "map (\<lambda>e. IE_BITS_TYPE (ie_bits e)) ex_table =
     [0, MACH_PORT_TYPE_SEND_RECEIVE, MACH_PORT_TYPE_SEND, MACH_PORT_TYPE_SEND_ONCE, MACH_PORT_TYPE_DEAD_NAME,
      MACH_PORT_TYPE_PORT_SET, 0, MACH_PORT_TYPE_SEND, MACH_PORT_TYPE_RECEIVE]"
  by (simp add: ex_table_def ex_entry_def IE_BITS_TYPE_def)

lemma ex_length: "length ex_table = 9" "is_table ex_space = ex_table" "is_self ex_space = 0x1000"
  by (simp_all add: ex_defs)

lemma ex_slots: "send_slots ex_table = {2, 7}" "naming_slots ex_table = {1, 2, 7, 8}"
  unfolding send_slots_def naming_slots_def ex_length less9
  by (auto simp: ex_table_def ex_entry_def IE_BITS_TYPE_def)

lemma ex_hash: "hash_wf ex_table {2, 7}"
proof -
  have ix: "map ie_index ex_table = [0, 0, 0, 2, 0, 7, 0, 0, 0]" by (simp add: ex_table_def ex_entry_def)
  then have ix': "ie_index (ex_table ! h) = (if h = 3 then 2 else if h = 5 then 7 else 0)" if "h < 9" for h
    using that unfolding less9 by (auto simp: ex_table_def ex_entry_def)
  have home: "IH_TABLE_HASH (ie_object (ex_table ! 2)) 9 = 3" "IH_TABLE_HASH (ie_object (ex_table ! 7)) 9 = 5"
    by (simp_all add: ex_table_def ex_entry_def IH_TABLE_HASH_def)
  have c: "clump ex_table h h" for h by (simp add: clump_def cdist_def)
  have 1: "ie_index (ex_table ! h) \<in> {2, 7}" if "h < 9" "ie_index (ex_table ! h) \<noteq> 0" for h
    using that ix' [OF that(1)] by (auto split: if_splits)
  have 2: "h = k" if "h < 9" "k < 9" "ie_index (ex_table ! h) \<noteq> 0" "ie_index (ex_table ! h) = ie_index (ex_table ! k)"
    for h k using that(3,4) ix' [OF that(1)] ix' [OF that(2)] by (simp split: if_splits)
  have 3: "\<exists>h < 9. ie_index (ex_table ! h) = i \<and> clump ex_table (IH_TABLE_HASH (ie_object (ex_table ! i)) 9) h"
    if "i \<in> {2, 7}" for i
    using that home c [of 3] c [of 5] ix' [of 3] ix' [of 5]
    by (intro exI [of _ "if i = 2 then 3 else 5"]) (elim insertE; simp)
  show ?thesis
    unfolding hash_wf_def ex_length using 1 2 3 by simp
qed

lemma ex_valid: "IO_VALID 0x2000" "IO_VALID 0x3000" "IO_VALID 0x4000" "IO_VALID 0x5000" "IO_VALID 0x6000"
  by (simp_all add: IO_VALID_def IO_NULL_def IO_DEAD_def)

lemma ex_used: "used_entry (ex_table ! 1)" "used_entry (ex_table ! 2)" "used_entry (ex_table ! 3)"
    "used_entry (ex_table ! 4)" "used_entry (ex_table ! 5)" "used_entry (ex_table ! 7)" "used_entry (ex_table ! 8)"
  using ex_valid by (simp_all add: ex_table_def ex_entry_def used_entry_def IE_BITS_TYPE_def IE_BITS_UREFS_def IO_NULL_def)

lemma ex_wf: "space_wf ex_space [6] {}"
proof -
  have free: "free_entry (ex_table ! 0)" "free_entry (ex_table ! 6)"
    by (simp_all add: ex_table_def ex_entry_def free_entry_def IE_BITS_GEN_def IO_NULL_def)
  have "freelist ex_table [6]"
    using free unfolding freelist_def by (simp add: ex_table_def ex_entry_def)
  moreover have "slots_wf ex_table [6] {}"
    using free ex_used unfolding slots_wf_def ex_length less9 by auto
  moreover have "inj_on (\<lambda>i. ie_object (ex_table ! i)) (naming_slots ex_table)"
    unfolding ex_slots by (simp add: ex_table_def ex_entry_def)
  ultimately have "table_wf ex_table [6] {}"
    using ex_hash unfolding table_wf_def table_base_def ex_slots ex_length by simp
  then show ?thesis by (simp add: space_wf_def ex_length) (simp add: ex_space_def)
qed


lemma ex_active: "io_active_bits 0x80000000" "\<not> io_active_bits 0" "io_otype_bits 0x80000000 = IOT_PORT"
    "io_otype_bits 0 = IOT_PORT" "io_otype_bits 0x80010000 = IOT_PORT_SET"
  by (simp_all add: io_active_bits_def io_otype_bits_def)

lemma ex_port_at:
  "port_at ex_kern 0x2000 = Some (ex_port 2 0x80000000 0x1000 0x104 2 0)"
  "port_at ex_kern 0x3000 = Some (ex_port 4 0x80000000 0x9000 0x77 2 1)"
  "port_at ex_kern 0x5000 = Some (ex_port 1 0 0 0 0 0)"
  "port_at ex_kern 0x6000 =
     Some ((ex_port 1 0x80000000 0x1000 0x804 0 0)\<lparr>ip_guarded := True, ip_context := 0x77\<rparr>)"
  "pset_at ex_kern 0x4000 = Some \<lparr>ips_references = 1, ips_bits = 0x80010000, ips_local_name = 0x504\<rparr>"
  by (simp_all add: ex_kern_def port_at_def pset_at_def)

lemma ex_port_fields [simp]:
  "ip_references (ex_port r b d n s q) = r" "ip_bits (ex_port r b d n s q) = b" "ip_data (ex_port r b d n s q) = d"
  "ip_receiver_name (ex_port r b d n s q) = n" "ip_srights (ex_port r b d n s q) = s"
  "ip_sorights (ex_port r b d n s q) = q" "ip_requests (ex_port r b d n s q) = None"
  "ip_guarded (ex_port r b d n s q) = False" "ip_pdrequest (ex_port r b d n s q) = IP_NULL"
  "ip_nsrequest (ex_port r b d n s q) = IP_NULL"
  by (simp_all add: ex_port_def blank_port_def IO_NULL_def)

lemma ex_slot_ok: "i < 9 \<Longrightarrow> slot_ok 0x1000 ex_kern i (ex_table ! i)"
  unfolding less9 slot_ok_def
  by (elim insertE; simp add: ex_table_def ex_entry_def IE_BITS_TYPE_def IE_BITS_GEN_def ex_port_at
      req_ok_def ex_active MACH_PORT_MAKE_def)

lemma ex_rights:
  assumes "a \<noteq> 0"
  shows "refs_in ex_table a = of_bool (a = 0x2000) + 2 * of_bool (a = 0x3000) + of_bool (a = 0x4000)
     + of_bool (a = 0x5000) + of_bool (a = 0x6000)"
    "sends_in ex_table a = of_bool (a = 0x2000) + of_bool (a = 0x3000) + of_bool (a = 0x5000)"
    "sonces_in ex_table a = of_bool (a = 0x3000)"
  using assms by (auto simp: refs_in_def sends_in_def sonces_in_def ex_table_def ex_entry_def entry_refs_def
      entry_sends_def entry_sonces_def)

lemma ex_recv: "recv_in ex_table 0x2000" "recv_in ex_table 0x6000"
  by (simp_all add: recv_in_def ex_table_def ex_entry_def entry_recv_def)

lemma ex_inv: "cap_inv ex_space ex_kern ex_hold {}"
proof -
  have "addr_ok 0x1000 ex_table ex_kern ex_hold a" if "a \<noteq> 0" for a
    using ex_recv by (simp add: addr_ok_def ex_kern_def ex_hold_def ex_rights that port_ok_def ex_active
        requests_ok_def)
  moreover have "heap_ok 0x1000 ex_kern"
    by (simp add: heap_ok_def ex_kern_def IO_NULL_def IO_DEAD_def)
  ultimately show ?thesis
    using ex_wf ex_slot_ok unfolding cap_inv_def ex_length by (auto simp: IO_NULL_def)
qed

end
