(* ===== verification/Right_Contracts.thy ===== *)
theory Right_Contracts
  imports Copy_Ledger Ipc_Example
begin

text \<open>
  The contracts of the routines of \<open>osfmk/ipc/ipc_right.c\<close> that give rights up: every call
  returns, touches one slot of the table and one object, and balances the books of rights and
  references.
\<close>

unbundle bit_operations_syntax

lemma lookup_inv:
  assumes "ipc_entry_lookup sp name = Some i"
  shows "i < length (is_table sp)" "entry_type (is_table sp ! i) \<noteq> 0" "MACH_PORT_INDEX name = i"
  using assms unfolding ipc_entry_lookup_iff by auto

lemma ex_lookup:
  "ipc_entry_lookup ex_space 0x104 = Some 1" "ipc_entry_lookup ex_space 0x204 = Some 2"
  "ipc_entry_lookup ex_space 0x304 = Some 3" "ipc_entry_lookup ex_space 0x404 = Some 4"
  "ipc_entry_lookup ex_space 0x504 = Some 5" "ipc_entry_lookup ex_space 0x704 = Some 7"
  "ipc_entry_lookup ex_space 0x804 = Some 8"
  by (simp_all add: ipc_entry_lookup_def is_table_size_def ex_defs MACH_PORT_INDEX_def MACH_PORT_GEN_def
      IE_BITS_GEN_def IE_BITS_TYPE_def)

lemma ex_object:
  "ie_object (is_table ex_space ! 1) = 0x2000" "ie_object (is_table ex_space ! 2) = 0x3000"
  "ie_object (is_table ex_space ! 3) = 0x3000" "ie_object (is_table ex_space ! 4) = 0"
  "ie_object (is_table ex_space ! 5) = 0x4000" "ie_object (is_table ex_space ! 7) = 0x5000"
  "ie_object (is_table ex_space ! 8) = 0x6000"
  by (simp_all add: ex_defs)

text \<open>No account of the ledger is overdrawn.\<close>

definition solvent :: "holdings \<Rightarrow> bool" where
  "solvent H \<longleftrightarrow> (\<forall>a. 0 \<le> h_refs H a \<and> 0 \<le> h_sends H a \<and> 0 \<le> h_sonces H a)"

lemma solventD:
  assumes "solvent H"
  shows "0 \<le> h_refs H a" "0 \<le> h_sends H a"
  using assms by (simp_all add: solvent_def)

lemma ex_solvent: "solvent ex_hold"
  by (simp add: solvent_def ex_hold_def)

subsection \<open>Deallocation\<close>

text \<open>
  C4. \<open>ipc_right_dealloc\<close> on any name in use always returns. It changes no slot but the one
  named and no object but the one the slot denotes, and it leaves the space, the ports and the
  books consistent: the only right that passes to somebody else is a live send-once right,
  which goes into the send-once notification.
\<close>

theorem ipc_right_dealloc_conserves:
  assumes inv: "cap_inv sp k H X" and s: "solvent H" and l: "ipc_entry_lookup sp name = Some i"
  shows "\<exists>kr sp' k'. ipc_right_dealloc sp name i k = Some (kr, sp', k')
    \<and> slot_frame i sp sp' \<and> only_at (ie_object (is_table sp ! i)) k k'
    \<and> cap_inv sp' k' (dealloc_holdings sp k i H) X"
  using ipc_right_dealloc_inv [OF inv lookup_inv [OF l] refl solventD [OF s]] .

theorem ipc_right_dealloc_conserves_witness:
  "\<exists>kr sp' k'. ipc_right_dealloc ex_space 0x304 3 ex_kern = Some (kr, sp', k')
    \<and> slot_frame 3 ex_space sp' \<and> only_at 0x3000 ex_kern k'
    \<and> cap_inv sp' k' (dealloc_holdings ex_space ex_kern 3 ex_hold) {}"
  using ipc_right_dealloc_conserves [OF ex_inv ex_solvent ex_lookup(3)] by (simp add: ex_object)





lemma ex_entry_type:
  "entry_type (is_table ex_space ! 1) = MACH_PORT_TYPE_SEND_RECEIVE" "entry_type (is_table ex_space ! 2) = MACH_PORT_TYPE_SEND"
  "entry_type (is_table ex_space ! 3) = MACH_PORT_TYPE_SEND_ONCE" "entry_type (is_table ex_space ! 4) = MACH_PORT_TYPE_DEAD_NAME"
  "entry_type (is_table ex_space ! 5) = MACH_PORT_TYPE_PORT_SET" "entry_type (is_table ex_space ! 7) = MACH_PORT_TYPE_SEND"
  "entry_type (is_table ex_space ! 8) = MACH_PORT_TYPE_RECEIVE"
  by (simp_all add: ex_defs IE_BITS_TYPE_def)

lemma ex_entry_urefs:
  "entry_urefs (is_table ex_space ! 1) = 2" "entry_urefs (is_table ex_space ! 2) = 1"
  "entry_urefs (is_table ex_space ! 4) = 3" "entry_urefs (is_table ex_space ! 7) = 1"
  by (simp_all add: ex_defs IE_BITS_UREFS_def)


subsection \<open>Changing user references\<close>


lemma ex_room:
  "port_room ex_kern 0x2000" "port_room ex_kern 0x3000" "port_room ex_kern 0x5000" "port_room ex_kern 0x6000"
  by (simp_all add: port_room_def ex_port_at)


text \<open>
  C7. The user references of a send right of a live port are counted without wrapping: with the
  exact sum \<open>u\<close> of the count and the signed delta, the call fails and changes nothing if \<open>u\<close>
  is negative (\<open>KERN_INVALID_VALUE\<close>) or beyond 65534 (\<open>KERN_UREFS_OVERFLOW\<close>); it leaves the
  count \<open>u\<close> otherwise, and gives the right up when \<open>u\<close> is zero.
\<close>

theorem ipc_right_delta_send_exact:
  assumes inv: "cap_inv sp k H X" and s: "solvent H" and l: "ipc_entry_lookup sp name = Some i"
    and ty: "entry_type (is_table sp ! i) \<in> {MACH_PORT_TYPE_SEND, MACH_PORT_TYPE_SEND_RECEIVE}"
    and p: "port_at k (ie_object (is_table sp ! i)) = Some p" "ip_active p"
    and u: "u = uint (entry_urefs (is_table sp ! i)) + sint delta"
  shows "\<exists>kr sp' k'. ipc_right_delta sp name i MACH_PORT_RIGHT_SEND delta k = Some (kr, sp', k')
    \<and> (if u < 0 then kr = KERN_INVALID_VALUE \<and> sp' = sp \<and> k' = k
       else if u > 65534 then kr = KERN_UREFS_OVERFLOW \<and> sp' = sp \<and> k' = k
       else kr = KERN_SUCCESS \<and> cap_inv sp' k' H X
         \<and> (u > 0 \<longrightarrow> k' = k \<and> uint (entry_urefs (is_table sp' ! i)) = u
              \<and> ipc_entry_lookup sp' name = Some i)
         \<and> (u = 0 \<and> entry_type (is_table sp ! i) = MACH_PORT_TYPE_SEND \<longrightarrow> ipc_entry_lookup sp' name = None))"
proof -
  note li = lookup_inv [OF l]
  have r: "right_at sp k i (ie_object (is_table sp ! i)) p"
    using p(1) li(1) ty by (auto simp: right_at_def)
  obtain kr sp' k' where d: "ipc_right_delta_send sp name i delta k = Some (kr, sp', k')" "slot_frame i sp sp'"
      "cap_inv sp' k' H X"
      "if u < 0 then kr = KERN_INVALID_VALUE \<and> sp' = sp \<and> k' = k
       else if u > 65534 then kr = KERN_UREFS_OVERFLOW \<and> sp' = sp \<and> k' = k
       else kr = KERN_SUCCESS
         \<and> (if u = 0 then entry_type (is_table sp ! i) = MACH_PORT_TYPE_SEND \<longrightarrow> gone (is_table sp ! i) (is_table sp' ! i)
            else k' = k \<and> uref_change (is_table sp ! i) (is_table sp' ! i) delta
              \<and> uint (entry_urefs (is_table sp' ! i)) = u)"
    using delta_send_inv [OF inv r li(3) ty solventD [OF s], of delta] p(2) unfolding u Let_def by blast
  have "ipc_right_delta sp name i MACH_PORT_RIGHT_SEND delta k = Some (kr, sp', k')"
    using d(1) by (simp add: ipc_right_delta_def)
  moreover have "ipc_entry_lookup sp' name = Some i" if "uref_change (is_table sp ! i) (is_table sp' ! i) delta"
    using l that slot_frameD(5) [OF d(2)] unfolding ipc_entry_lookup_iff by (auto simp: uref_change_def)
  moreover have "ipc_entry_lookup sp' name = None" if "gone (is_table sp ! i) (is_table sp' ! i)"
    using goneD [OF that] li(3) by (simp add: ipc_entry_lookup_def Let_def)
  ultimately show ?thesis using d(3,4) by (auto split: if_splits)
qed

theorem ipc_right_delta_send_exact_witness:
  "\<exists>sp' k'. ipc_right_delta ex_space 0x104 1 MACH_PORT_RIGHT_SEND 5 ex_kern = Some (KERN_SUCCESS, sp', k')
    \<and> uint (entry_urefs (is_table sp' ! 1)) = 7 \<and> cap_inv sp' k' ex_hold {}"
proof -
  let ?p = "ex_port 2 0x80000000 0x1000 0x104 2 0"
  have p: "port_at ex_kern (ie_object (is_table ex_space ! 1)) = Some ?p" "ip_active ?p"
    unfolding ex_object by (simp_all add: ex_port_at ex_active)
  have ty: "entry_type (is_table ex_space ! 1) \<in> {MACH_PORT_TYPE_SEND, MACH_PORT_TYPE_SEND_RECEIVE}"
    unfolding ex_entry_type by simp
  have u: "7 = uint (entry_urefs (is_table ex_space ! 1)) + sint (5 :: mach_port_delta_t)"
    unfolding ex_entry_urefs by simp
  show ?thesis
    using ipc_right_delta_send_exact [OF ex_inv ex_solvent ex_lookup(1) ty p u] by auto
qed

text \<open>
  C20. On the error exits for dead names \<open>ipc_right_delta\<close> loses a reference. If the entry is a
  send or send-once right whose port has died, the call converts the entry into a dead name,
  which takes the entry's reference away from the table; when the delta then turns out to be too
  negative, it returns \<open>KERN_INVALID_VALUE\<close> with the reference count of the port unchanged.
\<close>

theorem ipc_right_delta_dead_name_leaks:
  assumes inv: "cap_inv sp k H X" and s: "solvent H" and l: "ipc_entry_lookup sp name = Some i"
    and ty: "entry_type (is_table sp ! i) \<in> {MACH_PORT_TYPE_SEND, MACH_PORT_TYPE_SEND_ONCE}"
    and q: "ie_request (is_table sp ! i) = IE_REQ_NONE" and a: "ie_object (is_table sp ! i) = a"
    and p: "port_at k a = Some p" "\<not> ip_active p"
    and u: "uint (entry_urefs (is_table sp ! i)) + sint delta < 0"
  shows "\<exists>sp' k' p'. ipc_right_delta sp name i MACH_PORT_RIGHT_DEAD_NAME delta k = Some (KERN_INVALID_VALUE, sp', k')
    \<and> refs_in (is_table sp') a = refs_in (is_table sp) a - 1
    \<and> port_at k' a = Some p' \<and> ip_references p' = ip_references p"
proof -
  note li = lookup_inv [OF l]
  have r: "right_at sp k i a p" using p(1) li(1) ty a by (auto simp: right_at_def)
  note d = right_atD [OF inv r]
  obtain sp1 k1 p1 where c: "ipc_right_check sp a name i k = Some (True, sp1, k1)" "slot_frame i sp sp1"
      "cap_inv sp1 k1 (add_ref a 1 H) X" "dead_entry (is_table sp ! i) (is_table sp1 ! i)" "port_at k1 a = Some p1"
    using check_inv [OF inv r li(3)] p(2) by auto
  have ur: "entry_urefs (is_table sp1 ! i) = entry_urefs (is_table sp ! i)"
    using c(4) q by (simp add: dead_entry_def)
  have "MACH_PORT_UREFS_UNDERFLOW (entry_urefs (is_table sp1 ! i)) delta"
    using u by (simp add: ur urefs_underflow_iff)
  then have res: "ipc_right_delta sp name i MACH_PORT_RIGHT_DEAD_NAME delta k = Some (KERN_INVALID_VALUE, sp1, k1)"
    using c(1) ty type_bits_zero(6) [OF d(5)] a
    by (auto simp: ipc_right_delta_def ipc_right_delta_dead_name_def ipc_right_delta_dead_name_urefs_def Let_def)
  have refs: "refs_in (is_table sp1) a = refs_in (is_table sp) a - 1"
    using rights_in_frame(1) [OF c(2) d(1), of a] c(4) a d(12) by (simp add: entry_refs_def dead_entry_def)
  have "uint (ip_references p1) = uint (ip_references p)"
    using cap_inv_portD(1) [OF c(3,5)] cap_inv_portD(1) [OF inv p(1)] refs by (simp add: port_ok_def)
  then show ?thesis using res refs c(5) by (auto simp: word_uint_eq_iff)
qed

theorem ipc_right_delta_dead_name_leaks_witness:
  "\<exists>sp' k' p'. ipc_right_delta ex_space 0x704 7 MACH_PORT_RIGHT_DEAD_NAME (- 2) ex_kern = Some (KERN_INVALID_VALUE, sp', k')
    \<and> refs_in (is_table sp') 0x5000 = 0 \<and> port_at k' 0x5000 = Some p' \<and> ip_references p' = 1"
proof -
  let ?p = "ex_port 1 0 0 0 0 0"
  have p: "port_at ex_kern 0x5000 = Some ?p" "\<not> ip_active ?p" by (simp_all add: ex_port_at ex_active)
  have ty: "entry_type (is_table ex_space ! 7) \<in> {MACH_PORT_TYPE_SEND, MACH_PORT_TYPE_SEND_ONCE}"
    unfolding ex_entry_type by simp
  have q: "ie_request (is_table ex_space ! 7) = IE_REQ_NONE" by (simp add: ex_defs)
  have u: "uint (entry_urefs (is_table ex_space ! 7)) + sint (- 2 :: mach_port_delta_t) < 0"
    unfolding ex_entry_urefs by simp
  show ?thesis
    using ipc_right_delta_dead_name_leaks [OF ex_inv ex_solvent ex_lookup(6) ty q ex_object(6) p u]
    by (simp add: ex_length ex_rights)
qed

subsection \<open>Destroying rights\<close>

text \<open>
  C6. \<open>ipc_right_destroy\<close> removes any right that is not guarded against it: the call succeeds,
  the name denotes nothing afterwards, the slot keeps its generation, no other slot and no
  object but the one denoted changes, and the books balance: live send-once rights and receive
  rights with a port-destroyed request pass to their notifications, everything else is released.
\<close>

theorem ipc_right_destroy_conserves:
  assumes inv: "cap_inv sp k H X" and s: "solvent H" and l: "ipc_entry_lookup sp name = Some i"
    and g: "\<And>p. port_at k (ie_object (is_table sp ! i)) = Some p \<Longrightarrow> check_guard \<Longrightarrow> ip_guarded p \<Longrightarrow> guard = ip_context p"
  shows "\<exists>sp' k'. ipc_right_destroy sp name i check_guard guard k = Some (KERN_SUCCESS, sp', k')
    \<and> slot_frame i sp sp' \<and> only_at (ie_object (is_table sp ! i)) k k'
    \<and> cap_inv sp' k' (destroy_holdings (is_table sp ! i) k H) X
    \<and> ipc_entry_lookup sp' name = None
    \<and> IE_BITS_GEN (ie_bits (is_table sp' ! i)) = IE_BITS_GEN (ie_bits (is_table sp ! i))"
proof -
  note li = lookup_inv [OF l]
  obtain sp' k' where d: "ipc_right_destroy sp name i check_guard guard k = Some (KERN_SUCCESS, sp', k')"
      "slot_frame i sp sp'" "only_at (ie_object (is_table sp ! i)) k k'"
      "cap_inv sp' k' (destroy_holdings (is_table sp ! i) k H) X" "gone (is_table sp ! i) (is_table sp' ! i)"
    using ipc_right_destroy_inv [OF inv li refl solventD [OF s] g] by blast
  have "ipc_entry_lookup sp' name = None"
    using goneD [OF d(5)] li(3) by (simp add: ipc_entry_lookup_def Let_def)
  then show ?thesis using d by (auto simp: gone_def)
qed

theorem ipc_right_destroy_conserves_witness:
  "\<exists>sp' k'. ipc_right_destroy ex_space 0x104 1 True 0 ex_kern = Some (KERN_SUCCESS, sp', k')
    \<and> cap_inv sp' k' ex_hold {} \<and> ipc_entry_lookup sp' 0x104 = None"
proof -
  have g: "\<And>p. port_at ex_kern (ie_object (is_table ex_space ! 1)) = Some p \<Longrightarrow> True \<Longrightarrow> ip_guarded p \<Longrightarrow> 0 = ip_context p"
    unfolding ex_object by (simp add: ex_port_at)
  have "destroy_holdings (is_table ex_space ! 1) ex_kern ex_hold = ex_hold"
    unfolding destroy_holdings_def ex_object ex_entry_type by (simp add: ex_port_at)
  then show ?thesis
    using ipc_right_destroy_conserves [OF ex_inv ex_solvent ex_lookup(1), of True 0, OF g] by auto
qed

text \<open>
  C19. A guard violation in \<open>ipc_right_destroy\<close> breaks the table. The routine clears the type
  of the entry before it looks at the guard; when the guard does not match, it returns
  \<open>KERN_INVALID_RIGHT\<close> with the entry untyped: the name denotes nothing any more, the slot still
  refers to the port, and the slot is neither in use nor free in any well-formed table.
\<close>

theorem ipc_right_destroy_guard_breaks_table:
  assumes inv: "cap_inv sp k H X" and l: "ipc_entry_lookup sp name = Some i"
    and ty: "entry_type (is_table sp ! i) \<in> {MACH_PORT_TYPE_RECEIVE, MACH_PORT_TYPE_SEND_RECEIVE}"
    and p: "port_at k (ie_object (is_table sp ! i)) = Some p" "ip_guarded p" "guard \<noteq> ip_context p"
  shows "\<exists>sp' k'. ipc_right_destroy sp name i True guard k = Some (KERN_INVALID_RIGHT, sp', k')
    \<and> ipc_entry_lookup sp' name = None
    \<and> ie_object (is_table sp' ! i) = ie_object (is_table sp ! i) \<and> ie_object (is_table sp' ! i) \<noteq> IO_NULL
    \<and> \<not> (\<exists>L X'. space_wf sp' L X')"
proof -
  let ?e = "is_table sp ! i"
  define b where "b = ie_bits ?e AND NOT IE_BITS_TYPE_MASK"
  note li = lookup_inv [OF l]
  have r: "right_at sp k i (ie_object ?e) p" using p(1) li(1) ty by (auto simp: right_at_def)
  note d = right_atD [OF inv r]
  have b0: "IE_BITS_TYPE b = 0" unfolding b_def by (simp add: ie_unfold)
  have act: "ip_active p" using d(14) ty by auto
  have rb: "entry_type ?e AND MACH_PORT_TYPE_RECEIVE \<noteq> 0" using ty by auto
  have res: "\<exists>k'. ipc_right_destroy sp name i True guard k = Some (KERN_INVALID_RIGHT, set_bits sp i b, k')"
    using ty p act rb li(1) unfolding b_def
    by (auto simp: ipc_right_destroy_def Let_def ipc_right_destroy_port_def)
  have e': "entry_type (is_table (set_bits sp i b) ! i) = 0" "ie_object (is_table (set_bits sp i b) ! i) = ie_object ?e"
    using li(1) b0 by simp_all
  have "\<not> space_wf (set_bits sp i b) L X'" for L X'
  proof
    assume w: "space_wf (set_bits sp i b) L X'"
    then have sl: "slots_wf (is_table (set_bits sp i b)) L X'" and fl: "freelist (is_table (set_bits sp i b)) L"
      by (auto simp: space_wf_def table_wf_def table_base_def simp del: upd_entry_fields)
    have "i \<notin> set L" using fl e'(2) d(12) by (auto simp: freelist_def free_entry_def)
    then have "used_entry (is_table (set_bits sp i b) ! i) \<or> held_entry (is_table (set_bits sp i b) ! i)"
      using sl d(1,7) by (auto simp: slots_wf_def split: if_splits)
    then show False using e' d(12) used_entry_type by (auto simp: held_entry_def)
  qed
  moreover have "ipc_entry_lookup (set_bits sp i b) name = None"
    using e'(1) li(3) by (simp add: ipc_entry_lookup_def Let_def)
  ultimately show ?thesis using res e'(2) d(12) by auto
qed

theorem ipc_right_destroy_guard_breaks_table_witness:
  "\<exists>sp' k'. ipc_right_destroy ex_space 0x804 8 True 0 ex_kern = Some (KERN_INVALID_RIGHT, sp', k')
    \<and> ipc_entry_lookup sp' 0x804 = None \<and> ie_object (is_table sp' ! 8) = 0x6000 \<and> \<not> (\<exists>L X'. space_wf sp' L X')"
proof -
  let ?p = "(ex_port 1 0x80000000 0x1000 0x804 0 0)\<lparr>ip_guarded := True, ip_context := 0x77\<rparr>"
  have ty: "entry_type (is_table ex_space ! 8) \<in> {MACH_PORT_TYPE_RECEIVE, MACH_PORT_TYPE_SEND_RECEIVE}"
    unfolding ex_entry_type by simp
  have p: "port_at ex_kern (ie_object (is_table ex_space ! 8)) = Some ?p" "ip_guarded ?p" "0 \<noteq> ip_context ?p"
    unfolding ex_object ex_port_at by simp_all
  show ?thesis
    using ipc_right_destroy_guard_breaks_table [OF ex_inv ex_lookup(7) ty p] unfolding ex_object by blast
qed

text \<open>
  C9. \<open>ipc_right_destruct\<close>, which takes a receive right out of a space after reducing its send
  rights, returns for every name in use, every delta and every guard value, touches one slot and
  one object, and keeps the books: only a receive right with a port-destroyed request survives,
  with one reference, in the notification.
\<close>

theorem ipc_right_destruct_conserves:
  assumes inv: "cap_inv sp k H X" and s: "solvent H" and l: "ipc_entry_lookup sp name = Some i"
    and a: "a = ie_object (is_table sp ! i)" and room: "port_room k a"
  shows "\<exists>kr sp' k'. ipc_right_destruct sp name i srdelta guard k = Some (kr, sp', k')
    \<and> slot_frame i sp sp' \<and> only_at a k k'
    \<and> cap_inv sp' k' (if kr = KERN_SUCCESS \<and> (\<exists>p. port_at k a = Some p \<and> ip_pdrequest p \<noteq> IP_NULL)
         then add_ref a 1 H else H) X"
  by (rule ipc_right_destruct_inv [OF inv lookup_inv [OF l] a [symmetric] solventD [OF s] room])

theorem ipc_right_destruct_conserves_witness:
  "\<exists>kr sp' k'. ipc_right_destruct ex_space 0x104 1 (- 2) 0 ex_kern = Some (kr, sp', k')
    \<and> slot_frame 1 ex_space sp' \<and> only_at 0x2000 ex_kern k' \<and> cap_inv sp' k' ex_hold {}"
proof -
  have a: "0x2000 = ie_object (is_table ex_space ! 1)" unfolding ex_object ..
  show ?thesis
    using ipc_right_destruct_conserves [OF ex_inv ex_solvent ex_lookup(1) a ex_room(1), of "- 2" 0]
    by (auto simp: ex_port_at split: if_splits)
qed

end
