(* ===== verification/Call_Ledger.thy ===== *)
theory Call_Ledger
  imports Alloc_Ledger Mach_Port Right_Contracts
begin

text \<open>
  The ledger under the system calls of \<open>osfmk/ipc/mach_port.c\<close>: each call, on any space that
  is in order, returns and leaves the space, the objects and the books in order.
\<close>

unbundle bit_operations_syntax

subsection \<open>Information about a right\<close>

text \<open>The pseudo-type bits of a notification request are the top three bits.\<close>

definition request_bits :: "mach_port_type_t \<Rightarrow> bool" where
  "request_bits t \<longleftrightarrow> t AND 0x1fffffff = 0"

lemma request_type_some:
  assumes "req_ok p r" "r \<noteq> IE_REQ_NONE"
  shows "\<exists>t. ipc_port_request_type p r = Some t \<and> request_bits t"
  using assms by (auto simp: req_ok_def ipc_port_request_type_def ipr_at_def request_bits_def split: option.splits)

lemma or_ex [simp]:
  "\<exists>t. x = t OR x \<and> request_bits t" "request_bits y \<Longrightarrow> \<exists>t. y OR x = t OR x \<and> request_bits t"
  for x y :: mach_port_type_t
  by (rule exI [of _ 0], simp add: request_bits_def) blast

text \<open>
  \<open>ipc_right_info\<close> reports the type and the user references of the entry; only if the port
  of a send or send-once right has died does it change anything: the entry becomes a dead name.
\<close>

lemma ipc_right_info_inv:
  assumes inv: "cap_inv sp k H X" and i: "i < length (is_table sp)" "entry_type (is_table sp ! i) \<noteq> 0"
    and n: "MACH_PORT_INDEX name = i" and a: "ie_object (is_table sp ! i) = a" and h: "0 \<le> h_refs H a"
  shows "\<exists>ty u sp' k'. ipc_right_info sp name i k = Some (ty, u, sp', k')
    \<and> slot_frame i sp sp' \<and> only_at a k k' \<and> cap_inv sp' k' H X
    \<and> u = entry_urefs (is_table sp' ! i) \<and> (\<exists>t. ty = t OR entry_type (is_table sp' ! i) \<and> request_bits t)
    \<and> (if \<exists>p. right_at sp k i a p \<and> \<not> ip_active p then dead_entry (is_table sp ! i) (is_table sp' ! i)
       else sp' = sp \<and> k' = k)"
proof -
  let ?e = "is_table sp ! i"
  have use: "used_entry ?e" by (rule cap_inv_slot(1) [OF inv i])
  note z = type_bits_zero [OF use]
  have rq: "\<exists>t. (if ie_request ?e \<noteq> IE_REQ_NONE then port_at k a \<bind> (\<lambda>p. ipc_port_request_type p (ie_request ?e)) else Some 0) = Some t \<and> request_bits t"
    if "right_at sp k i a p" for p
    using right_atD(4,10) [OF inv that] request_type_some by (auto simp: request_bits_def)
  show ?thesis
  proof (cases "port_type (entry_type ?e)")
    case False
    then have "ie_bits ?e AND MACH_PORT_TYPE_RECEIVE = 0" "ie_bits ?e AND MACH_PORT_TYPE_SEND_RIGHTS = 0"
      using z(2,6) by auto
    then show ?thesis using False inv by (auto simp: ipc_right_info_def right_at_def Let_def)
  next
    case True
    then obtain p where r: "right_at sp k i a p" using cap_inv_right [OF inv i(1)] a by blast
    note d = right_atD [OF inv r]
    have un: "q = p" if "right_at sp k i a q" for q using that r by (simp add: right_at_def)
    obtain t where t: "(if ie_request ?e \<noteq> IE_REQ_NONE then port_at k a \<bind> (\<lambda>p. ipc_port_request_type p (ie_request ?e)) else Some 0) = Some t" "request_bits t"
      using rq [OF r] by blast
    show ?thesis
    proof (cases "ie_bits ?e AND MACH_PORT_TYPE_RECEIVE \<noteq> 0")
      case rcv: True
      then have "ip_active p" using d(14) z(2) by auto
      then have "\<not> (\<exists>p. right_at sp k i a p \<and> \<not> ip_active p)" using un by blast
      then show ?thesis using rcv t a inv by (auto simp: ipc_right_info_def Let_def)
    next
      case False
      then have s: "ie_bits ?e AND MACH_PORT_TYPE_SEND_RIGHTS \<noteq> 0" using True z(2,6) by auto
      obtain sp1 k1 where c: "ipc_right_check sp a name i k = Some (\<not> ip_active p, sp1, k1)"
          "slot_frame i sp sp1" "only_at a k k1"
          "if ip_active p then sp1 = sp \<and> k1 = k
           else cap_inv sp1 k1 (add_ref a 1 H) X \<and> dead_entry ?e (is_table sp1 ! i) \<and> (\<exists>p'. port_at k1 a = Some p')"
        using check_inv [OF inv r n] by blast
      show ?thesis
      proof (cases "ip_active p")
        case act: True
        then have "\<not> (\<exists>p. right_at sp k i a p \<and> \<not> ip_active p)" using un by blast
        then show ?thesis using False s c act t a inv by (auto simp: ipc_right_info_def Let_def)
      next
        case dead: False
        then obtain k2 where k2: "ip_release a k1 = Some k2" "only_at a k1 k2" "cap_inv sp1 k2 H X"
          using dead_then_release [of sp1 k1 a H X] c(4) h by auto
        have "\<exists>p. right_at sp k i a p \<and> \<not> ip_active p" using r dead by blast
        moreover have "ipc_right_info sp name i k = Some (0 OR entry_type (is_table sp1 ! i), entry_urefs (is_table sp1 ! i), sp1, k2)"
          using False s c(1) dead k2(1) a by (simp add: ipc_right_info_def Let_def)
        ultimately show ?thesis using c(2,4) dead k2(3) only_at_trans [OF c(3) k2(2)] by auto
      qed
    qed
  qed
qed

subsection \<open>Fields of a port\<close>

text \<open>Changes that leave reference counts, rights, state, receiver and requests alone.\<close>

definition quiet :: "ipc_port \<Rightarrow> ipc_port \<Rightarrow> bool" where
  "quiet p p' \<longleftrightarrow>
     ip_references p' = ip_references p \<and> ip_srights p' = ip_srights p \<and> ip_sorights p' = ip_sorights p
     \<and> ip_bits p' = ip_bits p \<and> ip_data p' = ip_data p \<and> ip_receiver_name p' = ip_receiver_name p
     \<and> ip_requests p' = ip_requests p"

lemma cap_inv_quiet:
  assumes inv: "cap_inv sp k H X" and p: "port_at k a = Some p" and q: "quiet p p'"
  shows "cap_inv sp (put_port a p' k) H X"
proof -
  have l: "port_like p p'" by (rule port_likeI) (use q in \<open>simp_all add: quiet_def\<close>)
  show ?thesis
    using cap_inv_port [OF inv p, of "put_port a p' k" p' 0 0 0] l q cap_inv_refs_pos [OF inv p]
    by (simp add: quiet_def)
qed

text \<open>Translating the name of a receive right gives the address of a live port of the space.\<close>

lemma translate_receive_inv:
  assumes inv: "cap_inv sp k H X" and t: "ipc_port_translate_receive sp name = Inr a"
  shows "\<exists>i p. ipc_entry_lookup sp name = Some i \<and> right_at sp k i a p \<and> ip_active p \<and> ip_receiver p = is_self sp
    \<and> entry_type (is_table sp ! i) \<in> {MACH_PORT_TYPE_RECEIVE, MACH_PORT_TYPE_SEND_RECEIVE}"
proof -
  have ty: "MACH_PORT_TYPE MACH_PORT_RIGHT_RECEIVE = MACH_PORT_TYPE_RECEIVE" by (simp add: MACH_PORT_TYPE_def)
  obtain i where i: "ipc_entry_lookup sp name = Some i" "ie_bits (is_table sp ! i) AND MACH_PORT_TYPE_RECEIVE \<noteq> 0"
      "ie_object (is_table sp ! i) = a"
    using t unfolding ipc_port_translate_receive_def ipc_object_translate_def ipc_right_lookup_write_def ty
    by (auto split: if_splits option.splits)
  note li = lookup_inv [OF i(1)]
  have rt: "entry_type (is_table sp ! i) \<in> {MACH_PORT_TYPE_RECEIVE, MACH_PORT_TYPE_SEND_RECEIVE}"
    using type_bits_zero(2) [OF cap_inv_slot(1) [OF inv li(1,2)]] i(2) by blast
  then have pt: "port_type (entry_type (is_table sp ! i))" by auto
  obtain p where r: "right_at sp k i a p" using cap_inv_right [OF inv li(1) pt] i(3) by blast
  then show ?thesis using right_atD(14) [OF inv r] rt i(1) by auto
qed


subsection \<open>States and calls in order\<close>

definition space_ok :: "nat list \<Rightarrow> ipc_space \<Rightarrow> kern \<Rightarrow> holdings \<Rightarrow> bool" where
  "space_ok sizes sp k H \<longleftrightarrow>
     cap_inv sp k H {} \<and> solvent H \<and> h_recvs H = {} \<and> sizes_ok sizes sp \<and> \<not> is_growing sp"

text \<open>No 32-bit counter of a port is about to wrap.\<close>

definition counters_room :: "kern \<Rightarrow> bool" where
  "counters_room k \<longleftrightarrow> (\<forall>a. port_room k a)"

definition keeps :: "nat list \<Rightarrow> ('r \<Rightarrow> holdings) \<Rightarrow> ('r \<times> ipc_space \<times> kern) option \<Rightarrow> bool" where
  "keeps sizes H res \<longleftrightarrow> (\<exists>r sp k. res = Some (r, sp, k) \<and> space_ok sizes sp k (H r))"

definition call_keeps :: "nat list \<Rightarrow> ('r \<Rightarrow> holdings) \<Rightarrow> 'r syscall \<Rightarrow> bool" where
  "call_keeps sizes H res \<longleftrightarrow> (\<exists>r sp k. res = Some (r, Some sp, k) \<and> space_ok sizes sp k (H r))"

lemma space_okD:
  assumes "space_ok sizes sp k H"
  shows "cap_inv sp k H {}" "solvent H" "h_recvs H = {}" "sizes_ok sizes sp" "\<not> is_growing sp"
    "0 \<le> h_refs H a" "0 \<le> h_sends H a"
  using assms by (simp_all add: space_ok_def solvent_def)

lemma with_space_keeps: "keeps sizes H (f sp) \<Longrightarrow> call_keeps sizes H (with_space nl (Some sp) k f)"
  by (auto simp: keeps_def call_keeps_def with_space_def)

lemma keeps_same: "space_ok sizes sp k (H r) \<Longrightarrow> keeps sizes H (Some (r, sp, k))"
  by (simp add: keeps_def)

lemma keeps_slot:
  assumes ok: "space_ok sizes sp k H" and f: "slot_frame i sp sp'" and inv: "cap_inv sp' k' H' {}"
    and H': "solvent H'" "h_recvs H' = {}"
  shows "space_ok sizes sp' k' H'"
  using sizes_ok_frame [OF f space_okD(4) [OF ok]] space_okD(5) [OF ok] slot_frameD(2) [OF f] inv H'
  by (simp add: space_ok_def is_growing_def)

lemma keeps_grown:
  assumes ok: "space_ok sizes sp k H" and f: "grown_frame i sp sp'" and sz: "sizes_ok sizes sp'"
    and inv: "cap_inv sp' k' H' {}" and H': "solvent H'" "h_recvs H' = {}"
  shows "space_ok sizes sp' k' H'"
proof -
  obtain sp1 where s: "space_extends sp sp1" "slot_frame i sp1 sp'" using f by (auto simp: grown_frame_def)
  then show ?thesis
    using space_extendsD(4) [OF s(1)] slot_frameD(2) [OF s(2)] sz inv H' space_okD(5) [OF ok]
    by (simp add: space_ok_def is_growing_def)
qed

text \<open>The books after a call on a name: unchanged if the name denotes nothing.\<close>

definition named :: "ipc_space \<Rightarrow> mach_port_name_t \<Rightarrow> (nat \<Rightarrow> holdings) \<Rightarrow> holdings \<Rightarrow> holdings" where
  "named sp name f H =
     (if MACH_PORT_VALID name then (case ipc_right_lookup_write sp name of Inl _ \<Rightarrow> H | Inr i \<Rightarrow> f i) else H)"

text \<open>A call that looks a name up and hands the entry on.\<close>

lemma named_call_keeps:
  assumes ok: "space_ok sizes sp k H"
    and f: "\<And>i. ipc_entry_lookup sp name = Some i \<Longrightarrow> keeps sizes (\<lambda>r. G r i) (f i)"
  shows "keeps sizes (\<lambda>r. named sp name (G r) H)
    (if \<not> MACH_PORT_VALID name then Some (bad, sp, k)
     else case ipc_right_lookup_write sp name of Inl kr \<Rightarrow> Some (err kr, sp, k) | Inr i \<Rightarrow> f i)"
proof (cases "MACH_PORT_VALID name \<and> is_active sp")
  case True
  show ?thesis
  proof (cases "ipc_entry_lookup sp name")
    case None
    then show ?thesis using True ok by (simp add: keeps_def named_def ipc_right_lookup_write_def)
  next
    case (Some i)
    then show ?thesis using True f [OF Some] by (simp add: named_def ipc_right_lookup_write_def)
  qed
next
  case False
  then show ?thesis using ok by (auto simp: keeps_def named_def ipc_right_lookup_write_def)
qed

lemma solvent_add:
  "solvent H \<Longrightarrow> 0 \<le> n \<Longrightarrow> solvent (add_ref a n H)" "solvent H \<Longrightarrow> 0 \<le> n \<Longrightarrow> solvent (add_send a n H)"
  "solvent H \<Longrightarrow> 0 \<le> n \<Longrightarrow> solvent (add_sonce a n H)"
  by (auto simp: solvent_def add_ref_def add_send_def add_sonce_def)

lemma solvent_after:
  assumes "solvent H" "h_recvs H = {}"
  shows "solvent (dealloc_holdings sp k i H)" "h_recvs (dealloc_holdings sp k i H) = {}"
    "solvent (delta_holdings sp k i right delta kr H)" "h_recvs (delta_holdings sp k i right delta kr H) = {}"
    "solvent (destroy_holdings e k H)" "h_recvs (destroy_holdings e k H) = {}"
    "solvent (object_gain msgt_name r H)" "h_recvs (object_gain msgt_name r H) = {}"
  using assms
  by (auto simp: dealloc_holdings_def delta_holdings_def destroy_holdings_def object_gain_def right_gain_def Let_def
      intro!: solvent_add split: option.splits sum.splits mach_msg_type_name.splits)


subsection \<open>The calls on references\<close>

lemma mach_port_deallocate_keeps:
  assumes ok: "space_ok sizes sp k H"
  shows "call_keeps sizes (\<lambda>_. named sp name (\<lambda>i. dealloc_holdings sp k i H) H) (mach_port_deallocate (Some sp) name k)"
  unfolding mach_port_deallocate_def
proof (rule with_space_keeps, rule named_call_keeps [OF ok])
  fix i assume "ipc_entry_lookup sp name = Some i"
  from ipc_right_dealloc_inv [OF space_okD(1) [OF ok] lookup_inv [OF this] refl space_okD(6,7) [OF ok]]
  show "keeps sizes (\<lambda>_. dealloc_holdings sp k i H) (ipc_right_dealloc sp name i k)"
    using keeps_slot [OF ok] solvent_after(1,2) [OF space_okD(2,3) [OF ok]] by (fastforce simp: keeps_def)
qed

text \<open>\<open>mach_port_destroy\<close> passes the guard value zero; a port with another guard is excluded here.\<close>

definition unguarded :: "ipc_space \<Rightarrow> kern \<Rightarrow> mach_port_name_t \<Rightarrow> bool" where
  "unguarded sp k name \<longleftrightarrow>
     (case ipc_entry_lookup sp name of
        None \<Rightarrow> True
      | Some i \<Rightarrow>
          (case port_at k (ie_object (is_table sp ! i)) of
             None \<Rightarrow> True
           | Some p \<Rightarrow> \<not> ip_guarded p \<or> ip_context p = 0))"

lemma mach_port_destroy_keeps:
  assumes ok: "space_ok sizes sp k H" and g: "unguarded sp k name"
  shows "call_keeps sizes (\<lambda>_. named sp name (\<lambda>i. destroy_holdings (is_table sp ! i) k H) H) (mach_port_destroy (Some sp) name k)"
  unfolding mach_port_destroy_def
proof (rule with_space_keeps, rule named_call_keeps [OF ok])
  fix i assume l: "ipc_entry_lookup sp name = Some i"
  have "0 = ip_context p" if "port_at k (ie_object (is_table sp ! i)) = Some p" "ip_guarded p" for p
    using g l that by (simp add: unguarded_def)
  then obtain sp' k' where "ipc_right_destroy sp name i True 0 k = Some (KERN_SUCCESS, sp', k')" "slot_frame i sp sp'"
      "cap_inv sp' k' (destroy_holdings (is_table sp ! i) k H) {}"
    using ipc_right_destroy_inv [OF space_okD(1) [OF ok] lookup_inv [OF l] refl space_okD(6,7) [OF ok], of True 0] by blast
  then show "keeps sizes (\<lambda>_. destroy_holdings (is_table sp ! i) k H) (ipc_right_destroy sp name i True 0 k)"
    using keeps_slot [OF ok] solvent_after(5,6) [OF space_okD(2,3) [OF ok]] by (fastforce simp: keeps_def)
qed

lemma mach_port_mod_refs_keeps:
  assumes ok: "space_ok sizes sp k H" and room: "counters_room k" and right: "right \<noteq> MACH_PORT_RIGHT_LABELH"
  shows "call_keeps sizes
    (\<lambda>kr. if right \<ge> MACH_PORT_RIGHT_NUMBER then H else named sp name (\<lambda>i. delta_holdings sp k i right delta kr H) H)
    (mach_port_mod_refs (Some sp) name right delta k)"
proof (cases "right \<ge> MACH_PORT_RIGHT_NUMBER")
  case True
  then show ?thesis using ok by (simp add: mach_port_mod_refs_def with_space_def call_keeps_def)
next
  case False
  have le: "right \<le> MACH_PORT_RIGHT_DEAD_NAME" using False right by unat_arith
  have k: "keeps sizes (\<lambda>kr. delta_holdings sp k i right delta kr H) (ipc_right_delta sp name i right delta k)"
    if l: "ipc_entry_lookup sp name = Some i" for i
  proof -
    have "port_room k (ie_object (is_table sp ! i))" using room by (simp add: counters_room_def)
    from ipc_right_delta_inv [OF space_okD(1) [OF ok] lookup_inv [OF l] refl space_okD(6,7) [OF ok] this le, of delta]
    show ?thesis
      using keeps_slot [OF ok] solvent_after(3,4) [OF space_okD(2,3) [OF ok]] by (fastforce simp: keeps_def)
  qed
  show ?thesis
    unfolding mach_port_mod_refs_def
    by (rule with_space_keeps) (use named_call_keeps [OF ok k, where err = "\<lambda>kr. kr"] False in simp)
qed

lemma mach_port_destruct_keeps:
  assumes ok: "space_ok sizes sp k H" and room: "counters_room k"
  shows "call_keeps sizes
    (\<lambda>kr. named sp name (\<lambda>i. let a = ie_object (is_table sp ! i) in
        if kr = KERN_SUCCESS \<and> (\<exists>p. port_at k a = Some p \<and> ip_pdrequest p \<noteq> IP_NULL) then add_ref a 1 H else H) H)
    (mach_port_destruct (Some sp) name srdelta guard k)"
  unfolding mach_port_destruct_def
proof (rule with_space_keeps, rule named_call_keeps [OF ok])
  fix i assume l: "ipc_entry_lookup sp name = Some i"
  have "port_room k (ie_object (is_table sp ! i))" using room by (simp add: counters_room_def)
  from ipc_right_destruct_inv [OF space_okD(1) [OF ok] lookup_inv [OF l] refl space_okD(6,7) [OF ok] this, of srdelta guard]
  show "keeps sizes (\<lambda>kr. let a = ie_object (is_table sp ! i) in
        if kr = KERN_SUCCESS \<and> (\<exists>p. port_at k a = Some p \<and> ip_pdrequest p \<noteq> IP_NULL) then add_ref a 1 H else H)
      (ipc_right_destruct sp name i srdelta guard k)"
    using keeps_slot [OF ok] solvent_add(1) [OF space_okD(2) [OF ok], of 1] space_okD(2,3) [OF ok]
    by (fastforce simp: keeps_def Let_def)
qed

lemma named_const [simp]: "named sp name (\<lambda>_. H) H = H"
  by (simp add: named_def split: sum.splits)

lemma info_keeps:
  assumes ok: "space_ok sizes sp k H" and l: "ipc_entry_lookup sp name = Some i"
  shows "\<exists>t sp' k'. ipc_right_info sp name i k = Some (t OR entry_type (is_table sp' ! i), entry_urefs (is_table sp' ! i), sp', k')
    \<and> request_bits t \<and> space_ok sizes sp' k' H \<and> used_entry (is_table sp' ! i)"
proof -
  obtain ty u sp' k' where r: "ipc_right_info sp name i k = Some (ty, u, sp', k')" "slot_frame i sp sp'" "cap_inv sp' k' H {}"
      "u = entry_urefs (is_table sp' ! i)" "\<exists>t. ty = t OR entry_type (is_table sp' ! i) \<and> request_bits t"
      "if \<exists>p. right_at sp k i (ie_object (is_table sp ! i)) p \<and> \<not> ip_active p
       then dead_entry (is_table sp ! i) (is_table sp' ! i) else sp' = sp \<and> k' = k"
    using ipc_right_info_inv [OF space_okD(1) [OF ok] lookup_inv [OF l] refl space_okD(6) [OF ok]] by blast
  note li = lookup_inv [OF l]
  have "entry_type (is_table sp' ! i) \<noteq> 0" using r(6) li(2) by (auto simp: dead_entry_def split: if_splits)
  then have "used_entry (is_table sp' ! i)"
    using cap_inv_slot(1) [OF r(3)] li(1) slot_frameD(5) [OF r(2)] by simp
  then show ?thesis using r keeps_slot [OF ok r(2,3) space_okD(2,3) [OF ok]] by blast
qed

lemma mach_port_type_keeps:
  assumes ok: "space_ok sizes sp k H"
  shows "call_keeps sizes (\<lambda>_. H) (mach_port_type (Some sp) name k)"
proof -
  have k: "keeps sizes (\<lambda>_. H) (ipc_right_info sp name i k \<bind> (\<lambda>(type, urefs, space, k).
      Some (Inr (type AND NOT (MACH_PORT_TYPE_SPREQUEST OR MACH_PORT_TYPE_SPREQUEST_DELAYED)), space, k)))"
    if "ipc_entry_lookup sp name = Some i" for i
    using info_keeps [OF ok that] by (auto simp: keeps_def)
  show ?thesis
    unfolding mach_port_type_def
    by (rule with_space_keeps)
      (use ok k in \<open>auto simp: keeps_same ipc_right_lookup_write_def split: option.splits\<close>)
qed

lemma no_label:
  assumes "request_bits t" "used_entry e"
  shows "(t OR entry_type e) AND MACH_PORT_TYPE MACH_PORT_RIGHT_LABELH = 0"
proof -
  have m: "MACH_PORT_TYPE MACH_PORT_RIGHT_LABELH = 0x200000" by (simp add: MACH_PORT_TYPE_def)
  have "t AND 0x200000 = (t AND 0x1fffffff) AND 0x200000" by (simp add: and.assoc)
  then have "t AND 0x200000 = 0" using assms(1) by (simp add: request_bits_def)
  moreover have "entry_type e AND 0x200000 = 0" using assms(2) by (auto simp: used_entry_def)
  ultimately show ?thesis unfolding m by (simp add: bit.conj_disj_distrib2)
qed

lemma mach_port_get_refs_keeps:
  assumes ok: "space_ok sizes sp k H"
  shows "call_keeps sizes (\<lambda>_. H) (mach_port_get_refs (Some sp) name right k)"
proof (cases "right \<ge> MACH_PORT_RIGHT_NUMBER \<or> \<not> MACH_PORT_VALID name \<or> \<not> is_active sp \<or> ipc_entry_lookup sp name = None")
  case True
  then show ?thesis
    using ok by (auto simp: mach_port_get_refs_def with_space_def call_keeps_def ipc_right_lookup_write_def)
next
  case False
  then obtain i where l: "ipc_entry_lookup sp name = Some i" by blast
  have le: "right \<in> {0, 1, 2, 3, 4, 5}" using False by unat_arith
  obtain t sp' k' where r: "ipc_right_info sp name i k = Some (t OR entry_type (is_table sp' ! i), entry_urefs (is_table sp' ! i), sp', k')"
      "request_bits t" "space_ok sizes sp' k' H" "used_entry (is_table sp' ! i)"
    using info_keeps [OF ok l] by blast
  show ?thesis
    using False l le r no_label [OF r(2,4)]
    by (auto simp: mach_port_get_refs_def with_space_def call_keeps_def ipc_right_lookup_write_def)
qed


subsection \<open>The calls on a receive right\<close>

lemma translate_call_keeps:
  assumes ok: "space_ok sizes sp k H"
    and f: "\<And>a p. port_at k a = Some p \<Longrightarrow> keeps sizes (\<lambda>_. H) (f a)"
  shows "keeps sizes (\<lambda>_. H)
    (if \<not> MACH_PORT_VALID name then Some (bad, sp, k)
     else case ipc_port_translate_receive sp name of Inl kr \<Rightarrow> Some (err kr, sp, k) | Inr port \<Rightarrow> f port)"
proof (cases "ipc_port_translate_receive sp name")
  case (Inl kr)
  then show ?thesis using ok by (simp add: keeps_def)
next
  case (Inr a)
  then obtain p where "port_at k a = Some p"
    using translate_receive_inv [OF space_okD(1) [OF ok]] by (auto simp: right_at_def)
  then show ?thesis using f Inr ok by (simp add: keeps_same)
qed

lemma space_ok_quiet:
  "space_ok sizes sp k H \<Longrightarrow> port_at k a = Some p \<Longrightarrow> quiet p p' \<Longrightarrow> space_ok sizes sp (put_port a p' k) H"
  using cap_inv_quiet by (auto simp: space_ok_def)

lemma space_ok_emit [simp]: "space_ok sizes sp (emit ev k) H = space_ok sizes sp k H"
  by (simp add: space_ok_def)

lemma mach_port_set_mscount_keeps:
  assumes ok: "space_ok sizes sp k H"
  shows "call_keeps sizes (\<lambda>_. H) (mach_port_set_mscount (Some sp) name mscount k)"
  unfolding mach_port_set_mscount_def
  by (rule with_space_keeps, rule translate_call_keeps [OF ok])
    (auto simp: keeps_def upd_port_eq ipc_port_set_mscount_def quiet_def intro!: space_ok_quiet [OF ok])

lemma mach_port_set_seqno_keeps:
  assumes ok: "space_ok sizes sp k H"
  shows "call_keeps sizes (\<lambda>_. H) (mach_port_set_seqno (Some sp) name seqno k)"
  unfolding mach_port_set_seqno_def
  by (rule with_space_keeps, rule translate_call_keeps [OF ok])
    (auto simp: keeps_def upd_port_eq ipc_mqueue_set_seqno_def quiet_def intro!: space_ok_quiet [OF ok])

lemma mach_port_set_context_keeps:
  assumes ok: "space_ok sizes sp k H"
  shows "call_keeps sizes (\<lambda>_. H) (mach_port_set_context (Some sp) name context k)"
  unfolding mach_port_set_context_def
  by (rule with_space_keeps, rule translate_call_keeps [OF ok])
    (auto simp: keeps_def quiet_def ok intro!: space_ok_quiet [OF ok])

lemma mach_port_guard_keeps:
  assumes ok: "space_ok sizes sp k H"
  shows "call_keeps sizes (\<lambda>_. H) (mach_port_guard (Some sp) name guard strict k)"
  unfolding mach_port_guard_def
  by (rule with_space_keeps, rule translate_call_keeps [OF ok])
    (auto simp: keeps_def mach_port_guard_locked_def quiet_def intro!: space_ok_quiet [OF ok])

lemma mach_port_unguard_keeps:
  assumes ok: "space_ok sizes sp k H"
  shows "call_keeps sizes (\<lambda>_. H) (mach_port_unguard (Some sp) name guard k)"
  unfolding mach_port_unguard_def
  by (rule with_space_keeps, rule translate_call_keeps [OF ok])
    (auto simp: keeps_def mach_port_unguard_locked_def quiet_def ok intro!: space_ok_quiet [OF ok])

lemma quiet_trans: "quiet p q \<Longrightarrow> quiet q r \<Longrightarrow> quiet p r"
  by (simp add: quiet_def)

lemma set_qlimit_loop:
  "ipc_mqueue_set_qlimit_loop n w a p k = (p', k') \<Longrightarrow>
     quiet p p' \<and> k_objects k' = k_objects k \<and> imq_msgcount p' = imq_msgcount p + of_nat (min n w)"
proof (induction n w a p k rule: ipc_mqueue_set_qlimit_loop.induct)
  case (3 n w a p k)
  let ?q = "p\<lparr>imq_msgcount := imq_msgcount p + 1\<rparr>"
  have "quiet p ?q" by (simp add: quiet_def)
  then show ?case using 3 quiet_trans by (fastforce simp: algebra_simps)
qed (auto simp: quiet_def)

lemma space_ok_cong: "k_objects k' = k_objects k \<Longrightarrow> space_ok sizes sp k' H = space_ok sizes sp k H"
  using cap_inv_cong [of k' k sp sp] by (simp add: space_ok_def)

lemma mach_port_set_qlimit_keeps:
  assumes ok: "space_ok sizes sp k H"
  shows "call_keeps sizes (\<lambda>_. H)
    (mach_port_set_attributes rsizes ralloc_ok waiters (Some sp) name MACH_PORT_LIMITS_INFO [qlimit] k)"
proof -
  have k: "keeps sizes (\<lambda>_. H) (ipc_mqueue_set_qlimit waiters a qlimit k \<bind> (\<lambda>k. Some (KERN_SUCCESS, k))
      \<bind> (\<lambda>(kr, k). Some (kr, sp, k)))" if p: "port_at k a = Some p" for a p
  proof -
    obtain p' k' where l: "(if qlimit > ucast (imq_qlimit p) then ipc_mqueue_set_qlimit_loop (unat (qlimit - ucast (imq_qlimit p))) waiters a p k
        else (p, k)) = (p', k')" by (metis surj_pair)
    then have q: "quiet p p' \<and> k_objects k' = k_objects k"
      using set_qlimit_loop [of "unat (qlimit - ucast (imq_qlimit p))" waiters a p k p' k']
      by (cases "qlimit > ucast (imq_qlimit p)") (simp_all add: quiet_def)
    then have "space_ok sizes sp k' H" "port_at k' a = Some p" using ok p space_ok_cong [of k' k] by (simp_all add: port_at_def)
    moreover have "quiet p (p'\<lparr>imq_qlimit := ucast qlimit\<rparr>)" using q by (simp add: quiet_def)
    ultimately have "space_ok sizes sp (put_port a (p'\<lparr>imq_qlimit := ucast qlimit\<rparr>) k') H" by (rule space_ok_quiet)
    then show ?thesis using p l by (simp add: keeps_def ipc_mqueue_set_qlimit_def)
  qed
  have "keeps sizes (\<lambda>_. H)
    (if \<not> MACH_PORT_VALID name then Some (KERN_INVALID_RIGHT, sp, k)
     else case ipc_port_translate_receive sp name of
            Inl kr \<Rightarrow> Some (kr, sp, k)
          | Inr port \<Rightarrow> ipc_mqueue_set_qlimit waiters port ([qlimit] ! 0) k \<bind> (\<lambda>k. Some (KERN_SUCCESS, k))
              \<bind> (\<lambda>(kr, k). Some (kr, sp, k)))"
    unfolding nth_Cons_0 by (rule translate_call_keeps [OF ok]) (rule k)
  then show ?thesis
    unfolding mach_port_set_attributes_def using ok
    by (intro with_space_keeps) (simp add: Let_def keeps_same)
qed


subsection \<open>Rights moving in and out\<close>

lemma keeps_extends:
  assumes ok: "space_ok sizes sp k H" and f: "space_extends sp sp'" and sz: "sizes_ok sizes sp'"
    and inv: "cap_inv sp' k' H {}"
  shows "space_ok sizes sp' k' H"
  by (rule keeps_grown [OF ok _ sz inv space_okD(2,3) [OF ok], of 0]) (use f in \<open>auto simp: grown_frame_def\<close>)

lemma allocated_keeps:
  assumes ok: "space_ok sizes sp k H" and a: "allocated ty sizes kalloc_ok fresh sp k H {} res"
  shows "keeps sizes (\<lambda>_. H) res"
proof -
  obtain r sp' k' where r: "res = Some (r, sp', k')" "cap_inv sp' k' H {}" "sizes_ok sizes sp'" and
    c: "case r of
            Inl kr \<Rightarrow> k_objects k' = k_objects k \<and> space_extends sp sp'
              \<and> (kr = KERN_RESOURCE_SHORTAGE \<and> fresh = IO_NULL \<or> kr = KERN_INVALID_TASK \<and> \<not> is_active sp
                 \<or> entry_refused sizes kalloc_ok sp kr)
          | Inr (name, a) \<Rightarrow> a = fresh \<and> only_at a k k' \<and> MACH_PORT_VALID name \<and> ipc_entry_lookup sp name = None
              \<and> (\<exists>i. ipc_entry_lookup sp' name = Some i \<and> names_right sp' i name ty a \<and> grown_frame i sp sp')"
    using a unfolding allocated_def by blast
  have "space_ok sizes sp' k' H"
    using c keeps_grown [OF ok _ r(3,2) space_okD(2,3) [OF ok]] keeps_extends [OF ok _ r(3,2)] by (cases r) auto
  then show ?thesis using r(1) by (simp add: keeps_def)
qed

lemma mach_port_allocate_keeps:
  assumes ok: "space_ok sizes sp k H" and f: "fresh = IO_NULL \<or> fresh_addr sp k H fresh"
  shows "call_keeps sizes (\<lambda>_. H) (mach_port_allocate sizes kalloc_ok fresh prealloc (Some sp) right name k)"
proof -
  note d = space_okD [OF ok]
  have p: "keeps sizes (\<lambda>_. H) (ipc_port_alloc sizes kalloc_ok fresh sp k)"
    by (rule allocated_keeps [OF ok ipc_port_alloc_inv [OF d(1,4,5) f]])
  have s: "keeps sizes (\<lambda>_. H) (ipc_pset_alloc sizes kalloc_ok fresh sp k)"
    by (rule allocated_keeps [OF ok ipc_pset_alloc_inv [OF d(1,4,5) f]])
  obtain r sp' where n: "ipc_object_alloc_dead sizes kalloc_ok sp = Some (r, sp')" "cap_inv sp' k H {}" "sizes_ok sizes sp'" and
    c: "case r of
         Inl kr \<Rightarrow> space_extends sp sp' \<and> (kr = KERN_INVALID_TASK \<and> \<not> is_active sp \<or> entry_refused sizes kalloc_ok sp kr)
       | Inr name \<Rightarrow> MACH_PORT_VALID name \<and> ipc_entry_lookup sp name = None
           \<and> (\<exists>i. ipc_entry_lookup sp' name = Some i \<and> grown_frame i sp sp'
                \<and> names_right sp' i name MACH_PORT_TYPE_DEAD_NAME IO_NULL \<and> entry_urefs (is_table sp' ! i) = 1)"
    using ipc_object_alloc_dead_inv [OF d(1,4,5), of kalloc_ok] by blast
  have "space_ok sizes sp' k H"
    using c keeps_grown [OF ok _ n(3,2) d(2,3)] keeps_extends [OF ok _ n(3,2)] by (cases r) auto
  then have "keeps sizes (\<lambda>_. H) (mach_port_allocate_right sizes kalloc_ok fresh sp right qos_template name IKM_NULL k)"
    using p s n(1) ok
    by (auto simp: keeps_def mach_port_allocate_right_def mach_port_allocate_receive_def mach_port_allocate_port_set_def
        qos_template_def split: sum.splits)
  then show ?thesis
    unfolding mach_port_allocate_def mach_port_allocate_full_def
    by (intro with_space_keeps) (simp add: qos_template_def)
qed

lemma mach_port_extract_right_keeps:
  assumes ok: "space_ok sizes sp k H" and room: "counters_room k"
  shows "call_keeps sizes (\<lambda>r. object_gain msgt_name (map_sum id fst r) H) (mach_port_extract_right (Some sp) name msgt_name k)"
proof (cases "MACH_MSG_TYPE_PORT_ANY msgt_name \<and> MACH_PORT_VALID name \<and> is_active sp \<and> ipc_entry_lookup sp name \<noteq> None")
  case True
  then obtain i where l: "ipc_entry_lookup sp name = Some i" by blast
  have rm: "port_room k (ie_object (is_table sp ! i))" using room by (simp add: counters_room_def)
  obtain r sp' k' where c: "ipc_object_copyin sp name msgt_name k = Some (r, sp', k')" "slot_frame i sp sp'"
      "cap_inv sp' k' (object_gain msgt_name r H) {}"
    using ipc_object_copyin_inv [OF space_okD(1) [OF ok] l _ refl space_okD(6) [OF ok] rm] True by blast
  have m: "map_sum id fst (map_sum id (\<lambda>poly. (poly, t)) r) = r" for t by (cases r) simp_all
  have "space_ok sizes sp' k' (object_gain msgt_name r H)"
    by (rule keeps_slot [OF ok c(2,3) solvent_after(7,8) [OF space_okD(2,3) [OF ok]]])
  then show ?thesis
    using True c(1) by (simp add: mach_port_extract_right_def with_space_def call_keeps_def m)
next
  case False
  then show ?thesis
    using ok by (auto simp: mach_port_extract_right_def with_space_def call_keeps_def ipc_object_copyin_def
        ipc_right_lookup_write_def object_gain_def split: option.splits)
qed

text \<open>The books after a right in transit has been received: the space has it, or the caller still does.\<close>

definition received :: "mach_msg_type_name \<Rightarrow> ipc_port \<Rightarrow> addr \<Rightarrow> holdings \<Rightarrow> kern_return + mach_port_name_t \<Rightarrow> holdings" where
  "received msgt_name p a H r = (case r of Inl _ \<Rightarrow> carried msgt_name p a H | Inr _ \<Rightarrow> H)"

lemma ipc_object_copyout_keeps:
  assumes ok: "space_ok sizes sp k (carried msgt_name p a H)" and H: "solvent H" "h_recvs H = {}"
    and t: "transit_ok msgt_name k H a p"
  shows "keeps sizes (received msgt_name p a H) (ipc_object_copyout sizes kalloc_ok sp a msgt_name overflow k)"
proof -
  note d = space_okD [OF ok]
  obtain r sp' k' where r: "ipc_object_copyout sizes kalloc_ok sp a msgt_name overflow k = Some (r, sp', k')" and
    c: "case r of
            Inl kr \<Rightarrow> k' = k \<and> space_extends sp sp' \<and> sizes_ok sizes sp' \<and> cap_inv sp' k (carried msgt_name p a H) {}
              \<and> (kr = KERN_INVALID_TASK \<and> \<not> is_active sp \<or> kr = KERN_INVALID_CAPABILITY \<and> \<not> ip_active p
                 \<or> entry_refused sizes kalloc_ok sp kr
                 \<or> kr = KERN_UREFS_OVERFLOW \<and> \<not> overflow \<and> msgt_name = MACH_MSG_TYPE_PORT_SEND)
          | Inr name \<Rightarrow> \<exists>i ty. ipc_entry_lookup sp' name = Some i \<and> ty \<in> copied_types msgt_name \<and> sizes_ok sizes sp'
              \<and> names_right sp' i name ty a \<and> grown_frame i sp sp'
              \<and> only_in {a, ip_destination p} k k' \<and> cap_inv sp' k' H {}"
    using ipc_object_copyout_inv [OF d(1) t d(4,5), of kalloc_ok overflow] unfolding copied_out_def by blast
  have "space_ok sizes sp' k' (received msgt_name p a H r)"
    using c keeps_grown [OF ok _ _ _ H] keeps_extends [OF ok] by (cases r) (auto simp: received_def)
  then show ?thesis using r(1) by (simp add: keeps_def)
qed

end
