(* ===== verification/System_Calls.thy ===== *)
theory System_Calls
  imports Call_Ledger
begin

text \<open>
  A task's port space under any sequence of system calls. A world is a space, the kernel
  objects and the books of the rights that others hold; \<open>step\<close> runs one call and keeps the
  books, and \<open>reachable\<close> is what a new space can become. The invariant of the ledger holds in
  every reachable world, and no admissible call gets stuck, that is, panics, follows a bad
  pointer or loops.
\<close>

subsection \<open>Calls\<close>

text \<open>
  The parameters of a call, with what the allocator and the scheduler contribute to it: the
  address of a new object, and the number of threads that wait for room in a message queue.
  \<open>Receive_right\<close> is the reception of a right in a message.
\<close>

datatype port_call =
    Allocate mach_port_right_t addr
  | Deallocate mach_port_name_t
  | Destroy mach_port_name_t
  | Mod_refs mach_port_name_t mach_port_right_t mach_port_delta_t
  | Get_refs mach_port_name_t mach_port_right_t
  | Type_of mach_port_name_t
  | Destruct mach_port_name_t mach_port_delta_t addr
  | Set_mscount mach_port_name_t natural_t
  | Set_seqno mach_port_name_t natural_t
  | Set_context mach_port_name_t addr
  | Set_qlimit mach_port_name_t natural_t nat
  | Guard mach_port_name_t addr bool
  | Unguard mach_port_name_t addr
  | Extract_right mach_port_name_t mach_msg_type_name
  | Receive_right addr mach_msg_type_name

type_synonym world = "ipc_space \<times> kern \<times> holdings"

definition tally :: "('r \<Rightarrow> holdings) \<Rightarrow> 'r syscall \<Rightarrow> world option" where
  "tally H res = do {
     (r, space, k) \<leftarrow> res;
     sp \<leftarrow> space;
     Some (sp, k, H r) }"

definition destruct_holdings :: "ipc_space \<Rightarrow> kern \<Rightarrow> nat \<Rightarrow> kern_return \<Rightarrow> holdings \<Rightarrow> holdings" where
  "destruct_holdings sp k i kr H =
     (let a = ie_object (is_table sp ! i) in
      if kr = KERN_SUCCESS \<and> (\<exists>p. port_at k a = Some p \<and> ip_pdrequest p \<noteq> IP_NULL) then add_ref a 1 H else H)"

text \<open>The books without a right in transit, and the port that the right is for.\<close>

definition uncarried :: "mach_msg_type_name \<Rightarrow> addr \<Rightarrow> holdings \<Rightarrow> holdings" where
  "uncarried msgt_name a H =
     (if msgt_name = MACH_MSG_TYPE_PORT_SEND_ONCE then add_sonce a (- 1) (add_ref a (- 1) H)
      else add_send a (- 1) (add_ref a (- 1) H))"

definition the_port :: "kern \<Rightarrow> addr \<Rightarrow> ipc_port" where
  "the_port k a = (case port_at k a of Some p \<Rightarrow> p | None \<Rightarrow> blank_port)"

fun step :: "nat list \<Rightarrow> (nat \<Rightarrow> bool) \<Rightarrow> port_call \<Rightarrow> world \<Rightarrow> world option" where
  "step sizes kalloc_ok (Allocate right fresh) (sp, k, H) =
     tally (\<lambda>_. H) (mach_port_allocate sizes kalloc_ok fresh (\<lambda>_. IKM_NULL) (Some sp) right MACH_PORT_NULL k)"
| "step sizes kalloc_ok (Deallocate name) (sp, k, H) =
     tally (\<lambda>_. named sp name (\<lambda>i. dealloc_holdings sp k i H) H) (mach_port_deallocate (Some sp) name k)"
| "step sizes kalloc_ok (Destroy name) (sp, k, H) =
     tally (\<lambda>_. named sp name (\<lambda>i. destroy_holdings (is_table sp ! i) k H) H) (mach_port_destroy (Some sp) name k)"
| "step sizes kalloc_ok (Mod_refs name right delta) (sp, k, H) =
     tally (\<lambda>kr. if right \<ge> MACH_PORT_RIGHT_NUMBER then H
                  else named sp name (\<lambda>i. delta_holdings sp k i right delta kr H) H)
       (mach_port_mod_refs (Some sp) name right delta k)"
| "step sizes kalloc_ok (Get_refs name right) (sp, k, H) =
     tally (\<lambda>_. H) (mach_port_get_refs (Some sp) name right k)"
| "step sizes kalloc_ok (Type_of name) (sp, k, H) = tally (\<lambda>_. H) (mach_port_type (Some sp) name k)"
| "step sizes kalloc_ok (Destruct name srdelta guard) (sp, k, H) =
     tally (\<lambda>kr. named sp name (\<lambda>i. destruct_holdings sp k i kr H) H) (mach_port_destruct (Some sp) name srdelta guard k)"
| "step sizes kalloc_ok (Set_mscount name mscount) (sp, k, H) =
     tally (\<lambda>_. H) (mach_port_set_mscount (Some sp) name mscount k)"
| "step sizes kalloc_ok (Set_seqno name seqno) (sp, k, H) =
     tally (\<lambda>_. H) (mach_port_set_seqno (Some sp) name seqno k)"
| "step sizes kalloc_ok (Set_context name context) (sp, k, H) =
     tally (\<lambda>_. H) (mach_port_set_context (Some sp) name context k)"
| "step sizes kalloc_ok (Set_qlimit name qlimit waiters) (sp, k, H) =
     tally (\<lambda>_. H)
       (mach_port_set_attributes [] kalloc_ok waiters (Some sp) name MACH_PORT_LIMITS_INFO [qlimit] k)"
| "step sizes kalloc_ok (Guard name guard strict) (sp, k, H) =
     tally (\<lambda>_. H) (mach_port_guard (Some sp) name guard strict k)"
| "step sizes kalloc_ok (Unguard name guard) (sp, k, H) =
     tally (\<lambda>_. H) (mach_port_unguard (Some sp) name guard k)"
| "step sizes kalloc_ok (Extract_right name msgt_name) (sp, k, H) =
     tally (\<lambda>r. object_gain msgt_name (map_sum id fst r) H) (mach_port_extract_right (Some sp) name msgt_name k)"
| "step sizes kalloc_ok (Receive_right a msgt_name) (sp, k, H) =
     tally (received msgt_name (the_port k a) a (uncarried msgt_name a H))
       (with_space (Inl KERN_INVALID_TASK) (Some sp) k
          (\<lambda>sp. ipc_object_copyout sizes kalloc_ok sp a msgt_name True k))"

text \<open>
  What a call needs: addresses that the allocator returns are unused; only rights that the
  books show are received. The two last restrictions exclude what the code gets wrong: \<open>mach_port_destroy\<close> on a guarded
  port, and \<open>mach_port_mod_refs\<close> with the right number 5, which panics.
\<close>

fun admissible :: "port_call \<Rightarrow> world \<Rightarrow> bool" where
  "admissible (Allocate right fresh) (sp, k, H) \<longleftrightarrow> fresh = IO_NULL \<or> fresh_addr sp k H fresh"
| "admissible (Receive_right a msgt_name) (sp, k, H) \<longleftrightarrow>
     msgt_name \<in> {MACH_MSG_TYPE_PORT_SEND, MACH_MSG_TYPE_PORT_SEND_ONCE} \<and> port_at k a \<noteq> None
     \<and> 0 < h_refs H a \<and> (if msgt_name = MACH_MSG_TYPE_PORT_SEND then 0 < h_sends H a else 0 < h_sonces H a)"
| "admissible (Destroy name) (sp, k, H) \<longleftrightarrow> unguarded sp k name"
| "admissible (Mod_refs name right delta) (sp, k, H) \<longleftrightarrow> right \<noteq> MACH_PORT_RIGHT_LABELH"
| "admissible c w \<longleftrightarrow> True"

lemma tally_keeps:
  assumes "call_keeps sizes H res"
  shows "\<exists>sp k H'. tally H res = Some (sp, k, H') \<and> space_ok sizes sp k H'"
  using assms by (auto simp: call_keeps_def tally_def)

lemma uncarried_carried:
  assumes "msgt_name \<in> {MACH_MSG_TYPE_PORT_SEND, MACH_MSG_TYPE_PORT_SEND_ONCE}"
  shows "carried msgt_name p a (uncarried msgt_name a H) = H"
  using assms by (auto simp: carried_def uncarried_def)

lemma receive_keeps:
  assumes ok: "space_ok sizes sp k H" and adm: "admissible (Receive_right a msgt_name) (sp, k, H)"
  shows "call_keeps sizes (received msgt_name (the_port k a) a (uncarried msgt_name a H))
    (with_space (Inl KERN_INVALID_TASK) (Some sp) k (\<lambda>sp. ipc_object_copyout sizes kalloc_ok sp a msgt_name True k))"
proof (rule with_space_keeps, rule ipc_object_copyout_keeps)
  have m: "msgt_name \<in> {MACH_MSG_TYPE_PORT_SEND, MACH_MSG_TYPE_PORT_SEND_ONCE}" using adm by simp
  show "space_ok sizes sp k (carried msgt_name (the_port k a) a (uncarried msgt_name a H))"
    using ok by (simp only: uncarried_carried [OF m])
  have n: "h_refs H a \<ge> 0" "h_sends H a \<ge> 0" "h_sonces H a \<ge> 0" for a
    using space_okD(2) [OF ok] by (simp_all add: solvent_def)
  show s: "solvent (uncarried msgt_name a H)"
    using n adm by (auto simp: solvent_def uncarried_def add_ref_def add_send_def add_sonce_def)
  show "h_recvs (uncarried msgt_name a H) = {}" using space_okD(3) [OF ok] by (simp add: uncarried_def)
  then show "transit_ok msgt_name k (uncarried msgt_name a H) a (the_port k a)"
    using adm s by (auto simp: transit_ok_def the_port_def solvent_def)
qed

text \<open>Every admissible call returns and keeps the world in order.\<close>

lemma step_keeps:
  assumes ok: "space_ok sizes sp k H" and room: "counters_room k" and adm: "admissible c (sp, k, H)"
  shows "\<exists>sp' k' H'. step sizes kalloc_ok c (sp, k, H) = Some (sp', k', H') \<and> space_ok sizes sp' k' H'"
proof (cases c)
  case (Receive_right a msgt_name)
  then show ?thesis using tally_keeps [OF receive_keeps [OF ok, of a msgt_name kalloc_ok]] adm by simp
next
  case (Destruct name srdelta guard)
  then show ?thesis
    using tally_keeps [OF mach_port_destruct_keeps [OF ok room, of name srdelta guard]] by (simp add: destruct_holdings_def)
qed (use adm in \<open>simp_all add: tally_keeps mach_port_allocate_keeps [OF ok] mach_port_deallocate_keeps [OF ok]
      mach_port_destroy_keeps [OF ok] mach_port_mod_refs_keeps [OF ok room] mach_port_get_refs_keeps [OF ok]
      mach_port_type_keeps [OF ok] mach_port_set_mscount_keeps [OF ok] mach_port_set_seqno_keeps [OF ok]
      mach_port_set_context_keeps [OF ok] mach_port_set_qlimit_keeps [OF ok] mach_port_guard_keeps [OF ok]
      mach_port_unguard_keeps [OF ok] mach_port_extract_right_keeps [OF ok room]\<close>)


subsection \<open>Reachable worlds\<close>

definition no_holdings :: holdings where
  "no_holdings = \<lparr>h_refs = (\<lambda>_. 0), h_sends = (\<lambda>_. 0), h_sonces = (\<lambda>_. 0), h_recvs = {}\<rparr>"

text \<open>
  A new space, made by \<open>ipc_space_create\<close> at an address other than null, before any object
  exists; \<open>initial\<close> is the index of its size in the array of table sizes.
\<close>

definition new_world :: "nat list \<Rightarrow> world \<Rightarrow> bool" where
  "new_world sizes w \<longleftrightarrow>
     (case w of (sp, k, H) \<Rightarrow>
        (\<exists>self initial. self \<noteq> 0 \<and> ipc_space_create sizes (Some self) True initial = Inr sp
           \<and> 0 < sizes ! initial \<and> sizes_ok sizes sp)
        \<and> k_objects k = (\<lambda>_. None) \<and> H = no_holdings)"

inductive reachable :: "nat list \<Rightarrow> (nat \<Rightarrow> bool) \<Rightarrow> world \<Rightarrow> bool" for sizes kalloc_ok where
  new: "new_world sizes w \<Longrightarrow> reachable sizes kalloc_ok w"
| call: "reachable sizes kalloc_ok (sp, k, H) \<Longrightarrow> counters_room k \<Longrightarrow> admissible c (sp, k, H) \<Longrightarrow>
    step sizes kalloc_ok c (sp, k, H) = Some w \<Longrightarrow> reachable sizes kalloc_ok w"

lemma sizes_ok_bound:
  assumes "sizes_ok sizes sp"
  shows "is_table_size sp < 2 ^ 24"
proof -
  note d = sizes_okD [OF assms]
  have "sizes ! (is_table_next sp - 1) \<le> last sizes" using d by (intro sizes_bound) auto
  then show ?thesis using d(3,6) by linarith
qed

lemma init_table_fields:
  assumes "j < n"
  shows "ie_object (ipc_space_init_table n ! j) = IO_NULL" "entry_type (ipc_space_init_table n ! j) = 0"
  using assms by (simp_all add: ipc_space_init_table_def IE_BITS_TYPE_def)

lemma new_world_ok:
  assumes "new_world sizes (sp, k, H)"
  shows "space_ok sizes sp k H"
proof -
  obtain self initial where sp: "self \<noteq> 0" "sp = ipc_space_initial self (sizes ! initial) (initial + 1)"
      "0 < sizes ! initial" and sz: "sizes_ok sizes sp" and k: "k_objects k = (\<lambda>_. None)" and H: "H = no_holdings"
    using assms by (auto simp: new_world_def ipc_space_create_def)
  have t: "is_table sp = ipc_space_init_table (sizes ! initial)" "is_self sp = self"
    by (simp_all add: sp ipc_space_initial_def)
  have len: "length (is_table sp) = sizes ! initial" unfolding t by (simp add: ipc_space_init_table_def)
  have wf: "space_wf sp [1..<sizes ! initial] {}"
    unfolding sp(2) by (rule ipc_space_initial_wf [OF sp(3)]) (use sizes_ok_bound [OF sz] len in \<open>simp add: is_table_size_def\<close>)
  have none: "ie_object e = IO_NULL" if "e \<in> set (is_table sp)" for e
    using that init_table_fields(1) len unfolding t(1) by (metis in_set_conv_nth)
  have "refs_in (is_table sp) a = 0" if "a \<noteq> IO_NULL" for a
    using none that by (auto simp: refs_in_zero)
  then have "addr_ok self (is_table sp) k H a" if "a \<noteq> IO_NULL" for a
    using that k H by (simp add: addr_ok_def no_holdings_def)
  moreover have "slot_ok self k i (is_table sp ! i)" if "i < length (is_table sp)" for i
    using that init_table_fields(2) [of i] len by (simp add: slot_ok_def t)
  ultimately have "cap_inv sp k H {}"
    using wf k sp(1) t by (auto simp: cap_inv_def heap_ok_def IO_NULL_def)
  moreover have "solvent H" "h_recvs H = {}" by (simp_all add: H solvent_def no_holdings_def)
  moreover have "\<not> is_growing sp" by (simp add: sp ipc_space_initial_def is_growing_def)
  ultimately show ?thesis using sz by (simp add: space_ok_def)
qed


lemma reachable_ok:
  assumes "reachable sizes kalloc_ok w"
  shows "case w of (sp, k, H) \<Rightarrow> space_ok sizes sp k H"
  using assms
proof (induction rule: reachable.induct)
  case (new w)
  then show ?case using new_world_ok by (cases w) auto
next
  case (call sp k H c w)
  then show ?case using step_keeps [of sizes sp k H c kalloc_ok] by auto
qed


text \<open>A new space of two entries, and a kernel without objects.\<close>

definition ex_new :: world where
  "ex_new = (ipc_space_initial 0x1000 2 1,
     \<lparr>k_objects = (\<lambda>_. None), k_timestamp = 0, k_events = [], k_delayed = [], k_space_kernel = 0x9000,
      k_prealloc_inuse = (\<lambda>_. 0)\<rparr>, no_holdings)"

lemma ex_new_world: "new_world [2, 4, 4] ex_new"
proof -
  have "sizes_ok [2, 4, 4] (ipc_space_initial 0x1000 2 1)"
    by (simp add: sizes_ok_def ipc_space_initial_def is_table_size_def ipc_space_init_table_def)
  then have "\<exists>self initial. self \<noteq> 0 \<and> ipc_space_create [2, 4, 4] (Some self) True initial = Inr (ipc_space_initial 0x1000 2 1)
      \<and> 0 < [2, 4, 4 :: nat] ! initial \<and> sizes_ok [2, 4, 4] (ipc_space_initial 0x1000 2 1)"
    by (intro exI [of _ "0x1000"] exI [of _ 0]) (simp add: ipc_space_create_def)
  then show ?thesis by (simp add: new_world_def ex_new_def)
qed

lemma ex_new_fields:
  "ex_new = (fst ex_new, fst (snd ex_new), snd (snd ex_new))" "counters_room (fst (snd ex_new))"
  "admissible (Allocate MACH_PORT_RIGHT_RECEIVE 0x2000) (fst ex_new, fst (snd ex_new), snd (snd ex_new))"
  by (simp_all add: ex_new_def counters_room_def port_room_def port_at_def fresh_addr_def IO_NULL_def IO_DEAD_def
      ipc_space_initial_def no_holdings_def)


text \<open>
  C2. No system call gets stuck. From any reachable world in which no counter is about to wrap,
  every admissible call returns and leads to a reachable world again: it does not panic, follows
  no pointer to an object that is gone, and its loops end.
\<close>

theorem system_calls_return:
  assumes r: "reachable sizes kalloc_ok (sp, k, H)" and room: "counters_room k" and adm: "admissible c (sp, k, H)"
  shows "\<exists>w. step sizes kalloc_ok c (sp, k, H) = Some w \<and> reachable sizes kalloc_ok w"
proof -
  have "space_ok sizes sp k H" using reachable_ok [OF r] by simp
  from step_keeps [OF this room adm] show ?thesis using reachable.call [OF r room adm] by blast
qed

theorem system_calls_return_witness:
  "\<exists>w. step [2, 4, 4] (\<lambda>_. False) (Mod_refs 0x104 MACH_PORT_RIGHT_SEND 1) ex_new = Some w \<and> reachable [2, 4, 4] (\<lambda>_. False) w"
proof -
  have "reachable [2, 4, 4] (\<lambda>_. False) (fst ex_new, fst (snd ex_new), snd (snd ex_new))"
    using ex_new_world ex_new_fields(1) by (metis reachable.new)
  moreover have "admissible (Mod_refs 0x104 MACH_PORT_RIGHT_SEND 1) (fst ex_new, fst (snd ex_new), snd (snd ex_new))"
    by (simp del: prod.collapse)
  ultimately show ?thesis
    using system_calls_return [OF _ ex_new_fields(2), of "[2, 4, 4]" "\<lambda>_. False"] ex_new_fields(1) by metis
qed

end
