(* ===== verification/Call_Contracts.thy ===== *)
theory Call_Contracts
  imports System_Calls
begin

text \<open>
  Contracts of the port system calls and of the routines they share: what a call returns, and
  how the calls of a sequence fit together.
\<close>

unbundle bit_operations_syntax

subsection \<open>Checking a copyin in advance\<close>











subsection \<open>Guards\<close>

text \<open>
  C23. Guards. Guarding a receive right whose port has no context succeeds; while the guard is
  there, unguarding with another value fails, raises an exception that carries the name and the
  guard, and leaves the port as it is; unguarding with the same value succeeds and restores the
  port exactly.
\<close>

theorem guard_unguard_round_trip:
  assumes v: "MACH_PORT_VALID name" and t: "ipc_port_translate_receive sp name = Inr port"
    and p: "port_at k port = Some p" and c: "ip_context p = 0" "\<not> ip_guarded p" "\<not> ip_strict_guard p"
  shows "\<exists>k'. mach_port_guard (Some sp) name guard strict k = Some (KERN_SUCCESS, Some sp, k')
    \<and> mach_port_unguard (Some sp) name guard k' = Some (KERN_SUCCESS, Some sp, k)
    \<and> (\<forall>other. other \<noteq> guard \<longrightarrow> mach_port_unguard (Some sp) name other k' =
         Some (KERN_INVALID_ARGUMENT, Some sp, emit (Guard_exception (guard_exc_code kGUARD_EXC_INCORRECT_GUARD name) guard) k'))"
proof -
  have "p\<lparr>ip_context := 0, ip_guarded := False, ip_strict_guard := False\<rparr> = p" using c by simp
  then have "put_port port (p\<lparr>ip_context := 0, ip_guarded := False, ip_strict_guard := False\<rparr>) k = k"
    using put_port_same [OF p] by metis
  then show ?thesis
    using assms
    by (auto simp: mach_port_guard_def mach_port_unguard_def with_space_def mach_port_guard_locked_def
        mach_port_unguard_locked_def)
qed

lemma ex_translate: "ipc_port_translate_receive ex_space 0x104 = Inr 0x2000"
  by (simp add: ipc_port_translate_receive_def ipc_object_translate_def ipc_right_lookup_write_def ex_lookup ex_object
      MACH_PORT_TYPE_def is_active_def) (simp add: ex_defs)

lemma ex_port_blank:
  "ip_context (ex_port r b d n s q) = 0" "\<not> ip_guarded (ex_port r b d n s q)" "\<not> ip_strict_guard (ex_port r b d n s q)"
  by (simp_all add: ex_port_def blank_port_def)

theorem guard_unguard_round_trip_witness:
  "\<exists>k'. mach_port_guard (Some ex_space) 0x104 0x99 True ex_kern = Some (KERN_SUCCESS, Some ex_space, k')
    \<and> mach_port_unguard (Some ex_space) 0x104 0x99 k' = Some (KERN_SUCCESS, Some ex_space, ex_kern)"
proof -
  have "MACH_PORT_VALID 0x104" by (simp add: MACH_PORT_VALID_def MACH_PORT_NULL_def MACH_PORT_DEAD_def)
  from guard_unguard_round_trip [OF this ex_translate ex_port_at(1) ex_port_blank]
  show ?thesis by blast
qed

end
