(* ===== verification/Table_Contracts.thy ===== *)
theory Table_Contracts
  imports Ipc_Grow
begin

text \<open>
  The contracts of the lower layers: names and user references (\<open>osfmk/mach/port.h\<close>,
  \<open>osfmk/ipc/port.h\<close>), the reverse hash table (\<open>osfmk/ipc/ipc_hash.c\<close>) and the allocation of
  entries (\<open>osfmk/ipc/ipc_entry.c\<close>).
\<close>

unbundle bit_operations_syntax

subsection \<open>Names\<close>

text \<open>
  C18. Making a name from an index and a generation and taking it apart are inverse to each
  other, for all indexes a table can have; a name is determined by its two parts.
\<close>

theorem mach_port_name_round_trip:
  assumes "index < 2 ^ 24"
  shows "MACH_PORT_INDEX (MACH_PORT_MAKE index gen) = index
    \<and> MACH_PORT_GEN (MACH_PORT_MAKE index gen) = IE_BITS_GEN gen
    \<and> MACH_PORT_MAKE (MACH_PORT_INDEX name) (MACH_PORT_GEN name) = name
    \<and> (MACH_PORT_MAKE index gen = MACH_PORT_MAKE index gen' \<longleftrightarrow> IE_BITS_GEN gen = IE_BITS_GEN gen')"
  using assms by (simp add: name_eq_iff [of "MACH_PORT_MAKE _ _"])

theorem mach_port_name_round_trip_witness:
  "MACH_PORT_INDEX (MACH_PORT_MAKE 5 0x04010001) = 5 \<and> MACH_PORT_GEN (MACH_PORT_MAKE 5 0x04010001) = 0x04000000"
  using mach_port_name_round_trip [of 5 "0x04010001"] by (simp add: IE_BITS_GEN_def)

text \<open>
  C17. The macros that guard the arithmetic on user references decide exactly whether the sum of
  the 16-bit count and the signed 32-bit delta leaves the range of the count, although they
  compute with wrapping words.
\<close>

theorem mach_port_urefs_checks_exact:
  assumes "urefs \<le> MACH_PORT_UREFS_MAX"
  shows "(MACH_PORT_UREFS_UNDERFLOW urefs delta \<longleftrightarrow> uint urefs + sint delta < 0)
    \<and> (MACH_PORT_UREFS_OVERFLOW urefs delta \<longleftrightarrow> uint urefs + sint delta > 65535)"
  using urefs_underflow_iff urefs_overflow_iff [OF assms] by simp

theorem mach_port_urefs_checks_exact_witness:
  "\<not> MACH_PORT_UREFS_OVERFLOW 65534 1 \<and> MACH_PORT_UREFS_OVERFLOW 65535 1 \<and> MACH_PORT_UREFS_UNDERFLOW 3 (- 4)"
  using mach_port_urefs_checks_exact [of 65534 1] mach_port_urefs_checks_exact [of 65535 1]
    mach_port_urefs_checks_exact [of 3 "- 4"] by simp

subsection \<open>Reuse of names\<close>

text \<open>A slot that is claimed and released again and again, and the names it gets.\<close>

fun name_cycle :: "nat \<Rightarrow> ipc_space \<Rightarrow> (mach_port_name_t list \<times> ipc_space) option" where
  "name_cycle 0 space = Some ([], space)"
| "name_cycle (Suc n) space = do {
     (space, name, entry) \<leftarrow> ipc_entry_claim space;
     space \<leftarrow> ipc_entry_dealloc space name entry;
     (names, space) \<leftarrow> name_cycle n space;
     Some (name # names, space) }"

lemma claim_dealloc:
  assumes wf: "space_wf sp (i # L) X"
  shows "\<exists>sp1 sp2. ipc_entry_claim sp = Some (sp1, MACH_PORT_MAKE i (IE_BITS_NEW_GEN (ie_bits (is_table sp ! i))), i)
    \<and> ipc_entry_dealloc sp1 (MACH_PORT_MAKE i (IE_BITS_NEW_GEN (ie_bits (is_table sp ! i)))) i = Some sp2
    \<and> space_wf sp2 (i # L) X \<and> ie_bits (is_table sp2 ! i) = IE_BITS_NEW_GEN (ie_bits (is_table sp ! i))"
proof -
  let ?t = "is_table sp" and ?g = "IE_BITS_NEW_GEN (ie_bits (is_table sp ! i))"
  define sp1 where "sp1 = sp\<lparr>is_table_free := is_table_free sp - 1,
      is_table := ?t[0 := (?t ! 0)\<lparr>ie_request := ie_next (?t ! i)\<rparr>,
                     i := (?t ! i)\<lparr>ie_bits := ?g, ie_request := IE_REQ_NONE\<rparr>]\<rparr>"
  have c: "ipc_entry_claim sp = Some (sp1, MACH_PORT_MAKE i ?g, i)"
    using ipc_entry_claim_spec [OF wf] by (simp add: sp1_def)
  note cw = ipc_entry_claim_wf [OF wf c]
  have w1: "table_wf (is_table sp1) L (insert i X)" and f1: "is_table_free sp1 = of_nat (length L)"
    using cw(1) by (simp_all add: space_wf_def)
  have tb: "table_base (is_table sp1) L (insert i X)" using w1 by (rule table_wfD)
  have i: "i < length ?t" "0 < i" using space_wf_hd_claimed [OF wf] by simp_all
  then have l1: "i < length (is_table sp1)" by (simp add: sp1_def)
  note h = table_base_held [OF tb l1, simplified]
  have nx: "i \<notin> X" using space_wf_hd_claimed(1) [OF wf] by simp
  have e: "is_table sp1 ! i = (?t ! i)\<lparr>ie_bits := ?g, ie_request := IE_REQ_NONE\<rparr>" using i by (simp add: sp1_def)
  have "i \<notin> send_slots (is_table sp1)" using h(1) by (simp add: send_slots_def held_entry_def)
  then have hw: "hash_wf (is_table sp1) (send_slots (is_table sp1) - {i})" using table_wfD(2) [OF w1] by simp
  have pay: "same_payload ((is_table sp1)[i := is_table sp1 ! i]) (is_table sp1)" by (simp add: same_payload_def)
  obtain sp2 where "ipc_entry_dealloc sp1 (MACH_PORT_MAKE i ?g) i = Some sp2" "space_wf sp2 (i # L) (insert i X - {i})"
      "ie_bits (is_table sp2 ! i) = IE_BITS_GEN (ie_bits (is_table sp1 ! i))"
    using ipc_entry_dealloc_spec [OF tb pay hw h(2) l1 h(3) _ _ cw(3) f1] h(1) by (auto simp: held_entry_def)
  then show ?thesis using c nx e by auto
qed

lemma name_cycle_names:
  assumes "space_wf sp (i # L) X" "g = ie_bits (is_table sp ! i)"
  shows "\<exists>sp'. name_cycle n sp = Some (map (\<lambda>m. MACH_PORT_MAKE i ((IE_BITS_NEW_GEN ^^ Suc m) g)) [0..<n], sp')
    \<and> space_wf sp' (i # L) X"
  using assms
proof (induction n arbitrary: sp g)
  case (Suc n)
  obtain sp1 sp2 where c: "ipc_entry_claim sp = Some (sp1, MACH_PORT_MAKE i (IE_BITS_NEW_GEN g), i)"
      "ipc_entry_dealloc sp1 (MACH_PORT_MAKE i (IE_BITS_NEW_GEN g)) i = Some sp2" "space_wf sp2 (i # L) X"
      "IE_BITS_NEW_GEN g = ie_bits (is_table sp2 ! i)"
    using claim_dealloc [OF Suc.prems(1), folded Suc.prems(2)] by metis
  have "map (\<lambda>m. MACH_PORT_MAKE i ((IE_BITS_NEW_GEN ^^ Suc m) g)) [0..<Suc n]
      = MACH_PORT_MAKE i (IE_BITS_NEW_GEN g)
        # map (\<lambda>m. MACH_PORT_MAKE i ((IE_BITS_NEW_GEN ^^ Suc m) (IE_BITS_NEW_GEN g))) [0..<n]"
    by (simp add: upt_conv_Cons map_Suc_upt [symmetric] funpow_swap1 del: upt_Suc)
  then show ?case using Suc.IH [OF c(3,4)] c(1,2) by auto
qed simp

lemma new_gen_eq_iff:
  "(IE_BITS_NEW_GEN ^^ m) (IE_BITS_GEN g) = (IE_BITS_NEW_GEN ^^ n) (IE_BITS_GEN g) \<longleftrightarrow> m mod 64 = n mod 64"
proof -
  have "(IE_BITS_NEW_GEN ^^ m) (IE_BITS_GEN g) = (IE_BITS_NEW_GEN ^^ n) (IE_BITS_GEN g)
      \<longleftrightarrow> of_nat (m * 2 ^ 26) = (of_nat (n * 2 ^ 26) :: natural_t)"
    by (simp add: new_gen_iterate)
  also have "\<dots> \<longleftrightarrow> (m * 2 ^ 26) mod 2 ^ 32 = (n * 2 ^ 26) mod 2 ^ 32"
    by (simp only: word_of_nat_eq_iff take_bit_eq_mod) simp
  also have "\<dots> \<longleftrightarrow> (m mod 64) * 2 ^ 26 = (n mod 64) * 2 ^ 26"
    using mult_mod_left [of m 64 "2 ^ 26"] mult_mod_left [of n 64 "2 ^ 26"] by simp
  finally show ?thesis by simp
qed

lemma mod_Suc_eq: "Suc l mod 64 = Suc m mod 64 \<longleftrightarrow> l mod 64 = m mod 64"
  by (auto simp: mod_Suc split: if_splits)

text \<open>
  C15. A name that has been given up does not come back soon. However often the first free slot
  of a table is claimed and released, 64 successive names are all different; and not more: the
  65th is the first again.
\<close>

theorem name_reuse_distance:
  assumes wf: "space_wf sp (i # L) X"
  shows "\<exists>names sp'. name_cycle n sp = Some (names, sp') \<and> space_wf sp' (i # L) X \<and> length names = n
    \<and> (\<forall>m < n. MACH_PORT_INDEX (names ! m) = i \<and> MACH_PORT_VALID (names ! m))
    \<and> (\<forall>l < n. \<forall>m < n. names ! l = names ! m \<longleftrightarrow> l mod 64 = m mod 64)"
proof -
  define g where "g = ie_bits (is_table sp ! i)"
  let ?N = "\<lambda>m. MACH_PORT_MAKE i ((IE_BITS_NEW_GEN ^^ Suc m) g)"
  obtain sp' where s: "name_cycle n sp = Some (map ?N [0..<n], sp')" "space_wf sp' (i # L) X"
    using name_cycle_names [OF wf g_def] by blast
  have tw: "table_wf (is_table sp) (i # L) X" using wf by (simp add: space_wf_def)
  have i: "0 < i" "i < 2 ^ 24 - 1"
    using freelist_bounds [OF table_wfD(4) [OF tw], of i] table_wfD(3) [OF tw] by auto
  have free: "IE_BITS_GEN g = g"
    using table_base_free [OF table_wfD(1) [OF tw], of i] by (simp add: free_entry_def g_def)
  have gen: "IE_BITS_GEN ((IE_BITS_NEW_GEN ^^ Suc m) g) = (IE_BITS_NEW_GEN ^^ Suc m) g" for m by simp
  have eq: "(IE_BITS_NEW_GEN ^^ Suc l) g = (IE_BITS_NEW_GEN ^^ Suc m) g \<longleftrightarrow> l mod 64 = m mod 64" for l m
    using new_gen_eq_iff [of "Suc l" g "Suc m"] free by (simp add: mod_Suc_eq del: funpow.simps)
  have "?N l = ?N m \<longleftrightarrow> l mod 64 = m mod 64" for l m
    using i eq [of l m] by (simp add: name_eq_iff [of "MACH_PORT_MAKE _ _"])
  moreover have "MACH_PORT_INDEX (?N m) = i \<and> MACH_PORT_VALID (?N m)" for m
    using i MACH_PORT_MAKE_valid [of i] by simp
  ultimately show ?thesis using s by (intro exI [of _ "map ?N [0..<n]"] exI [of _ sp']) simp
qed

theorem name_reuse_distance_witness:
  "\<exists>names sp'. name_cycle 65 (ipc_space_initial 0x1000 2 1) = Some (names, sp') \<and> length names = 65
     \<and> names ! 0 \<noteq> names ! 63 \<and> names ! 0 = names ! 64"
proof -
  have "[1..<2] = [1 :: nat]" by (simp add: upt_rec)
  then have wf: "space_wf (ipc_space_initial 0x1000 2 1) (1 # []) {}"
    using ipc_space_initial_wf [of 2 "0x1000" 1] by simp
  show ?thesis
    using name_reuse_distance [OF wf, of 65] by fastforce
qed

subsection \<open>The reverse hash table\<close>

text \<open>
  C13. The reverse hash table with linear probing is a finite map from objects to slots: lookup
  always returns and finds the slot of the object or nothing, inserting a new object is the
  update of the map, and deleting an object, which moves other entries along the probe
  sequence, removes just that object.
\<close>

theorem ipc_hash_table_refines_map:
  assumes good: "hash_good t"
  shows "hash_look t obj = Some (hash_map t obj)
    \<and> (hash_map t obj = None \<and> hash_accepts t obj i \<longrightarrow>
        (\<exists>t'. ipc_hash_table_insert t (length t) obj i = Some t' \<and> hash_good t'
           \<and> hash_map t' = (hash_map t)(obj \<mapsto> i)))
    \<and> (hash_map t obj = Some i \<longrightarrow>
        (\<exists>t'. ipc_hash_table_delete t (length t) obj i = Some t' \<and> hash_good t'
           \<and> hash_map t' = (hash_map t)(obj := None)))"
  using ipc_hash.look_abs [OF good] ipc_hash.ins_abs [OF good] ipc_hash.del_abs [OF good] by blast

definition hash_example :: ipc_table where
  "hash_example = [\<lparr>ie_object = 0, ie_bits = 0, ie_index = 0, ie_request = 0\<rparr>,
     \<lparr>ie_object = 0x40, ie_bits = 0x00010001, ie_index = 0, ie_request = 0\<rparr>,
     \<lparr>ie_object = 0x100, ie_bits = 0x00010001, ie_index = 0, ie_request = 0\<rparr>]"

lemma hash_example_good: "hash_good hash_example" "hash_map hash_example obj = None"
    "hash_accepts hash_example 0x40 1"
proof -
  have e: "hashed hash_example = {}" by (simp add: hashed_def hash_example_def)
  have "ie_index (hash_example ! h) = 0" if "h < 3" for h
  proof -
    have "h \<in> {0, 1, 2}" using that by auto
    then show ?thesis by (auto simp: hash_example_def)
  qed
  then have "hash_wf hash_example {}" by (simp add: hash_wf_def hash_example_def)
  then show "hash_good hash_example" using e by (simp add: hash_good_def hash_example_def)
  show "hash_map hash_example obj = None" using e by (simp add: hash_map_None_iff)
  show "hash_accepts hash_example 0x40 1" using e by (simp add: hash_accepts_def hash_example_def IO_NULL_def)
qed

theorem ipc_hash_table_refines_map_witness:
  "\<exists>t'. ipc_hash_table_insert hash_example 3 0x40 1 = Some t' \<and> hash_map t' 0x40 = Some 1 \<and> hash_look t' 0x40 = Some (Some 1)"
proof -
  have len: "length hash_example = 3" by (simp add: hash_example_def)
  obtain t' where t': "ipc_hash_table_insert hash_example 3 0x40 1 = Some t'" "hash_good t'"
      "hash_map t' = (hash_map hash_example)(0x40 \<mapsto> 1)"
    using ipc_hash_table_refines_map [OF hash_example_good(1)] hash_example_good(2,3) unfolding len by blast
  then show ?thesis using ipc_hash_table_refines_map [OF t'(2), of "0x40"] by auto
qed



subsection \<open>Entries with given names\<close>



end
