(* ===== verification/Ipc_Kmsg.thy ===== *)
theory Ipc_Kmsg
  imports Ipc_Object Kmsg_Queue
begin

text \<open>
  The port rights in the header of a message and in its port descriptors: copyin when a message is
  sent and copyout when it is received (\<open>osfmk/ipc/ipc_kmsg.c\<close>).

  A message that comes from a task has names in the port fields of its header; copyin replaces
  them by addresses of ports, copyout goes the other way. An entry of the table is its index, and
  \<open>IE_NULL\<close> is \<open>None\<close>. The rights of the header are copied in under one lock of the space, so the
  routine is one function; the labels \<open>invalid_dest\<close> and \<open>invalid_reply\<close>, which release what has
  been picked up so far, are its common exit.
\<close>

unbundle bit_operations_syntax

subsection \<open>Bits of the header\<close>

abbreviation (input) MACH_MSGH_BITS_ZERO :: natural_t where
  "MACH_MSGH_BITS_ZERO \<equiv> 0x00000000"

abbreviation (input) MACH_MSGH_BITS_PORTS_MASK :: natural_t where
  "MACH_MSGH_BITS_PORTS_MASK \<equiv> 0x001f1f1f"

abbreviation (input) MACH_MSGH_BITS_USER :: natural_t where
  "MACH_MSGH_BITS_USER \<equiv> 0x801f1f1f"

abbreviation (input) MACH_MSGH_BITS_CIRCULAR :: natural_t where
  "MACH_MSGH_BITS_CIRCULAR \<equiv> 0x10000000"

abbreviation (input) MACH_SEND_NOTIFY :: natural_t where
  "MACH_SEND_NOTIFY \<equiv> 0x00000080"

abbreviation (input) MACH_SEND_ALWAYS :: natural_t where
  "MACH_SEND_ALWAYS \<equiv> 0x00010000"

abbreviation (input) MACH_RCV_VOUCHER :: natural_t where
  "MACH_RCV_VOUCHER \<equiv> 0x00000800"

abbreviation (input) IKOT_VOUCHER :: natural_t where
  "IKOT_VOUCHER \<equiv> 37"

definition MACH_MSGH_BITS_REMOTE :: "natural_t \<Rightarrow> natural_t" where
  "MACH_MSGH_BITS_REMOTE bits = bits AND 0x1f"

definition MACH_MSGH_BITS_LOCAL :: "natural_t \<Rightarrow> natural_t" where
  "MACH_MSGH_BITS_LOCAL bits = drop_bit 8 (bits AND 0x1f00)"

definition MACH_MSGH_BITS_VOUCHER :: "natural_t \<Rightarrow> natural_t" where
  "MACH_MSGH_BITS_VOUCHER bits = drop_bit 16 (bits AND 0x1f0000)"

definition MACH_MSGH_BITS_SET_PORTS :: "natural_t \<Rightarrow> natural_t \<Rightarrow> natural_t \<Rightarrow> natural_t" where
  "MACH_MSGH_BITS_SET_PORTS remote local voucher =
     (remote AND 0x1f) OR (push_bit 8 local AND 0x1f00) OR (push_bit 16 voucher AND 0x1f0000)"

definition MACH_MSGH_BITS_SET :: "natural_t \<Rightarrow> natural_t \<Rightarrow> natural_t \<Rightarrow> natural_t \<Rightarrow> natural_t" where
  "MACH_MSGH_BITS_SET remote local voucher other_bits =
     MACH_MSGH_BITS_SET_PORTS remote local voucher OR (other_bits AND NOT MACH_MSGH_BITS_PORTS_MASK)"

definition MACH_MSGH_BITS :: "natural_t \<Rightarrow> natural_t \<Rightarrow> natural_t" where
  "MACH_MSGH_BITS remote local = remote OR push_bit 8 local"

definition MACH_MSGH_BITS_OTHER :: "natural_t \<Rightarrow> natural_t" where
  "MACH_MSGH_BITS_OTHER bits = bits AND NOT MACH_MSGH_BITS_PORTS_MASK"

text \<open>The numbers of the dispositions in \<open>mach/message.h\<close>; \<open>MACH_MSG_TYPE_PORT_NONE\<close> is 0.\<close>

fun msgt_value :: "mach_msg_type_name \<Rightarrow> natural_t" where
  "msgt_value MACH_MSG_TYPE_MOVE_RECEIVE = 16"
| "msgt_value MACH_MSG_TYPE_MOVE_SEND = 17"
| "msgt_value MACH_MSG_TYPE_MOVE_SEND_ONCE = 18"
| "msgt_value MACH_MSG_TYPE_COPY_SEND = 19"
| "msgt_value MACH_MSG_TYPE_MAKE_SEND = 20"
| "msgt_value MACH_MSG_TYPE_MAKE_SEND_ONCE = 21"
| "msgt_value MACH_MSG_TYPE_COPY_RECEIVE = 22"
| "msgt_value MACH_MSG_TYPE_DISPOSE_RECEIVE = 24"
| "msgt_value MACH_MSG_TYPE_DISPOSE_SEND = 25"
| "msgt_value MACH_MSG_TYPE_DISPOSE_SEND_ONCE = 26"
| "msgt_value MACH_MSG_TYPE_PORT_NONE = 0"

text \<open>A number that is no disposition is refused before it is used as one.\<close>

definition msgt_of :: "natural_t \<Rightarrow> mach_msg_type_name" where
  "msgt_of t =
     (if t = 16 then MACH_MSG_TYPE_MOVE_RECEIVE else if t = 17 then MACH_MSG_TYPE_MOVE_SEND
      else if t = 18 then MACH_MSG_TYPE_MOVE_SEND_ONCE else if t = 19 then MACH_MSG_TYPE_COPY_SEND
      else if t = 20 then MACH_MSG_TYPE_MAKE_SEND else if t = 21 then MACH_MSG_TYPE_MAKE_SEND_ONCE
      else if t = 22 then MACH_MSG_TYPE_COPY_RECEIVE else if t = 24 then MACH_MSG_TYPE_DISPOSE_RECEIVE
      else if t = 25 then MACH_MSG_TYPE_DISPOSE_SEND else if t = 26 then MACH_MSG_TYPE_DISPOSE_SEND_ONCE
      else MACH_MSG_TYPE_PORT_NONE)"

definition MACH_MSG_TYPE_PORT_ANY_SEND :: "natural_t \<Rightarrow> bool" where
  "MACH_MSG_TYPE_PORT_ANY_SEND t \<longleftrightarrow> t \<ge> msgt_value MACH_MSG_TYPE_MOVE_SEND \<and> t \<le> msgt_value MACH_MSG_TYPE_MAKE_SEND_ONCE"

definition CAST_MACH_PORT_TO_NAME :: "addr \<Rightarrow> mach_port_name_t" where
  "CAST_MACH_PORT_TO_NAME x = ucast x"

definition CAST_MACH_NAME_TO_PORT :: "mach_port_name_t \<Rightarrow> addr" where
  "CAST_MACH_NAME_TO_PORT x = (if x = MACH_PORT_DEAD then IP_DEAD else ucast x)"

definition io_kotype :: "natural_t \<Rightarrow> natural_t" where
  "io_kotype bits = bits AND IO_BITS_KOTYPE"

subsection \<open>Copyin of the header\<close>

text \<open>
  What has been picked up for the header: the ports for destination, reply and voucher, with the
  send-once rights for port-deleted notifications and the ports to release.
\<close>

record header_rights =
  dest_port :: addr
  reply_port :: addr
  voucher_port :: addr
  dest_soright :: addr
  reply_soright :: addr
  voucher_soright :: addr
  release_port :: addr
  voucher_release_port :: addr

definition no_rights :: header_rights where
  "no_rights = \<lparr>dest_port = IO_NULL, reply_port = IO_NULL, voucher_port = IP_NULL, dest_soright = IP_NULL,
     reply_soright = IP_NULL, voucher_soright = IP_NULL, release_port = IP_NULL, voucher_release_port = IP_NULL\<rparr>"

text \<open>
  The check of the voucher: its name (\<open>MACH_PORT_NULL\<close> if there is none), the disposition and the
  entry.
\<close>

definition copyin_header_voucher ::
    "ipc_space \<Rightarrow> natural_t \<Rightarrow> mach_port_name_t \<Rightarrow> kern \<Rightarrow> (mach_msg_return + mach_port_name_t \<times> natural_t \<times> nat option) option" where
  "copyin_header_voucher space voucher_type msgh_voucher k =
     (if voucher_type = MACH_MSGH_BITS_ZERO then Some (Inr (MACH_PORT_NULL, voucher_type, None))
      else
        let voucher_name = msgh_voucher in
        if voucher_name = MACH_PORT_DEAD \<or>
           voucher_type \<noteq> msgt_value MACH_MSG_TYPE_MOVE_SEND \<and> voucher_type \<noteq> msgt_value MACH_MSG_TYPE_COPY_SEND
        then Some (Inl MACH_SEND_INVALID_VOUCHER)
        else if voucher_name \<noteq> MACH_PORT_NULL then
          (case ipc_entry_lookup space voucher_name of
             None \<Rightarrow> Some (Inl MACH_SEND_INVALID_VOUCHER)
           | Some entry \<Rightarrow>
               if ie_bits (ent space entry) AND MACH_PORT_TYPE_SEND = 0 then Some (Inl MACH_SEND_INVALID_VOUCHER)
               else do {
                 bits \<leftarrow> io_bits_at k (ie_object (ent space entry));
                 Some (if io_kotype bits \<noteq> IKOT_VOUCHER then Inl MACH_SEND_INVALID_VOUCHER
                       else Inr (voucher_name, voucher_type, Some entry)) })
        else Some (Inr (voucher_name, msgt_value MACH_MSG_TYPE_MOVE_SEND, None)))"

text \<open>The validation of the reply port before anything is copied in.\<close>

definition copyin_header_check_reply ::
    "ipc_space \<Rightarrow> mach_port_name_t \<Rightarrow> natural_t \<Rightarrow> mach_port_name_t \<Rightarrow> kern \<Rightarrow> (unit + nat option) option" where
  "copyin_header_check_reply space reply_name reply_type voucher_name k =
     (if \<not> MACH_PORT_VALID reply_name then Some (Inr None)
      else if reply_name = voucher_name then Some (Inl ())
      else case ipc_entry_lookup space reply_name of
        None \<Rightarrow> Some (Inl ())
      | Some entry \<Rightarrow> do {
          ok \<leftarrow> ipc_right_copyin_check space entry (msgt_of reply_type) k;
          Some (if ok then Inr (Some entry) else Inl ()) })"

text \<open>
  The copyin of a right that has been validated. The result code is only looked at by assertions,
  so the output parameters stay as they are if it fails.
\<close>

definition copyin_header_reply ::
    "ipc_space \<Rightarrow> mach_port_name_t \<Rightarrow> nat \<Rightarrow> natural_t \<Rightarrow> header_rights \<Rightarrow> kern \<Rightarrow> (header_rights \<times> ipc_space \<times> kern) option" where
  "copyin_header_reply space reply_name entry reply_type h k = do {
     (r, release, space, k) \<leftarrow> ipc_right_copyin space reply_name entry (msgt_of reply_type) True k;
     Some ((case r of
              Inr (object, soright) \<Rightarrow> h\<lparr>reply_port := object, reply_soright := soright, release_port := release\<rparr>
            | Inl _ \<Rightarrow> h\<lparr>release_port := release\<rparr>), space, k) }"

definition copyin_header_send_voucher ::
    "ipc_space \<Rightarrow> mach_port_name_t \<Rightarrow> nat option \<Rightarrow> natural_t \<Rightarrow> header_rights \<Rightarrow> kern \<Rightarrow> (header_rights \<times> ipc_space \<times> kern) option" where
  "copyin_header_send_voucher space voucher_name voucher_entry voucher_type h k =
     (case voucher_entry of
        None \<Rightarrow> Some (h, space, k)
      | Some entry \<Rightarrow> do {
          (r, release, space, k) \<leftarrow> ipc_right_copyin space voucher_name entry (msgt_of voucher_type) False k;
          Some ((case r of
                   Inr (object, soright) \<Rightarrow> h\<lparr>voucher_port := object, voucher_soright := soright, voucher_release_port := release\<rparr>
                 | Inl _ \<Rightarrow> h\<lparr>voucher_release_port := release\<rparr>), space, k) })"

text \<open>
  The three ways to copy in destination and reply. An error is the code and the port to release;
  otherwise the entries of destination and reply and what was picked up.
\<close>

type_synonym header_copyin =
  "((mach_msg_return \<times> addr + nat \<times> nat option \<times> header_rights) \<times> ipc_space \<times> kern) option"

definition copyin_header_dest_is_voucher ::
    "ipc_space \<Rightarrow> mach_port_name_t \<Rightarrow> natural_t \<Rightarrow> mach_port_name_t \<Rightarrow> natural_t \<Rightarrow> natural_t \<Rightarrow> nat option \<Rightarrow> kern \<Rightarrow> header_copyin" where
  "copyin_header_dest_is_voucher space dest_name dest_type reply_name reply_type voucher_type voucher_entry k =
     (case voucher_entry of
        None \<Rightarrow> Some (Inl (MACH_SEND_INVALID_DEST, IP_NULL), space, k)
      | Some dest_entry \<Rightarrow> do {
          c \<leftarrow> copyin_header_check_reply space reply_name reply_type dest_name k;
          (case c of
             Inl _ \<Rightarrow> Some (Inl (MACH_SEND_INVALID_REPLY, IP_NULL), space, k)
           | Inr reply_entry \<Rightarrow> do {
               (r, release, space, k) \<leftarrow>
                 ipc_right_copyin_two space dest_name dest_entry (msgt_of dest_type) (msgt_of voucher_type) k;
               (case r of
                  Inl kr \<Rightarrow> Some (Inl (MACH_SEND_INVALID_DEST, release), space, k)
                | Inr (object, soright) \<Rightarrow> do {
                    let h = no_rights\<lparr>dest_port := object, dest_soright := soright, release_port := release, voucher_port := object\<rparr>;
                    (h, space, k) \<leftarrow> (case reply_entry of
                        None \<Rightarrow> Some (h, space, k)
                      | Some entry \<Rightarrow> copyin_header_reply space reply_name entry reply_type h k);
                    Some (Inr (dest_entry, reply_entry, h), space, k) }) }) })"

definition copyin_header_dest_is_reply ::
    "ipc_space \<Rightarrow> mach_port_name_t \<Rightarrow> natural_t \<Rightarrow> natural_t \<Rightarrow> kern \<Rightarrow> header_copyin" where
  "copyin_header_dest_is_reply space dest_name dest_type reply_type k =
     (case ipc_entry_lookup space dest_name of
        None \<Rightarrow> Some (Inl (MACH_SEND_INVALID_DEST, IP_NULL), space, k)
      | Some dest_entry \<Rightarrow> do {
          (r, release, space, k) \<leftarrow>
            ipc_right_copyin_two space dest_name dest_entry (msgt_of dest_type) (msgt_of reply_type) k;
          Some ((case r of
                   Inl kr \<Rightarrow>
                     Inl (if kr = KERN_INVALID_CAPABILITY then MACH_SEND_INVALID_REPLY else MACH_SEND_INVALID_DEST, release)
                 | Inr (object, soright) \<Rightarrow>
                     Inr (dest_entry, Some dest_entry,
                       no_rights\<lparr>dest_port := object, dest_soright := soright, release_port := release, reply_port := object\<rparr>)),
                space, k) })"

definition copyin_header_dest_and_reply ::
    "ipc_space \<Rightarrow> mach_port_name_t \<Rightarrow> natural_t \<Rightarrow> mach_port_name_t \<Rightarrow> natural_t \<Rightarrow> mach_port_name_t \<Rightarrow> kern \<Rightarrow> header_copyin" where
  "copyin_header_dest_and_reply space dest_name dest_type reply_name reply_type voucher_name k =
     (case ipc_entry_lookup space dest_name of
        None \<Rightarrow> Some (Inl (MACH_SEND_INVALID_DEST, IP_NULL), space, k)
      | Some dest_entry \<Rightarrow> do {
          c \<leftarrow> copyin_header_check_reply space reply_name reply_type voucher_name k;
          (case c of
             Inl _ \<Rightarrow> Some (Inl (MACH_SEND_INVALID_REPLY, IP_NULL), space, k)
           | Inr reply_entry \<Rightarrow> do {
               (r, release, space, k) \<leftarrow> ipc_right_copyin space dest_name dest_entry (msgt_of dest_type) False k;
               (case r of
                  Inl kr \<Rightarrow> Some (Inl (MACH_SEND_INVALID_DEST, release), space, k)
                | Inr (object, soright) \<Rightarrow> do {
                    let h = no_rights\<lparr>dest_port := object, dest_soright := soright, release_port := release\<rparr>;
                    (h, space, k) \<leftarrow> (case reply_entry of
                        None \<Rightarrow> Some (h\<lparr>reply_port := CAST_MACH_NAME_TO_PORT reply_name\<rparr>, space, k)
                      | Some entry \<Rightarrow> copyin_header_reply space reply_name entry reply_type h k);
                    Some (Inr (dest_entry, reply_entry, h), space, k) }) }) })"

text \<open>
  An entry that has lost its last right is deallocated. The second and the third test compare
  with the variable \<open>dest_entry\<close>, which is \<open>IE_NULL\<close> by then if the entry of the destination has
  been deallocated.
\<close>

definition copyin_header_dealloc_dest ::
    "ipc_space \<Rightarrow> mach_port_name_t \<Rightarrow> nat \<Rightarrow> (nat option \<times> ipc_space) option" where
  "copyin_header_dealloc_dest space dest_name dest_entry =
     (if IE_BITS_TYPE (ie_bits (ent space dest_entry)) = MACH_PORT_TYPE_NONE then do {
        space \<leftarrow> ipc_entry_dealloc space dest_name dest_entry;
        Some (None, space) }
      else Some (Some dest_entry, space))"

definition copyin_header_dealloc_other ::
    "ipc_space \<Rightarrow> mach_port_name_t \<Rightarrow> nat option \<Rightarrow> nat option \<Rightarrow> ipc_space option" where
  "copyin_header_dealloc_other space name entry dest_entry =
     (case entry of
        None \<Rightarrow> Some space
      | Some e \<Rightarrow>
          if dest_entry \<noteq> entry \<and> IE_BITS_TYPE (ie_bits (ent space e)) = MACH_PORT_TYPE_NONE
          then ipc_entry_dealloc space name e else Some space)"

text \<open>Arming a send-possible notification; the result is the updated option word.\<close>

definition copyin_header_arm_notify ::
    "ipc_space \<Rightarrow> nat option \<Rightarrow> addr \<Rightarrow> mach_msg_type_name \<Rightarrow> natural_t \<Rightarrow> kern \<Rightarrow> (natural_t \<times> kern) option" where
  "copyin_header_arm_notify space dest_entry dport dest_type option k =
     (case dest_entry of
        None \<Rightarrow> Some (option, k)
      | Some e \<Rightarrow>
          if option AND MACH_SEND_NOTIFY \<noteq> 0 \<and> dest_type \<noteq> MACH_MSG_TYPE_PORT_SEND_ONCE \<and> ie_request (ent space e) \<noteq> IE_REQ_NONE
          then do {
            p \<leftarrow> port_at k dport;
            (if ip_active p \<and> ip_receiver p \<noteq> k_space_kernel k then
               (if ip_full p then do {
                  (armed, p) \<leftarrow> ipc_port_request_sparm p (ie_request (ent space e));
                  Some (option, put_port dport p k) }
                else Some (option OR MACH_SEND_ALWAYS, k))
             else Some (option, k)) }
          else Some (option, k))"

text \<open>From the copied-in rights to the new header; \<open>mbits\<close> are the bits the sender gave.\<close>

definition copyin_header_finish ::
    "ipc_kmsg \<Rightarrow> natural_t \<Rightarrow> mach_port_name_t \<Rightarrow> mach_port_name_t \<Rightarrow> mach_port_name_t \<Rightarrow> natural_t \<Rightarrow> nat option
       \<Rightarrow> nat \<Rightarrow> nat option \<Rightarrow> header_rights \<Rightarrow> natural_t \<Rightarrow> ipc_space \<Rightarrow> kern
       \<Rightarrow> (mach_msg_return \<times> ipc_kmsg \<times> natural_t \<times> ipc_space \<times> kern) option" where
  "copyin_header_finish kmsg mbits dest_name reply_name voucher_name voucher_type voucher_entry dest_entry reply_entry h option space k = do {
     (dest_entry, space) \<leftarrow> copyin_header_dealloc_dest space dest_name dest_entry;
     space \<leftarrow> copyin_header_dealloc_other space reply_name reply_entry dest_entry;
     space \<leftarrow> copyin_header_dealloc_other space voucher_name voucher_entry dest_entry;
     let (kmsg, voucher_type) =
       (if IP_VALID (voucher_port h) then (kmsg\<lparr>ikm_voucher := voucher_port h\<rparr>, msgt_value MACH_MSG_TYPE_MOVE_SEND)
        else (kmsg, voucher_type));
     let dest_type = ipc_object_copyin_type (msgt_of (MACH_MSGH_BITS_REMOTE mbits));
     let reply_type = ipc_object_copyin_type (msgt_of (MACH_MSGH_BITS_LOCAL mbits));
     (option, k) \<leftarrow> copyin_header_arm_notify space dest_entry (dest_port h) dest_type option k;
     let k = notify_port_deleted_if (dest_soright h) dest_name k;
     let k = notify_port_deleted_if (reply_soright h) reply_name k;
     let k = notify_port_deleted_if (voucher_soright h) voucher_name k;
     let msg = (ikm_header kmsg)
       \<lparr>msgh_bits := MACH_MSGH_BITS_SET (msgt_value dest_type) (msgt_value reply_type) voucher_type mbits,
        msgh_remote_port := dest_port h, msgh_local_port := reply_port h\<rparr>;
     k \<leftarrow> (if release_port h \<noteq> IP_NULL then ip_release (release_port h) k else Some k);
     k \<leftarrow> (if voucher_release_port h \<noteq> IP_NULL then ip_release (voucher_release_port h) k else Some k);
     Some (MACH_MSG_SUCCESS, kmsg\<lparr>ikm_header := msg\<rparr>, option, space, k) }"

definition ipc_kmsg_copyin_header ::
    "ipc_kmsg \<Rightarrow> ipc_space \<Rightarrow> natural_t \<Rightarrow> kern \<Rightarrow> (mach_msg_return \<times> ipc_kmsg \<times> natural_t \<times> ipc_space \<times> kern) option" where
  "ipc_kmsg_copyin_header kmsg space option k =
     (let msg = ikm_header kmsg;
          mbits = msgh_bits msg AND MACH_MSGH_BITS_USER;
          dest_name = CAST_MACH_PORT_TO_NAME (msgh_remote_port msg);
          reply_name = CAST_MACH_PORT_TO_NAME (msgh_local_port msg);
          dest_type = MACH_MSGH_BITS_REMOTE mbits;
          reply_type = MACH_MSGH_BITS_LOCAL mbits;
          fail = (\<lambda>mr space k. Some (mr, kmsg, option, space, k))
      in if mbits \<noteq> msgh_bits msg \<or> \<not> MACH_MSG_TYPE_PORT_ANY_SEND dest_type
            \<or> (if reply_type = 0 then reply_name \<noteq> MACH_PORT_NULL else \<not> MACH_MSG_TYPE_PORT_ANY_SEND reply_type)
         then fail MACH_SEND_INVALID_HEADER space k
         else if \<not> MACH_PORT_VALID dest_name \<or> \<not> is_active space then fail MACH_SEND_INVALID_DEST space k
         else do {
           v \<leftarrow> copyin_header_voucher space (MACH_MSGH_BITS_VOUCHER mbits) (msgh_voucher_port msg) k;
           (case v of
              Inl mr \<Rightarrow> fail mr space k
            | Inr (voucher_name, voucher_type, voucher_entry) \<Rightarrow> do {
                (r, space, k) \<leftarrow>
                  (if dest_name = voucher_name
                   then copyin_header_dest_is_voucher space dest_name dest_type reply_name reply_type voucher_type voucher_entry k
                   else do {
                     (r, space, k) \<leftarrow>
                       (if dest_name = reply_name
                        then copyin_header_dest_is_reply space dest_name dest_type reply_type k
                        else copyin_header_dest_and_reply space dest_name dest_type reply_name reply_type voucher_name k);
                     (case r of
                        Inl e \<Rightarrow> Some (Inl e, space, k)
                      | Inr (dest_entry, reply_entry, h) \<Rightarrow> do {
                          (h, space, k) \<leftarrow> copyin_header_send_voucher space voucher_name voucher_entry voucher_type h k;
                          Some (Inr (dest_entry, reply_entry, h), space, k) }) });
                (case r of
                   Inl (mr, release) \<Rightarrow> do {
                     k \<leftarrow> (if release \<noteq> IP_NULL then ip_release release k else Some k);
                     fail mr space k }
                 | Inr (dest_entry, reply_entry, h) \<Rightarrow>
                     copyin_header_finish kmsg mbits dest_name reply_name voucher_name voucher_type voucher_entry
                       dest_entry reply_entry h option space k) }) })"

subsection \<open>Copyout of the header\<close>

text \<open>Reading the 32-bit member \<open>timestamp\<close> of the union of a dead port.\<close>

definition ip_timestamp :: "ipc_port \<Rightarrow> natural_t" where
  "ip_timestamp port = ucast (ip_data port)"

text \<open>The bits that refine an error of a receive.\<close>

abbreviation (input) MACH_MSG_IPC_SPACE :: natural_t where
  "MACH_MSG_IPC_SPACE \<equiv> 0x00002000"

abbreviation (input) MACH_MSG_IPC_KERNEL :: natural_t where
  "MACH_MSG_IPC_KERNEL \<equiv> 0x00000800"

text \<open>
  The loop that reserves entries, before anything else is done: the table grows until there are
  enough. The result tells whether it succeeded.
\<close>

partial_function (option) copyout_header_hold ::
    "nat list \<Rightarrow> (nat \<Rightarrow> bool) \<Rightarrow> nat \<Rightarrow> ipc_space \<Rightarrow> (bool \<times> ipc_space) option" where
  "copyout_header_hold sizes kalloc_ok entries_held space =
     (if entries_held = 0 then Some (True, space)
      else if \<not> is_active space then Some (False, space)
      else do {
        kr \<leftarrow> ipc_entries_hold space entries_held;
        (if kr = KERN_SUCCESS then Some (True, space)
         else do {
           (kr, space) \<leftarrow> ipc_entry_grow_table sizes kalloc_ok space None;
           (if kr \<noteq> KERN_SUCCESS then Some (False, space)
            else copyout_header_hold sizes kalloc_ok entries_held space) }) })"

text \<open>
  The reply port: the new value of \<open>reply\<close>, the name, and the port to release if it was dead.
\<close>

definition copyout_header_reply ::
    "ipc_space \<Rightarrow> addr \<Rightarrow> mach_msg_type_name \<Rightarrow> kern \<Rightarrow> (addr \<times> mach_port_name_t \<times> addr \<times> ipc_space \<times> kern) option" where
  "copyout_header_reply space reply reply_type k =
     (if \<not> IP_VALID reply then Some (reply, CAST_MACH_PORT_TO_NAME reply, IP_NULL, space, k)
      else do {
        found \<leftarrow> (if reply_type \<noteq> MACH_MSG_TYPE_PORT_SEND_ONCE then ipc_right_reverse space reply k else Some None);
        p \<leftarrow> port_at k reply;
        (if found = None \<and> \<not> ip_active p then Some (IP_DEAD, MACH_PORT_DEAD, reply, space, k)
         else do {
           (reply_name, entry, space) \<leftarrow> (case found of
               Some (name, entry) \<Rightarrow> Some (name, entry, space)
             | None \<Rightarrow> do {
                 (space, name, entry) \<leftarrow> ipc_entry_claim space;
                 Some (name, entry, set_object space entry reply) });
           k \<leftarrow> ip_reference reply k;
           (kr, space, k) \<leftarrow> ipc_right_copyout space reply_name entry reply_type True reply k;
           Some (reply, reply_name, IP_NULL, space, k) }) })"

text \<open>
  The voucher: its disposition and name in the received header, the port to release if the
  receiver does not want it, and the message, from which it has been taken.
\<close>

definition copyout_header_voucher ::
    "ipc_kmsg \<Rightarrow> ipc_space \<Rightarrow> natural_t \<Rightarrow> natural_t \<Rightarrow> kern
       \<Rightarrow> (natural_t \<times> mach_port_name_t \<times> addr \<times> ipc_kmsg \<times> ipc_space \<times> kern) option" where
  "copyout_header_voucher kmsg space voucher_type option k =
     (let voucher = ikm_voucher kmsg;
          wanted = (option AND MACH_RCV_VOUCHER \<noteq> 0)
      in if voucher_type = MACH_MSGH_BITS_ZERO
         then Some (voucher_type, msgh_voucher_port (ikm_header kmsg), IP_NULL, kmsg, space, k)
         else if \<not> IP_VALID voucher
         then Some (if wanted then voucher_type else MACH_MSGH_BITS_ZERO, MACH_PORT_NULL, IP_NULL, kmsg, space, k)
         else if \<not> wanted
         then Some (MACH_MSGH_BITS_ZERO, MACH_PORT_NULL, voucher, kmsg\<lparr>ikm_voucher := IP_NULL\<rparr>, space, k)
         else do {
           found \<leftarrow> ipc_right_reverse space voucher k;
           (voucher_name, entry, space) \<leftarrow> (case found of
               Some (name, entry) \<Rightarrow> Some (name, entry, space)
             | None \<Rightarrow> do {
                 (space, name, entry) \<leftarrow> ipc_entry_claim space;
                 Some (name, entry, set_object space entry voucher) });
           (kr, space, k) \<leftarrow> ipc_right_copyout space voucher_name entry MACH_MSG_TYPE_MOVE_SEND True voucher k;
           Some (voucher_type, voucher_name, IP_NULL, kmsg\<lparr>ikm_voucher := IP_NULL\<rparr>, space, k) })"

text \<open>The destination, whose name depends on which of two dead ports died first.\<close>

definition copyout_header_dest ::
    "ipc_space \<Rightarrow> addr \<Rightarrow> mach_msg_type_name \<Rightarrow> addr \<Rightarrow> kern \<Rightarrow> (mach_port_name_t \<times> kern) option" where
  "copyout_header_dest space dest dest_type reply k = do {
     d \<leftarrow> port_at k dest;
     (if ip_active d then ipc_object_copyout_dest space dest dest_type k
      else do {
        let timestamp = ip_timestamp d;
        k \<leftarrow> ip_release dest k;
        (if IP_VALID reply then do {
           p \<leftarrow> port_at k reply;
           Some (if ip_active p \<or> IP_TIMESTAMP_ORDER timestamp (ip_timestamp p) then MACH_PORT_DEAD else MACH_PORT_NULL, k) }
         else Some (MACH_PORT_DEAD, k)) }) }"

definition ipc_kmsg_copyout_header ::
    "nat list \<Rightarrow> (nat \<Rightarrow> bool) \<Rightarrow> ipc_kmsg \<Rightarrow> ipc_space \<Rightarrow> natural_t \<Rightarrow> kern
       \<Rightarrow> ((mach_msg_return \<times> natural_t) \<times> ipc_kmsg \<times> ipc_space \<times> kern) option" where
  "ipc_kmsg_copyout_header sizes kalloc_ok kmsg space option k = do {
     let msg = ikm_header kmsg;
     let mbits = msgh_bits msg;
     let dest = msgh_remote_port msg;
     k \<leftarrow> ipc_port_spnotify dest k;
     let dest_type = msgt_of (MACH_MSGH_BITS_REMOTE mbits);
     let reply_type = msgt_of (MACH_MSGH_BITS_LOCAL mbits);
     let voucher_type = MACH_MSGH_BITS_VOUCHER mbits;
     let reply = msgh_local_port msg;
     let voucher = ikm_voucher kmsg;
     let entries_held = (if IP_VALID reply then 1 else 0)
                      + (if IP_VALID voucher \<and> option AND MACH_RCV_VOUCHER \<noteq> 0 then 1 else 0 :: nat);
     (ok, space) \<leftarrow> (if IP_VALID reply \<or> IP_VALID voucher then copyout_header_hold sizes kalloc_ok entries_held space
                     else Some (is_active space, space));
     (if \<not> ok then Some ((MACH_RCV_HEADER_ERROR, MACH_MSG_IPC_SPACE), kmsg, space, k)
      else do {
        (reply, reply_name, release_reply_port, space, k) \<leftarrow> copyout_header_reply space reply reply_type k;
        (voucher_type, voucher_name, release_voucher_port, kmsg, space, k) \<leftarrow>
          copyout_header_voucher kmsg space voucher_type option k;
        (dest_name, k) \<leftarrow> copyout_header_dest space dest dest_type reply k;
        k \<leftarrow> (if IP_VALID reply then ip_release reply k else Some k);
        k \<leftarrow> (if IP_VALID release_reply_port then
                (if reply_type = MACH_MSG_TYPE_PORT_SEND_ONCE then ipc_port_release_sonce release_reply_port k
                 else ipc_port_release_send release_reply_port k)
              else Some k);
        k \<leftarrow> (if IP_VALID release_voucher_port then ipc_port_release_send release_voucher_port k else Some k);
        let msg = (ikm_header kmsg)
          \<lparr>msgh_bits := MACH_MSGH_BITS_SET (MACH_MSGH_BITS_LOCAL mbits) (MACH_MSGH_BITS_REMOTE mbits) voucher_type mbits,
           msgh_local_port := CAST_MACH_NAME_TO_PORT dest_name, msgh_remote_port := CAST_MACH_NAME_TO_PORT reply_name,
           msgh_voucher_port := voucher_name\<rparr>;
        Some ((MACH_MSG_SUCCESS, 0), kmsg\<lparr>ikm_header := msg\<rparr>, space, k) }) }"

subsection \<open>Rights in the body\<close>

text \<open>
  The result of \<open>ipc_kmsg_copyout_object\<close> is a combination of error bits, 0 for success, and the
  name, which is defined in any case.
\<close>

definition ipc_kmsg_copyout_object ::
    "nat list \<Rightarrow> (nat \<Rightarrow> bool) \<Rightarrow> ipc_space \<Rightarrow> addr \<Rightarrow> mach_msg_type_name \<Rightarrow> kern
       \<Rightarrow> (natural_t \<times> mach_port_name_t \<times> ipc_space \<times> kern) option" where
  "ipc_kmsg_copyout_object sizes kalloc_ok space object msgt_name k =
     (if \<not> IO_VALID object then Some (0, CAST_MACH_PORT_TO_NAME object, space, k)
      else do {
        (r, space, k) \<leftarrow> ipc_object_copyout sizes kalloc_ok space object msgt_name True k;
        (case r of
           Inr name \<Rightarrow> Some (0, name, space, k)
         | Inl kr \<Rightarrow> do {
             k \<leftarrow> ipc_object_destroy object msgt_name k;
             Some (if kr = KERN_INVALID_CAPABILITY then (0, MACH_PORT_DEAD, space, k)
                   else if kr = KERN_RESOURCE_SHORTAGE then (MACH_MSG_IPC_KERNEL, MACH_PORT_NULL, space, k)
                   else (MACH_MSG_IPC_SPACE, MACH_PORT_NULL, space, k)) }) })"

text \<open>
  Descriptors of a message in the kernel. Memory that is carried out of line belongs to the
  virtual memory system; of it only the presence matters here. A descriptor of any other type is
  only counted when a message is cleaned.
\<close>

datatype mach_msg_descriptor =
    MACH_MSG_PORT_DESCRIPTOR addr mach_msg_type_name
  | MACH_MSG_OOL_DESCRIPTOR addr natural_t
  | MACH_MSG_OOL_VOLATILE_DESCRIPTOR addr natural_t
  | MACH_MSG_OOL_PORTS_DESCRIPTOR "addr list" mach_msg_type_name

text \<open>
  The port descriptor of a task has a name and a disposition. A receive right that would come to
  be in transit to itself marks the message as circular.
\<close>

definition ipc_kmsg_copyin_port_descriptor ::
    "mach_port_name_t \<Rightarrow> natural_t \<Rightarrow> ipc_space \<Rightarrow> addr \<Rightarrow> ipc_kmsg \<Rightarrow> kern
       \<Rightarrow> ((mach_msg_return + mach_msg_descriptor) \<times> ipc_kmsg \<times> ipc_space \<times> kern) option" where
  "ipc_kmsg_copyin_port_descriptor name user_disp space dest kmsg k =
     (let result_disp = ipc_object_copyin_type (msgt_of user_disp) in
      if \<not> MACH_PORT_VALID name
      then Some (Inr (MACH_MSG_PORT_DESCRIPTOR (CAST_MACH_NAME_TO_PORT name) result_disp), kmsg, space, k)
      else do {
        (r, space, k) \<leftarrow> ipc_object_copyin space name (msgt_of user_disp) k;
        (case r of
           Inl kr \<Rightarrow> Some (Inl MACH_SEND_INVALID_RIGHT, kmsg, space, k)
         | Inr object \<Rightarrow> do {
             (circular, k) \<leftarrow> (if result_disp = MACH_MSG_TYPE_PORT_RECEIVE then ipc_port_check_circularity object dest k
                               else Some (False, k));
             let kmsg = (if circular
               then kmsg\<lparr>ikm_header := (ikm_header kmsg)\<lparr>msgh_bits := msgh_bits (ikm_header kmsg) OR MACH_MSGH_BITS_CIRCULAR\<rparr>\<rparr>
               else kmsg);
             Some (Inr (MACH_MSG_PORT_DESCRIPTOR object result_disp), kmsg, space, k) }) })"

text \<open>The copyout of a port descriptor adds its error bits to those of the message.\<close>

definition ipc_kmsg_copyout_port_descriptor ::
    "nat list \<Rightarrow> (nat \<Rightarrow> bool) \<Rightarrow> addr \<Rightarrow> mach_msg_type_name \<Rightarrow> ipc_space \<Rightarrow> natural_t \<Rightarrow> kern
       \<Rightarrow> (natural_t \<times> (mach_port_name_t \<times> mach_msg_type_name) \<times> ipc_space \<times> kern) option" where
  "ipc_kmsg_copyout_port_descriptor sizes kalloc_ok port disp space mr k = do {
     (bits, name, space, k) \<leftarrow> ipc_kmsg_copyout_object sizes kalloc_ok space port disp k;
     Some (mr OR bits, (name, disp), space, k) }"

subsection \<open>Destroying the rights of a message\<close>

fun ipc_kmsg_clean_objects :: "addr list \<Rightarrow> mach_msg_type_name \<Rightarrow> kern \<Rightarrow> kern option" where
  "ipc_kmsg_clean_objects [] disposition k = Some k"
| "ipc_kmsg_clean_objects (object # objects) disposition k = do {
     k \<leftarrow> (if IO_VALID object then ipc_object_destroy object disposition k else Some k);
     ipc_kmsg_clean_objects objects disposition k }"

fun ipc_kmsg_clean_body :: "mach_msg_descriptor list \<Rightarrow> kern \<Rightarrow> kern option" where
  "ipc_kmsg_clean_body [] k = Some k"
| "ipc_kmsg_clean_body (MACH_MSG_PORT_DESCRIPTOR name disposition # saddr) k = do {
     k \<leftarrow> (if IO_VALID name then ipc_object_destroy name disposition k else Some k);
     ipc_kmsg_clean_body saddr k }"
| "ipc_kmsg_clean_body (MACH_MSG_OOL_DESCRIPTOR address sz # saddr) k = ipc_kmsg_clean_body saddr k"
| "ipc_kmsg_clean_body (MACH_MSG_OOL_VOLATILE_DESCRIPTOR address sz # saddr) k = ipc_kmsg_clean_body saddr k"
| "ipc_kmsg_clean_body (MACH_MSG_OOL_PORTS_DESCRIPTOR objects disposition # saddr) k = do {
     k \<leftarrow> ipc_kmsg_clean_objects objects disposition k;
     ipc_kmsg_clean_body saddr k }"

text \<open>Reply and voucher, which every cleanup of a message destroys the same way.\<close>

definition clean_reply_and_voucher ::
    "ipc_kmsg \<Rightarrow> mach_msg_type_name \<Rightarrow> kern \<Rightarrow> (ipc_kmsg \<times> kern) option" where
  "clean_reply_and_voucher kmsg voucher_type k = do {
     let reply = msgh_local_port (ikm_header kmsg);
     k \<leftarrow> (if IO_VALID reply then ipc_object_destroy reply (msgt_of (MACH_MSGH_BITS_LOCAL (msgh_bits (ikm_header kmsg)))) k
           else Some k);
     (if IO_VALID (ikm_voucher kmsg) then do {
        k \<leftarrow> ipc_object_destroy (ikm_voucher kmsg) voucher_type k;
        Some (kmsg\<lparr>ikm_voucher := IP_NULL\<rparr>, k) }
      else Some (kmsg, k)) }"

text \<open>\<open>body\<close> are the descriptors behind the header, if the header says that there are any.\<close>

definition ipc_kmsg_clean :: "ipc_kmsg \<Rightarrow> mach_msg_descriptor list \<Rightarrow> kern \<Rightarrow> (ipc_kmsg \<times> kern) option" where
  "ipc_kmsg_clean kmsg body k = do {
     let mbits = msgh_bits (ikm_header kmsg);
     let dest = msgh_remote_port (ikm_header kmsg);
     k \<leftarrow> (if IO_VALID dest then ipc_object_destroy_dest dest (msgt_of (MACH_MSGH_BITS_REMOTE mbits)) k else Some k);
     (kmsg, k) \<leftarrow> clean_reply_and_voucher kmsg MACH_MSG_TYPE_PORT_SEND k;
     k \<leftarrow> (if mbits AND 0x80000000 \<noteq> 0 then ipc_kmsg_clean_body body k else Some k);
     Some (kmsg, k) }"

text \<open>\<open>desc\<close> are the first \<open>number\<close> descriptors, which have been copied in before the error.\<close>

definition ipc_kmsg_clean_partial :: "ipc_kmsg \<Rightarrow> mach_msg_descriptor list \<Rightarrow> kern \<Rightarrow> (ipc_kmsg \<times> kern) option" where
  "ipc_kmsg_clean_partial kmsg desc k = do {
     let mbits = msgh_bits (ikm_header kmsg);
     k \<leftarrow> ipc_object_destroy_dest (msgh_remote_port (ikm_header kmsg)) (msgt_of (MACH_MSGH_BITS_REMOTE mbits)) k;
     (kmsg, k) \<leftarrow> clean_reply_and_voucher kmsg MACH_MSG_TYPE_PORT_SEND k;
     k \<leftarrow> ipc_kmsg_clean_body desc k;
     Some (kmsg, k) }"

text \<open>The destination is copied out, all other rights are destroyed.\<close>

definition ipc_kmsg_copyout_dest ::
    "ipc_kmsg \<Rightarrow> ipc_space \<Rightarrow> mach_msg_descriptor list \<Rightarrow> kern \<Rightarrow> (ipc_kmsg \<times> kern) option" where
  "ipc_kmsg_copyout_dest kmsg space body k = do {
     let mbits = msgh_bits (ikm_header kmsg);
     let dest = msgh_remote_port (ikm_header kmsg);
     let reply = msgh_local_port (ikm_header kmsg);
     let voucher_name = (if IO_VALID (ikm_voucher kmsg) then MACH_PORT_NULL else msgh_voucher_port (ikm_header kmsg));
     bits \<leftarrow> io_bits_at k dest;
     (dest_name, k) \<leftarrow>
       (if io_active_bits bits then ipc_object_copyout_dest space dest (msgt_of (MACH_MSGH_BITS_REMOTE mbits)) k
        else do { k \<leftarrow> io_release dest k; Some (MACH_PORT_DEAD, k) });
     let reply_name = (if IO_VALID reply then MACH_PORT_NULL else CAST_MACH_PORT_TO_NAME reply);
     (kmsg, k) \<leftarrow> clean_reply_and_voucher kmsg (msgt_of (MACH_MSGH_BITS_VOUCHER mbits)) k;
     let msg = (ikm_header kmsg)
       \<lparr>msgh_bits := MACH_MSGH_BITS_SET (MACH_MSGH_BITS_LOCAL mbits) (MACH_MSGH_BITS_REMOTE mbits) (MACH_MSGH_BITS_VOUCHER mbits) mbits,
        msgh_local_port := CAST_MACH_NAME_TO_PORT dest_name, msgh_remote_port := CAST_MACH_NAME_TO_PORT reply_name,
        msgh_voucher_port := voucher_name\<rparr>;
     k \<leftarrow> (if mbits AND 0x80000000 \<noteq> 0 then ipc_kmsg_clean_body body k else Some k);
     Some (kmsg\<lparr>ikm_header := msg\<rparr>, k) }"


text \<open>As \<open>ipc_kmsg_copyout_dest\<close>, but only the destination is given up: the rest of the rights stay.\<close>

definition ipc_kmsg_copyout_to_kernel :: "ipc_kmsg \<Rightarrow> ipc_space \<Rightarrow> kern \<Rightarrow> (ipc_kmsg \<times> kern) option" where
  "ipc_kmsg_copyout_to_kernel kmsg space k = do {
     let mbits = msgh_bits (ikm_header kmsg);
     let dest = msgh_remote_port (ikm_header kmsg);
     bits \<leftarrow> io_bits_at k dest;
     (dest_name, k) \<leftarrow>
       (if io_active_bits bits then ipc_object_copyout_dest space dest (msgt_of (MACH_MSGH_BITS_REMOTE mbits)) k
        else do { k \<leftarrow> io_release dest k; Some (MACH_PORT_DEAD, k) });
     let reply_name = CAST_MACH_PORT_TO_NAME (msgh_local_port (ikm_header kmsg));
     let msg = (ikm_header kmsg)
       \<lparr>msgh_bits := MACH_MSGH_BITS_OTHER mbits OR MACH_MSGH_BITS (MACH_MSGH_BITS_LOCAL mbits) (MACH_MSGH_BITS_REMOTE mbits),
        msgh_local_port := CAST_MACH_NAME_TO_PORT dest_name, msgh_remote_port := CAST_MACH_NAME_TO_PORT reply_name\<rparr>;
     Some (kmsg\<lparr>ikm_header := msg\<rparr>, k) }"

text \<open>
  The header of a message that could not be sent goes back to the sender: its rights are copied
  out like rights of the body, one after the other, whatever happens to the ones before.
\<close>

definition copyout_pseudo_header ::
    "nat list \<Rightarrow> (nat \<Rightarrow> bool) \<Rightarrow> ipc_kmsg \<Rightarrow> ipc_space \<Rightarrow> kern \<Rightarrow> (natural_t \<times> ipc_kmsg \<times> ipc_space \<times> kern) option" where
  "copyout_pseudo_header sizes kalloc_ok kmsg space k = do {
     let mbits = msgh_bits (ikm_header kmsg);
     let voucher = ikm_voucher kmsg;
     (mr1, dest_name, space, k) \<leftarrow>
       ipc_kmsg_copyout_object sizes kalloc_ok space (msgh_remote_port (ikm_header kmsg)) (msgt_of (MACH_MSGH_BITS_REMOTE mbits)) k;
     (mr2, reply_name, space, k) \<leftarrow>
       ipc_kmsg_copyout_object sizes kalloc_ok space (msgh_local_port (ikm_header kmsg)) (msgt_of (MACH_MSGH_BITS_LOCAL mbits)) k;
     let msg = (ikm_header kmsg)
       \<lparr>msgh_bits := mbits AND MACH_MSGH_BITS_USER, msgh_remote_port := CAST_MACH_NAME_TO_PORT dest_name,
        msgh_local_port := CAST_MACH_NAME_TO_PORT reply_name\<rparr>;
     (if IO_VALID voucher then do {
        (mr3, voucher_name, space, k) \<leftarrow>
          ipc_kmsg_copyout_object sizes kalloc_ok space voucher (msgt_of (MACH_MSGH_BITS_VOUCHER mbits)) k;
        Some (mr1 OR mr2 OR mr3, kmsg\<lparr>ikm_header := msg\<lparr>msgh_voucher_port := voucher_name\<rparr>, ikm_voucher := IP_NULL\<rparr>, space, k) }
      else Some (mr1 OR mr2, kmsg\<lparr>ikm_header := msg\<rparr>, space, k)) }"

subsection \<open>Messages of the kernel\<close>

text \<open>
  A message that the kernel sends has ports where a task would have names. The check for
  circularity adds to the bits of the header, which are passed along.
\<close>

definition copyin_from_kernel_circular ::
    "addr \<Rightarrow> mach_msg_type_name \<Rightarrow> addr \<Rightarrow> natural_t \<Rightarrow> kern \<Rightarrow> (natural_t \<times> kern) option" where
  "copyin_from_kernel_circular object disposition remote bits k =
     (if disposition = MACH_MSG_TYPE_PORT_RECEIVE then do {
        (circular, k) \<leftarrow> ipc_port_check_circularity object remote k;
        Some (if circular then bits OR MACH_MSGH_BITS_CIRCULAR else bits, k) }
      else Some (bits, k))"

fun copyin_from_kernel_objects ::
    "addr list \<Rightarrow> mach_msg_type_name \<Rightarrow> addr \<Rightarrow> natural_t \<Rightarrow> kern \<Rightarrow> (natural_t \<times> kern) option" where
  "copyin_from_kernel_objects [] name remote bits k = Some (bits, k)"
| "copyin_from_kernel_objects (object # objects) name remote bits k =
     (if \<not> IO_VALID object then copyin_from_kernel_objects objects name remote bits k
      else do {
        k \<leftarrow> ipc_object_copyin_from_kernel object name k;
        (bits, k) \<leftarrow> copyin_from_kernel_circular object (ipc_object_copyin_type name) remote bits k;
        copyin_from_kernel_objects objects name remote bits k })"

fun copyin_from_kernel_body ::
    "mach_msg_descriptor list \<Rightarrow> addr \<Rightarrow> natural_t \<Rightarrow> kern \<Rightarrow> (natural_t \<times> mach_msg_descriptor list \<times> kern) option" where
  "copyin_from_kernel_body [] remote bits k = Some (bits, [], k)"
| "copyin_from_kernel_body (MACH_MSG_PORT_DESCRIPTOR object name # saddr) remote bits k = do {
     let disposition = ipc_object_copyin_type name;
     (bits, k) \<leftarrow>
       (if \<not> IO_VALID object then Some (bits, k)
        else do {
          k \<leftarrow> ipc_object_copyin_from_kernel object name k;
          r \<leftarrow> port_at k remote;
          (if ip_receiver r \<noteq> k_space_kernel k then copyin_from_kernel_circular object disposition remote bits k
           else Some (bits, k)) });
     (bits, rest, k) \<leftarrow> copyin_from_kernel_body saddr remote bits k;
     Some (bits, MACH_MSG_PORT_DESCRIPTOR object disposition # rest, k) }"
| "copyin_from_kernel_body (MACH_MSG_OOL_PORTS_DESCRIPTOR objects name # saddr) remote bits k = do {
     (bits, k) \<leftarrow> copyin_from_kernel_objects objects name remote bits k;
     (bits, rest, k) \<leftarrow> copyin_from_kernel_body saddr remote bits k;
     Some (bits, MACH_MSG_OOL_PORTS_DESCRIPTOR objects (ipc_object_copyin_type name) # rest, k) }"
| "copyin_from_kernel_body (d # saddr) remote bits k = do {
     (bits, rest, k) \<leftarrow> copyin_from_kernel_body saddr remote bits k;
     Some (bits, d # rest, k) }"

definition ipc_kmsg_copyin_from_kernel ::
    "ipc_kmsg \<Rightarrow> mach_msg_descriptor list \<Rightarrow> kern \<Rightarrow> (mach_msg_return \<times> ipc_kmsg \<times> mach_msg_descriptor list \<times> kern) option" where
  "ipc_kmsg_copyin_from_kernel kmsg body k =
     (let bits = msgh_bits (ikm_header kmsg);
          rname = msgt_of (MACH_MSGH_BITS_REMOTE bits);
          lname = msgt_of (MACH_MSGH_BITS_LOCAL bits);
          remote = msgh_remote_port (ikm_header kmsg);
          local = msgh_local_port (ikm_header kmsg);
          set_msgh_bits = (\<lambda>bits. kmsg\<lparr>ikm_header := (ikm_header kmsg)\<lparr>msgh_bits := bits\<rparr>\<rparr>)
      in if \<not> IO_VALID remote then Some (MACH_SEND_INVALID_DEST, kmsg, body, k)
         else do {
           k \<leftarrow> ipc_object_copyin_from_kernel remote rname k;
           k \<leftarrow> (if IO_VALID local then ipc_object_copyin_from_kernel local lname k else Some k);
           let bits = (if bits = 0x80000000 OR MACH_MSGH_BITS (msgt_value MACH_MSG_TYPE_COPY_SEND) 0
                       then 0x80000000 OR MACH_MSGH_BITS (msgt_value MACH_MSG_TYPE_PORT_SEND) 0
                       else MACH_MSGH_BITS_OTHER bits OR
                            MACH_MSGH_BITS (msgt_value (ipc_object_copyin_type rname)) (msgt_value (ipc_object_copyin_type lname)));
           (if bits AND 0x80000000 = 0 then Some (MACH_MSG_SUCCESS, set_msgh_bits bits, body, k)
            else do {
              (bits, body, k) \<leftarrow> copyin_from_kernel_body body remote bits k;
              Some (MACH_MSG_SUCCESS, set_msgh_bits bits, body, k) }) })"

end
