(* ===== verification/Ipc_Mqueue.thy ===== *)
theory Ipc_Mqueue
  imports Ipc_Kmsg
begin

text \<open>
  Message queues of ports (\<open>osfmk/ipc/ipc_mqueue.c\<close>), over the ring of kernel messages.

  A queue counts the messages in it and the places that are reserved for senders that have been
  admitted but have not posted their message yet; the count and the limit are 16 bits wide. The
  state is the queue, the store of messages and the message fields of the threads.

  The wait queue of a message queue belongs to \<open>osfmk/kern/waitq.c\<close>. What it contributes to a
  call is a parameter: \<open>receivers\<close> are the threads that successive calls of
  \<open>waitq_wakeup64_identity_locked\<close> return, before \<open>THREAD_NULL\<close>; \<open>senders\<close> is the number of
  threads that wait for room and that \<open>waitq_wakeup64_one_locked\<close> can wake. The size of a message
  for its receiver, \<open>ipc_kmsg_copyout_size\<close>, depends on the body of the message and is a
  parameter as well. The counters of messages sent and received in a task are left out.
\<close>

unbundle bit_operations_syntax

subsection \<open>State\<close>

datatype wait_result =
    THREAD_WAITING
  | THREAD_AWAKENED
  | THREAD_TIMED_OUT
  | THREAD_INTERRUPTED
  | THREAD_RESTART
  | THREAD_NOT_WAITING

record ipc_mqueue =
  mq_messages :: addr
  mq_seqno :: natural_t
  mq_receiver_name :: mach_port_name_t
  mq_msgcount :: "16 word"
  mq_qlimit :: "16 word"
  mq_fullwaiters :: bool

record thread =
  ith_state :: mach_msg_return
  ith_option :: natural_t
  ith_msize :: natural_t
  ith_receiver_name :: mach_port_name_t
  ith_kmsg :: addr
  ith_seqno :: natural_t

record mq_state =
  st_mqueue :: ipc_mqueue
  st_kmsgs :: kmsgs
  st_threads :: "nat \<Rightarrow> thread"

definition upd_thread :: "nat \<Rightarrow> (thread \<Rightarrow> thread) \<Rightarrow> mq_state \<Rightarrow> mq_state" where
  "upd_thread th f s = s\<lparr>st_threads := (st_threads s)(th := f (st_threads s th))\<rparr>"

abbreviation (input) MACH_SEND_TIMEOUT :: natural_t where
  "MACH_SEND_TIMEOUT \<equiv> 0x00000010"

abbreviation (input) MACH_RCV_LARGE :: natural_t where
  "MACH_RCV_LARGE \<equiv> 0x00000004"

abbreviation (input) MACH_RCV_TIMEOUT :: natural_t where
  "MACH_RCV_TIMEOUT \<equiv> 0x00000100"

definition GET_RCV_ELEMENTS :: "natural_t \<Rightarrow> natural_t" where
  "GET_RCV_ELEMENTS y = drop_bit 24 y AND 0xf"

text \<open>The sizes are those of the packed trailer structures.\<close>

definition REQUESTED_TRAILER_SIZE :: "natural_t \<Rightarrow> natural_t" where
  "REQUESTED_TRAILER_SIZE y =
     (if GET_RCV_ELEMENTS y = 0 then 8 else if GET_RCV_ELEMENTS y = 1 then 12
      else if GET_RCV_ELEMENTS y = 2 then 20 else if GET_RCV_ELEMENTS y = 3 then 52
      else if GET_RCV_ELEMENTS y = 4 then 60 else 68)"

definition imq_full :: "ipc_mqueue \<Rightarrow> bool" where
  "imq_full mq \<longleftrightarrow> mq_msgcount mq \<ge> mq_qlimit mq"

definition imq_full_kernel :: "ipc_mqueue \<Rightarrow> bool" where
  "imq_full_kernel mq \<longleftrightarrow> mq_msgcount mq \<ge> 65534"

definition ipc_mqueue_init :: "ipc_mqueue \<Rightarrow> ipc_mqueue" where
  "ipc_mqueue_init mqueue =
     mqueue\<lparr>mq_messages := ipc_kmsg_queue_init, mq_seqno := 0, mq_msgcount := 0, mq_qlimit := 5,
       mq_fullwaiters := False\<rparr>"

subsection \<open>Sending\<close>

text \<open>
  \<open>ipc_mqueue_send\<close> up to the point where the thread may block: the place is reserved, the call
  fails, or the thread waits for room.
\<close>

datatype send_progress = Send_reserved | Send_failed mach_msg_return | Send_blocked

definition ipc_mqueue_send_reserve ::
    "natural_t \<Rightarrow> natural_t \<Rightarrow> ipc_kmsg \<Rightarrow> ipc_mqueue \<Rightarrow> send_progress \<times> ipc_mqueue" where
  "ipc_mqueue_send_reserve option send_timeout kmsg mqueue =
     (if \<not> imq_full mqueue \<or>
         (\<not> imq_full_kernel mqueue \<and>
          (option AND MACH_SEND_ALWAYS \<noteq> 0 \<or> MACH_MSGH_BITS_REMOTE (msgh_bits (ikm_header kmsg)) = msgt_value MACH_MSG_TYPE_PORT_SEND_ONCE))
      then (Send_reserved, mqueue\<lparr>mq_msgcount := mq_msgcount mqueue + 1\<rparr>)
      else if option AND MACH_SEND_TIMEOUT \<noteq> 0 \<and> send_timeout = 0
      then (Send_failed MACH_SEND_TIMED_OUT, mqueue)
      else if imq_full_kernel mqueue then (Send_failed MACH_SEND_NO_BUFFER, mqueue)
      else (Send_blocked, mqueue\<lparr>mq_fullwaiters := True\<rparr>))"

text \<open>The end of the wait: \<open>Inr\<close> if the thread goes on to post its message.\<close>

fun ipc_mqueue_send_awake :: "wait_result \<Rightarrow> (mach_msg_return + unit) option" where
  "ipc_mqueue_send_awake THREAD_AWAKENED = Some (Inr ())"
| "ipc_mqueue_send_awake THREAD_TIMED_OUT = Some (Inl MACH_SEND_TIMED_OUT)"
| "ipc_mqueue_send_awake THREAD_INTERRUPTED = Some (Inl MACH_SEND_INTERRUPTED)"
| "ipc_mqueue_send_awake THREAD_RESTART = Some (Inl MACH_SEND_INVALID_DEST)"
| "ipc_mqueue_send_awake THREAD_WAITING = None"
| "ipc_mqueue_send_awake THREAD_NOT_WAITING = None"

text \<open>The number of waiting senders that is left, and the queue.\<close>

definition ipc_mqueue_release_msgcount :: "nat \<Rightarrow> ipc_mqueue \<Rightarrow> nat \<times> ipc_mqueue" where
  "ipc_mqueue_release_msgcount senders port_mq =
     (let port_mq = port_mq\<lparr>mq_msgcount := mq_msgcount port_mq - 1\<rparr> in
      if \<not> imq_full port_mq \<and> mq_fullwaiters port_mq then
        (if senders = 0 then (senders, port_mq\<lparr>mq_fullwaiters := False\<rparr>)
         else (senders - 1, port_mq\<lparr>mq_msgcount := mq_msgcount port_mq + 1\<rparr>))
      else (senders, port_mq))"

datatype post_outcome = Post_queued | Post_delivered nat | Post_destroyed

text \<open>
  A receiver is offered a message: the size it gets told, and whether it can take it. A thread
  that did not ask for large messages to be reported gets the message in any case.
\<close>

definition offer :: "(addr \<Rightarrow> nat \<Rightarrow> natural_t) \<Rightarrow> addr \<Rightarrow> nat \<Rightarrow> thread \<Rightarrow> thread" where
  "offer copyout_size kmsg th t =
     (if ith_msize t < copyout_size kmsg th + REQUESTED_TRAILER_SIZE (ith_option t)
      then t\<lparr>ith_msize := copyout_size kmsg th, ith_state := MACH_RCV_TOO_LARGE\<rparr>
      else t\<lparr>ith_state := MACH_MSG_SUCCESS\<rparr>)"

definition accepts :: "thread \<Rightarrow> bool" where
  "accepts t \<longleftrightarrow> ith_state t = MACH_MSG_SUCCESS \<or> ith_option t AND MACH_RCV_LARGE = 0"

definition give_kmsg :: "nat \<Rightarrow> addr \<Rightarrow> mq_state \<Rightarrow> mq_state" where
  "give_kmsg th kmsg s =
     (upd_thread th (\<lambda>t. t\<lparr>ith_kmsg := kmsg, ith_seqno := mq_seqno (st_mqueue s)\<rparr>) s)
       \<lparr>st_mqueue := (st_mqueue s)\<lparr>mq_seqno := mq_seqno (st_mqueue s) + 1\<rparr>\<rparr>"

definition refuse_kmsg :: "nat \<Rightarrow> mq_state \<Rightarrow> mq_state" where
  "refuse_kmsg th s =
     upd_thread th (\<lambda>t. t\<lparr>ith_receiver_name := mq_receiver_name (st_mqueue s), ith_kmsg := IKM_NULL, ith_seqno := 0\<rparr>) s"

text \<open>
  The result has the receivers that are still waiting and the number of senders that are. A thread
  that waits for something else than a message is woken and gets nothing.
\<close>

fun ipc_mqueue_post ::
    "(addr \<Rightarrow> nat \<Rightarrow> natural_t) \<Rightarrow> nat \<Rightarrow> nat list \<Rightarrow> addr \<Rightarrow> mq_state
       \<Rightarrow> (post_outcome \<times> nat list \<times> nat \<times> mq_state) option" where
  "ipc_mqueue_post copyout_size senders [] kmsg s =
     (if mq_msgcount (st_mqueue s) > 0 then do {
        (base, h) \<leftarrow> ipc_kmsg_enqueue_macro (mq_messages (st_mqueue s)) kmsg (st_kmsgs s);
        Some (Post_queued, [], senders, s\<lparr>st_mqueue := (st_mqueue s)\<lparr>mq_messages := base\<rparr>, st_kmsgs := h\<rparr>) }
      else Some (Post_destroyed, [], senders, s))"
| "ipc_mqueue_post copyout_size senders (receiver # receivers) kmsg s =
     (if ith_state (st_threads s receiver) \<noteq> MACH_RCV_IN_PROGRESS
      then ipc_mqueue_post copyout_size senders receivers kmsg s
      else
        let s = upd_thread receiver (offer copyout_size kmsg receiver) s in
        if accepts (st_threads s receiver) then
          let s = give_kmsg receiver kmsg s;
              (senders, mq) = ipc_mqueue_release_msgcount senders (st_mqueue s)
          in Some (Post_delivered receiver, receivers, senders, s\<lparr>st_mqueue := mq\<rparr>)
        else ipc_mqueue_post copyout_size senders receivers kmsg (refuse_kmsg receiver s))"

subsection \<open>Receiving\<close>

fun ipc_mqueue_receive_results :: "wait_result \<Rightarrow> thread \<Rightarrow> thread option" where
  "ipc_mqueue_receive_results THREAD_TIMED_OUT self = Some (self\<lparr>ith_state := MACH_RCV_TIMED_OUT\<rparr>)"
| "ipc_mqueue_receive_results THREAD_INTERRUPTED self = Some (self\<lparr>ith_state := MACH_RCV_INTERRUPTED\<rparr>)"
| "ipc_mqueue_receive_results THREAD_RESTART self = Some (self\<lparr>ith_state := MACH_RCV_PORT_CHANGED\<rparr>)"
| "ipc_mqueue_receive_results THREAD_AWAKENED self =
     (if ith_state self \<in> {MACH_RCV_SCATTER_SMALL, MACH_RCV_TOO_LARGE, MACH_MSG_SUCCESS} then Some self else None)"
| "ipc_mqueue_receive_results THREAD_WAITING self = None"
| "ipc_mqueue_receive_results THREAD_NOT_WAITING self = None"

definition ipc_mqueue_select_on_thread ::
    "(addr \<Rightarrow> nat \<Rightarrow> natural_t) \<Rightarrow> nat \<Rightarrow> natural_t \<Rightarrow> natural_t \<Rightarrow> nat \<Rightarrow> mq_state \<Rightarrow> (nat \<times> mq_state) option" where
  "ipc_mqueue_select_on_thread copyout_size senders option max_size thread s = do {
     let kmsg = ipc_kmsg_queue_first (mq_messages (st_mqueue s));
     let rcv_size = copyout_size kmsg thread;
     let large = (rcv_size + REQUESTED_TRAILER_SIZE option > max_size);
     (if large \<and> option AND MACH_RCV_LARGE \<noteq> 0
      then Some (senders, upd_thread thread (\<lambda>t. t\<lparr>ith_receiver_name := mq_receiver_name (st_mqueue s),
                   ith_kmsg := IKM_NULL, ith_msize := rcv_size, ith_seqno := 0, ith_state := MACH_RCV_TOO_LARGE\<rparr>) s)
      else do {
        (base, h) \<leftarrow> ipc_kmsg_rmqueue_first_macro (mq_messages (st_mqueue s)) kmsg (st_kmsgs s);
        let mq = (st_mqueue s)\<lparr>mq_messages := base\<rparr>;
        let (senders, mq) = ipc_mqueue_release_msgcount senders mq;
        let s = give_kmsg thread kmsg (s\<lparr>st_mqueue := mq, st_kmsgs := h\<rparr>);
        Some (senders, upd_thread thread (\<lambda>t. t\<lparr>ith_state := (if large then MACH_RCV_TOO_LARGE else MACH_MSG_SUCCESS)\<rparr>) s) }) }"

text \<open>
  Receiving from the queue of a port. \<open>THREAD_NOT_WAITING\<close> says that the call is finished;
  otherwise the thread has been put on the wait queue, whose answer is \<open>wresult\<close>.
\<close>

definition ipc_mqueue_receive_on_thread ::
    "(addr \<Rightarrow> nat \<Rightarrow> natural_t) \<Rightarrow> nat \<Rightarrow> wait_result \<Rightarrow> natural_t \<Rightarrow> natural_t \<Rightarrow> natural_t \<Rightarrow> nat \<Rightarrow> mq_state
       \<Rightarrow> (wait_result \<times> nat \<times> mq_state) option" where
  "ipc_mqueue_receive_on_thread copyout_size senders wresult option max_size rcv_timeout thread s =
     (if ipc_kmsg_queue_first (mq_messages (st_mqueue s)) \<noteq> IKM_NULL then do {
        (senders, s) \<leftarrow> ipc_mqueue_select_on_thread copyout_size senders option max_size thread s;
        Some (THREAD_NOT_WAITING, senders, s) }
      else if option AND MACH_RCV_TIMEOUT \<noteq> 0 \<and> rcv_timeout = 0
      then Some (THREAD_NOT_WAITING, senders, upd_thread thread (\<lambda>t. t\<lparr>ith_state := MACH_RCV_TIMED_OUT\<rparr>) s)
      else if wresult = THREAD_AWAKENED then None
      else Some (wresult, senders,
             upd_thread thread (\<lambda>t. t\<lparr>ith_state := MACH_RCV_IN_PROGRESS, ith_option := option, ith_msize := max_size\<rparr>) s))"

subsection \<open>Peeking\<close>

text \<open>
  \<open>ipc_mqueue_peek\<close>: the sequence number 0 stands for the first message. The result is \<open>None\<close> if
  there is no such message, otherwise its sequence number, size and identifier.
\<close>

definition ipc_mqueue_peek :: "natural_t \<Rightarrow> mq_state \<Rightarrow> (natural_t \<times> natural_t \<times> integer_t) option option" where
  "ipc_mqueue_peek seqno s =
     (let mq = st_mqueue s;
          find = (\<lambda>seqno msgoff. do {
            kmsg \<leftarrow> seek (\<lambda>kmsg. ipc_kmsg_queue_next (mq_messages mq) kmsg (st_kmsgs s)) IKM_NULL msgoff
                     (ipc_kmsg_queue_first (mq_messages mq));
            (if kmsg = IKM_NULL then Some None
             else do {
               m \<leftarrow> st_kmsgs s kmsg;
               Some (Some (seqno, msgh_size (ikm_header m), msgh_id (ikm_header m))) }) })
      in if seqno = 0 then find (mq_seqno mq) 0
         else if seqno \<ge> mq_seqno mq \<and> seqno < mq_seqno mq + ucast (mq_msgcount mq)
         then find seqno (unat (seqno - mq_seqno mq))
         else Some None)"

subsection \<open>Joining a set, limits, destruction\<close>

text \<open>
  \<open>ipc_mqueue_add\<close>: when the port joins a set, the messages of the port are handed to the threads
  that wait for the set. \<open>kr\<close> is the result of linking the wait queues.
\<close>

fun ipc_mqueue_add_loop ::
    "(addr \<Rightarrow> nat \<Rightarrow> natural_t) \<Rightarrow> nat \<Rightarrow> nat list \<Rightarrow> addr \<Rightarrow> mq_state \<Rightarrow> (nat list \<times> nat \<times> mq_state) option" where
  "ipc_mqueue_add_loop copyout_size senders [] kmsg s = Some ([], senders, s)"
| "ipc_mqueue_add_loop copyout_size senders (th # ths) kmsg s =
     (if kmsg = IKM_NULL then Some (th # ths, senders, s)
      else if ith_state (st_threads s th) \<noteq> MACH_RCV_IN_PROGRESS
      then ipc_mqueue_add_loop copyout_size senders ths kmsg s
      else do {
        following \<leftarrow> ipc_kmsg_queue_next (mq_messages (st_mqueue s)) kmsg (st_kmsgs s);
        let s = upd_thread th (offer copyout_size kmsg th) s;
        (if accepts (st_threads s th) then do {
           (base, h) \<leftarrow> ipc_kmsg_rmqueue (mq_messages (st_mqueue s)) kmsg (st_kmsgs s);
           let (senders, mq) = ipc_mqueue_release_msgcount senders ((st_mqueue s)\<lparr>mq_messages := base\<rparr>);
           let s = give_kmsg th kmsg (s\<lparr>st_mqueue := mq, st_kmsgs := h\<rparr>);
           ipc_mqueue_add_loop copyout_size senders ths following s }
         else ipc_mqueue_add_loop copyout_size senders ths kmsg (refuse_kmsg th s)) })"

definition ipc_mqueue_add ::
    "(addr \<Rightarrow> nat \<Rightarrow> natural_t) \<Rightarrow> nat \<Rightarrow> kern_return \<Rightarrow> nat list \<Rightarrow> mq_state
       \<Rightarrow> (kern_return \<times> nat list \<times> nat \<times> mq_state) option" where
  "ipc_mqueue_add copyout_size senders kr receivers s =
     (if kr \<noteq> KERN_SUCCESS then Some (kr, receivers, senders, s)
      else do {
        (receivers, senders, s) \<leftarrow> ipc_mqueue_add_loop copyout_size senders receivers
                                     (ipc_kmsg_queue_first (mq_messages (st_mqueue s))) s;
        Some (KERN_SUCCESS, receivers, senders, s) })"

text \<open>\<open>ipc_mqueue_set_qlimit\<close> on the queue itself: each woken sender gets a place.\<close>

fun mq_set_qlimit_loop :: "nat \<Rightarrow> nat \<Rightarrow> ipc_mqueue \<Rightarrow> nat \<times> ipc_mqueue" where
  "mq_set_qlimit_loop 0 senders mqueue = (senders, mqueue)"
| "mq_set_qlimit_loop (Suc n) 0 mqueue = (0, mqueue\<lparr>mq_fullwaiters := False\<rparr>)"
| "mq_set_qlimit_loop (Suc n) (Suc senders) mqueue =
     mq_set_qlimit_loop n senders (mqueue\<lparr>mq_msgcount := mq_msgcount mqueue + 1\<rparr>)"

definition mq_set_qlimit :: "nat \<Rightarrow> natural_t \<Rightarrow> ipc_mqueue \<Rightarrow> nat \<times> ipc_mqueue" where
  "mq_set_qlimit senders qlimit mqueue =
     (let (senders, mqueue) =
            (if qlimit > ucast (mq_qlimit mqueue)
             then mq_set_qlimit_loop (unat (qlimit - ucast (mq_qlimit mqueue))) senders mqueue
             else (senders, mqueue))
      in (senders, mqueue\<lparr>mq_qlimit := ucast qlimit\<rparr>))"

text \<open>
  \<open>ipc_mqueue_destroy\<close>: the messages move to the thread's queue \<open>delayed\<close>; the flag tells whether
  this activation must reap it.
\<close>

definition mq_destroy :: "addr \<Rightarrow> mq_state \<Rightarrow> (bool \<times> addr \<times> mq_state) option" where
  "mq_destroy delayed s = do {
     let mq = (st_mqueue s)\<lparr>mq_fullwaiters := False\<rparr>;
     (base, delayed, reap, h) \<leftarrow> drain ipc_kmsg_dequeue ipc_kmsg_enqueue ipc_kmsg_queue_empty IKM_NULL
                                   (mq_messages mq) delayed False (st_kmsgs s);
     Some (reap, delayed, s\<lparr>st_mqueue := mq\<lparr>mq_messages := base, mq_msgcount := 0\<rparr>, st_kmsgs := h\<rparr>) }"

end
