(* ===== verification/Mqueue_Run.thy ===== *)
theory Mqueue_Run
  imports Ipc_Mqueue
begin

text \<open>
  What the operations of a message queue do to the list of messages in it, to the count and to
  the threads that wait, as long as the ring is well formed and the count is exact.
\<close>

unbundle bit_operations_syntax

subsection \<open>Counts\<close>

text \<open>
  A sender that waits, waits for a reason: the queue is full, and the flag is set by which the
  next release finds it.
\<close>

definition senders_noted :: "nat \<Rightarrow> ipc_mqueue \<Rightarrow> bool" where
  "senders_noted senders mq \<longleftrightarrow> (senders > 0 \<longrightarrow> imq_full mq \<and> mq_fullwaiters mq)"

text \<open>The queue apart from count, limit and flag.\<close>

definition same_queue :: "ipc_mqueue \<Rightarrow> ipc_mqueue \<Rightarrow> bool" where
  "same_queue mq mq' \<longleftrightarrow>
     mq_messages mq' = mq_messages mq \<and> mq_seqno mq' = mq_seqno mq \<and> mq_receiver_name mq' = mq_receiver_name mq"

lemma unat_pred: "0 < unat (c :: 16 word) \<Longrightarrow> unat (c - 1) = unat c - 1"
  by unat_arith

lemma release_msgcount:
  assumes r: "ipc_mqueue_release_msgcount senders mq = (n, mq')" and c: "0 < unat (mq_msgcount mq)"
    and w: "senders_noted senders mq"
  shows "n \<le> senders \<and> unat (mq_msgcount mq') + n + 1 = unat (mq_msgcount mq) + senders
    \<and> senders_noted n mq' \<and> same_queue mq mq'"
proof -
  let ?c = "mq_msgcount mq" and ?mq = "mq\<lparr>mq_msgcount := mq_msgcount mq - 1\<rparr>"
  note u = unat_pred [OF c]
  show ?thesis
  proof (cases "\<not> imq_full ?mq \<and> mq_fullwaiters mq")
    case False
    then show ?thesis
      using r u c w by (auto simp: ipc_mqueue_release_msgcount_def senders_noted_def same_queue_def imq_full_def Let_def split: if_splits)
  next
    case True
    then show ?thesis
      using r u c w by (auto simp: ipc_mqueue_release_msgcount_def senders_noted_def same_queue_def imq_full_def Let_def split: if_splits)
  qed
qed

subsection \<open>Posting\<close>

lemma upd_thread_simps [simp]:
  "st_mqueue (upd_thread th f s) = st_mqueue s" "st_kmsgs (upd_thread th f s) = st_kmsgs s"
  "st_threads (upd_thread th f s) t = (if t = th then f (st_threads s th) else st_threads s t)"
  by (simp_all add: upd_thread_def)

lemma give_kmsg_simps [simp]:
  "st_mqueue (give_kmsg th k s) = (st_mqueue s)\<lparr>mq_seqno := mq_seqno (st_mqueue s) + 1\<rparr>"
  "st_kmsgs (give_kmsg th k s) = st_kmsgs s"
  "st_threads (give_kmsg th k s) t =
     (if t = th then (st_threads s th)\<lparr>ith_kmsg := k, ith_seqno := mq_seqno (st_mqueue s)\<rparr> else st_threads s t)"
  by (simp_all add: give_kmsg_def)

lemma refuse_kmsg_simps [simp]:
  "st_mqueue (refuse_kmsg th s) = st_mqueue s" "st_kmsgs (refuse_kmsg th s) = st_kmsgs s"
  "st_threads (refuse_kmsg th s) t =
     (if t = th then (st_threads s th)\<lparr>ith_receiver_name := mq_receiver_name (st_mqueue s), ith_kmsg := IKM_NULL, ith_seqno := 0\<rparr>
      else st_threads s t)"
  by (simp_all add: refuse_kmsg_def)

abbreviation holds_messages :: "mq_state \<Rightarrow> addr list \<Rightarrow> bool" where
  "holds_messages s xs \<equiv> kmsg_queue (mq_messages (st_mqueue s)) (st_kmsgs s) xs"

text \<open>Receivers that are still waiting, and threads that had no part in it, are as they were.\<close>

definition others_kept :: "nat list \<Rightarrow> nat list \<Rightarrow> mq_state \<Rightarrow> mq_state \<Rightarrow> bool" where
  "others_kept rs rs' s s' \<longleftrightarrow>
     set rs' \<subseteq> set rs \<and> distinct rs' \<and> (\<forall>t. t \<notin> set rs \<or> t \<in> set rs' \<longrightarrow> st_threads s' t = st_threads s t)"

definition post_result ::
    "nat \<Rightarrow> nat list \<Rightarrow> addr \<Rightarrow> mq_state \<Rightarrow> addr list \<Rightarrow> (post_outcome \<times> nat list \<times> nat \<times> mq_state) option \<Rightarrow> bool" where
  "post_result senders rs k s xs res \<longleftrightarrow>
     (\<exists>out rs' n s'. res = Some (out, rs', n, s') \<and> others_kept rs rs' s s' \<and> senders_noted n (st_mqueue s')
       \<and> (case out of
            Post_queued \<Rightarrow> rs' = [] \<and> n = senders \<and> holds_messages s' (xs @ [k])
              \<and> links_only (insert k (set xs)) (st_kmsgs s) (st_kmsgs s')
              \<and> mq_msgcount (st_mqueue s') = mq_msgcount (st_mqueue s) \<and> mq_seqno (st_mqueue s') = mq_seqno (st_mqueue s)
          | Post_delivered th \<Rightarrow> th \<in> set rs \<and> n \<le> senders \<and> holds_messages s' xs \<and> st_kmsgs s' = st_kmsgs s
              \<and> unat (mq_msgcount (st_mqueue s')) + n + 1 = unat (mq_msgcount (st_mqueue s)) + senders
              \<and> mq_seqno (st_mqueue s') = mq_seqno (st_mqueue s) + 1
              \<and> ith_kmsg (st_threads s' th) = k \<and> ith_seqno (st_threads s' th) = mq_seqno (st_mqueue s)
          | Post_destroyed \<Rightarrow> False))"

lemma others_kept_Cons:
  assumes "others_kept rs rs' s' s''" "\<And>t. t \<noteq> th \<Longrightarrow> st_threads s' t = st_threads s t" "th \<notin> set rs"
  shows "others_kept (th # rs) rs' s s''"
  using assms unfolding others_kept_def by (metis insert_iff list.set(2) subset_insertI2 subsetD)

lemma post_step:
  assumes q: "post_result senders rs k s' xs res" and s': "st_mqueue s' = st_mqueue s" "st_kmsgs s' = st_kmsgs s"
    and t: "\<And>t. t \<noteq> th \<Longrightarrow> st_threads s' t = st_threads s t" and th: "th \<notin> set rs"
  shows "post_result senders (th # rs) k s xs res"
  using q s' others_kept_Cons [OF _ t th] unfolding post_result_def by (fastforce split: post_outcome.splits)

lemma post_ok:
  assumes "holds_messages s xs" "k \<notin> set xs" "k \<noteq> IKM_NULL" "st_kmsgs s k \<noteq> None" "distinct rs"
    "\<forall>t \<in> set rs. ith_state (st_threads s t) = MACH_RCV_IN_PROGRESS"
    "0 < unat (mq_msgcount (st_mqueue s))" "senders_noted senders (st_mqueue s)"
  shows "post_result senders rs k s xs (ipc_mqueue_post copyout_size senders rs k s)"
  using assms
proof (induction rs arbitrary: s)
  case Nil
  have "mq_msgcount (st_mqueue s) > 0" using Nil.prems(7) by unat_arith
  then show ?case
    using kmsg_ring.enq_ok [OF Nil.prems(1,4,3,2)] Nil.prems(8)
    by (auto simp: post_result_def ipc_kmsg_enqueue_def others_kept_def senders_noted_def imq_full_def)
next
  case (Cons th rs)
  let ?s = "upd_thread th (offer copyout_size k th) s"
  have run: "ith_state (st_threads s th) = MACH_RCV_IN_PROGRESS" using Cons.prems by simp
  show ?case
  proof (cases "accepts (st_threads ?s th)")
    case True
    obtain n mq where r: "ipc_mqueue_release_msgcount senders (st_mqueue (give_kmsg th k ?s)) = (n, mq)" by (metis surj_pair)
    have "n \<le> senders \<and> unat (mq_msgcount mq) + n + 1 = unat (mq_msgcount (st_mqueue s)) + senders
        \<and> senders_noted n mq \<and> same_queue (st_mqueue (give_kmsg th k ?s)) mq"
      using release_msgcount [OF r] Cons.prems(7,8) by (simp add: senders_noted_def imq_full_def)
    then show ?thesis
      using r True run Cons.prems(1,5)
      by (simp add: post_result_def others_kept_def same_queue_def) auto
  next
    case False
    have "post_result senders rs k (refuse_kmsg th ?s) xs (ipc_mqueue_post copyout_size senders rs k (refuse_kmsg th ?s))"
      by (rule Cons.IH) (use Cons.prems in auto)
    then have "post_result senders (th # rs) k s xs (ipc_mqueue_post copyout_size senders rs k (refuse_kmsg th ?s))"
      by (rule post_step) (use Cons.prems(5) in auto)
    then show ?thesis using False run by simp
  qed
qed

subsection \<open>Receiving\<close>

text \<open>A thread takes the first message: what happens to the queue.\<close>

definition took_first :: "nat \<Rightarrow> nat \<Rightarrow> addr \<Rightarrow> addr list \<Rightarrow> mq_state \<Rightarrow> nat \<Rightarrow> mq_state \<Rightarrow> bool" where
  "took_first senders th x xs s n s' \<longleftrightarrow>
     holds_messages s' xs \<and> links_only (set xs) (st_kmsgs s) (st_kmsgs s') \<and> n \<le> senders
     \<and> unat (mq_msgcount (st_mqueue s')) + n + 1 = unat (mq_msgcount (st_mqueue s)) + senders
     \<and> senders_noted n (st_mqueue s') \<and> mq_seqno (st_mqueue s') = mq_seqno (st_mqueue s) + 1
     \<and> ith_kmsg (st_threads s' th) = x \<and> ith_seqno (st_threads s' th) = mq_seqno (st_mqueue s)
     \<and> (\<forall>t. t \<noteq> th \<longrightarrow> st_threads s' t = st_threads s t)"

lemma took_first_upd:
  "took_first senders th x xs (upd_thread th f s) n s' = took_first senders th x xs s n s'"
  by (auto simp: took_first_def)

lemma take_first:
  assumes q: "holds_messages s (x # xs)" and c: "0 < unat (mq_msgcount (st_mqueue s))" and w: "senders_noted senders (st_mqueue s)"
  shows "\<exists>base h n mq. ipc_kmsg_rmqueue (mq_messages (st_mqueue s)) x (st_kmsgs s) = Some (base, h)
    \<and> ipc_mqueue_release_msgcount senders ((st_mqueue s)\<lparr>mq_messages := base\<rparr>) = (n, mq)
    \<and> took_first senders th x xs s n (give_kmsg th x (s\<lparr>st_mqueue := mq, st_kmsgs := h\<rparr>))"
proof -
  obtain base h where r: "ipc_kmsg_rmqueue (mq_messages (st_mqueue s)) x (st_kmsgs s) = Some (base, h)"
      "kmsg_queue base h xs" "links_only (set xs) (st_kmsgs s) h"
    using kmsg_ring.rem_ok [of "mq_messages (st_mqueue s)" "st_kmsgs s" "[]" x xs] q by auto
  obtain n mq where n: "ipc_mqueue_release_msgcount senders ((st_mqueue s)\<lparr>mq_messages := base\<rparr>) = (n, mq)" by (metis surj_pair)
  have "n \<le> senders \<and> unat (mq_msgcount mq) + n + 1 = unat (mq_msgcount (st_mqueue s)) + senders
      \<and> senders_noted n mq \<and> same_queue ((st_mqueue s)\<lparr>mq_messages := base\<rparr>) mq"
    using release_msgcount [OF n] c w by (simp add: senders_noted_def imq_full_def)
  then show ?thesis
    using r n by (simp add: took_first_def same_queue_def senders_noted_def imq_full_def)
qed

text \<open>A receive with the options \<open>option\<close> has ended with a message.\<close>

definition got_message :: "natural_t \<Rightarrow> thread \<Rightarrow> bool" where
  "got_message option t \<longleftrightarrow>
     ith_state t = MACH_MSG_SUCCESS \<or> ith_state t = MACH_RCV_TOO_LARGE \<and> option AND MACH_RCV_LARGE = 0"

lemma select_ok:
  assumes q: "holds_messages s (x # xs)" and c: "0 < unat (mq_msgcount (st_mqueue s))" and w: "senders_noted senders (st_mqueue s)"
  shows "\<exists>n s'. ipc_mqueue_select_on_thread copyout_size senders option max_size th s = Some (n, s')
    \<and> (if got_message option (st_threads s' th) then took_first senders th x xs s n s'
       else n = senders \<and> st_mqueue s' = st_mqueue s \<and> st_kmsgs s' = st_kmsgs s
         \<and> (\<forall>t. t \<noteq> th \<longrightarrow> st_threads s' t = st_threads s t))"
proof -
  have f: "mq_messages (st_mqueue s) = x" "x \<noteq> IKM_NULL"
    using kmsg_ring.first_eq [OF q] kmsg_ring.rep_ok [OF q] by (auto simp: ipc_kmsg_queue_first_def)
  obtain base h n mq where t: "ipc_kmsg_rmqueue x x (st_kmsgs s) = Some (base, h)"
      "ipc_mqueue_release_msgcount senders ((st_mqueue s)\<lparr>mq_messages := base\<rparr>) = (n, mq)"
      "took_first senders th x xs s n (give_kmsg th x (s\<lparr>st_mqueue := mq, st_kmsgs := h\<rparr>))"
    using take_first [OF q c w] f by blast
  have u: "took_first senders th x xs s n (upd_thread th (\<lambda>t. t\<lparr>ith_state := r\<rparr>) s')" if "took_first senders th x xs s n s'" for r s'
    using that by (simp add: took_first_def)
  show ?thesis
  proof (cases "copyout_size x th + REQUESTED_TRAILER_SIZE option > max_size \<and> option AND MACH_RCV_LARGE \<noteq> 0")
    case True
    then show ?thesis using f by (simp add: ipc_mqueue_select_on_thread_def ipc_kmsg_queue_first_def got_message_def)
  next
    case False
    then show ?thesis
      using f t u [OF t(3)] by (auto simp: ipc_mqueue_select_on_thread_def ipc_kmsg_queue_first_def rmqueue_first_eq got_message_def Let_def)
  qed
qed

text \<open>
  A receive takes the first message, or finds the queue empty and waits or gives up, or is told
  that the message is too large for it.
\<close>

lemma receive_ok:
  assumes q: "holds_messages s xs" and c: "length xs \<le> unat (mq_msgcount (st_mqueue s))" and w: "senders_noted senders (st_mqueue s)"
  shows "\<exists>wr n s'. ipc_mqueue_receive_on_thread copyout_size senders THREAD_WAITING option max_size rcv_timeout th s = Some (wr, n, s')
    \<and> (if wr = THREAD_NOT_WAITING \<and> got_message option (st_threads s' th)
       then xs \<noteq> [] \<and> took_first senders th (hd xs) (tl xs) s n s'
       else n = senders \<and> st_mqueue s' = st_mqueue s \<and> st_kmsgs s' = st_kmsgs s
         \<and> (\<forall>t. t \<noteq> th \<longrightarrow> st_threads s' t = st_threads s t)
         \<and> (wr \<noteq> THREAD_NOT_WAITING \<longrightarrow> wr = THREAD_WAITING \<and> xs = [] \<and> ith_state (st_threads s' th) = MACH_RCV_IN_PROGRESS))"
proof (cases xs)
  case Nil
  then show ?thesis
    using kmsg_ring.first_eq [OF q] by (simp add: ipc_mqueue_receive_on_thread_def got_message_def)
next
  case (Cons x ys)
  have f: "ipc_kmsg_queue_first (mq_messages (st_mqueue s)) \<noteq> IKM_NULL"
    using kmsg_ring.first_eq [OF q] kmsg_ring.rep_ok [OF q] Cons by auto
  obtain n s' where r: "ipc_mqueue_select_on_thread copyout_size senders option max_size th s = Some (n, s')"
      "if got_message option (st_threads s' th) then took_first senders th x ys s n s'
       else n = senders \<and> st_mqueue s' = st_mqueue s \<and> st_kmsgs s' = st_kmsgs s \<and> (\<forall>t. t \<noteq> th \<longrightarrow> st_threads s' t = st_threads s t)"
    using select_ok [of s x ys senders copyout_size option max_size th] q c w Cons by auto
  then show ?thesis using f Cons by (simp add: ipc_mqueue_receive_on_thread_def)
qed

text \<open>Messages with consecutive sequence numbers.\<close>

fun numbered :: "natural_t \<Rightarrow> addr list \<Rightarrow> (addr \<times> natural_t) list" where
  "numbered seqno [] = []"
| "numbered seqno (x # xs) = (x, seqno) # numbered (seqno + 1) xs"

lemma numbered_append: "numbered seqno (xs @ ys) = numbered seqno xs @ numbered (seqno + of_nat (length xs)) ys"
  by (induction xs arbitrary: seqno) (simp_all add: add.assoc)

lemma numbered_simps [simp]: "map fst (numbered seqno xs) = xs" "length (numbered seqno xs) = length xs"
  by (induction xs arbitrary: seqno) simp_all

lemma numbered_nth: "i < length xs \<Longrightarrow> numbered seqno xs ! i = (xs ! i, seqno + of_nat i)"
proof (induction xs arbitrary: seqno i)
  case (Cons x xs)
  then show ?case by (cases i) (simp_all add: add.assoc)
qed simp

subsection \<open>Joining a set\<close>

text \<open>What the receivers that have been woken are holding, in the order in which they were woken.\<close>

definition handed :: "nat list \<Rightarrow> nat list \<Rightarrow> mq_state \<Rightarrow> (addr \<times> natural_t) list" where
  "handed rs rs' s =
     map (\<lambda>th. (ith_kmsg (st_threads s th), ith_seqno (st_threads s th)))
       (filter (\<lambda>th. th \<notin> set rs' \<and> ith_kmsg (st_threads s th) \<noteq> IKM_NULL) rs)"

definition add_result ::
    "nat \<Rightarrow> nat list \<Rightarrow> mq_state \<Rightarrow> addr list \<Rightarrow> (nat list \<times> nat \<times> mq_state) option \<Rightarrow> bool" where
  "add_result senders rs s xs res \<longleftrightarrow>
     (\<exists>rs' n s' ys zs. res = Some (rs', n, s') \<and> xs = ys @ zs \<and> holds_messages s' zs
       \<and> links_only (set xs) (st_kmsgs s) (st_kmsgs s') \<and> others_kept rs rs' s s' \<and> (zs = [] \<or> rs' = [])
       \<and> n \<le> senders \<and> unat (mq_msgcount (st_mqueue s')) + n + length ys = unat (mq_msgcount (st_mqueue s)) + senders
       \<and> senders_noted n (st_mqueue s') \<and> mq_seqno (st_mqueue s') = mq_seqno (st_mqueue s) + of_nat (length ys)
       \<and> handed rs rs' s' = numbered (mq_seqno (st_mqueue s)) ys)"

lemma add_refused:
  assumes r: "add_result senders rs s' xs res" and s': "st_mqueue s' = st_mqueue s" "st_kmsgs s' = st_kmsgs s"
    "ith_kmsg (st_threads s' th) = IKM_NULL" and t: "\<And>t. t \<noteq> th \<Longrightarrow> st_threads s' t = st_threads s t" and th: "th \<notin> set rs"
  shows "add_result senders (th # rs) s xs res"
proof -
  have o: "others_kept (th # rs) rs' s s'' \<and> handed (th # rs) rs' s'' = handed rs rs' s''" if "others_kept rs rs' s' s''" for rs' s''
  proof (rule conjI)
    show "others_kept (th # rs) rs' s s''" by (rule others_kept_Cons [OF that t th])
    have "st_threads s'' th = st_threads s' th" using that th unfolding others_kept_def by blast
    then show "handed (th # rs) rs' s'' = handed rs rs' s''" using s'(3) by (simp add: handed_def)
  qed
  then show ?thesis using r s'(1,2) unfolding add_result_def by metis
qed

lemma add_accepted:
  assumes r: "add_result m rs s' xs res" and f: "took_first senders th x xs s m s'" and th: "th \<notin> set rs" and x: "x \<noteq> IKM_NULL"
  shows "add_result senders (th # rs) s (x # xs) res"
proof -
  obtain rs' n s'' ys ws where a: "res = Some (rs', n, s'')" "xs = ys @ ws" "holds_messages s'' ws"
      "links_only (set xs) (st_kmsgs s') (st_kmsgs s'')" "others_kept rs rs' s' s''" "ws = [] \<or> rs' = []" "n \<le> m"
      "unat (mq_msgcount (st_mqueue s'')) + n + length ys = unat (mq_msgcount (st_mqueue s')) + m"
      "senders_noted n (st_mqueue s'')" "mq_seqno (st_mqueue s'') = mq_seqno (st_mqueue s') + of_nat (length ys)"
      "handed rs rs' s'' = numbered (mq_seqno (st_mqueue s')) ys"
    using r unfolding add_result_def by blast
  note f' = f [unfolded took_first_def]
  have l: "links_only (set (x # xs)) (st_kmsgs s) (st_kmsgs s'')"
    by (rule links_only_mono [OF links_only_trans [OF _ a(4)]]) (use f' in auto)
  have o: "others_kept (th # rs) rs' s s''" by (rule others_kept_Cons [OF a(5) _ th]) (use f' in simp)
  have "st_threads s'' th = st_threads s' th" "th \<notin> set rs'" using a(5) th unfolding others_kept_def by auto
  then have h: "handed (th # rs) rs' s'' = numbered (mq_seqno (st_mqueue s)) (x # ys)"
    using a(11) f' x by (simp add: handed_def)
  show ?thesis unfolding add_result_def
    using a l o h f' by (intro exI [of _ rs'] exI [of _ n] exI [of _ s''] exI [of _ "x # ys"] exI [of _ ws]) (simp add: add.assoc)
qed


lemma add_ok:
  assumes "holds_messages s xs" "distinct rs" "\<forall>t \<in> set rs. ith_state (st_threads s t) = MACH_RCV_IN_PROGRESS"
    "length xs \<le> unat (mq_msgcount (st_mqueue s))" "senders_noted senders (st_mqueue s)"
  shows "add_result senders rs s xs
    (ipc_mqueue_add_loop copyout_size senders rs (ipc_kmsg_queue_first (mq_messages (st_mqueue s))) s)"
  using assms
proof (induction rs arbitrary: senders s xs)
  case Nil
  then show ?case by (auto simp: add_result_def others_kept_def handed_def intro!: exI [of _ "[]"])
next
  case (Cons th rs)
  show ?case
  proof (cases xs)
    case Nil
    then have "ipc_kmsg_queue_first (mq_messages (st_mqueue s)) = IKM_NULL" using kmsg_ring.first_eq [OF Cons.prems(1)] by simp
    then show ?thesis
      using Nil Cons.prems by (auto simp: add_result_def others_kept_def handed_def)
  next
    case (Cons x ys)
    note xs = this
    let ?s = "upd_thread th (offer copyout_size x th) s"
    note q = Cons.prems(1) [unfolded xs]
    have f: "ipc_kmsg_queue_first (mq_messages (st_mqueue s)) = x" "x \<noteq> IKM_NULL"
      using kmsg_ring.first_eq [OF q] kmsg_ring.rep_ok [OF q] by auto
    have run: "ith_state (st_threads s th) = MACH_RCV_IN_PROGRESS" using Cons.prems by simp
    obtain y where y: "ipc_kmsg_queue_next (mq_messages (st_mqueue s)) x (st_kmsgs s) = Some y"
        "y = (if ys = [] then IKM_NULL else hd ys)"
      using kmsg_ring.following_ok [of "mq_messages (st_mqueue s)" "st_kmsgs s" "[]" x ys] q by auto
    show ?thesis
    proof (cases "accepts (st_threads ?s th)")
      case True
      obtain base h n mq where t: "ipc_kmsg_rmqueue (mq_messages (st_mqueue s)) x (st_kmsgs s) = Some (base, h)"
          "ipc_mqueue_release_msgcount senders ((st_mqueue s)\<lparr>mq_messages := base\<rparr>) = (n, mq)"
          "took_first senders th x ys ?s n (give_kmsg th x (?s\<lparr>st_mqueue := mq, st_kmsgs := h\<rparr>))"
        using take_first [of ?s x ys senders th] q Cons.prems(4,5) xs by auto
      define s' where "s' = give_kmsg th x (?s\<lparr>st_mqueue := mq, st_kmsgs := h\<rparr>)"
      note tk = t(3) [folded s'_def, unfolded took_first_upd]
      note tk' = tk [unfolded took_first_def]
      have fy: "ipc_kmsg_queue_first (mq_messages (st_mqueue s')) = y"
        using kmsg_ring.first_eq [of _ _ ys] tk' y(2) by blast
      have "add_result n rs s' ys (ipc_mqueue_add_loop copyout_size n rs (ipc_kmsg_queue_first (mq_messages (st_mqueue s'))) s')"
      proof (rule Cons.IH)
        show "length ys \<le> unat (mq_msgcount (st_mqueue s'))" using tk' Cons.prems(4) unfolding xs by simp
      qed (use tk' Cons.prems(2,3) in auto)
      then have "add_result senders (th # rs) s (x # ys) (ipc_mqueue_add_loop copyout_size n rs y s')"
        unfolding fy using tk Cons.prems(2) f(2) by (intro add_accepted) simp_all
      then show ?thesis using True run f y(1) t(1,2) xs by (simp add: Let_def s'_def)
    next
      case False
      let ?s' = "refuse_kmsg th ?s"
      have "add_result senders rs ?s' xs (ipc_mqueue_add_loop copyout_size senders rs (ipc_kmsg_queue_first (mq_messages (st_mqueue ?s'))) ?s')"
        by (rule Cons.IH) (use Cons.prems in auto)
      then have "add_result senders (th # rs) s xs (ipc_mqueue_add_loop copyout_size senders rs x ?s')"
        using f(1) Cons.prems(2) by (intro add_refused [where s' = ?s']) simp_all
      then show ?thesis using False run f y(1) by simp
    qed
  qed
qed

subsection \<open>Limits, destruction and peeking\<close>

lemma unat_ucast_up: "unat (ucast (c :: 16 word) :: natural_t) = unat c"
  by (simp add: unsigned_ucast_eq take_bit_nat_eq_self unsigned_less [THEN less_trans])

lemma qlimit_loop:
  assumes "mq_set_qlimit_loop d senders mq = (n, mq')" "unat (mq_msgcount mq) + (senders - n) < 65536"
  shows "n = senders - d \<and> unat (mq_msgcount mq') + n = unat (mq_msgcount mq) + senders \<and> same_queue mq mq'
    \<and> (n > 0 \<longrightarrow> mq_fullwaiters mq' = mq_fullwaiters mq)"
  using assms
proof (induction d senders mq rule: mq_set_qlimit_loop.induct)
  case (3 d senders mq)
  let ?mq = "mq\<lparr>mq_msgcount := mq_msgcount mq + 1\<rparr>"
  have le: "n' \<le> k" if "mq_set_qlimit_loop d k mq = (n', mq')" for d k n' mq
    using that by (induction d k mq rule: mq_set_qlimit_loop.induct) auto
  have n: "n \<le> senders" using le [of d senders ?mq n] 3(2) by simp
  then have "unat (mq_msgcount mq) + 1 < 65536" using 3(3) by simp
  then have u: "unat (mq_msgcount mq + 1) = unat (mq_msgcount mq) + 1" by (simp add: unat_word_ariths)
  then show ?case using 3 n by (simp add: same_queue_def)
qed (auto simp: same_queue_def)

lemma set_qlimit_ok:
  assumes s: "mq_set_qlimit senders qlimit mq = (n, mq')" and c: "unat (mq_msgcount mq) + (senders - n) < 65536"
    and q: "unat qlimit < 65536" and w: "senders_noted senders mq"
  shows "n \<le> senders \<and> unat (mq_msgcount mq') + n = unat (mq_msgcount mq) + senders \<and> senders_noted n mq'
    \<and> same_queue mq mq' \<and> unat (mq_qlimit mq') = unat qlimit"
proof -
  have uq: "unat (ucast qlimit :: 16 word) = unat qlimit" using q by (simp add: unsigned_ucast_eq take_bit_nat_eq_self)
  note ul = unat_ucast_up [of "mq_qlimit mq"]
  show ?thesis
  proof (cases "qlimit > ucast (mq_qlimit mq)")
    case True
    let ?d = "unat (qlimit - ucast (mq_qlimit mq))"
    have d: "?d = unat qlimit - unat (mq_qlimit mq)" "unat (mq_qlimit mq) < unat qlimit"
      using True ul by (simp_all add: word_less_nat_alt unat_sub_if')
    obtain mq1 where l: "mq_set_qlimit_loop ?d senders mq = (n, mq1)" "mq' = mq1\<lparr>mq_qlimit := ucast qlimit\<rparr>"
      using s True by (auto simp: mq_set_qlimit_def split: prod.splits)
    note r = qlimit_loop [OF l(1) c]
    then show ?thesis
      using l(2) uq d w by (auto simp: senders_noted_def imq_full_def same_queue_def word_le_nat_alt)
  next
    case False
    then have "unat qlimit \<le> unat (mq_qlimit mq)" using ul by (simp add: word_less_nat_alt)
    then show ?thesis
      using s False uq w by (auto simp: mq_set_qlimit_def senders_noted_def imq_full_def same_queue_def word_le_nat_alt)
  qed
qed

lemma mq_destroy_ok:
  assumes "holds_messages s xs" "kmsg_queue d (st_kmsgs s) ds" "set xs \<inter> set ds = {}"
  shows "\<exists>d' s'. mq_destroy d s = Some (xs \<noteq> [] \<and> ds = [], d', s') \<and> kmsg_queue d' (st_kmsgs s') (ds @ xs)
    \<and> holds_messages s' [] \<and> mq_msgcount (st_mqueue s') = 0 \<and> mq_seqno (st_mqueue s') = mq_seqno (st_mqueue s)"
  using kmsg_ring.drain_ok [OF assms, of False] by (auto simp: mq_destroy_def)

text \<open>The message with a given sequence number, if it is in the queue.\<close>

lemma peek_ok:
  assumes q: "holds_messages s xs" and c: "length xs \<le> unat (mq_msgcount (st_mqueue s))"
    and seq: "unat (mq_seqno (st_mqueue s)) + unat (mq_msgcount (st_mqueue s)) < 2 ^ 32"
  shows "\<exists>res. ipc_mqueue_peek seqno s = Some res
    \<and> (let i = (if seqno = 0 then 0 else unat (seqno - mq_seqno (st_mqueue s))) in
       if (seqno = 0 \<or> mq_seqno (st_mqueue s) \<le> seqno) \<and> i < length xs
       then \<exists>m. st_kmsgs s (xs ! i) = Some m
         \<and> res = Some (mq_seqno (st_mqueue s) + of_nat i, msgh_size (ikm_header m), msgh_id (ikm_header m))
       else res = None)"
proof -
  let ?n = "mq_seqno (st_mqueue s)" and ?c = "mq_msgcount (st_mqueue s)"
  have f: "ipc_kmsg_queue_first (mq_messages (st_mqueue s)) = (if xs = [] then IKM_NULL else hd xs)"
    by (rule kmsg_ring.first_eq [OF q])
  have k: "seek (\<lambda>m. ipc_kmsg_queue_next (mq_messages (st_mqueue s)) m (st_kmsgs s)) IKM_NULL i
      (ipc_kmsg_queue_first (mq_messages (st_mqueue s))) = Some (if i < length xs then xs ! i else IKM_NULL)" for i
    unfolding f by (rule kmsg_ring.seek_ok [of _ _ "[]" xs, simplified, OF q])
  have at: "xs ! i \<noteq> IKM_NULL \<and> (\<exists>m. st_kmsgs s (xs ! i) = Some m)" if "i < length xs" for i
    using kmsg_ring.rep_ok [OF q] nth_mem [OF that] by (metis not_Some_eq)
  have u: "unat (?n + ucast ?c) = unat ?n + unat ?c"
    using seq by (simp add: unat_word_ariths unat_ucast_up)
  have i: "unat (seqno - ?n) = unat seqno - unat ?n" if "?n \<le> seqno"
    using that by (simp add: word_le_nat_alt unat_sub_if')
  show ?thesis
  proof (cases "seqno = 0")
    case True
    then show ?thesis using k [of 0] at [of 0] by (auto simp: ipc_mqueue_peek_def Let_def split: if_splits)
  next
    case False
    have r: "seqno < ?n + ucast ?c \<longleftrightarrow> unat (seqno - ?n) < unat ?c" if "?n \<le> seqno"
      using i [OF that] u that by (auto simp: word_less_nat_alt word_le_nat_alt)
    show ?thesis
      using False k [of "unat (seqno - ?n)"] at [of "unat (seqno - ?n)"] r c by (auto simp: ipc_mqueue_peek_def Let_def)
  qed
qed

end
