(* ===== verification/Mqueue_History.thy ===== *)
theory Mqueue_History
  imports Mqueue_Run "HOL-Library.Multiset"
begin

text \<open>
  A message queue in use, from its creation on: threads send and receive, wait and give up, the
  limit changes, the port joins a set, the queue is destroyed, in any order. The history records
  which messages were posted and which were taken, with the sequence numbers the receivers saw.
\<close>

unbundle bit_operations_syntax

subsection \<open>Histories\<close>

text \<open>
  \<open>run_reserved\<close> are the messages of senders that have been admitted and have not posted yet,
  \<open>run_blocked\<close> those of senders that wait for room, \<open>run_waiting\<close> the threads that wait for a
  message.
\<close>

record mq_run =
  run_st :: mq_state
  run_reserved :: "addr list"
  run_blocked :: "addr list"
  run_waiting :: "nat list"
  run_posted :: "addr list"
  run_taken :: "(addr \<times> natural_t) list"
  run_dead :: bool

definition undelivered :: "mq_run \<Rightarrow> addr list" where
  "undelivered r = drop (length (run_taken r)) (run_posted r)"

text \<open>A new queue: no messages, nobody waits.\<close>

definition mq_new :: "ipc_mqueue \<Rightarrow> kmsgs \<Rightarrow> (nat \<Rightarrow> thread) \<Rightarrow> mq_run" where
  "mq_new mq h ths =
     \<lparr>run_st = \<lparr>st_mqueue = ipc_mqueue_init mq, st_kmsgs = h, st_threads = ths\<rparr>, run_reserved = [], run_blocked = [],
      run_waiting = [], run_posted = [], run_taken = [], run_dead = False\<rparr>"

text \<open>What a thread holds when it has received a message.\<close>

definition receipt :: "nat \<Rightarrow> mq_state \<Rightarrow> addr \<times> natural_t" where
  "receipt th s = (ith_kmsg (st_threads s th), ith_seqno (st_threads s th))"

text \<open>
  The wait queue may return the waiting receivers in any order, and wake any of the blocked
  senders. An address may be used for a new message as soon as the old one has been taken. The
  limit can be changed as long as the count stays within its 16 bits. After the queue has been
  destroyed, the port is dead and only the senders that had been admitted still come.
\<close>

inductive mq_step :: "(addr \<Rightarrow> nat \<Rightarrow> natural_t) \<Rightarrow> mq_run \<Rightarrow> mq_run \<Rightarrow> bool" for copyout_size where
  send: "\<lbrakk>\<not> run_dead r; k \<noteq> IKM_NULL; k \<notin> set (undelivered r @ run_reserved r @ run_blocked r);
      ipc_mqueue_send_reserve option send_timeout m (st_mqueue (run_st r)) = (p, mq)\<rbrakk>
    \<Longrightarrow> mq_step copyout_size r
      (r\<lparr>run_st := (run_st r)\<lparr>st_mqueue := mq, st_kmsgs := (st_kmsgs (run_st r))(k \<mapsto> m)\<rparr>,
         run_reserved := (if p = Send_reserved then k # run_reserved r else run_reserved r),
         run_blocked := (if p = Send_blocked then k # run_blocked r else run_blocked r)\<rparr>)"
| give_up: "\<lbrakk>\<not> run_dead r; k \<in> set (run_blocked r); ipc_mqueue_send_awake wresult = Some (Inl mr)\<rbrakk>
    \<Longrightarrow> mq_step copyout_size r (r\<lparr>run_blocked := remove1 k (run_blocked r)\<rparr>)"
| post: "\<lbrakk>k \<in> set (run_reserved r); mset receivers = mset (run_waiting r);
      ipc_mqueue_post copyout_size (length (run_blocked r)) receivers k (run_st r) = Some (out, receivers', length blocked, s);
      mset (run_blocked r) = mset (woken @ blocked)\<rbrakk>
    \<Longrightarrow> mq_step copyout_size r
      (r\<lparr>run_st := s, run_reserved := remove1 k (run_reserved r) @ woken, run_blocked := blocked, run_waiting := receivers',
         run_posted := (if out = Post_destroyed then run_posted r else run_posted r @ [k]),
         run_taken := run_taken r @ (case out of Post_delivered th \<Rightarrow> [receipt th s] | _ \<Rightarrow> [])\<rparr>)"
| receive: "\<lbrakk>\<not> run_dead r; th \<notin> set (run_waiting r);
      ipc_mqueue_receive_on_thread copyout_size (length (run_blocked r)) THREAD_WAITING option max_size rcv_timeout th (run_st r)
        = Some (wresult, length blocked, s);
      mset (run_blocked r) = mset (woken @ blocked)\<rbrakk>
    \<Longrightarrow> mq_step copyout_size r
      (r\<lparr>run_st := s, run_reserved := run_reserved r @ woken, run_blocked := blocked,
         run_waiting := (if wresult = THREAD_NOT_WAITING then run_waiting r else th # run_waiting r),
         run_taken := run_taken r @ (if wresult = THREAD_NOT_WAITING \<and> got_message option (st_threads s th) then [receipt th s] else [])\<rparr>)"
| leave: "\<lbrakk>\<not> run_dead r; th \<in> set (run_waiting r)\<rbrakk>
    \<Longrightarrow> mq_step copyout_size r (r\<lparr>run_st := upd_thread th f (run_st r), run_waiting := remove1 th (run_waiting r)\<rparr>)"
| limit: "\<lbrakk>\<not> run_dead r; unat qlimit < 65536;
      mq_set_qlimit (length (run_blocked r)) qlimit (st_mqueue (run_st r)) = (length blocked, mq);
      mset (run_blocked r) = mset (woken @ blocked);
      unat (mq_msgcount (st_mqueue (run_st r))) + length woken < 65536\<rbrakk>
    \<Longrightarrow> mq_step copyout_size r
      (r\<lparr>run_st := (run_st r)\<lparr>st_mqueue := mq\<rparr>, run_reserved := run_reserved r @ woken, run_blocked := blocked\<rparr>)"
| join: "\<lbrakk>\<not> run_dead r; distinct (receivers @ run_waiting r);
      \<forall>t \<in> set receivers. ith_state (st_threads (run_st r) t) = MACH_RCV_IN_PROGRESS;
      ipc_mqueue_add copyout_size (length (run_blocked r)) KERN_SUCCESS receivers (run_st r)
        = Some (kr, receivers', length blocked, s);
      mset (run_blocked r) = mset (woken @ blocked)\<rbrakk>
    \<Longrightarrow> mq_step copyout_size r
      (r\<lparr>run_st := s, run_reserved := run_reserved r @ woken, run_blocked := blocked, run_waiting := receivers' @ run_waiting r,
         run_taken := run_taken r @ handed receivers receivers' s\<rparr>)"
| destroy: "\<lbrakk>\<not> run_dead r; mq_destroy IKM_NULL (run_st r) = Some (reap, delayed, s)\<rbrakk>
    \<Longrightarrow> mq_step copyout_size r (r\<lparr>run_st := s, run_blocked := [], run_waiting := [], run_dead := True\<rparr>)"

inductive mq_history :: "(addr \<Rightarrow> nat \<Rightarrow> natural_t) \<Rightarrow> mq_run \<Rightarrow> bool" for copyout_size where
  start: "mq_history copyout_size (mq_new mq h ths)"
| step: "mq_history copyout_size r \<Longrightarrow> mq_step copyout_size r r' \<Longrightarrow> mq_history copyout_size r'"

subsection \<open>The invariant\<close>

text \<open>
  \<open>past\<close> are the messages taken, \<open>xs\<close> those in the queue. The count has a place for each message
  in the queue and each admitted one; messages and waiting receivers exclude each other; a sender
  waits only while the queue is full.
\<close>

definition mq_live :: "addr list \<Rightarrow> addr list \<Rightarrow> mq_run \<Rightarrow> bool" where
  "mq_live past xs r \<longleftrightarrow>
     holds_messages (run_st r) xs \<and> distinct (xs @ run_reserved r @ run_blocked r)
     \<and> (\<forall>k \<in> set (run_reserved r @ run_blocked r). k \<noteq> IKM_NULL \<and> st_kmsgs (run_st r) k \<noteq> None)
     \<and> distinct (run_waiting r) \<and> (\<forall>t \<in> set (run_waiting r). ith_state (st_threads (run_st r) t) = MACH_RCV_IN_PROGRESS)
     \<and> (xs = [] \<or> run_waiting r = [])
     \<and> unat (mq_msgcount (st_mqueue (run_st r))) = length xs + length (run_reserved r)
     \<and> senders_noted (length (run_blocked r)) (st_mqueue (run_st r))
     \<and> mq_seqno (st_mqueue (run_st r)) = of_nat (length past)"

definition mq_inv :: "mq_run \<Rightarrow> bool" where
  "mq_inv r \<longleftrightarrow>
     (\<exists>past xs. run_posted r = past @ xs \<and> run_taken r = numbered 0 past
       \<and> (if run_dead r then mq_msgcount (st_mqueue (run_st r)) = 0 \<and> run_waiting r = [] else mq_live past xs r))"

lemma woken_senders:
  assumes "mset bs = mset (ws @ bs')"
  shows "set bs = set ws \<union> set bs'" "distinct bs \<longleftrightarrow> distinct (ws @ bs')" "length bs = length ws + length bs'"
  using mset_eq_setD [OF assms] mset_eq_imp_distinct_iff [OF assms] mset_eq_length [OF assms] by simp_all

text \<open>The store keeps its messages when links change.\<close>

lemma links_some: "links_only A h h' \<Longrightarrow> (h' k \<noteq> None) = (h k \<noteq> None)"
  using links_only_dom by metis

lemma undelivered_eq: "run_posted r = past @ xs \<Longrightarrow> run_taken r = numbered 0 past \<Longrightarrow> undelivered r = xs"
  by (simp add: undelivered_def)

lemma mq_invI: "run_posted r = past @ xs \<Longrightarrow> run_taken r = numbered 0 past \<Longrightarrow> \<not> run_dead r \<Longrightarrow> mq_live past xs r \<Longrightarrow> mq_inv r"
  by (auto simp: mq_inv_def)

lemma mq_invD:
  assumes "mq_inv r" "\<not> run_dead r"
  obtains past where "run_posted r = past @ undelivered r" "run_taken r = numbered 0 past" "mq_live past (undelivered r) r"
proof -
  obtain past xs where "run_posted r = past @ xs" "run_taken r = numbered 0 past" "mq_live past xs r"
    using assms unfolding mq_inv_def by auto
  then show ?thesis using that undelivered_eq by metis
qed

lemma send_reserve:
  assumes "ipc_mqueue_send_reserve option send_timeout m mq = (p, mq')" "senders_noted n mq"
  shows "same_queue mq mq' \<and>
    (case p of
       Send_reserved \<Rightarrow> unat (mq_msgcount mq') = unat (mq_msgcount mq) + 1 \<and> senders_noted n mq'
     | Send_blocked \<Rightarrow> mq_msgcount mq' = mq_msgcount mq \<and> senders_noted (Suc n) mq'
     | Send_failed mr \<Rightarrow> mq' = mq)"
proof -
  have u: "unat (c + 1) = unat c + 1 \<and> c \<le> c + 1" if "\<not> (l \<le> c \<and> 65534 \<le> c)" for c l :: "16 word"
  proof -
    have "unat c + 1 < 65536" using that unsigned_less [of l, where ?'a = nat] by (auto simp: word_le_nat_alt)
    then show ?thesis by (simp add: unat_word_ariths word_le_nat_alt)
  qed
  show ?thesis
    using assms u [of "mq_qlimit mq" "mq_msgcount mq"]
    by (auto simp: ipc_mqueue_send_reserve_def same_queue_def senders_noted_def imq_full_def imq_full_kernel_def split: if_splits)
qed

text \<open>
  Blocked senders that get the place of a message taken become admitted ones: the part of the
  invariant about senders and count.
\<close>

lemma admitted:
  assumes live: "mq_live past xs r" and ws: "mset (run_blocked r) = mset (woken @ blocked)"
    and same: "\<And>k. st_kmsgs s k \<noteq> None \<longleftrightarrow> st_kmsgs (run_st r) k \<noteq> None"
    and count: "unat (mq_msgcount (st_mqueue s)) + length blocked + length ys = unat (mq_msgcount (st_mqueue (run_st r))) + length (run_blocked r)"
    and xs: "xs = ys @ zs"
  shows "distinct (zs @ (run_reserved r @ woken) @ blocked)"
    "\<forall>k \<in> set ((run_reserved r @ woken) @ blocked). k \<noteq> IKM_NULL \<and> st_kmsgs s k \<noteq> None"
    "unat (mq_msgcount (st_mqueue s)) = length zs + length (run_reserved r @ woken)"
proof -
  note w = woken_senders [OF ws] and l = live [unfolded mq_live_def]
  show "distinct (zs @ (run_reserved r @ woken) @ blocked)" using l w(1,2) xs by auto
  show "\<forall>k \<in> set ((run_reserved r @ woken) @ blocked). k \<noteq> IKM_NULL \<and> st_kmsgs s k \<noteq> None"
    unfolding same using l w(1) by auto
  show "unat (mq_msgcount (st_mqueue s)) = length zs + length (run_reserved r @ woken)" using l w(3) count xs by simp
qed


subsection \<open>Every step keeps the invariant\<close>

lemma send_inv:
  assumes inv: "mq_inv r" and alive: "\<not> run_dead r" and k: "k \<noteq> IKM_NULL" "k \<notin> set (undelivered r @ run_reserved r @ run_blocked r)"
    and p: "ipc_mqueue_send_reserve option send_timeout m (st_mqueue (run_st r)) = (p, mq)"
  shows "mq_inv (r\<lparr>run_st := (run_st r)\<lparr>st_mqueue := mq, st_kmsgs := (st_kmsgs (run_st r))(k \<mapsto> m)\<rparr>,
      run_reserved := (if p = Send_reserved then k # run_reserved r else run_reserved r),
      run_blocked := (if p = Send_blocked then k # run_blocked r else run_blocked r)\<rparr>)"
proof -
  obtain past where h: "run_posted r = past @ undelivered r" "run_taken r = numbered 0 past" and live: "mq_live past (undelivered r) r"
    using mq_invD [OF inv alive] by blast
  note l = live [unfolded mq_live_def]
  have q: "kmsg_queue (mq_messages (st_mqueue (run_st r))) ((st_kmsgs (run_st r))(k \<mapsto> m)) (undelivered r)"
    by (rule kmsg_queue_same [OF conjunct1 [OF l]]) (use k in auto)
  have s: "same_queue (st_mqueue (run_st r)) mq" using send_reserve [OF p] l by blast
  note c = send_reserve [OF p, of "length (run_blocked r)"]
  show ?thesis
    by (rule mq_invI [of _ past "undelivered r"])
      (use h alive q s c l k in \<open>auto simp: mq_live_def same_queue_def split: send_progress.splits\<close>)
qed

lemma give_up_inv:
  assumes inv: "mq_inv r" and alive: "\<not> run_dead r"
  shows "mq_inv (r\<lparr>run_blocked := remove1 k (run_blocked r)\<rparr>)"
proof -
  obtain past where h: "run_posted r = past @ undelivered r" "run_taken r = numbered 0 past" and live: "mq_live past (undelivered r) r"
    using mq_invD [OF inv alive] by blast
  have "senders_noted (length (remove1 k (run_blocked r))) (st_mqueue (run_st r))"
    using live by (auto simp: mq_live_def senders_noted_def length_remove1)
  then show ?thesis
    by (intro mq_invI [of _ past "undelivered r"])
      (use h alive live set_remove1_subset [of k "run_blocked r"] in \<open>auto simp: mq_live_def\<close>)
qed

lemma post_inv:
  assumes inv: "mq_inv r" and k: "k \<in> set (run_reserved r)" and rs: "mset receivers = mset (run_waiting r)"
    and p: "ipc_mqueue_post copyout_size (length (run_blocked r)) receivers k (run_st r) = Some (out, receivers', length blocked, s)"
    and ws: "mset (run_blocked r) = mset (woken @ blocked)"
  shows "mq_inv (r\<lparr>run_st := s, run_reserved := remove1 k (run_reserved r) @ woken, run_blocked := blocked, run_waiting := receivers',
      run_posted := (if out = Post_destroyed then run_posted r else run_posted r @ [k]),
      run_taken := run_taken r @ (case out of Post_delivered th \<Rightarrow> [receipt th s] | _ \<Rightarrow> [])\<rparr>)"
proof (cases "run_dead r")
  case True
  then have "receivers = []" "mq_msgcount (st_mqueue (run_st r)) = 0" using inv rs by (auto simp: mq_inv_def)
  then have "out = Post_destroyed" "s = run_st r" "receivers' = []" using p by auto
  then show ?thesis using inv True by (auto simp: mq_inv_def)
next
  case False
  then obtain past where h: "run_posted r = past @ undelivered r" "run_taken r = numbered 0 past" and live: "mq_live past (undelivered r) r"
    using mq_invD [OF inv] by blast
  note l = live [unfolded mq_live_def] and w = woken_senders [OF ws]
  have "post_result (length (run_blocked r)) receivers k (run_st r) (undelivered r) (Some (out, receivers', length blocked, s))"
    unfolding p [symmetric]
    by (rule post_ok) (use l k mset_eq_setD [OF rs] mset_eq_imp_distinct_iff [OF rs] length_pos_if_in_set [OF k] in auto)
  then have res: "others_kept receivers receivers' (run_st r) s" "senders_noted (length blocked) (st_mqueue s)"
      "case out of
         Post_queued \<Rightarrow> receivers' = [] \<and> length blocked = length (run_blocked r) \<and> holds_messages s (undelivered r @ [k])
           \<and> links_only (insert k (set (undelivered r))) (st_kmsgs (run_st r)) (st_kmsgs s)
           \<and> mq_msgcount (st_mqueue s) = mq_msgcount (st_mqueue (run_st r)) \<and> mq_seqno (st_mqueue s) = mq_seqno (st_mqueue (run_st r))
       | Post_delivered th \<Rightarrow> th \<in> set receivers \<and> length blocked \<le> length (run_blocked r)
           \<and> holds_messages s (undelivered r) \<and> st_kmsgs s = st_kmsgs (run_st r)
           \<and> unat (mq_msgcount (st_mqueue s)) + length blocked + 1 = unat (mq_msgcount (st_mqueue (run_st r))) + length (run_blocked r)
           \<and> mq_seqno (st_mqueue s) = mq_seqno (st_mqueue (run_st r)) + 1
           \<and> ith_kmsg (st_threads s th) = k \<and> ith_seqno (st_threads s th) = mq_seqno (st_mqueue (run_st r))
       | Post_destroyed \<Rightarrow> False"
    by (auto simp: post_result_def)
  have waiting: "distinct receivers'" "\<forall>t \<in> set receivers'. ith_state (st_threads s t) = MACH_RCV_IN_PROGRESS"
    using res(1) l mset_eq_setD [OF rs] by (auto simp: others_kept_def)
  let ?res = "remove1 k (run_reserved r) @ woken"
  have len: "length (run_reserved r) = Suc (length (remove1 k (run_reserved r)))"
    using length_pos_if_in_set [OF k] k by (simp add: length_remove1)
  have d: "distinct (undelivered r @ ?res @ blocked)" "k \<notin> set (undelivered r @ ?res @ blocked)"
    and node: "\<forall>j \<in> set (?res @ blocked). j \<noteq> IKM_NULL \<and> st_kmsgs (run_st r) j \<noteq> None"
    using l w(1,2) k by auto
  show ?thesis
  proof (cases out)
    case Post_queued
    note r3 = res(3) [unfolded Post_queued post_outcome.case]
    then have "\<forall>j \<in> set (?res @ blocked). j \<noteq> IKM_NULL \<and> st_kmsgs s j \<noteq> None" using node links_some by metis
    then have "mq_live past (undelivered r @ [k]) (r\<lparr>run_st := s, run_reserved := ?res, run_blocked := blocked, run_waiting := receivers'\<rparr>)"
      using r3 l d len w(3) res(2) by (simp add: mq_live_def)
    then show ?thesis
      using h False Post_queued by (intro mq_invI [of _ past "undelivered r @ [k]"]) (simp_all add: mq_live_def)
  next
    case (Post_delivered th)
    note r3 = res(3) [unfolded Post_delivered post_outcome.case]
    have none: "undelivered r = []" using r3 l mset_eq_setD [OF rs] by auto
    then have "kmsg_queue (mq_messages (st_mqueue s)) (st_kmsgs (run_st r)) []" using r3 by metis
    then have "mq_live (past @ [k]) [] (r\<lparr>run_st := s, run_reserved := ?res, run_blocked := blocked, run_waiting := receivers'\<rparr>)"
      using none r3 l d node len w(3) waiting res(2) by (simp add: mq_live_def)
    then show ?thesis
      using r3 l h none False Post_delivered
      by (intro mq_invI [of _ "past @ [k]" "[]"]) (simp_all add: mq_live_def receipt_def numbered_append)
  next
    case Post_destroyed
    then show ?thesis using res(3) by simp
  qed
qed

lemma receive_inv:
  assumes inv: "mq_inv r" and alive: "\<not> run_dead r" and th: "th \<notin> set (run_waiting r)"
    and rcv: "ipc_mqueue_receive_on_thread copyout_size (length (run_blocked r)) THREAD_WAITING option max_size rcv_timeout th (run_st r)
      = Some (wresult, length blocked, s)"
    and ws: "mset (run_blocked r) = mset (woken @ blocked)"
  shows "mq_inv (r\<lparr>run_st := s, run_reserved := run_reserved r @ woken, run_blocked := blocked,
      run_waiting := (if wresult = THREAD_NOT_WAITING then run_waiting r else th # run_waiting r),
      run_taken := run_taken r @ (if wresult = THREAD_NOT_WAITING \<and> got_message option (st_threads s th) then [receipt th s] else [])\<rparr>)"
proof -
  obtain past where h: "run_posted r = past @ undelivered r" "run_taken r = numbered 0 past" and live: "mq_live past (undelivered r) r"
    using mq_invD [OF inv alive] by blast
  note l = live [unfolded mq_live_def] and w = woken_senders [OF ws]
  let ?xs = "undelivered r"
  have "length ?xs \<le> unat (mq_msgcount (st_mqueue (run_st r)))" using l by simp
  note R = receive_ok [OF conjunct1 [OF l] this, of "length (run_blocked r)" copyout_size option max_size rcv_timeout th, unfolded rcv]
  show ?thesis
  proof (cases "wresult = THREAD_NOT_WAITING \<and> got_message option (st_threads s th)")
    case True
    then have ne: "?xs \<noteq> []" and t: "took_first (length (run_blocked r)) th (hd ?xs) (tl ?xs) (run_st r) (length blocked) s"
      using R l by auto
    note t' = t [unfolded took_first_def]
    have wt: "run_waiting r = []" using l ne by blast
    have nd: "st_kmsgs s k \<noteq> None \<longleftrightarrow> st_kmsgs (run_st r) k \<noteq> None" for k using t' links_some by blast
    have x: "?xs = [hd ?xs] @ tl ?xs" using ne by simp
    have "unat (mq_msgcount (st_mqueue s)) + length blocked + length [hd ?xs]
        = unat (mq_msgcount (st_mqueue (run_st r))) + length (run_blocked r)" using t' by simp
    note adm = admitted [OF live ws nd this x]
    have "mq_live (past @ [hd ?xs]) (tl ?xs) (r\<lparr>run_st := s, run_reserved := run_reserved r @ woken, run_blocked := blocked\<rparr>)"
      using t' adm l wt unfolding mq_live_def by simp
    moreover have "run_posted r = (past @ [hd ?xs]) @ tl ?xs" using h(1) x by simp
    moreover have "receipt th s = (hd ?xs, of_nat (length past))" using t' l by (simp add: receipt_def)
    ultimately show ?thesis
      using True h alive by (intro mq_invI [of _ "past @ [hd ?xs]" "tl ?xs"]) (simp_all add: mq_live_def numbered_append)
  next
    case False
    then have f: "length blocked = length (run_blocked r)" "st_mqueue s = st_mqueue (run_st r)" "st_kmsgs s = st_kmsgs (run_st r)"
        "\<forall>t. t \<noteq> th \<longrightarrow> st_threads s t = st_threads (run_st r) t"
        "wresult \<noteq> THREAD_NOT_WAITING \<longrightarrow> wresult = THREAD_WAITING \<and> ?xs = [] \<and> ith_state (st_threads s th) = MACH_RCV_IN_PROGRESS"
      using R l by auto
    have wk: "woken = []" using w(3) f(1) by simp
    let ?wait = "if wresult = THREAD_NOT_WAITING then run_waiting r else th # run_waiting r"
    have wt: "distinct ?wait" "\<forall>t \<in> set ?wait. ith_state (st_threads s t) = MACH_RCV_IN_PROGRESS" "?xs = [] \<or> ?wait = []"
      using l f(4,5) th by auto
    have b: "distinct (?xs @ run_reserved r @ blocked)" "set (run_blocked r) = set blocked" using l w(1,2) wk by auto
    have "mq_live past ?xs (r\<lparr>run_st := s, run_reserved := run_reserved r @ woken, run_blocked := blocked, run_waiting := ?wait\<rparr>)"
      unfolding mq_live_def by (intro conjI) (use l f(1-3) b wt in \<open>simp_all add: wk\<close>)
    then show ?thesis
      by (intro mq_invI [of _ past ?xs]) (use False h alive in \<open>simp_all add: mq_live_def\<close>)
  qed
qed


lemma leave_inv:
  assumes inv: "mq_inv r" and alive: "\<not> run_dead r"
  shows "mq_inv (r\<lparr>run_st := upd_thread th f (run_st r), run_waiting := remove1 th (run_waiting r)\<rparr>)"
proof -
  obtain past where h: "run_posted r = past @ undelivered r" "run_taken r = numbered 0 past" and live: "mq_live past (undelivered r) r"
    using mq_invD [OF inv alive] by blast
  then show ?thesis
    by (intro mq_invI [of _ past "undelivered r"]) (use alive in \<open>auto simp: mq_live_def\<close>)
qed

lemma limit_inv:
  assumes inv: "mq_inv r" and alive: "\<not> run_dead r" and q: "unat qlimit < 65536"
    and lim: "mq_set_qlimit (length (run_blocked r)) qlimit (st_mqueue (run_st r)) = (length blocked, mq)"
    and ws: "mset (run_blocked r) = mset (woken @ blocked)"
    and room: "unat (mq_msgcount (st_mqueue (run_st r))) + length woken < 65536"
  shows "mq_inv (r\<lparr>run_st := (run_st r)\<lparr>st_mqueue := mq\<rparr>, run_reserved := run_reserved r @ woken, run_blocked := blocked\<rparr>)"
proof -
  obtain past where h: "run_posted r = past @ undelivered r" "run_taken r = numbered 0 past" and live: "mq_live past (undelivered r) r"
    using mq_invD [OF inv alive] by blast
  note l = live [unfolded mq_live_def]
  have c: "unat (mq_msgcount (st_mqueue (run_st r))) + (length (run_blocked r) - length blocked) < 65536"
    using room woken_senders(3) [OF ws] by simp
  have n: "senders_noted (length (run_blocked r)) (st_mqueue (run_st r))" using l by blast
  note L = set_qlimit_ok [OF lim c q n]
  let ?s = "(run_st r)\<lparr>st_mqueue := mq\<rparr>"
  have "unat (mq_msgcount (st_mqueue ?s)) + length blocked + length []
      = unat (mq_msgcount (st_mqueue (run_st r))) + length (run_blocked r)" using L by simp
  note adm = admitted [where s = ?s, OF live ws _ this, simplified]
  have "mq_live past (undelivered r) (r\<lparr>run_st := ?s, run_reserved := run_reserved r @ woken, run_blocked := blocked\<rparr>)"
    using l L adm unfolding mq_live_def same_queue_def by simp
  then show ?thesis
    by (intro mq_invI [of _ past "undelivered r"]) (use h alive in simp_all)
qed

lemma join_inv:
  assumes inv: "mq_inv r" and alive: "\<not> run_dead r" and rs: "distinct (receivers @ run_waiting r)"
    "\<forall>t \<in> set receivers. ith_state (st_threads (run_st r) t) = MACH_RCV_IN_PROGRESS"
    and add: "ipc_mqueue_add copyout_size (length (run_blocked r)) KERN_SUCCESS receivers (run_st r)
      = Some (kr, receivers', length blocked, s)"
    and ws: "mset (run_blocked r) = mset (woken @ blocked)"
  shows "mq_inv (r\<lparr>run_st := s, run_reserved := run_reserved r @ woken, run_blocked := blocked, run_waiting := receivers' @ run_waiting r,
      run_taken := run_taken r @ handed receivers receivers' s\<rparr>)"
proof -
  obtain past where h: "run_posted r = past @ undelivered r" "run_taken r = numbered 0 past" and live: "mq_live past (undelivered r) r"
    using mq_invD [OF inv alive] by blast
  note l = live [unfolded mq_live_def]
  have loop: "ipc_mqueue_add_loop copyout_size (length (run_blocked r)) receivers
      (ipc_kmsg_queue_first (mq_messages (st_mqueue (run_st r)))) (run_st r) = Some (receivers', length blocked, s)"
    using add unfolding ipc_mqueue_add_def by (auto simp: bind_eq_Some_conv)
  have "add_result (length (run_blocked r)) receivers (run_st r) (undelivered r) (Some (receivers', length blocked, s))"
    unfolding loop [symmetric] by (rule add_ok) (use l rs in auto)
  then obtain ys zs where r: "undelivered r = ys @ zs" "holds_messages s zs" "links_only (set (undelivered r)) (st_kmsgs (run_st r)) (st_kmsgs s)"
      "others_kept receivers receivers' (run_st r) s" "zs = [] \<or> receivers' = []"
      "unat (mq_msgcount (st_mqueue s)) + length blocked + length ys = unat (mq_msgcount (st_mqueue (run_st r))) + length (run_blocked r)"
      "senders_noted (length blocked) (st_mqueue s)"
      "mq_seqno (st_mqueue s) = mq_seqno (st_mqueue (run_st r)) + of_nat (length ys)"
      "handed receivers receivers' s = numbered (mq_seqno (st_mqueue (run_st r))) ys"
    unfolding add_result_def by blast
  note adm = admitted [OF live ws links_some [OF r(3)] r(6,1)]
  have wt: "distinct (receivers' @ run_waiting r)" "zs = [] \<or> receivers' @ run_waiting r = []"
      "\<forall>t \<in> set (receivers' @ run_waiting r). ith_state (st_threads s t) = MACH_RCV_IN_PROGRESS"
    using r(1,4,5) rs l unfolding others_kept_def by auto
  have "mq_live (past @ ys) zs (r\<lparr>run_st := s, run_reserved := run_reserved r @ woken, run_blocked := blocked, run_waiting := receivers' @ run_waiting r\<rparr>)"
    using r(2,7,8) adm wt l unfolding mq_live_def by simp
  then show ?thesis
    by (intro mq_invI [of _ "past @ ys" zs]) (use h r(1,9) l alive in \<open>simp_all add: mq_live_def numbered_append\<close>)
qed

lemma destroy_inv:
  assumes inv: "mq_inv r" and alive: "\<not> run_dead r" and d: "mq_destroy IKM_NULL (run_st r) = Some (reap, delayed, s)"
  shows "mq_inv (r\<lparr>run_st := s, run_blocked := [], run_waiting := [], run_dead := True\<rparr>)"
proof -
  obtain past where h: "run_posted r = past @ undelivered r" "run_taken r = numbered 0 past" and live: "mq_live past (undelivered r) r"
    using mq_invD [OF inv alive] by blast
  then have "mq_msgcount (st_mqueue s) = 0"
    using mq_destroy_ok [of "run_st r" "undelivered r" IKM_NULL "[]"] d by (auto simp: mq_live_def kmsg_queue_def)
  then show ?thesis using h by (auto simp: mq_inv_def)
qed

lemma mq_step_inv: "mq_step copyout_size r r' \<Longrightarrow> mq_inv r \<Longrightarrow> mq_inv r'"
  by (induction rule: mq_step.induct)
    (blast intro: send_inv give_up_inv post_inv receive_inv leave_inv limit_inv join_inv destroy_inv)+

lemma mq_history_inv: "mq_history copyout_size r \<Longrightarrow> mq_inv r"
proof (induction rule: mq_history.induct)
  case (start mq h ths)
  show ?case
    by (rule mq_invI [of _ "[]" "[]"])
      (simp_all add: mq_new_def mq_live_def ipc_mqueue_init_def ipc_kmsg_queue_init_def kmsg_queue_def senders_noted_def)
qed (rule mq_step_inv)

end
