(* ===== verification/Mqueue_Contracts.thy ===== *)
theory Mqueue_Contracts
  imports Mqueue_History
begin

text \<open>What the users of a message queue can rely on.\<close>

unbundle bit_operations_syntax

subsection \<open>Steps that are always possible\<close>

text \<open>Some of the blocked senders, given how many stay blocked.\<close>

lemma wake_some:
  assumes "n \<le> length bs"
  obtains ws bs' where "mset bs = mset (ws @ bs')" "length bs' = n"
  by (rule that [of "take (length bs - n) bs" "drop (length bs - n) bs"]) (use assms in simp_all)

lemma can_send:
  assumes "\<not> run_dead r" "k \<noteq> IKM_NULL" "k \<notin> set (undelivered r @ run_reserved r @ run_blocked r)"
    "\<not> imq_full (st_mqueue (run_st r))"
  shows "\<exists>r'. mq_step copyout_size r r' \<and> run_reserved r' = k # run_reserved r \<and> run_blocked r' = run_blocked r
    \<and> run_waiting r' = run_waiting r \<and> run_posted r' = run_posted r \<and> run_taken r' = run_taken r \<and> \<not> run_dead r'
    \<and> mq_qlimit (st_mqueue (run_st r')) = mq_qlimit (st_mqueue (run_st r)) \<and> st_threads (run_st r') = st_threads (run_st r)"
  using mq_step.send [OF assms(1-3), of 0 0] assms(1,4) by (fastforce simp: ipc_mqueue_send_reserve_def)

lemma can_post:
  assumes hist: "mq_history copyout_size r" and alive: "\<not> run_dead r" and k: "k \<in> set (run_reserved r)"
  shows "\<exists>r'. mq_step copyout_size r r' \<and> run_posted r' = run_posted r @ [k] \<and> \<not> run_dead r' \<and> set (run_waiting r') \<subseteq> set (run_waiting r)
    \<and> set (remove1 k (run_reserved r)) \<subseteq> set (run_reserved r') \<and> (run_waiting r = [] \<longrightarrow> run_taken r' = run_taken r)"
proof -
  obtain past where live: "mq_live past (undelivered r) r" using mq_invD [OF mq_history_inv [OF hist] alive] by blast
  note l = live [unfolded mq_live_def]
  have "post_result (length (run_blocked r)) (run_waiting r) k (run_st r) (undelivered r)
      (ipc_mqueue_post copyout_size (length (run_blocked r)) (run_waiting r) k (run_st r))"
    by (rule post_ok) (use l k length_pos_if_in_set [OF k] in auto)
  then obtain out rs n s where p: "ipc_mqueue_post copyout_size (length (run_blocked r)) (run_waiting r) k (run_st r) = Some (out, rs, n, s)"
      "others_kept (run_waiting r) rs (run_st r) s" "n \<le> length (run_blocked r)" "out \<noteq> Post_destroyed"
      "run_waiting r = [] \<Longrightarrow> out = Post_queued"
    unfolding post_result_def by (fastforce split: post_outcome.splits)
  obtain ws bs where w: "mset (run_blocked r) = mset (ws @ bs)" "length bs = n" using wake_some [OF p(3)] by blast
  show ?thesis
    using mq_step.post [OF k refl _ w(1), of copyout_size out rs s] p w(2) alive by (fastforce simp: others_kept_def)
qed

text \<open>A receiver whose buffer is large enough for the first message takes it.\<close>

lemma can_receive:
  assumes hist: "mq_history copyout_size r" and alive: "\<not> run_dead r" and th: "th \<notin> set (run_waiting r)"
    and x: "undelivered r = x # xs" and fits: "copyout_size x th + REQUESTED_TRAILER_SIZE option \<le> max_size"
  shows "\<exists>r'. mq_step copyout_size r r' \<and> run_taken r' = run_taken r @ [(x, of_nat (length (run_taken r)))]
    \<and> run_posted r' = run_posted r \<and> \<not> run_dead r' \<and> run_waiting r' = run_waiting r"
proof -
  obtain past where past: "run_taken r = numbered 0 past" and live: "mq_live past (x # xs) r"
    using mq_invD [OF mq_history_inv [OF hist] alive] x by metis
  note l = live [unfolded mq_live_def]
  have q: "holds_messages (run_st r) (x # xs)" using l by blast
  obtain wr n s where r: "ipc_mqueue_receive_on_thread copyout_size (length (run_blocked r)) THREAD_WAITING option max_size 0 th (run_st r) = Some (wr, n, s)"
      "if wr = THREAD_NOT_WAITING \<and> got_message option (st_threads s th)
       then took_first (length (run_blocked r)) th x xs (run_st r) n s else wr = THREAD_NOT_WAITING"
    using receive_ok [OF q, of "length (run_blocked r)" copyout_size option max_size 0 th] l by (auto split: if_splits)
  have f: "ipc_kmsg_queue_first (mq_messages (st_mqueue (run_st r))) = x" "x \<noteq> IKM_NULL"
    and nl: "\<not> max_size < copyout_size x th + REQUESTED_TRAILER_SIZE option"
    using kmsg_ring.first_eq [OF q] kmsg_ring.rep_ok [OF q] fits by auto
  have got: "wr = THREAD_NOT_WAITING" "got_message option (st_threads s th)"
    using r(1) by (auto simp: ipc_mqueue_receive_on_thread_def ipc_mqueue_select_on_thread_def f nl bind_eq_Some_conv
        got_message_def Let_def case_prod_beta)
  then have t: "took_first (length (run_blocked r)) th x xs (run_st r) n s" using r(2) by simp
  then have n: "n \<le> length (run_blocked r)" and rc: "receipt th s = (x, of_nat (length (run_taken r)))"
    using l past by (simp_all add: took_first_def receipt_def)
  obtain ws bs where w: "mset (run_blocked r) = mset (ws @ bs)" "length bs = n" using wake_some [OF n] by blast
  show ?thesis
    using mq_step.receive [OF alive th _ w(1), of copyout_size option max_size 0 wr s] r(1) got rc w(2) alive by fastforce
qed


text \<open>Two messages are sent to a new queue; both senders have been admitted, both have posted.\<close>

lemma ex_history:
  obtains r1 r2 where
    "mq_history copyout_size r1" "\<not> run_dead r1" "run_reserved r1 = [0x2000, 0x1000]" "run_posted r1 = []" "run_taken r1 = []"
    "mq_history copyout_size r2" "\<not> run_dead r2" "run_waiting r2 = []" "run_posted r2 = [0x1000, 0x2000]" "run_taken r2 = []"
proof -
  have count: "unat (mq_msgcount (st_mqueue (run_st r))) = length (undelivered r) + length (run_reserved r)"
    if "mq_history copyout_size r" "\<not> run_dead r" for r
    by (rule mq_invD [OF mq_history_inv [OF that(1)] that(2)]) (simp add: mq_live_def)
  obtain r0 where 0: "mq_history copyout_size r0" "\<not> run_dead r0" "run_reserved r0 = []" "run_blocked r0 = []" "run_waiting r0 = []"
      "run_posted r0 = []" "run_taken r0 = []" "mq_qlimit (st_mqueue (run_st r0)) = 5"
    using mq_history.start by (force simp: mq_new_def ipc_mqueue_init_def)
  have "\<not> imq_full (st_mqueue (run_st r0))"
    using count [OF 0(1,2)] 0 by (simp add: imq_full_def undelivered_def word_le_nat_alt)
  then obtain r where 1: "mq_step copyout_size r0 r" "\<not> run_dead r" "run_reserved r = [0x1000]" "run_blocked r = []" "run_waiting r = []"
      "run_posted r = []" "run_taken r = []" "mq_qlimit (st_mqueue (run_st r)) = 5"
    using can_send [of r0 "0x1000" copyout_size] 0 by (auto simp: undelivered_def)
  note h1 = mq_history.step [OF 0(1) 1(1)]
  have "\<not> imq_full (st_mqueue (run_st r))"
    using count [OF h1 1(2)] 1 by (simp add: imq_full_def undelivered_def word_le_nat_alt)
  then obtain r1 where 2: "mq_step copyout_size r r1" "\<not> run_dead r1" "run_reserved r1 = [0x2000, 0x1000]" "run_waiting r1 = []"
      "run_posted r1 = []" "run_taken r1 = []"
    using can_send [of r "0x2000" copyout_size] 1 by (auto simp: undelivered_def)
  note h2 = mq_history.step [OF h1 2(1)]
  have "0x1000 \<in> set (run_reserved r1)" using 2 by simp
  from can_post [OF h2 2(2) this] obtain r3 where 3: "mq_step copyout_size r1 r3" "run_posted r3 = [0x1000]" "\<not> run_dead r3" "run_waiting r3 = []" "run_taken r3 = []"
      "0x2000 \<in> set (run_reserved r3)"
    using 2 by auto
  note h3 = mq_history.step [OF h2 3(1)]
  obtain r2 where 4: "mq_step copyout_size r3 r2" "run_posted r2 = [0x1000, 0x2000]" "\<not> run_dead r2" "run_waiting r2 = []" "run_taken r2 = []"
    using can_post [OF h3 3(3,6)] 3 by auto
  show ?thesis using that [OF h2 2(2,3,5,6) mq_history.step [OF h3 4(1)] 4(3,4,2,5)] .
qed


subsection \<open>Order of delivery\<close>

lemma mq_history_live:
  assumes "mq_history copyout_size r" "\<not> run_dead r"
  shows "length (run_posted r) = length (run_taken r) + length (undelivered r) \<and> (\<exists>past. mq_live past (undelivered r) r)"
proof -
  obtain past where p: "run_posted r = past @ undelivered r" "run_taken r = numbered 0 past" "mq_live past (undelivered r) r"
    using mq_invD [OF mq_history_inv [OF assms(1)] assms(2)] by blast
  then show ?thesis using arg_cong [OF p(1), of length] by auto
qed







subsection \<open>Draining, destruction and peeking\<close>

lemma drain_by_receiving:
  assumes "mq_history copyout_size r" "\<not> run_dead r" "th \<notin> set (run_waiting r)"
    "\<forall>k \<in> set (undelivered r). copyout_size k th + REQUESTED_TRAILER_SIZE option \<le> max_size"
  shows "\<exists>r'. rtranclp (mq_step copyout_size) r r' \<and> mq_history copyout_size r' \<and> \<not> run_dead r' \<and> run_posted r' = run_posted r \<and> undelivered r' = []"
  using assms
proof (induction "undelivered r" arbitrary: r)
  case Nil
  then show ?case by (metis rtranclp.rtrancl_refl)
next
  case (Cons x xs)
  have u: "undelivered r = x # xs" using Cons.hyps by simp
  obtain r1 where 1: "mq_step copyout_size r r1" "run_taken r1 = run_taken r @ [(x, of_nat (length (run_taken r)))]"
      "run_posted r1 = run_posted r" "\<not> run_dead r1" "run_waiting r1 = run_waiting r"
    using can_receive [OF Cons.prems(1-3) u] Cons.prems(4) u by force
  have u1: "undelivered r1 = xs" using u 1(2,3) by (simp add: undelivered_def drop_Suc tl_drop [symmetric])
  have "\<exists>r'. rtranclp (mq_step copyout_size) r1 r' \<and> mq_history copyout_size r' \<and> \<not> run_dead r' \<and> run_posted r' = run_posted r1 \<and> undelivered r' = []"
    by (rule Cons.hyps) (use u1 1 Cons.prems(3,4) u mq_history.step [OF Cons.prems(1) 1(1)] in auto)
  then show ?case using 1(1,3) by (metis converse_rtranclp_into_rtranclp)
qed

text \<open>
  C26. A queue can always be drained. If a thread that is not waiting has a buffer that is large
  enough for the messages in the queue, there is a run from here in which it takes all of them:
  the messages taken are then all messages posted, in order and numbered from 0.
\<close>

theorem queue_drains:
  assumes "mq_history copyout_size r" "\<not> run_dead r" "th \<notin> set (run_waiting r)"
    "\<forall>k \<in> set (run_posted r). copyout_size k th + REQUESTED_TRAILER_SIZE option \<le> max_size"
  shows "\<exists>r'. rtranclp (mq_step copyout_size) r r' \<and> run_posted r' = run_posted r \<and> run_taken r' = numbered 0 (run_posted r)"
proof -
  have "\<forall>k \<in> set (undelivered r). copyout_size k th + REQUESTED_TRAILER_SIZE option \<le> max_size"
    using assms(4) by (auto simp: undelivered_def dest: in_set_dropD)
  from drain_by_receiving [OF assms(1-3) this] obtain r' where r': "rtranclp (mq_step copyout_size) r r'"
      "mq_history copyout_size r'" "\<not> run_dead r'" "run_posted r' = run_posted r" "undelivered r' = []" by blast
  then show ?thesis using mq_invD [OF mq_history_inv [OF r'(2)] r'(3)] by (metis append_Nil2)
qed

theorem queue_drains_witness:
  "\<exists>r r'. mq_history (\<lambda>k th. 24) r \<and> run_taken r = [] \<and> rtranclp (mq_step (\<lambda>k th. 24)) r r'
    \<and> run_taken r' = [(0x1000, 0), (0x2000, 1)]"
proof -
  obtain r1 r where r: "mq_history (\<lambda>k th. 24) r" "\<not> run_dead r" "run_waiting r = []" "run_posted r = [0x1000, 0x2000]" "run_taken r = []"
    by (rule ex_history)
  then show ?thesis
    using queue_drains [OF r(1,2), of 1 0 32] by (auto simp: REQUESTED_TRAILER_SIZE_def GET_RCV_ELEMENTS_def)
qed

text \<open>
  C27. Destroying a queue always ends. It moves the messages that were posted and not taken, in
  order, to the reap queue of the thread, which is empty before, and reports that there is
  something to reap if and only if there is such a message. Afterwards an admitted sender finds
  the queue destroyed.
\<close>

theorem destroy_hands_over_undelivered:
  assumes "mq_history copyout_size r" "\<not> run_dead r"
  shows "\<exists>delayed s. mq_destroy IKM_NULL (run_st r) = Some (length (run_taken r) < length (run_posted r), delayed, s)
    \<and> kmsg_queue delayed (st_kmsgs s) (drop (length (run_taken r)) (run_posted r))
    \<and> ipc_mqueue_post copyout_size 0 [] k s = Some (Post_destroyed, [], 0, s)"
proof -
  have q: "holds_messages (run_st r) (undelivered r)" using mq_history_live [OF assms] by (auto simp: mq_live_def)
  have "kmsg_queue IKM_NULL (st_kmsgs (run_st r)) []" by (simp add: kmsg_queue_def)
  from mq_destroy_ok [OF q this] obtain d s where "mq_destroy IKM_NULL (run_st r) = Some (undelivered r \<noteq> [], d, s)"
      "kmsg_queue d (st_kmsgs s) (undelivered r)" "mq_msgcount (st_mqueue s) = 0" by auto
  then show ?thesis
    using mq_history_live [OF assms] unfolding undelivered_def [symmetric] by (intro exI [of _ d] exI [of _ s]) auto
qed

theorem destroy_hands_over_undelivered_witness:
  "\<exists>r delayed s. mq_history (\<lambda>k th. 24) r \<and> mq_destroy IKM_NULL (run_st r) = Some (True, delayed, s)
    \<and> kmsg_queue delayed (st_kmsgs s) [0x1000, 0x2000]"
proof -
  obtain r1 r where r: "mq_history (\<lambda>k th. 24) r" "\<not> run_dead r" "run_posted r = [0x1000, 0x2000]" "run_taken r = []"
    by (rule ex_history)
  have "\<exists>delayed s. mq_destroy IKM_NULL (run_st r) = Some (True, delayed, s) \<and> kmsg_queue delayed (st_kmsgs s) [0x1000, 0x2000]"
    using destroy_hands_over_undelivered [OF r(1,2), of 0] unfolding r(3,4) by (simp del: ipc_mqueue_post.simps) blast
  then show ?thesis using r(1) by blast
qed





subsection \<open>The ring of messages is a list\<close>

text \<open>
  C29. The circular doubly linked list of kernel messages implements a list: enqueueing a message
  that is not in the queue appends it, dequeueing takes the head or reports that there is none,
  removing a message from anywhere removes it and nothing else, and the next message is the one
  that follows in the list, with none after the last. The operations write to no messages other
  than the ones in the queue and the one enqueued, and there only to the two links.
\<close>

theorem kmsg_queue_refines_list:
  assumes "kmsg_queue base h xs"
  shows "(h k \<noteq> None \<and> k \<noteq> IKM_NULL \<and> k \<notin> set xs \<longrightarrow>
      (\<exists>base' h'. ipc_kmsg_enqueue base k h = Some (base', h') \<and> kmsg_queue base' h' (xs @ [k]) \<and> links_only (insert k (set xs)) h h'))
    \<and> (\<exists>base' h'. ipc_kmsg_dequeue base h = Some (if xs = [] then IKM_NULL else hd xs, base', h')
        \<and> kmsg_queue base' h' (tl xs) \<and> links_only (set (tl xs)) h h')
    \<and> (k \<in> set xs \<longrightarrow>
      (\<exists>base' h'. ipc_kmsg_rmqueue base k h = Some (base', h') \<and> kmsg_queue base' h' (remove1 k xs) \<and> links_only (set (remove1 k xs)) h h'))
    \<and> (i < length xs \<longrightarrow> ipc_kmsg_queue_next base (xs ! i) h = Some (if Suc i < length xs then xs ! Suc i else IKM_NULL))"
proof (intro conjI impI)
  show "\<exists>base' h'. ipc_kmsg_enqueue base k h = Some (base', h') \<and> kmsg_queue base' h' (xs @ [k]) \<and> links_only (insert k (set xs)) h h'"
    if "h k \<noteq> None \<and> k \<noteq> IKM_NULL \<and> k \<notin> set xs"
    using kmsg_ring.enq_ok [OF assms] that by blast
  show "\<exists>base' h'. ipc_kmsg_dequeue base h = Some (if xs = [] then IKM_NULL else hd xs, base', h')
      \<and> kmsg_queue base' h' (tl xs) \<and> links_only (set (tl xs)) h h'"
    using assms kmsg_ring.deq_empty [of base h] kmsg_ring.deq_ok [of base h] links_only_refl by (cases xs) fastforce+
  show "\<exists>base' h'. ipc_kmsg_rmqueue base k h = Some (base', h') \<and> kmsg_queue base' h' (remove1 k xs) \<and> links_only (set (remove1 k xs)) h h'"
    if k: "k \<in> set xs"
  proof -
    obtain ys zs where xs: "xs = ys @ k # zs" using split_list [OF k] by blast
    then have "k \<notin> set ys" using kmsg_ring.rep_ok [OF assms] by auto
    then have "remove1 k xs = ys @ zs" using xs by (simp add: remove1_append)
    then show ?thesis using kmsg_ring.rem_ok [of base h ys k zs] assms xs by metis
  qed
  show "ipc_kmsg_queue_next base (xs ! i) h = Some (if Suc i < length xs then xs ! Suc i else IKM_NULL)" if i: "i < length xs"
    using kmsg_ring.following_ok [of base h "take i xs" "xs ! i" "drop (Suc i) xs"] assms id_take_nth_drop [OF i] hd_drop_conv_nth [of "Suc i" xs]
    by auto
qed

definition ex_ring :: kmsgs where
  "ex_ring k =
     (let m = \<lparr>ikm_size = 64, ikm_next = 0x2000, ikm_prev = 0x2000, ikm_header =
               \<lparr>msgh_bits = 19, msgh_size = 24, msgh_remote_port = 0, msgh_local_port = 0, msgh_voucher_port = 0, msgh_id = 7\<rparr>,
             ikm_prealloc = 0, ikm_voucher = 0\<rparr>
      in if k = 0x1000 then Some m else if k = 0x2000 then Some (m\<lparr>ikm_next := 0x1000, ikm_prev := 0x1000\<rparr>) else None)"

lemma ex_ring_queue: "kmsg_queue 0x1000 ex_ring [0x1000, 0x2000]"
  by (simp add: kmsg_queue_def ex_ring_def linked_def ikm_nx_def ikm_pv_def Let_def)

theorem kmsg_queue_refines_list_witness:
  "kmsg_queue 0x1000 ex_ring [0x1000, 0x2000] \<and> ipc_kmsg_queue_next 0x1000 0x1000 ex_ring = Some 0x2000
    \<and> (\<exists>base' h'. ipc_kmsg_dequeue 0x1000 ex_ring = Some (0x1000, base', h') \<and> kmsg_queue base' h' [0x2000])"
  using kmsg_queue_refines_list [OF ex_ring_queue, of 0 0] ex_ring_queue by auto

end
