(* ===== verification/Queue_Refinement.thy ===== *)
theory Queue_Refinement
  imports Mqueue_Contracts Mach_Port Ipc_Example
begin

text \<open>
  The capability model keeps the messages of a port as a list and leaves the ring out. The queue
  of a port and a ring agree if the ring holds the list and the other fields are equal; the
  operations of the two models keep agreement.
\<close>

definition queue_agrees :: "ipc_port \<Rightarrow> mq_state \<Rightarrow> bool" where
  "queue_agrees p s \<longleftrightarrow>
     holds_messages s (imq_messages p) \<and> mq_msgcount (st_mqueue s) = imq_msgcount p \<and> mq_qlimit (st_mqueue s) = imq_qlimit p
     \<and> mq_fullwaiters (st_mqueue s) = imq_fullwaiters p \<and> mq_seqno (st_mqueue s) = imq_seqno p"

text \<open>
  C30. Destroying the queue of a port in the capability model is what the ring does. If the queue
  agrees with a ring and the list of deferred messages with the reap queue of the thread, then
  both operations return, agree on the queue afterwards, and either agree on the deferred messages
  or both start reaping the same messages in the same order.
\<close>

theorem ipc_mqueue_destroy_refined:
  assumes p: "port_at k port = Some p" and agree: "queue_agrees p s"
    and d: "kmsg_queue delayed (st_kmsgs s) (k_delayed k)" and disj: "set (imq_messages p) \<inter> set (k_delayed k) = {}"
  shows "\<exists>k' p' reap delayed' s'. ipc_mqueue_destroy port k = Some k' \<and> port_at k' port = Some p'
    \<and> mq_destroy delayed s = Some (reap, delayed', s') \<and> queue_agrees p' s'
    \<and> kmsg_queue delayed' (st_kmsgs s') (if reap then imq_messages p else k_delayed k')
    \<and> (reap = (last (k_events k') = Kmsg_reap_delayed (imq_messages p)))"
proof -
  note a = agree [unfolded queue_agrees_def]
  obtain d' s' where r: "mq_destroy delayed s = Some (imq_messages p \<noteq> [] \<and> k_delayed k = [], d', s')"
      "kmsg_queue d' (st_kmsgs s') (k_delayed k @ imq_messages p)" "holds_messages s' []" "mq_msgcount (st_mqueue s') = 0"
      "mq_seqno (st_mqueue s') = mq_seqno (st_mqueue s)"
    using mq_destroy_ok [OF _ d disj] a by blast
  have q: "mq_qlimit (st_mqueue s') = mq_qlimit (st_mqueue s) \<and> \<not> mq_fullwaiters (st_mqueue s')"
    using r(1) by (auto simp: mq_destroy_def bind_eq_Some_conv)
  let ?p = "p\<lparr>imq_fullwaiters := False, imq_messages := [], imq_msgcount := 0\<rparr>"
  have agrees: "queue_agrees ?p s'" using r q a by (simp add: queue_agrees_def)
  obtain k' where k': "ipc_mqueue_destroy port k = Some k'" by (simp add: ipc_mqueue_destroy_def p Let_def)
  then have "port_at k' port = Some ?p"
    using p by (auto simp: ipc_mqueue_destroy_def emit_def port_at_def put_port_def Let_def)
  moreover have "k_delayed k' = (if imq_messages p \<noteq> [] \<and> k_delayed k = [] then [] else k_delayed k @ imq_messages p)"
    "last (k_events k') = (if imq_messages p \<noteq> [] \<and> k_delayed k = [] then Kmsg_reap_delayed (imq_messages p) else Senders_restarted port)"
    using k' p by (auto simp: ipc_mqueue_destroy_def emit_def put_port_def Let_def)
  ultimately show ?thesis
    using k' agrees r(1,2) by (cases "imq_messages p \<noteq> [] \<and> k_delayed k = []") fastforce+
qed

definition ex_full_port :: ipc_port where
  "ex_full_port = (ex_port 2 0x80000000 0x1000 0x104 2 0)\<lparr>imq_messages := [0x1000, 0x2000], imq_msgcount := 2, imq_qlimit := 2, imq_fullwaiters := True, imq_seqno := 9\<rparr>"

definition ex_full_queue :: mq_state where
  "ex_full_queue =
     \<lparr>st_mqueue = \<lparr>mq_messages = 0x1000, mq_seqno = 9, mq_receiver_name = 0x104, mq_msgcount = 2, mq_qlimit = 2, mq_fullwaiters = True\<rparr>,
      st_kmsgs = ex_ring, st_threads = (\<lambda>_. undefined)\<rparr>"

lemma ex_full_agrees: "queue_agrees ex_full_port ex_full_queue"
  using ex_ring_queue by (simp add: queue_agrees_def ex_full_port_def ex_full_queue_def)

theorem ipc_mqueue_destroy_refined_witness:
  "\<exists>k' delayed' s'. ipc_mqueue_destroy 0x2000 (put_port 0x2000 ex_full_port ex_kern) = Some k'
    \<and> mq_destroy IKM_NULL ex_full_queue = Some (True, delayed', s') \<and> kmsg_queue delayed' (st_kmsgs s') [0x1000, 0x2000]"
proof -
  have d: "k_delayed (put_port 0x2000 ex_full_port ex_kern) = []" by (simp add: ex_kern_def)
  have n: "kmsg_queue IKM_NULL (st_kmsgs ex_full_queue) (k_delayed (put_port 0x2000 ex_full_port ex_kern))"
    unfolding d by (simp add: kmsg_queue_def)
  have r: "\<exists>d s. mq_destroy IKM_NULL ex_full_queue = Some (True, d, s)"
    using mq_destroy_ok [of ex_full_queue "[0x1000, 0x2000]" IKM_NULL "[]"] ex_full_agrees
    by (auto simp: queue_agrees_def kmsg_queue_def ex_full_port_def)
  have m: "imq_messages ex_full_port = [0x1000, 0x2000]" by (simp add: ex_full_port_def)
  have p: "port_at (put_port 0x2000 ex_full_port ex_kern) 0x2000 = Some ex_full_port" by simp
  show ?thesis using ipc_mqueue_destroy_refined [OF p ex_full_agrees n] r unfolding d m by auto
qed




end
