(* ===== verification/Kmsg_Contracts.thy ===== *)
theory Kmsg_Contracts
  imports Ipc_Kmsg Object_Ledger Right_Contracts
begin

text \<open>
  Contracts of the routines that copy the port rights of messages in and out.
\<close>

unbundle bit_operations_syntax

subsection \<open>Entries that are deallocated twice\<close>

text \<open>The last two user references of a send right are moved out of an entry.\<close>

lemma copyin_two_last_sends:
  assumes inv: "cap_inv sp k H X" and l: "ipc_entry_lookup sp name = Some i"
    and e: "entry_type (is_table sp ! i) = MACH_PORT_TYPE_SEND" "IE_BITS_UREFS (ie_bits (is_table sp ! i)) = 2"
      "ie_request (is_table sp ! i) = IE_REQ_NONE" "ie_object (is_table sp ! i) = a"
    and p: "port_at k a = Some p" "ip_active p"
  shows "\<exists>t k'. ipc_right_copyin_two sp name i MACH_MSG_TYPE_MOVE_SEND MACH_MSG_TYPE_MOVE_SEND k
      = Some (Inr (a, IP_NULL), IP_NULL,
          ipc_entry_modified (set_bits (set_object (sp\<lparr>is_table := t\<rparr>) i IO_NULL) i
            (ie_bits (is_table sp ! i) AND NOT (IE_BITS_UREFS_MASK OR MACH_PORT_TYPE_SEND))) name, k')
      \<and> same_payload (is_table sp) t"
proof -
  have i: "i < length (is_table sp)" "entry_type (is_table sp ! i) \<noteq> 0" "MACH_PORT_INDEX name = i"
    using l unfolding ipc_entry_lookup_iff by auto
  obtain t where t: "ipc_hash_delete sp a name = Some (sp\<lparr>is_table := t\<rparr>)" "same_payload (is_table sp) t"
    using ipc_hash_delete_inv [OF inv i(1) e(1,4) i(3)] by blast
  have b: "ie_bits (is_table sp ! i) AND MACH_PORT_TYPE_SEND \<noteq> 0" "ie_bits (is_table sp ! i) AND MACH_PORT_TYPE_DEAD_NAME = 0"
      "ie_bits (is_table sp ! i) AND MACH_PORT_TYPE_SEND_RIGHTS \<noteq> 0" "ie_bits (is_table sp ! i) AND MACH_PORT_TYPE_RECEIVE = 0"
    using e(1) by (subst type_bit_iff; simp)+
  have r: "ip_reference a (put_port a q k) \<noteq> None" for q by (simp add: io_reference_port)
  show ?thesis
    using e p b t by (auto simp: ipc_right_copyin_two_def ipc_right_copyin_check_def ipc_right_copyin_two_move_sends_def ipc_right_check_def
        ipc_right_request_cancel_macro_def upd_port_def io_reference_port Let_def)
qed

text \<open>
  Deallocating an entry twice: the second time finds the link to the next free entry where the
  notification request would be, and panics; if there was no other free entry, the entry ends up
  as its own successor in the free list.
\<close>

lemma dealloc_twice:
  assumes i: "0 < i" "i < length (is_table sp)" "MACH_PORT_INDEX name = i" and r: "ie_request (is_table sp ! i) = IE_REQ_NONE"
  obtains sp1 where "ipc_entry_dealloc sp name i = Some sp1"
    "IE_BITS_TYPE (ie_bits (is_table sp1 ! i)) = MACH_PORT_TYPE_NONE"
    "if ie_next (is_table sp ! 0) \<noteq> 0 then ipc_entry_dealloc sp1 name i = None
     else \<exists>sp2. ipc_entry_dealloc sp1 name i = Some sp2 \<and> ie_next (is_table sp2 ! 0) = i \<and> ie_next (is_table sp2 ! i) = i"
proof -
  let ?t = "(is_table sp)[i := (is_table sp ! i)\<lparr>ie_bits := ie_bits (is_table sp ! i) AND IE_BITS_GEN_MASK,
    ie_request := ie_next (is_table sp ! 0)\<rparr>, 0 := (is_table sp ! 0)\<lparr>ie_request := i\<rparr>]"
  obtain sp1 where 1: "ipc_entry_dealloc sp name i = Some sp1" "is_table sp1 = ?t"
    using i r by (auto simp: ipc_entry_dealloc_def entry_at_def is_table_size_def upd_entry_def Let_def)
  have ty: "IE_BITS_TYPE (ie_bits (is_table sp1 ! i)) = MACH_PORT_TYPE_NONE"
    using i by (simp add: 1(2) IE_BITS_TYPE_def and.assoc)
  have ne: "is_table sp \<noteq> []" using i(2) by auto
  have f: "length (is_table sp1) = length (is_table sp)" "ie_request (is_table sp1 ! 0) = i"
      "ie_request (is_table sp1 ! i) = ie_next (is_table sp ! 0)" "is_table sp1 \<noteq> []"
    unfolding 1(2) using i ne by simp_all
  have "if ie_next (is_table sp ! 0) \<noteq> 0 then ipc_entry_dealloc sp1 name i = None
     else \<exists>sp2. ipc_entry_dealloc sp1 name i = Some sp2 \<and> ie_next (is_table sp2 ! 0) = i \<and> ie_next (is_table sp2 ! i) = i"
    using ne f(1,3,4) i by (simp add: f(2) ipc_entry_dealloc_def entry_at_def is_table_size_def upd_entry_def Let_def)
  then show ?thesis using that 1(1) ty by blast
qed

text \<open>A header that moves a send right of the same name as destination and as reply port.\<close>

definition two_moves_header :: "mach_port_name_t \<Rightarrow> mach_msg_header \<Rightarrow> bool" where
  "two_moves_header name msg \<longleftrightarrow>
     msgh_bits msg = 0x1111 \<and> msgh_remote_port msg = ucast name \<and> msgh_local_port msg = ucast name"

lemma cast_name [simp]: "CAST_MACH_PORT_TO_NAME (ucast (name :: mach_port_name_t)) = name"
  by (simp add: CAST_MACH_PORT_TO_NAME_def ucast_up_ucast_id is_up)

text \<open>
  C21. A task can panic the kernel or corrupt its capability table with one message. If destination
  and reply port of a message are the same name, both with \<open>MACH_MSG_TYPE_MOVE_SEND\<close>, and the name
  has exactly two user references of a send right, both moves succeed and the entry has lost its
  last right. \<open>ipc_kmsg_copyin_header\<close> deallocates it as the entry of the destination, clears
  \<open>dest_entry\<close>, and then finds the same entry again as the entry of the reply port. The second
  deallocation panics if any other slot is free; otherwise the call succeeds, and the free list
  is the entry followed by itself for ever, so that it will be handed out again while in use.
\<close>

theorem ipc_kmsg_copyin_header_double_dealloc:
  assumes inv: "cap_inv sp k H X" and act: "is_active sp" and l: "ipc_entry_lookup sp name = Some i" and v: "MACH_PORT_VALID name"
    and e: "entry_type (is_table sp ! i) = MACH_PORT_TYPE_SEND" "IE_BITS_UREFS (ie_bits (is_table sp ! i)) = 2"
      "ie_request (is_table sp ! i) = IE_REQ_NONE" "ie_object (is_table sp ! i) = a"
    and p: "port_at k a = Some p" "ip_active p" and msg: "two_moves_header name (ikm_header kmsg)"
  shows "if ie_next (is_table sp ! 0) \<noteq> 0 then ipc_kmsg_copyin_header kmsg sp option k = None
    else \<exists>kmsg' option' sp' k'. ipc_kmsg_copyin_header kmsg sp option k = Some (MACH_MSG_SUCCESS, kmsg', option', sp', k')
      \<and> ie_next (is_table sp' ! 0) = i \<and> ie_next (is_table sp' ! i) = i"
proof -
  have i: "i < length (is_table sp)" "entry_type (is_table sp ! i) \<noteq> 0" "MACH_PORT_INDEX name = i" "0 < i"
    using l cap_inv_slot(3) [OF inv] unfolding ipc_entry_lookup_iff by auto
  obtain t k1 where c: "ipc_right_copyin_two sp name i MACH_MSG_TYPE_MOVE_SEND MACH_MSG_TYPE_MOVE_SEND k
      = Some (Inr (a, IP_NULL), IP_NULL,
          ipc_entry_modified (set_bits (set_object (sp\<lparr>is_table := t\<rparr>) i IO_NULL) i
            (ie_bits (is_table sp ! i) AND NOT (IE_BITS_UREFS_MASK OR MACH_PORT_TYPE_SEND))) name, k1)"
      "same_payload (is_table sp) t"
    using copyin_two_last_sends [OF inv l e p] by blast
  define sp0 where "sp0 = ipc_entry_modified (set_bits (set_object (sp\<lparr>is_table := t\<rparr>) i IO_NULL) i
            (ie_bits (is_table sp ! i) AND NOT (IE_BITS_UREFS_MASK OR MACH_PORT_TYPE_SEND))) name"
  have t: "length t = length (is_table sp)" "ie_request (t ! i) = 0" "ie_next (t ! 0) = ie_next (is_table sp ! 0)"
    using same_payload_length [OF c(2)] same_payload_fields(3) [OF c(2), of 0] same_payload_fields(3) [OF c(2) i(1)] i(1) e(3)
    by (simp_all add: Suc_le_eq [symmetric])
  have ty: "IE_BITS_TYPE (ie_bits (is_table sp ! i) AND NOT (IE_BITS_UREFS_MASK OR MACH_PORT_TYPE_SEND)) = 0"
    by (subst ie_no_send(1)) (simp add: e(1))
  have s0: "i < length (is_table sp0)" "ie_request (is_table sp0 ! i) = IE_REQ_NONE" "ie_next (is_table sp0 ! 0) = ie_next (is_table sp ! 0)"
      "IE_BITS_TYPE (ie_bits (is_table sp0 ! i)) = MACH_PORT_TYPE_NONE"
    using t i ty by (simp_all add: sp0_def upd_entry_def)
  obtain sp1 where d: "ipc_entry_dealloc sp0 name i = Some sp1" "IE_BITS_TYPE (ie_bits (is_table sp1 ! i)) = MACH_PORT_TYPE_NONE"
      "if ie_next (is_table sp ! 0) \<noteq> 0 then ipc_entry_dealloc sp1 name i = None
       else \<exists>sp2. ipc_entry_dealloc sp1 name i = Some sp2 \<and> ie_next (is_table sp2 ! 0) = i \<and> ie_next (is_table sp2 ! i) = i"
    using dealloc_twice [OF i(4) s0(1) i(3) s0(2)] s0(3) by metis
  have bits: "msgh_bits (ikm_header kmsg) = 0x1111" and names: "msgh_remote_port (ikm_header kmsg) = ucast name"
      "msgh_local_port (ikm_header kmsg) = ucast name"
    using msg by (simp_all add: two_moves_header_def)
  have nz: "name \<noteq> MACH_PORT_NULL" using v by (auto simp: MACH_PORT_VALID_def)
  have "ipc_kmsg_copyin_header kmsg sp option k =
      copyin_header_finish kmsg 0x1111 name name MACH_PORT_NULL 0 None i (Some i)
        (no_rights\<lparr>dest_port := a, reply_port := a\<rparr>) option sp0 k1"
    using l act v nz c(1) [folded sp0_def]
    by (simp add: ipc_kmsg_copyin_header_def bits names copyin_header_voucher_def copyin_header_dest_is_reply_def
        copyin_header_send_voucher_def MACH_MSGH_BITS_REMOTE_def MACH_MSGH_BITS_LOCAL_def MACH_MSGH_BITS_VOUCHER_def
        MACH_MSG_TYPE_PORT_ANY_SEND_def msgt_of_def no_rights_def MACH_PORT_NULL_def)
  moreover have "copyin_header_finish kmsg 0x1111 name name MACH_PORT_NULL 0 None i (Some i) (no_rights\<lparr>dest_port := a, reply_port := a\<rparr>) option sp0 k1
      = do { sp2 \<leftarrow> ipc_entry_dealloc sp1 name i; r \<leftarrow> copyin_header_arm_notify sp2 None a MACH_MSG_TYPE_PORT_SEND option k1;
        Some (MACH_MSG_SUCCESS, kmsg\<lparr>ikm_header := (ikm_header kmsg)\<lparr>msgh_bits := 0x1111, msgh_remote_port := a, msgh_local_port := a\<rparr>\<rparr>, option, sp2, k1) }"
    using d(1,2) s0(4)
    by (simp add: copyin_header_finish_def copyin_header_dealloc_dest_def copyin_header_dealloc_other_def copyin_header_arm_notify_def
        no_rights_def notify_port_deleted_if_def MACH_MSGH_BITS_SET_def MACH_MSGH_BITS_SET_PORTS_def MACH_MSGH_BITS_REMOTE_def
        MACH_MSGH_BITS_LOCAL_def msgt_of_def ipc_object_copyin_type_def IO_VALID_def)
  ultimately show ?thesis
    using d(3) by (auto simp: copyin_header_arm_notify_def)
qed

text \<open>
  Message and name in the example space: the entry of \<open>0x204\<close> is given two user references.
\<close>

definition ex_kmsg :: "natural_t \<Rightarrow> addr \<Rightarrow> addr \<Rightarrow> ipc_kmsg" where
  "ex_kmsg bits remote local = \<lparr>ikm_size = 256, ikm_next = 0, ikm_prev = 0,
     ikm_header = \<lparr>msgh_bits = bits, msgh_size = 24, msgh_remote_port = remote, msgh_local_port = local,
       msgh_voucher_port = 0, msgh_id = 0\<rparr>, ikm_prealloc = 0, ikm_voucher = 0\<rparr>"

theorem ipc_kmsg_copyin_header_double_dealloc_witness:
  "ipc_kmsg_copyin_header (ex_kmsg 0x1111 0x204 0x204) (set_bits ex_space 2 0x04010002) 0 ex_kern = None"
proof -
  let ?sp = "set_bits ex_space 2 0x04010002"
  have inv: "cap_inv ?sp ex_kern ex_hold {}"
    by (rule cap_inv_urefs [OF ex_inv, where d = 1])
      (simp_all add: ex_defs IE_BITS_TYPE_def IE_BITS_GEN_def IE_BITS_UREFS_def)
  have l: "ipc_entry_lookup ?sp 0x204 = Some 2" "MACH_PORT_VALID 0x204" "is_active ?sp"
    by (simp_all add: ex_defs upd_entry_def is_active_def ipc_entry_lookup_iff MACH_PORT_VALID_def MACH_PORT_NULL_def
        MACH_PORT_DEAD_def MACH_PORT_INDEX_def MACH_PORT_GEN_def IE_BITS_TYPE_def IE_BITS_GEN_def)
  have e: "entry_type (is_table ?sp ! 2) = MACH_PORT_TYPE_SEND" "IE_BITS_UREFS (ie_bits (is_table ?sp ! 2)) = 2"
      "ie_request (is_table ?sp ! 2) = IE_REQ_NONE" "ie_object (is_table ?sp ! 2) = 0x3000" "ie_next (is_table ?sp ! 0) \<noteq> 0"
    by (simp_all add: ex_defs upd_entry_def IE_BITS_TYPE_def IE_BITS_UREFS_def)
  have "two_moves_header 0x204 (ikm_header (ex_kmsg 0x1111 0x204 0x204))" by (simp add: two_moves_header_def ex_kmsg_def)
  then show ?thesis
    using ipc_kmsg_copyin_header_double_dealloc [OF inv l(3,1,2) e(1-4) ex_port_at(2)] e(5) by (simp add: ex_active)
qed

end
