(* ===== verification/Spec2Isabelle.thy ===== *)
theory Spec2Isabelle
  imports Call_Contracts Table_Contracts Queue_Refinement Kmsg_Contracts
begin

text \<open>
  Mach IPC of the XNU kernel (\<open>src/osfmk/ipc\<close>): the capability system and the message queues.

  \<^bold>\<open>The program.\<close> A task owns a space (\<open>ipc_space.c\<close>), a table of entries (\<open>ipc_entry.c\<close>) that is
  indexed by port names. An entry denotes a port or a port set and the rights the task has for
  it; \<open>ipc_right.c\<close> changes rights, \<open>ipc_object.c\<close> translates names and moves rights between a
  space and a message, \<open>ipc_port.c\<close> and \<open>ipc_pset.c\<close> keep the objects with their counters,
  \<open>ipc_hash.c\<close> finds the entry of a port for which a task already has send rights, and
  \<open>ipc_table.c\<close> computes the sizes to which tables grow. The system calls of \<open>mach_port.c\<close> check
  their arguments and call these routines. Every port has a message queue (\<open>ipc_mqueue.c\<close>), a
  ring of kernel messages (\<open>ipc_kmsg.c\<close>) with a limit, in which senders and receivers meet.

  \<^bold>\<open>Conventions.\<close> A routine is a function on explicit state with the name it has in C. \<open>None\<close> stands
  for a panic, an access through a bad pointer, or a loop that does not end, so that
  \<open>f x = Some y\<close> says that the routine returns; error codes are ordinary results. Machine
  integers are words of their width. Loops that are not structural are \<open>partial_function (option)\<close>
  or \<open>function\<close> with a termination proof; no fuel is used. Locks are left out: a routine that
  holds a lock throughout is one function, and the routines that drop their lock in the middle
  are split there (\<open>ipc_entry_grow_table\<close> in \<open>Ipc_Grow\<close>, the blocking operations of message
  queues in \<open>Mqueue_History\<close>). Assertions are left out, as in a release kernel. The configuration
  is the one without importance inheritance. What other subsystems decide is a parameter: whether
  an allocation succeeds (\<open>kalloc_ok\<close>), which address it returns (\<open>fresh\<close>), which threads a wait
  queue returns, how large a message is for its receiver (\<open>copyout_size\<close>).

  \<^bold>\<open>Theories and code.\<close>
  \<^item> \<open>Mach_Prelude\<close>: machine types, return codes, the failure monad, generic lemmas.
  \<^item> \<open>Port_Names\<close>: the macros for names, entry bits and rights of \<open>mach/port.h\<close>, \<open>ipc/port.h\<close>,
    \<open>ipc_entry.h\<close>, \<open>ipc_object.h\<close>.
  \<^item> \<open>Ipc_Table\<close>: \<open>struct ipc_entry\<close> and the size tables of \<open>ipc_table.c\<close>.
  \<^item> \<open>Ipc_Hash\<close>, \<open>Hash_Map\<close>: the reverse hash table of \<open>ipc_hash.c\<close>, and its interface, the locale
    \<open>reverse_map\<close>, interpreted on it.
  \<^item> \<open>Ipc_Space\<close>, \<open>Ipc_Entry\<close>, \<open>Ipc_Grow\<close>: spaces (\<open>ipc_space.c\<close>, \<open>ipc_space.h\<close>) and entries
    (\<open>ipc_entry.c\<close>). \<open>Ipc_Grow\<close> has the growth of a table as a machine whose steps interleave with
    those of other threads.
  \<^item> \<open>Ipc_Heap\<close>, \<open>Ipc_Port\<close>: ports, port sets, their store \<open>kern\<close> and the operations of
    \<open>ipc_port.c\<close>, \<open>ipc_pset.c\<close>, \<open>ipc_notify.c\<close>. Notifications, wakeups and reaped messages are events.
  \<^item> \<open>Ipc_Right\<close>, \<open>Ipc_Right_Copy\<close>, \<open>Ipc_Object\<close>: \<open>ipc_right.c\<close> and \<open>ipc_object.c\<close>.
  \<^item> \<open>Mach_Port\<close>: the system calls of \<open>mach_port.c\<close>.
  \<^item> \<open>Kmsg_Queue\<close>, \<open>Ipc_Mqueue\<close>: rings of messages (\<open>ipc_kmsg.h\<close>, \<open>ipc_kmsg.c\<close>) with their interface,
    the locale \<open>fifo\<close>, and the operations of \<open>ipc_mqueue.c\<close>.
  \<^item> \<open>Ipc_Kmsg\<close>: the port rights of messages (\<open>ipc_kmsg.c\<close>): copyin and copyout of the header with its
    voucher and of port descriptors, messages of the kernel, and the destruction of rights.

  \<^bold>\<open>Lemmas.\<close> The invariant of a space (\<open>space_wf\<close> in \<open>Ipc_Entry\<close>) says that its free list is a simple
  path through exactly the free slots and that the reverse table maps exactly the ports with send
  rights to their entries. \<open>Ipc_Ledger\<close> adds the objects: in \<open>cap_inv\<close> the counters of every port
  are what its entries and the \<open>holdings\<close> of others amount to. \<open>Right_Ledger\<close>, \<open>Right_Release\<close>,
  \<open>Copy_Ledger\<close>, \<open>Copyout_Ledger\<close>, \<open>Object_Ledger\<close>, \<open>Alloc_Ledger\<close> and \<open>Call_Ledger\<close> show for each layer that
  its routines return and keep the ledger, with the change of the holdings stated exactly.
  \<open>System_Calls\<close> puts them together: in whatever order a task makes its calls, the invariant
  holds and no call gets stuck. \<open>Table_Contracts\<close>, \<open>Right_Contracts\<close> and \<open>Call_Contracts\<close> state what the
  routines promise to their callers, \<open>Ipc_Example\<close> has the concrete space of the witnesses.

  \<open>Mqueue_Run\<close> says what the operations of a queue do to the list of messages that its ring
  holds, \<open>Mqueue_History\<close> lets senders and receivers use a queue in any order and shows that the
  invariant of queues holds throughout, and \<open>Mqueue_Contracts\<close> draws the conclusions: order of
  delivery, exact counts, no lost wakeups, draining and destruction. \<open>Queue_Refinement\<close> connects
  the queue of a port in the capability model, a list, with the ring. \<open>Kmsg_Contracts\<close> is about the
  rights that a message carries.

  \<^bold>\<open>Bounds.\<close> User references are 16 bits wide and checked by the code; reference and right counters
  of ports are 32 bits wide and not checked, which is why \<open>counters_room\<close> is a premise of the
  theorems about sequences of calls: no counter is about to wrap. The message count of a queue is 16 bits wide; raising
  the limit can wrap it, and a step of \<open>Mqueue_History\<close> that raises the limit has the premise that
  it does not.

  \<^bold>\<open>Not modelled.\<close> Wait queues and the scheduler (\<open>kern/waitq.c\<close>, \<open>kern/sched_prim.c\<close>), hence membership
  of port sets and receiving from a set, which are kept by wait queues. Memory
  and arrays of ports in the bodies of messages of tasks (\<open>ipc_kmsg.c\<close>), which are copied by the
  virtual memory system, and the traps of \<open>mach_msg.c\<close>, which wait for other threads. Importance inheritance and vouchers
  (\<open>ipc_importance.c\<close>, \<open>ipc_voucher.c\<close>), which are not part of the configuration. Traps and debugging
  calls (\<open>mach_kernelrpc.c\<close>, \<open>mach_debug.c\<close>), which only copy arguments. The rest of the kernel (virtual
  memory, the BSD layer, drivers, machine dependent code) does not take part in the capability
  system.
\<close>

end
